(* ===== verification/Prelude.thy ===== *)
theory Prelude
  imports Main "HOL-Library.Word" "HOL-Library.Multiset"
begin

unbundle bit_operations_syntax

text \<open>
  Shared vocabulary of the development: the machine integers of the Rust sources, byte strings,
  the three-way result of a Rust call (a value, an error, a panic), little-endian encodings,
  slices and chunks of byte strings, and power-of-two tests.  The collections declared here
  (\<open>res_simps\<close>, \<open>le_simps\<close>, \<open>slice_simps\<close>) carry the proofs of the component theories.
\<close>

named_theorems res_simps \<open>equations and equivalences of the result type\<close>
named_theorems le_simps \<open>round trips and lengths of little-endian encodings\<close>
named_theorems slice_simps \<open>slices of concatenated byte strings\<close>

section \<open>Machine types\<close>

text \<open>
  \<open>u8\<close>, \<open>u32\<close> and \<open>u64\<close> are words: \<open>+\<close>, \<open>*\<close> and the casts wrap as in a release build.
  \<open>usize\<close> counts (lengths of slices and vectors, indices) are naturals: the program runs on
  64-bit targets and no in-memory length reaches \<open>2 ^ 64\<close>.
\<close>

type_synonym u8 = "8 word"
type_synonym u32 = "32 word"
type_synonym u64 = "64 word"
type_synonym bytes = "8 word list"

definition U32_MAX :: nat where
  "U32_MAX = 2 ^ 32 - 1"

definition U64_MAX :: nat where
  "U64_MAX = 2 ^ 64 - 1"

section \<open>Results\<close>

text \<open>
  A Rust call returns \<open>Ok v\<close> or \<open>Err e\<close>, or panics (an index out of range, a failed
  \<open>assert!\<close>, an \<open>unwrap\<close> of \<open>None\<close>).  The operator \<open>?\<close> is \<open>rbind\<close>.
\<close>

datatype ('e, 'a) res = Ok 'a | Err 'e | Panic

fun rbind :: "('e, 'a) res \<Rightarrow> ('a \<Rightarrow> ('e, 'b) res) \<Rightarrow> ('e, 'b) res" where
  "rbind (Ok x) f = f x"
| "rbind (Err e) f = Err e"
| "rbind Panic f = Panic"

fun rmap :: "('a \<Rightarrow> 'b) \<Rightarrow> ('e, 'a) res \<Rightarrow> ('e, 'b) res" where
  "rmap f (Ok x) = Ok (f x)"
| "rmap f (Err e) = Err e"
| "rmap f Panic = Panic"

fun map_err :: "('e \<Rightarrow> 'f) \<Rightarrow> ('e, 'a) res \<Rightarrow> ('f, 'a) res" where
  "map_err f (Ok x) = Ok x"
| "map_err f (Err e) = Err (f e)"
| "map_err f Panic = Panic"

fun is_err :: "('e, 'a) res \<Rightarrow> bool" where
  "is_err (Ok x) = False"
| "is_err (Err e) = True"
| "is_err Panic = False"

fun ok_or :: "'e \<Rightarrow> 'a option \<Rightarrow> ('e, 'a) res" where
  "ok_or e None = Err e"
| "ok_or e (Some x) = Ok x"

text \<open>\<open>iter().map(f).collect::<Result<Vec<_>>>()\<close>: the first failure wins.\<close>

fun mapR :: "('a \<Rightarrow> ('e, 'b) res) \<Rightarrow> 'a list \<Rightarrow> ('e, 'b list) res" where
  "mapR f [] = Ok []"
| "mapR f (x # xs) = rbind (f x) (\<lambda>y. rmap (\<lambda>ys. y # ys) (mapR f xs))"

text \<open>A \<open>for\<close> loop over a vector whose body may fail.\<close>

fun foldR :: "('a \<Rightarrow> 's \<Rightarrow> ('e, 's) res) \<Rightarrow> 'a list \<Rightarrow> 's \<Rightarrow> ('e, 's) res" where
  "foldR f [] s = Ok s"
| "foldR f (x # xs) s = rbind (f x s) (foldR f xs)"

lemma rbind_cong [fundef_cong]:
  "m = m' \<Longrightarrow> (\<And>x. m' = Ok x \<Longrightarrow> f x = g x) \<Longrightarrow> rbind m f = rbind m' g"
  by (cases m') auto

lemma rbind_Ok_iff [res_simps]: "rbind m f = Ok y \<longleftrightarrow> (\<exists>x. m = Ok x \<and> f x = Ok y)"
  by (cases m) auto

lemma rbind_Err_iff [res_simps]:
  "rbind m f = Err e \<longleftrightarrow> m = Err e \<or> (\<exists>x. m = Ok x \<and> f x = Err e)"
  by (cases m) auto

lemma rmap_Ok_iff [res_simps]: "rmap f m = Ok y \<longleftrightarrow> (\<exists>x. m = Ok x \<and> y = f x)"
  by (cases m) auto

lemma rmap_Err_iff [res_simps]: "rmap f m = Err e \<longleftrightarrow> m = Err e"
  by (cases m) auto

lemma map_err_Ok_iff [res_simps]: "map_err f m = Ok y \<longleftrightarrow> m = Ok y"
  by (cases m) auto

lemma ok_or_Ok_iff [res_simps]: "ok_or e m = Ok y \<longleftrightarrow> m = Some y"
  by (cases m) auto

lemma rbind_assoc: "rbind (rbind m f) g = rbind m (\<lambda>x. rbind (f x) g)"
  by (cases m) auto

lemma rbind_right_Ok [simp]: "rbind m Ok = m"
  by (cases m) auto

lemma foldR_append: "foldR f (xs @ ys) s = rbind (foldR f xs s) (foldR f ys)"
proof (induction xs arbitrary: s)
  case Nil
  then show ?case by simp
next
  case (Cons x xs)
  have "foldR f (xs @ ys) = (\<lambda>s. rbind (foldR f xs s) (foldR f ys))"
    by (rule ext) (rule Cons.IH)
  then show ?case by (simp add: rbind_assoc)
qed

lemma mapR_Ok_map: "(\<And>x. x \<in> set xs \<Longrightarrow> f x = Ok (g x)) \<Longrightarrow> mapR f xs = Ok (map g xs)"
  by (induction xs) auto

lemma mapR_Ok_iff [res_simps]: "mapR f xs = Ok ys \<longleftrightarrow> list_all2 (\<lambda>x y. f x = Ok y) xs ys"
  by (induction xs arbitrary: ys) (auto simp: res_simps list_all2_Cons1)

lemma list_all2_left: "list_all2 P xs ys \<Longrightarrow> x \<in> set xs \<Longrightarrow> \<exists>y \<in> set ys. P x y"
  by (induction rule: list_all2_induct) auto

lemma list_all2_right: "list_all2 P xs ys \<Longrightarrow> y \<in> set ys \<Longrightarrow> \<exists>x \<in> set xs. P x y"
  by (induction rule: list_all2_induct) auto

text \<open>An invariant of a fallible loop.\<close>

lemma foldR_invariant:
  assumes "foldR f xs s = Ok t" and "P s"
    and "\<And>x s s'. x \<in> set xs \<Longrightarrow> P s \<Longrightarrow> f x s = Ok s' \<Longrightarrow> P s'"
  shows "P t"
  using assms by (induction xs arbitrary: s) (auto simp: res_simps)

text \<open>
  A call that may also not return: \<open>None\<close> stands for divergence, and a sequence diverges as soon
  as one of its calls does.
\<close>

fun tbind :: "('e, 'a) res option \<Rightarrow> ('a \<Rightarrow> ('e, 'b) res option) \<Rightarrow> ('e, 'b) res option" where
  "tbind None f = None"
| "tbind (Some (Ok x)) f = f x"
| "tbind (Some (Err e)) f = Some (Err e)"
| "tbind (Some Panic) f = Some Panic"

fun mapT :: "('a \<Rightarrow> ('e, 'b) res option) \<Rightarrow> 'a list \<Rightarrow> ('e, 'b list) res option" where
  "mapT f [] = Some (Ok [])"
| "mapT f (x # xs) = tbind (f x) (\<lambda>y. tbind (mapT f xs) (\<lambda>ys. Some (Ok (y # ys))))"

lemma tbind_Ok_iff [res_simps]:
  "tbind m f = Some (Ok y) \<longleftrightarrow> (\<exists>x. m = Some (Ok x) \<and> f x = Some (Ok y))"
  by (cases "(m, f)" rule: tbind.cases) auto

lemma mapT_Ok_iff [res_simps]:
  "mapT f xs = Some (Ok ys) \<longleftrightarrow> list_all2 (\<lambda>x y. f x = Some (Ok y)) xs ys"
  by (induction xs arbitrary: ys) (auto simp: res_simps list_all2_Cons1)

lemma mapT_total: "(\<And>x. x \<in> set xs \<Longrightarrow> \<exists>y. f x = Some (Ok y)) \<Longrightarrow> \<exists>ys. mapT f xs = Some (Ok ys)"
proof (induction xs)
  case Nil
  then show ?case by simp
next
  case (Cons x xs)
  obtain y where y: "f x = Some (Ok y)" using Cons.prems by force
  obtain ys where "mapT f xs = Some (Ok ys)" using Cons by force
  with y show ?case by simp
qed

section \<open>Slices\<close>

text \<open>\<open>bslice i n xs\<close> is the Rust slice \<open>xs[i..i + n]\<close>; the callers check the bounds.\<close>

definition bslice :: "nat \<Rightarrow> nat \<Rightarrow> 'a list \<Rightarrow> 'a list" where
  "bslice i n xs = take n (drop i xs)"

lemma length_bslice [simp]: "length (bslice i n xs) = min n (length xs - i)"
  by (simp add: bslice_def)

lemma bslice_0_prefix [slice_simps]: "n = length xs \<Longrightarrow> bslice 0 n (xs @ ys) = xs"
  by (simp add: bslice_def)

lemma bslice_append_skip [slice_simps]:
  "length xs \<le> i \<Longrightarrow> bslice i n (xs @ ys) = bslice (i - length xs) n ys"
  by (simp add: bslice_def)

lemma bslice_middle [slice_simps]:
  "i = length xs \<Longrightarrow> n = length ys \<Longrightarrow> bslice i n (xs @ ys @ zs) = ys"
  by (simp add: bslice_def)

lemma bslice_last [slice_simps]: "i = length xs \<Longrightarrow> n = length ys \<Longrightarrow> bslice i n (xs @ ys) = ys"
  by (simp add: bslice_def)

lemma bslice_all [slice_simps]: "n = length xs \<Longrightarrow> bslice 0 n xs = xs"
  by (simp add: bslice_def)

lemma bslice_append_left:
  "i + n \<le> length xs \<Longrightarrow> bslice i n (xs @ ys) = bslice i n xs"
  by (simp add: bslice_def)

lemma bslice_take: "i + n \<le> s \<Longrightarrow> bslice i n (take s xs) = bslice i n xs"
  by (simp add: bslice_def drop_take take_take min_def)

lemma bslice_slice: "j + m \<le> n \<Longrightarrow> bslice j m (bslice i n xs) = bslice (i + j) m xs"
  by (simp add: bslice_def drop_take take_take min_def add.commute)

lemma bslice_nth: "i + k < length xs \<Longrightarrow> k < n \<Longrightarrow> bslice i n xs ! k = xs ! (i + k)"
  by (simp add: bslice_def)

lemma bslice_split: "bslice i (m + n) xs = bslice i m xs @ bslice (i + m) n xs"
  by (simp add: bslice_def take_add add.commute)

section \<open>Little-endian encodings\<close>

primrec le_of_nat :: "nat \<Rightarrow> nat \<Rightarrow> bytes" where
  "le_of_nat 0 x = []"
| "le_of_nat (Suc n) x = word_of_nat (x mod 256) # le_of_nat n (x div 256)"

primrec nat_of_le :: "bytes \<Rightarrow> nat" where
  "nat_of_le [] = 0"
| "nat_of_le (b # bs) = unat b + 256 * nat_of_le bs"

text \<open>\<open>u32::to_le_bytes\<close>, \<open>u32::from_le_bytes\<close> and the 64-bit versions.\<close>

definition u32_le :: "u32 \<Rightarrow> bytes" where
  "u32_le x = le_of_nat 4 (unat x)"

definition u32_of_le :: "bytes \<Rightarrow> u32" where
  "u32_of_le bs = word_of_nat (nat_of_le bs)"

definition u64_le :: "u64 \<Rightarrow> bytes" where
  "u64_le x = le_of_nat 8 (unat x)"

definition u64_of_le :: "bytes \<Rightarrow> u64" where
  "u64_of_le bs = word_of_nat (nat_of_le bs)"

lemma length_le_of_nat [simp, le_simps]: "length (le_of_nat n x) = n"
  by (induction n arbitrary: x) auto

lemma unat_byte: "unat (word_of_nat (x mod 256) :: u8) = x mod 256"
  by (simp add: unat_of_nat)

lemma nat_of_le_of_nat [le_simps]: "nat_of_le (le_of_nat n x) = x mod 256 ^ n"
proof (induction n arbitrary: x)
  case 0
  then show ?case by simp
next
  case (Suc n)
  have "x mod 256 ^ Suc n = 256 * (x div 256 mod 256 ^ n) + x mod 256"
    by (simp add: mod_mult2_eq)
  with Suc show ?case by (simp add: unat_byte)
qed

lemma nat_of_le_bound: "nat_of_le bs < 256 ^ length bs"
proof (induction bs)
  case Nil
  then show ?case by simp
next
  case (Cons b bs)
  have "unat b < 256"
    using unsigned_less [of b] by simp
  with Cons show ?case by simp
qed

lemma length_u32_le [simp, le_simps]: "length (u32_le x) = 4"
  by (simp add: u32_le_def)

lemma length_u64_le [simp, le_simps]: "length (u64_le x) = 8"
  by (simp add: u64_le_def)

lemma u32_of_le_le [simp, le_simps]: "u32_of_le (u32_le x) = x"
proof -
  have "unat x < 256 ^ 4"
    using unsigned_less [of x] by simp
  then show ?thesis
    by (simp add: u32_of_le_def u32_le_def nat_of_le_of_nat)
qed

lemma u64_of_le_le [simp, le_simps]: "u64_of_le (u64_le x) = x"
proof -
  have "unat x < 256 ^ 8"
    using unsigned_less [of x] by simp
  then show ?thesis
    by (simp add: u64_of_le_def u64_le_def nat_of_le_of_nat)
qed

section \<open>Fixed-width codecs\<close>

text \<open>
  \<open>chunks w n bs\<close> cuts the first \<open>n\<close> pieces of \<open>w\<close> bytes: \<open>bytemuck::cast_slice\<close> and the
  record loops of the file readers.
\<close>

primrec chunks :: "nat \<Rightarrow> nat \<Rightarrow> bytes \<Rightarrow> bytes list" where
  "chunks w 0 bs = []"
| "chunks w (Suc n) bs = take w bs # chunks w n (drop w bs)"

lemma length_chunks [simp]: "length (chunks w n bs) = n"
  by (induction n arbitrary: bs) auto

text \<open>
  The interface of a fixed-width encoding: every value takes \<open>w\<close> bytes and decoding inverts
  encoding.  A file made of such records is an array: any record is read at \<open>i * w\<close>.
\<close>

locale fixed_codec =
  fixes enc :: "'a \<Rightarrow> bytes" and dec :: "bytes \<Rightarrow> 'a" and w :: nat
  assumes length_enc: "length (enc x) = w"
    and dec_enc: "dec (enc x) = x"
begin

lemma length_concat_enc: "length (concat (map enc xs)) = w * length xs"
  by (induction xs) (simp_all add: length_enc)

lemma decode_chunks: "map dec (chunks w (length xs) (concat (map enc xs) @ rest)) = xs"
proof (induction xs)
  case Nil
  then show ?case by simp
next
  case (Cons x xs)
  have "take w (enc x @ concat (map enc xs) @ rest) = enc x"
    and "drop w (enc x @ concat (map enc xs) @ rest) = concat (map enc xs) @ rest"
    by (simp_all add: length_enc)
  with Cons show ?case by (simp add: dec_enc)
qed

lemma record_at:
  assumes "i < length xs"
  shows "dec (bslice (i * w) w (concat (map enc xs) @ rest)) = xs ! i"
proof -
  have split: "concat (map enc xs) =
      concat (map enc (take i xs)) @ enc (xs ! i) @ concat (map enc (drop (Suc i) xs))"
    using id_take_nth_drop [OF assms]
    by (metis concat.simps(2) concat_append list.simps(9) map_append)
  have "length (concat (map enc (take i xs))) = i * w"
    using assms by (simp add: length_concat_enc)
  then have "bslice (i * w) w (concat (map enc xs) @ rest) = enc (xs ! i)"
    by (simp add: split bslice_middle length_enc)
  then show ?thesis by (simp add: dec_enc)
qed

end

interpretation u32_codec: fixed_codec u32_le u32_of_le 4
  by unfold_locales simp_all

interpretation u64_codec: fixed_codec u64_le u64_of_le 8
  by unfold_locales simp_all

section \<open>Ranges and casts\<close>

lemma unat_u8_le: "unat (x :: u8) \<le> 255"
  using unsigned_less [where 'a = nat, of x] by simp

lemma unat_u32_less: "unat (x :: u32) < 2 ^ 32"
  using unsigned_less [where 'a = nat, of x] by simp

lemma unat_u64_less: "unat (x :: u64) < 2 ^ 64"
  using unsigned_less [where 'a = nat, of x] by simp

lemma unat_Suc_u8:
  assumes "(x :: u8) \<noteq> - 1"
  shows "unat (x + 1) = unat x + 1"
proof -
  have "unat (- 1 :: u8) = 255"
    by (simp add: unsigned_minus_1_eq_mask mask_eq_exp_minus_1)
  with assms have "unat x \<noteq> 255"
    by (metis word_unat_eq_iff)
  with unat_u8_le [of x] have "unat x < 255" by simp
  then show ?thesis by (simp add: unat_word_ariths)
qed

text \<open>Widening keeps the value, narrowing takes the remainder.\<close>

lemma unat_ucast_up:
  assumes "LENGTH('a) \<le> LENGTH('b)"
  shows "unat (ucast (x :: 'a::len word) :: 'b::len word) = unat x"
proof -
  have "unat x < 2 ^ LENGTH('b)"
    using unsigned_less [of x] assms by (meson order_less_le_trans power_increasing one_le_numeral)
  then show ?thesis
    by (simp add: unsigned_ucast_eq take_bit_nat_eq_self)
qed

lemma unat_word_of_nat_less:
  "n < 2 ^ LENGTH('a) \<Longrightarrow> unat (word_of_nat n :: 'a::len word) = n"
  by (simp add: unat_of_nat)

lemma unat_eq_of_nat: "w = (word_of_nat n :: 'a::len word) \<Longrightarrow> n < 2 ^ LENGTH('a) \<Longrightarrow> unat w = n"
  by (simp add: unat_word_of_nat_less)

lemma ceil_mult_ge:
  assumes "0 < m"
  shows "x \<le> (x + m - 1) div m * (m :: nat)"
proof -
  have "(x + m - 1) div m * m + (x + m - 1) mod m = x + m - 1"
    by (rule div_mult_mod_eq)
  moreover have "(x + m - 1) mod m < m" using assms by simp
  ultimately show ?thesis using assms by linarith
qed

section \<open>Powers of two\<close>

text \<open>\<open>count_ones\<close> and \<open>is_power_of_two\<close> as the standard library defines them.\<close>

definition count_ones :: "'a::len word \<Rightarrow> nat" where
  "count_ones x = length (filter (bit x) [0..<LENGTH('a)])"

definition is_power_of_two :: "'a::len word \<Rightarrow> bool" where
  "is_power_of_two x \<longleftrightarrow> count_ones x = 1"

lemma is_power_of_two_iff: "is_power_of_two (x :: 'a::len word) \<longleftrightarrow> (\<exists>k < LENGTH('a). x = 2 ^ k)"
proof -
  have "length (filter (bit x) [0..<LENGTH('a)]) = card {i. i < LENGTH('a) \<and> bit x i}"
    by (subst distinct_card [symmetric]) (auto intro: arg_cong [where f = card])
  also have "\<dots> = 1 \<longleftrightarrow> (\<exists>k. {i. i < LENGTH('a) \<and> bit x i} = {k})"
    by (simp add: card_1_singleton_iff)
  also have "\<dots> \<longleftrightarrow> (\<exists>k < LENGTH('a). x = 2 ^ k)"
  proof
    assume "\<exists>k. {i. i < LENGTH('a) \<and> bit x i} = {k}"
    then obtain k where k: "{i. i < LENGTH('a) \<and> bit x i} = {k}" by blast
    then have "k < LENGTH('a)" by blast
    moreover have "x = 2 ^ k"
    proof (rule bit_eqI)
      fix n
      show "bit x n \<longleftrightarrow> bit (2 ^ k :: 'a word) n"
        using k by (auto simp: bit_exp_iff dest: bit_imp_le_length)
    qed
    ultimately show "\<exists>k < LENGTH('a). x = 2 ^ k" by blast
  next
    assume "\<exists>k < LENGTH('a). x = 2 ^ k"
    then obtain k where "k < LENGTH('a)" "x = 2 ^ k" by blast
    then have "{i. i < LENGTH('a) \<and> bit x i} = {k}"
      by (auto simp: bit_exp_iff)
    then show "\<exists>k. {i. i < LENGTH('a) \<and> bit x i} = {k}" by blast
  qed
  finally show ?thesis
    by (simp add: is_power_of_two_def count_ones_def)
qed

lemma unat_pow2: "k < LENGTH('a) \<Longrightarrow> unat (2 ^ k :: 'a::len word) = 2 ^ k"
  using unat_of_nat [where 'a = 'a, of "2 ^ k"] by simp

lemma is_power_of_two_unat:
  "is_power_of_two (x :: 'a::len word) \<Longrightarrow> \<exists>k < LENGTH('a). unat x = 2 ^ k"
  by (auto simp: is_power_of_two_iff unat_pow2)

text \<open>The mask of a power of two is a remainder: \<open>x & (2^k - 1)\<close>.\<close>

lemma unat_and_pow2_minus_1:
  assumes "k < LENGTH('a)"
  shows "unat ((x :: 'a::len word) AND (2 ^ k - 1)) = unat x mod 2 ^ k"
proof -
  have "x AND (2 ^ k - 1) = take_bit k x"
    by (simp add: take_bit_eq_mask mask_eq_exp_minus_1)
  then have "unat (x AND (2 ^ k - 1)) = unat (take_bit k x)"
    by (simp only:)
  also have "\<dots> = take_bit k (unat x)"
    by (rule unsigned_take_bit_eq)
  finally show ?thesis
    by (simp only: take_bit_eq_mod)
qed

section \<open>Decimal digits\<close>

text \<open>\<open>usize::to_string\<close> and the integer formats: the decimal digits, most significant first.\<close>

fun digits :: "nat \<Rightarrow> nat list" where
  "digits n = (if n < 10 then [n] else digits (n div 10) @ [n mod 10])"

declare digits.simps [simp del]

definition undigits :: "nat list \<Rightarrow> nat" where
  "undigits ds = foldl (\<lambda>a d. 10 * a + d) 0 ds"

definition show_nat :: "nat \<Rightarrow> string" where
  "show_nat n = map (\<lambda>d. char_of (48 + d)) (digits n)"

lemma undigits_snoc [simp]: "undigits (ds @ [d]) = 10 * undigits ds + d"
  by (simp add: undigits_def)

lemma undigits_digits [simp]: "undigits (digits n) = n"
proof (induction n rule: digits.induct)
  case (1 n)
  then show ?case
    by (cases "n < 10") (simp_all add: digits.simps [of n] undigits_def)
qed

lemma undigits_pad [simp]: "undigits (replicate k 0 @ ds) = undigits ds"
  by (induction k) (simp_all add: undigits_def)

lemma digits_lt_10: "d \<in> set (digits n) \<Longrightarrow> d < 10"
proof (induction n rule: digits.induct)
  case (1 n)
  then show ?case
    by (cases "n < 10") (auto simp: digits.simps [of n])
qed

lemma digits_not_Nil [simp]: "digits n \<noteq> []"
  by (simp add: digits.simps [of n])

lemma digit_char_inject:
  "d < (10::nat) \<Longrightarrow> e < 10 \<Longrightarrow> (char_of (48 + d) :: char) = char_of (48 + e) \<longleftrightarrow> d = e"
  by (simp add: char_of_eq_iff take_bit_eq_mod)

lemma map_digit_char_inject:
  assumes "map (\<lambda>d. char_of (48 + d) :: char) ds = map (\<lambda>d. char_of (48 + d)) es"
    and "\<forall>d \<in> set ds. d < (10::nat)" and "\<forall>d \<in> set es. d < 10"
  shows "ds = es"
  using assms
proof (induction ds arbitrary: es)
  case Nil
  then show ?case by simp
next
  case (Cons d ds)
  then obtain e es' where es: "es = e # es'" by (cases es) auto
  with Cons.prems have "d = e" by (simp add: digit_char_inject)
  with Cons es show ?case by simp
qed

end
