(* ===== verification/Format_Error.thy ===== *)
theory Format_Error
  imports Prelude
begin

text \<open>
  The error type of the format crate (\<open>mcfreeze-format/src/error.rs\<close>) with the source's
  variants.  An \<open>std::io::Error\<close> is its kind and message; a \<open>serde_json::Error\<close> carries no
  information any code inspects.
\<close>

datatype io_kind =
    NotFound
  | UnexpectedEof
  | InvalidData
  | InvalidInput
  | Unsupported
  | OtherKind

datatype io_error = IoError io_kind string

datatype error =
    InvalidPartitionCount u32
  | OffsetOverflow u64
  | PslOverflow u8 nat nat
  | DuplicateFingerprints nat nat
  | RecordTooLarge nat nat
  | ValueTooLarge u64 u32
  | AssemblerPoisoned
  | InvalidBlockSize u32
  | InvalidBlockCount u64
  | ValueChecksumMismatch
  | CompressedValueWithoutCodec
  | CorruptFrame string
  | FrameContentTooLarge u64 u32
  | Decompress io_error
  | DictChecksumMismatch u32 u32
  | DictTrain io_error
  | DictMissing u32 io_error
  | Zstd io_error
  | UnsupportedCodec string
  | InvalidCompressionMeta string
  | DictUnreadable io_error
  | SketchBuild string
  | CorruptSketch string
  | SketchChecksumMismatch u32 u32
  | UnsupportedSketchKind string
  | InvalidSketchMeta string
  | SnapshotFileSize nat string u64 u64
  | SnapshotFileRead nat string io_error
  | BlockChecksumMismatch
  | CorruptBlock string
  | UnsupportedHashAlgorithm string
  | UnsupportedFormatVersion u32
  | UnknownFormat string string
  | FinalizeBeforeBuild
  | Io io_error
  | Json

type_synonym 'a fres = "(error, 'a) res"

end
