(* ===== verification/Format_Meta.thy ===== *)
theory Format_Meta
  imports Format_Error
begin

text \<open>
  \<open>mcfreeze-format/src/meta.rs\<close>: format constants, the partition layout and routing, the
  directory helpers and the V4 \<open>meta.json\<close> payload with its validation.
\<close>

section \<open>Constants\<close>

definition FORMAT_VERSION_V4 :: u32 where
  "FORMAT_VERSION_V4 = 4"

definition DEFAULT_VERIFY_SEED :: u64 where
  "DEFAULT_VERIFY_SEED = 0x517cc1b727220a95"

definition HASH_ALGORITHM :: string where
  "HASH_ALGORITHM = ''xxhash64''"

definition VALUE_ALIGNMENT :: nat where
  "VALUE_ALIGNMENT = 64"

definition INDEX_ALIGNMENT :: nat where
  "INDEX_ALIGNMENT = 2 * 1024 * 1024"

definition VALUE_HEADER_SIZE :: nat where
  "VALUE_HEADER_SIZE = 12"

section \<open>Layout\<close>

record Layout =
  n_partitions :: u32
  partition_mask :: u64

definition Layout_new :: "u32 \<Rightarrow> Layout fres" where
  "Layout_new n =
     (if n = 0 \<or> \<not> is_power_of_two n then Err (InvalidPartitionCount n)
      else Ok \<lparr>n_partitions = n, partition_mask = ucast n - 1\<rparr>)"

definition partition_of :: "Layout \<Rightarrow> u64 \<Rightarrow> nat" where
  "partition_of l fp = unat (fp AND partition_mask l)"

section \<open>Directory helpers\<close>

text \<open>A path is the list of its components below the file-system root.\<close>

type_synonym path = "string list"

definition path_join :: "path \<Rightarrow> string \<Rightarrow> path" where
  "path_join p s = p @ [s]"

definition data_dir :: "path \<Rightarrow> path" where
  "data_dir root = path_join root ''data''"

definition index_path :: "path \<Rightarrow> path" where
  "index_path root = path_join root ''index.all''"

definition pad_zero :: "nat \<Rightarrow> nat \<Rightarrow> string" where
  "pad_zero width i =
     map (\<lambda>d. char_of (48 + d)) (replicate (width - length (digits i)) 0 @ digits i)"

definition partition_dir :: "path \<Rightarrow> u32 \<Rightarrow> nat \<Rightarrow> path" where
  "partition_dir root n i =
     (let width = length (show_nat (unat (n - 1)))
      in path_join (data_dir root) (''part-'' @ pad_zero width i))"

section \<open>Meta\<close>

text \<open>\<open>serde_json::Value\<close>; numbers keep their literal.\<close>

datatype json =
    JNull
  | JBool bool
  | JNumber string
  | JString string
  | JArray "json list"
  | JObject "(string \<times> json) list"

record PartitionMeta =
  index_offset :: u64
  index_n_buckets :: u64

record Stats =
  st_n_keys :: u64
  st_created_at :: string
  st_scatter :: "json option"
  st_index :: "json option"

record Meta =
  format_version :: u32
  hash_algorithm :: string
  verify_seed :: u64
  partitions :: "PartitionMeta list"
  stats :: "Stats option"
  encoding :: "json option"

definition Meta_layout :: "Meta \<Rightarrow> Layout fres" where
  "Meta_layout m =
     (if hash_algorithm m \<noteq> HASH_ALGORITHM then Err (UnsupportedHashAlgorithm (hash_algorithm m))
      else Layout_new (word_of_nat (length (partitions m))))"

section \<open>Lemmas\<close>

lemma Layout_new_Ok_iff:
  "Layout_new n = Ok l \<longleftrightarrow>
     is_power_of_two n \<and> l = \<lparr>n_partitions = n, partition_mask = ucast n - 1\<rparr>"
proof -
  have "is_power_of_two n \<Longrightarrow> n \<noteq> 0"
    by (auto simp: is_power_of_two_def count_ones_def)
  then show ?thesis by (auto simp: Layout_new_def)
qed

lemma partition_of_mod:
  assumes "Layout_new n = Ok l"
  shows "partition_of l fp = unat fp mod unat n"
proof -
  from assms obtain k where k: "k < 32" "n = 2 ^ k"
    and l: "partition_mask l = ucast n - 1"
    by (auto simp: Layout_new_Ok_iff is_power_of_two_iff)
  have n: "unat n = 2 ^ k"
    using k by (simp add: unat_pow2)
  have "ucast n = (2 ^ k :: u64)"
    using k n by (simp add: word_unat_eq_iff unat_ucast_up unat_pow2)
  with l have "partition_of l fp = unat (fp AND (2 ^ k - 1))"
    by (simp add: partition_of_def)
  also have "\<dots> = unat fp mod 2 ^ k"
    using k by (intro unat_and_pow2_minus_1) simp
  finally show ?thesis by (simp add: n)
qed

lemma Layout_new_pos: "Layout_new n = Ok l \<Longrightarrow> 0 < unat n"
  by (auto simp: Layout_new_Ok_iff is_power_of_two_def count_ones_def unat_gt_0)

lemma partition_of_bound: "Layout_new n = Ok l \<Longrightarrow> partition_of l fp < unat n"
  by (simp add: partition_of_mod Layout_new_pos)

lemma pad_zero_inject: "pad_zero w i = pad_zero w j \<longleftrightarrow> i = j"
proof
  assume eq: "pad_zero w i = pad_zero w j"
  have "replicate (w - length (digits i)) 0 @ digits i = replicate (w - length (digits j)) 0 @ digits j"
    by (rule map_digit_char_inject [OF eq [unfolded pad_zero_def]]) (auto dest: digits_lt_10)
  then have "undigits (replicate (w - length (digits i)) 0 @ digits i) =
      undigits (replicate (w - length (digits j)) 0 @ digits j)"
    by (rule arg_cong)
  then show "i = j" by simp
qed simp

lemma partition_dir_inject: "partition_dir root n i = partition_dir root n j \<longleftrightarrow> i = j"
  by (simp add: partition_dir_def path_join_def pad_zero_inject Let_def)

end
