(* ===== verification/V4_Index.thy ===== *)
theory V4_Index
  imports Format_Meta
begin

text \<open>
  \<open>mcfreeze-format/src/v4/index.rs\<close>: fingerprints, 8-byte buckets, Robin Hood insertion with
  its bounded probe length, the retry loop that grows the table, the group probe in its scalar,
  AVX2 and NEON forms, the unified index file and the value alignment.

  \<open>xxhash_rust\<close> is a third-party crate: its \<open>xxh64\<close> is the parameter \<open>xxh64\<close> of every
  definition that hashes.  Robin Hood insertion terminates for every table (the loop is a total
  function); the retry loop of \<open>build\<close> need not, so it is a \<open>partial_function\<close> whose value
  \<open>None\<close> is "does not return".
\<close>

section \<open>Fingerprints\<close>

type_synonym hash = "bytes \<Rightarrow> u64 \<Rightarrow> u64"

definition fingerprint :: "hash \<Rightarrow> bytes \<Rightarrow> u64" where
  "fingerprint xxh64 key = (let h = xxh64 key 0 in if h = 0 then 1 else h)"

definition compact_fingerprint :: "u64 \<Rightarrow> u32" where
  "compact_fingerprint fp = (let t = ucast (drop_bit 32 fp) :: u32 in if t = 0 then 1 else t)"

definition verify_fingerprint :: "hash \<Rightarrow> bytes \<Rightarrow> u64 \<Rightarrow> u64" where
  "verify_fingerprint xxh64 key seed = xxh64 key seed"

section \<open>Buckets\<close>

definition MAX_OFFSET :: u32 where
  "MAX_OFFSET = - 1 - 1"

definition MAX_PSL :: u8 where
  "MAX_PSL = - 1"

record Bucket =
  bk_fingerprint :: u32
  bk_offset :: u32

definition Bucket_default :: Bucket where
  "Bucket_default = \<lparr>bk_fingerprint = 0, bk_offset = 0\<rparr>"

definition Bucket_new :: "u32 \<Rightarrow> u64 \<Rightarrow> Bucket fres" where
  "Bucket_new fp aligned_offset =
     (if aligned_offset > ucast MAX_OFFSET then Err (OffsetOverflow aligned_offset)
      else Ok \<lparr>bk_fingerprint = fp, bk_offset = ucast aligned_offset\<rparr>)"

definition bucket_is_empty :: "Bucket \<Rightarrow> bool" where
  "bucket_is_empty b \<longleftrightarrow> bk_fingerprint b = 0"

definition bucket_byte_offset :: "Bucket \<Rightarrow> u64" where
  "bucket_byte_offset b = ucast (bk_offset b) * word_of_nat VALUE_ALIGNMENT"

text \<open>\<open>#[repr(C)]\<close> on a little-endian target: what \<open>bytemuck\<close> reads and writes.\<close>

definition bucket_bytes :: "Bucket \<Rightarrow> bytes" where
  "bucket_bytes b = u32_le (bk_fingerprint b) @ u32_le (bk_offset b)"

definition bucket_of_bytes :: "bytes \<Rightarrow> Bucket" where
  "bucket_of_bytes bs =
     \<lparr>bk_fingerprint = u32_of_le (bslice 0 4 bs), bk_offset = u32_of_le (bslice 4 4 bs)\<rparr>"

section \<open>Robin Hood insertion\<close>

definition n_occupied :: "Bucket list \<Rightarrow> nat" where
  "n_occupied table = length (filter (\<lambda>b. \<not> bucket_is_empty b) table)"

lemma sum_list_update_less:
  fixes f :: "'a \<Rightarrow> nat"
  assumes "i < length xs" and "f y < f (xs ! i)"
  shows "sum_list (map f (xs[i := y])) < sum_list (map f xs)"
proof -
  have "xs = take i xs @ xs ! i # drop (Suc i) xs"
    using assms(1) by (rule id_take_nth_drop)
  then have "sum_list (map f xs) =
      sum_list (map f (take i xs)) + f (xs ! i) + sum_list (map f (drop (Suc i) xs))"
    by (metis add.assoc list.simps(9) map_append sum_list.Cons sum_list_append)
  moreover have "sum_list (map f (xs[i := y])) =
      sum_list (map f (take i xs)) + f y + sum_list (map f (drop (Suc i) xs))"
    using assms(1) by (simp add: upd_conv_take_nth_drop)
  ultimately show ?thesis using assms(2) by simp
qed

function insert_loop ::
    "Bucket list \<Rightarrow> u8 list \<Rightarrow> nat \<Rightarrow> u8 \<Rightarrow> u32 \<Rightarrow> u32 \<Rightarrow> (Bucket list \<times> u8 list) fres" where
  "insert_loop table psls pos psl cur_fp cur_off =
     (if \<not> (pos < length table \<and> pos < length psls) then Panic
      else if bucket_is_empty (table ! pos) then
        Ok (table[pos := \<lparr>bk_fingerprint = cur_fp, bk_offset = cur_off\<rparr>], psls[pos := psl])
      else if psls ! pos < psl then
        (let evicted_psl = psls ! pos;
             evicted_fp = bk_fingerprint (table ! pos);
             evicted_off = bk_offset (table ! pos);
             table' = table[pos := \<lparr>bk_fingerprint = cur_fp, bk_offset = cur_off\<rparr>];
             psls' = psls[pos := psl]
         in if evicted_psl = MAX_PSL
            then Err (PslOverflow evicted_psl (n_occupied table') (length table))
            else insert_loop table' psls' ((pos + 1) mod length table) (evicted_psl + 1)
                   evicted_fp evicted_off)
      else if psl = MAX_PSL
           then Err (PslOverflow psl (n_occupied table) (length table))
           else insert_loop table psls ((pos + 1) mod length table) (psl + 1) cur_fp cur_off)"
  by pat_completeness auto
termination
proof (relation "measures [\<lambda>(table, psls, pos, psl, cur_fp, cur_off).
      sum_list (map (\<lambda>p. 255 - unat p) psls),
    \<lambda>(table, psls, pos, psl, cur_fp, cur_off). 255 - unat psl]", goal_cases)
  case 1
  then show ?case by simp
next
  case (2 table psls pos psl cur_fp cur_off)
  have "unat (psls ! pos) < unat psl"
    using 2 by (simp add: word_less_nat_alt)
  moreover have "unat psl \<le> 255"
    by (rule unat_u8_le)
  ultimately have "255 - unat psl < 255 - unat (psls ! pos)" by simp
  then have "sum_list (map (\<lambda>p. 255 - unat p) (psls[pos := psl]))
      < sum_list (map (\<lambda>p. 255 - unat p) psls)"
    using 2 by (intro sum_list_update_less) simp_all
  with 2 show ?case by simp
next
  case (3 table psls pos psl cur_fp cur_off)
  then have "psl \<noteq> - 1" by (simp add: MAX_PSL_def)
  then have "unat (psl + 1) = unat psl + 1"
    by (rule unat_Suc_u8)
  moreover have "unat (psl + 1) \<le> 255"
    by (rule unat_u8_le)
  ultimately show ?case by simp
qed

declare insert_loop.simps [simp del]

definition insert_v4 :: "Bucket list \<Rightarrow> u8 list \<Rightarrow> Bucket \<Rightarrow> (Bucket list \<times> u8 list) fres" where
  "insert_v4 table psls entry =
     (let n = length table
      in if n = 0 then Panic
         else insert_loop table psls (unat (bk_fingerprint entry) mod n) 0
                (bk_fingerprint entry) (bk_offset entry))"

section \<open>Table construction\<close>

text \<open>
  \<open>(n_keys as f64 / 0.95).ceil()\<close> and \<open>(n as f64 * 1.5).ceil()\<close> as exact rationals.  The
  product by 1.5 is exact in binary64 below \<open>2 ^ 52\<close>; the quotient rounds by less than one part
  in \<open>2 ^ 53\<close>, which moves no ceiling below \<open>2 ^ 48\<close> keys: the exact quotient is an integer
  (and is then returned exactly) or at least 1/19 away from one.
\<close>

definition bucket_count :: "nat \<Rightarrow> nat" where
  "bucket_count n_keys = (20 * n_keys + 18) div 19"

definition grow :: "nat \<Rightarrow> nat" where
  "grow n = (3 * n + 1) div 2"

text \<open>One pass of the \<open>for\<close> loop over a fresh table; the pass stops at the first overflow.\<close>

definition fill :: "Bucket list \<Rightarrow> nat \<Rightarrow> (Bucket list \<times> u8 list) fres" where
  "fill entries n =
     foldR (\<lambda>e (table, psls). insert_v4 table psls e) entries
       (replicate n Bucket_default, replicate n 0)"

partial_function (option) build_from ::
    "Bucket list \<Rightarrow> nat \<Rightarrow> nat \<Rightarrow> (Bucket list \<times> nat) fres option" where
  "build_from entries n retries =
     (case fill entries n of
        Ok (table, psls) \<Rightarrow> Some (Ok (table, retries))
      | Err e \<Rightarrow> build_from entries (grow n) (retries + 1)
      | Panic \<Rightarrow> Some Panic)"

definition build :: "Bucket list \<Rightarrow> (Bucket list \<times> nat) fres option" where
  "build entries = build_from entries (bucket_count (length entries)) 0"

section \<open>Group probe\<close>

definition NO_MATCH :: u32 where
  "NO_MATCH = - 1"

definition GROUP_SIZE :: nat where
  "GROUP_SIZE = 8"

record ProbeResult =
  pr_offsets :: "u32 list"
  pr_done :: bool

definition home_position :: "u64 \<Rightarrow> nat \<Rightarrow> nat" where
  "home_position fp n = unat (compact_fingerprint fp) mod n"

definition ProbeResult_init :: ProbeResult where
  "ProbeResult_init = \<lparr>pr_offsets = replicate GROUP_SIZE NO_MATCH, pr_done = False\<rparr>"

fun probe_scalar_loop ::
    "Bucket list \<Rightarrow> u32 \<Rightarrow> nat \<Rightarrow> nat list \<Rightarrow> ProbeResult \<Rightarrow> ProbeResult" where
  "probe_scalar_loop table cfp start [] r = r"
| "probe_scalar_loop table cfp start (i # is) r =
     (let bucket = table ! ((start + i) mod length table)
      in if bucket_is_empty bucket then r\<lparr>pr_done := True\<rparr>
         else probe_scalar_loop table cfp start is
                (if bk_fingerprint bucket = cfp
                 then r\<lparr>pr_offsets := (pr_offsets r)[i := bk_offset bucket]\<rparr> else r))"

definition probe_group_scalar :: "Bucket list \<Rightarrow> u32 \<Rightarrow> nat \<Rightarrow> ProbeResult fres" where
  "probe_group_scalar table cfp start =
     (if length table = 0 then Panic
      else Ok (probe_scalar_loop table cfp start [0..<GROUP_SIZE] ProbeResult_init))"

subsection \<open>AVX2\<close>

text \<open>
  The intrinsics the AVX2 probe uses, on vectors of eight 32-bit lanes: a load reads eight
  consecutive 32-bit words of the table's memory, \<open>permutevar8x32\<close> selects lanes by index,
  \<open>permute2x128\<close> selects 128-bit halves, \<open>cmpeq\<close> yields all-ones lanes and
  \<open>movemask_epi8\<close> collects the top bit of each of the 32 bytes.
\<close>

type_synonym lanes = "u32 list"

definition table_words :: "Bucket list \<Rightarrow> u32 list" where
  "table_words table = concat (map (\<lambda>b. [bk_fingerprint b, bk_offset b]) table)"

definition mm256_loadu :: "u32 list \<Rightarrow> nat \<Rightarrow> lanes" where
  "mm256_loadu mem i = bslice i 8 mem"

definition mm256_permutevar8x32 :: "lanes \<Rightarrow> nat list \<Rightarrow> lanes" where
  "mm256_permutevar8x32 v idx = map (\<lambda>i. v ! (i mod 8)) idx"

definition mm256_half :: "lanes \<Rightarrow> lanes \<Rightarrow> nat \<Rightarrow> lanes" where
  "mm256_half a b sel =
     (if sel = 0 then take 4 a else if sel = 1 then drop 4 a
      else if sel = 2 then take 4 b else drop 4 b)"

definition mm256_permute2x128 :: "lanes \<Rightarrow> lanes \<Rightarrow> nat \<Rightarrow> lanes" where
  "mm256_permute2x128 a b imm =
     (if bit imm 3 then replicate 4 0 else mm256_half a b (imm mod 4)) @
     (if bit imm 7 then replicate 4 0 else mm256_half a b (imm div 16 mod 4))"

definition lanes_cmpeq :: "lanes \<Rightarrow> lanes \<Rightarrow> lanes" where
  "lanes_cmpeq a b = map2 (\<lambda>x y. if x = y then - 1 else 0) a b"

definition mm256_movemask_epi8 :: "lanes \<Rightarrow> u32" where
  "mm256_movemask_epi8 v =
     horner_sum of_bool 2 (map (\<lambda>i. bit (v ! (i div 4)) (8 * (i mod 4) + 7)) [0..<32])"

fun probe_avx2_loop ::
    "Bucket list \<Rightarrow> nat \<Rightarrow> u32 \<Rightarrow> u32 \<Rightarrow> nat list \<Rightarrow> ProbeResult \<Rightarrow> ProbeResult" where
  "probe_avx2_loop table pos match_mask empty_mask [] r = r"
| "probe_avx2_loop table pos match_mask empty_mask (lane # rest) r =
     (let lane_bits = push_bit (lane * 4) 0xF
      in if empty_mask AND lane_bits \<noteq> 0 then r\<lparr>pr_done := True\<rparr>
         else probe_avx2_loop table pos match_mask empty_mask rest
                (if match_mask AND lane_bits \<noteq> 0
                 then r\<lparr>pr_offsets := (pr_offsets r)[lane := bk_offset (table ! (pos + lane))]\<rparr>
                 else r))"

definition probe_group_avx2 :: "Bucket list \<Rightarrow> u32 \<Rightarrow> nat \<Rightarrow> ProbeResult" where
  "probe_group_avx2 table cfp pos =
     (let target = replicate 8 cfp;
          zero = replicate 8 0;
          shuf = [0, 2, 4, 6, 0, 2, 4, 6];
          lo = mm256_loadu (table_words table) (2 * pos);
          hi = mm256_loadu (table_words table) (2 * pos + 8);
          fps_lo = mm256_permutevar8x32 lo shuf;
          fps_hi = mm256_permutevar8x32 hi shuf;
          fps = mm256_permute2x128 fps_lo fps_hi 0x20;
          match_mask = mm256_movemask_epi8 (lanes_cmpeq fps target);
          empty_mask = mm256_movemask_epi8 (lanes_cmpeq fps zero)
      in probe_avx2_loop table pos match_mask empty_mask [0..<8] ProbeResult_init)"

subsection \<open>NEON\<close>

text \<open>\<open>vld2q_u32\<close> de-interleaves four two-word structures; only its first half is used.\<close>

definition vld2q_u32_0 :: "u32 list \<Rightarrow> nat \<Rightarrow> lanes" where
  "vld2q_u32_0 mem i = map (\<lambda>k. mem ! (i + 2 * k)) [0..<4]"

fun probe_neon_loop ::
    "Bucket list \<Rightarrow> nat \<Rightarrow> nat \<Rightarrow> lanes \<Rightarrow> lanes \<Rightarrow> nat list \<Rightarrow> ProbeResult \<Rightarrow> ProbeResult" where
  "probe_neon_loop table pos base match_lanes empty_lanes [] r = r"
| "probe_neon_loop table pos base match_lanes empty_lanes (i # rest) r =
     (if empty_lanes ! i \<noteq> 0 then r\<lparr>pr_done := True\<rparr>
      else probe_neon_loop table pos base match_lanes empty_lanes rest
             (if match_lanes ! i \<noteq> 0
              then r\<lparr>pr_offsets := (pr_offsets r)[base + i := bk_offset (table ! (pos + base + i))]\<rparr>
              else r))"

definition probe_group_neon :: "Bucket list \<Rightarrow> u32 \<Rightarrow> nat \<Rightarrow> ProbeResult" where
  "probe_group_neon table cfp pos =
     (let target = replicate 4 cfp;
          zero = replicate 4 0;
          pair0 = vld2q_u32_0 (table_words table) (2 * pos);
          r0 = probe_neon_loop table pos 0 (lanes_cmpeq pair0 target) (lanes_cmpeq pair0 zero)
                 [0..<4] ProbeResult_init;
          pair1 = vld2q_u32_0 (table_words table) (2 * (pos + 4))
      in if pr_done r0 then r0
         else probe_neon_loop table pos 4 (lanes_cmpeq pair1 target) (lanes_cmpeq pair1 zero)
                [0..<4] r0)"

subsection \<open>Dispatch\<close>

text \<open>The compile-time target, with the run-time AVX2 detection of x86-64.\<close>

datatype target = X86_64 bool | Aarch64 | OtherArch

fun probe_group :: "target \<Rightarrow> Bucket list \<Rightarrow> u32 \<Rightarrow> nat \<Rightarrow> ProbeResult fres" where
  "probe_group (X86_64 avx2) table cfp pos =
     (if pos + GROUP_SIZE \<le> length table \<and> avx2 then Ok (probe_group_avx2 table cfp pos)
      else probe_group_scalar table cfp pos)"
| "probe_group Aarch64 table cfp pos =
     (if pos + GROUP_SIZE \<le> length table then Ok (probe_group_neon table cfp pos)
      else probe_group_scalar table cfp pos)"
| "probe_group OtherArch table cfp pos = probe_group_scalar table cfp pos"

section \<open>Unified index file and alignment\<close>

record UnifiedIndexInfo =
  ui_offsets :: "u64 list"
  ui_n_buckets :: "u64 list"

text \<open>\<open>(x + a - 1) & !(a - 1)\<close> on \<open>u64\<close>.\<close>

definition align_up :: "u64 \<Rightarrow> u64 \<Rightarrow> u64" where
  "align_up a x = (x + a - 1) AND NOT (a - 1)"

definition aligned_size :: "u32 \<Rightarrow> u64" where
  "aligned_size size' = align_up (word_of_nat VALUE_ALIGNMENT) (ucast size')"

text \<open>
  The file is its bytes so far; \<open>set_len\<close> extends it with zeros and the seek moves to the new
  end, so every later write appends.
\<close>

fun write_tables ::
    "bytes \<Rightarrow> u64 \<Rightarrow> UnifiedIndexInfo \<Rightarrow> Bucket list list \<Rightarrow> bytes \<times> UnifiedIndexInfo" where
  "write_tables file file_offset info [] = (file, info)"
| "write_tables file file_offset info (table # tables) =
     (let info' = \<lparr>ui_offsets = ui_offsets info @ [file_offset],
                   ui_n_buckets = ui_n_buckets info @ [word_of_nat (length table)]\<rparr>;
          bs = concat (map bucket_bytes table);
          file' = file @ bs;
          file_offset' = file_offset + word_of_nat (length bs)
      in if tables \<noteq> [] \<and> file_offset' mod word_of_nat INDEX_ALIGNMENT \<noteq> 0
         then let aligned = align_up (word_of_nat INDEX_ALIGNMENT) file_offset'
              in write_tables (file' @ replicate (unat aligned - length file') 0) aligned info' tables
         else write_tables file' file_offset' info' tables)"

definition write_unified_index :: "Bucket list list \<Rightarrow> bytes \<times> UnifiedIndexInfo" where
  "write_unified_index tables = write_tables [] 0 \<lparr>ui_offsets = [], ui_n_buckets = []\<rparr> tables"

end
