(* ===== verification/V4_Spill.thy ===== *)
theory V4_Spill
  imports V4_Index
begin

text \<open>
  \<open>mcfreeze-format/src/v4/spill.rs\<close>: the spill file of a partition, a 16-byte header (magic and
  a count filled in at the end) followed by one 8-byte bucket per record.
\<close>

section \<open>Format\<close>

definition SPILL_MAGIC :: bytes where
  "SPILL_MAGIC = [0x4B, 0x56, 0x53, 0x50, 0x49, 0x4C, 0x33, 0x0A]"

definition SPILL_HEADER_SIZE :: nat where
  "SPILL_HEADER_SIZE = 16"

definition SPILL_RECORD_SIZE :: nat where
  "SPILL_RECORD_SIZE = 8"

section \<open>Writer\<close>

record SpillWriter =
  sw_written :: bytes
  sw_count :: u64

definition SpillWriter_create :: SpillWriter where
  "SpillWriter_create = \<lparr>sw_written = SPILL_MAGIC @ u64_le 0, sw_count = 0\<rparr>"

definition spill_push :: "SpillWriter \<Rightarrow> Bucket \<Rightarrow> SpillWriter" where
  "spill_push w b = w\<lparr>sw_written := sw_written w @ bucket_bytes b, sw_count := sw_count w + 1\<rparr>"

text \<open>Seek to 8 and overwrite the count; the file is what was written with those bytes replaced.\<close>

definition spill_finish :: "SpillWriter \<Rightarrow> bytes \<times> u64" where
  "spill_finish w =
     (take 8 (sw_written w) @ u64_le (sw_count w) @ drop 16 (sw_written w), sw_count w)"

section \<open>Reader\<close>

record SpillReader =
  sr_rest :: bytes
  sr_count :: u64

definition eof_error :: error where
  "eof_error = Io (IoError UnexpectedEof ''failed to fill whole buffer'')"

definition SpillReader_open :: "bytes \<Rightarrow> SpillReader fres" where
  "SpillReader_open file =
     (if length file < SPILL_HEADER_SIZE then Err eof_error
      else if bslice 0 8 file \<noteq> SPILL_MAGIC
           then Err (Io (IoError InvalidData ''invalid magic bytes in spill header''))
      else Ok \<lparr>sr_rest = drop SPILL_HEADER_SIZE file, sr_count = u64_of_le (bslice 8 8 file)\<rparr>)"

text \<open>\<open>SpillIter::next\<close> iterated and collected: the first short read ends with its error.\<close>

fun spill_records :: "bytes \<Rightarrow> nat \<Rightarrow> Bucket list fres" where
  "spill_records rest 0 = Ok []"
| "spill_records rest (Suc remaining) =
     (if length rest < SPILL_RECORD_SIZE then Err eof_error
      else rmap (\<lambda>bs. bucket_of_bytes (take SPILL_RECORD_SIZE rest) # bs)
             (spill_records (drop SPILL_RECORD_SIZE rest) remaining))"

definition records :: "SpillReader \<Rightarrow> Bucket list fres" where
  "records r = spill_records (sr_rest r) (unat (sr_count r))"

section \<open>Lemmas\<close>

interpretation bucket_codec: fixed_codec bucket_bytes bucket_of_bytes 8
  by unfold_locales (simp_all add: bucket_bytes_def bucket_of_bytes_def slice_simps)

text \<open>A well-formed writer: the header, then the records pushed so far, counted.\<close>

definition spill_inv :: "SpillWriter \<Rightarrow> Bucket list \<Rightarrow> bool" where
  "spill_inv w es \<longleftrightarrow>
     sw_written w = SPILL_MAGIC @ u64_le 0 @ concat (map bucket_bytes es) \<and>
     sw_count w = word_of_nat (length es)"

lemma spill_inv_create: "spill_inv SpillWriter_create []"
  by (simp add: spill_inv_def SpillWriter_create_def)

lemma spill_inv_push: "spill_inv w es \<Longrightarrow> spill_inv (spill_push w b) (es @ [b])"
  by (simp add: spill_inv_def spill_push_def)

lemma spill_inv_fold:
  "spill_inv w pre \<Longrightarrow> spill_inv (fold (\<lambda>b w. spill_push w b) es w) (pre @ es)"
proof (induction es arbitrary: w pre)
  case Nil
  then show ?case by simp
next
  case (Cons e es)
  from Cons.IH [OF spill_inv_push [OF Cons.prems, of e]] show ?case by simp
qed

lemma length_SPILL_MAGIC [simp]: "length SPILL_MAGIC = 8"
  by (simp add: SPILL_MAGIC_def)

lemma spill_finish_bytes:
  "spill_inv w es \<Longrightarrow>
     fst (spill_finish w) = SPILL_MAGIC @ u64_le (word_of_nat (length es)) @ concat (map bucket_bytes es)"
  by (simp add: spill_inv_def spill_finish_def)

lemma spill_records_concat:
  "spill_records (concat (map bucket_bytes es) @ rest) (length es) = Ok es"
  by (induction es) (simp_all add: SPILL_RECORD_SIZE_def bucket_codec.length_enc bucket_codec.dec_enc)

lemma spill_roundtrip:
  assumes "spill_inv w es" and "length es < 2 ^ 64"
  shows "\<exists>r. SpillReader_open (fst (spill_finish w)) = Ok r \<and>
    unat (sr_count r) = length es \<and> records r = Ok es"
proof -
  have n: "unat (word_of_nat (length es) :: u64) = length es"
    using assms(2) by (intro unat_word_of_nat_less) simp
  let ?r = "\<lparr>sr_rest = concat (map bucket_bytes es), sr_count = word_of_nat (length es)\<rparr>"
  have "SpillReader_open (fst (spill_finish w)) = Ok ?r"
    by (simp add: spill_finish_bytes [OF assms(1)] SpillReader_open_def SPILL_HEADER_SIZE_def
        slice_simps)
  then show ?thesis
    using spill_records_concat [of es "[]"] by (simp add: records_def n)
qed

text \<open>A file cut short inside the records is reported, never read as fewer records.\<close>

lemma spill_records_short:
  assumes "length rest < 8 * n"
  shows "spill_records rest n = Err eof_error"
  using assms
  by (induction rest n rule: spill_records.induct) (simp_all add: SPILL_RECORD_SIZE_def)

end
