(* ===== verification/V4_Robin_Hood.thy ===== *)
theory V4_Robin_Hood
  imports V4_Index
begin

text \<open>
  Correctness of the Robin Hood table of \<open>v4/index.rs\<close>: the probe invariant, that insertion
  preserves it and stores exactly one more entry, when insertion can overflow, and what a
  returning \<open>build\<close> has built; then the inputs on which \<open>build\<close> never returns.
\<close>

section \<open>The probe invariant\<close>

definition home :: "nat \<Rightarrow> u32 \<Rightarrow> nat" where
  "home n fp = unat fp mod n"

text \<open>\<open>probed table fp d\<close>: the \<open>d\<close> slots from the home of \<open>fp\<close> on are occupied.\<close>

definition probed :: "Bucket list \<Rightarrow> u32 \<Rightarrow> nat \<Rightarrow> bool" where
  "probed table fp d \<longleftrightarrow>
     (\<forall>j < d. \<not> bucket_is_empty (table ! ((home (length table) fp + j) mod length table)))"

definition rh_inv :: "Bucket list \<Rightarrow> u8 list \<Rightarrow> bool" where
  "rh_inv table psls \<longleftrightarrow>
     length psls = length table \<and>
     (\<forall>p < length table. \<not> bucket_is_empty (table ! p) \<longrightarrow>
        (home (length table) (bk_fingerprint (table ! p)) + unat (psls ! p)) mod length table = p \<and>
        probed table (bk_fingerprint (table ! p)) (unat (psls ! p)))"

definition occupied :: "Bucket list \<Rightarrow> Bucket list" where
  "occupied table = filter (\<lambda>b. \<not> bucket_is_empty b) table"

lemma n_occupied_eq: "n_occupied table = length (occupied table)"
  by (simp add: n_occupied_def occupied_def)

text \<open>What the loop keeps about the entry it carries.\<close>

definition carried :: "Bucket list \<Rightarrow> nat \<Rightarrow> u8 \<Rightarrow> u32 \<Rightarrow> bool" where
  "carried table pos psl fp \<longleftrightarrow>
     fp \<noteq> 0 \<and> pos = (home (length table) fp + unat psl) mod length table \<and>
     probed table fp (unat psl)"

lemma less_not_MAX_PSL: "x < y \<Longrightarrow> x \<noteq> MAX_PSL"
  by (metis MAX_PSL_def not_less word_n1_ge)

lemma probed_Suc:
  "probed table fp (Suc d) \<longleftrightarrow> probed table fp d \<and>
     \<not> bucket_is_empty (table ! ((home (length table) fp + d) mod length table))"
  by (auto simp: probed_def less_Suc_eq)

lemma probed_update:
  assumes "probed table fp d" and "\<not> bucket_is_empty b"
  shows "probed (table[p := b]) fp d"
  using assms by (cases "p < length table") (auto simp: probed_def nth_list_update not_less list_update_beyond)

lemma rh_inv_update:
  assumes inv: "rh_inv table psls" and p: "p < length table"
    and carried: "carried table p psl fp"
  shows "rh_inv (table[p := \<lparr>bk_fingerprint = fp, bk_offset = off\<rparr>]) (psls[p := psl])"
proof -
  have ne: "\<not> bucket_is_empty \<lparr>bk_fingerprint = fp, bk_offset = off\<rparr>"
    using carried by (simp add: carried_def bucket_is_empty_def)
  show ?thesis
    unfolding rh_inv_def
  proof (intro conjI allI impI)
    show "length (psls[p := psl]) = length (table[p := \<lparr>bk_fingerprint = fp, bk_offset = off\<rparr>])"
      using inv by (simp add: rh_inv_def)
  next
    fix q
    assume q: "q < length (table[p := \<lparr>bk_fingerprint = fp, bk_offset = off\<rparr>])"
      and qn: "\<not> bucket_is_empty (table[p := \<lparr>bk_fingerprint = fp, bk_offset = off\<rparr>] ! q)"
    let ?t = "table[p := \<lparr>bk_fingerprint = fp, bk_offset = off\<rparr>]"
    have "(home (length table) (bk_fingerprint (?t ! q)) + unat (psls[p := psl] ! q)) mod length table = q
        \<and> probed table (bk_fingerprint (?t ! q)) (unat (psls[p := psl] ! q))"
    proof (cases "q = p")
      case True
      with p carried inv show ?thesis by (simp add: carried_def rh_inv_def)
    next
      case False
      with q qn inv show ?thesis by (simp add: rh_inv_def)
    qed
    then show "(home (length ?t) (bk_fingerprint (?t ! q)) + unat (psls[p := psl] ! q)) mod length ?t = q"
      and "probed ?t (bk_fingerprint (?t ! q)) (unat (psls[p := psl] ! q))"
      using ne by (simp_all add: probed_update)
  qed
qed

lemma mset_occupied_update_empty:
  assumes "p < length table" and "bucket_is_empty (table ! p)" and "\<not> bucket_is_empty b"
  shows "mset (occupied (table[p := b])) = add_mset b (mset (occupied table))"
  using assms
  by (simp add: occupied_def upd_conv_take_nth_drop)
     (subst (3) id_take_nth_drop [OF assms(1)], simp)

lemma mset_occupied_update_full:
  assumes "p < length table" and "\<not> bucket_is_empty (table ! p)" and "\<not> bucket_is_empty b"
  shows "add_mset (table ! p) (mset (occupied (table[p := b]))) = add_mset b (mset (occupied table))"
  using assms
  by (simp add: occupied_def upd_conv_take_nth_drop)
     (subst (4) id_take_nth_drop [OF assms(1)], simp)

lemma carried_step:
  assumes c: "carried table pos psl fp" and psl: "psl \<noteq> MAX_PSL"
    and full: "\<not> bucket_is_empty (table ! pos)"
  shows "carried table ((pos + 1) mod length table) (psl + 1) fp"
proof -
  have psl': "unat (psl + 1) = unat psl + 1"
    using psl by (intro unat_Suc_u8) (simp add: MAX_PSL_def)
  have "probed table fp (unat psl + 1)"
    using c full by (auto simp: carried_def probed_def less_Suc_eq)
  moreover have "(pos + 1) mod length table = (home (length table) fp + (unat psl + 1)) mod length table"
    using c by (simp add: carried_def mod_simps)
  ultimately show ?thesis
    using c psl' by (simp add: carried_def)
qed

lemma carried_evicted:
  assumes "rh_inv table psls" and "pos < length table" and "\<not> bucket_is_empty (table ! pos)"
  shows "carried table pos (psls ! pos) (bk_fingerprint (table ! pos))"
  using assms by (auto simp: rh_inv_def carried_def bucket_is_empty_def)

lemma carried_update:
  assumes "carried table pos psl fp" and "\<not> bucket_is_empty b"
  shows "carried (table[p := b]) pos psl fp"
  using assms by (auto simp: carried_def probed_update)

text \<open>The state the loop moves to after an eviction satisfies the loop's precondition again.\<close>

lemma evict_step:
  assumes inv: "rh_inv table psls" and pos: "pos < length table"
    and full: "\<not> bucket_is_empty (table ! pos)" and c: "carried table pos psl fp"
    and e: "psls ! pos \<noteq> MAX_PSL"
  shows "carried (table[pos := \<lparr>bk_fingerprint = fp, bk_offset = off\<rparr>])
    ((pos + 1) mod length table) (psls ! pos + 1) (bk_fingerprint (table ! pos))"
proof -
  have ne: "\<not> bucket_is_empty \<lparr>bk_fingerprint = fp, bk_offset = off\<rparr>"
    using c by (simp add: carried_def bucket_is_empty_def)
  have "carried (table[pos := \<lparr>bk_fingerprint = fp, bk_offset = off\<rparr>]) pos (psls ! pos)
      (bk_fingerprint (table ! pos))"
    by (rule carried_update [OF carried_evicted [OF inv pos full] ne])
  from carried_step [OF this e] show ?thesis
    using pos ne by simp
qed

lemma carried_pos: "carried table pos psl fp \<Longrightarrow> table \<noteq> [] \<Longrightarrow> pos < length table"
  by (simp add: carried_def)

section \<open>Insertion\<close>

lemma insert_loop_correct:
  assumes "rh_inv table psls" and "table \<noteq> []" and "carried table pos psl fp"
    and "insert_loop table psls pos psl fp off = Ok (table', psls')"
  shows "rh_inv table' psls' \<and> length table' = length table \<and>
    mset (occupied table') = add_mset \<lparr>bk_fingerprint = fp, bk_offset = off\<rparr> (mset (occupied table))"
  using assms
proof (induction table psls pos psl fp off rule: insert_loop.induct)
  case (1 table psls pos psl fp off)
  let ?b = "\<lparr>bk_fingerprint = fp, bk_offset = off\<rparr>"
  have pos: "pos < length table" "pos < length psls"
    using 1 carried_pos by (auto simp: rh_inv_def)
  have ne: "\<not> bucket_is_empty ?b"
    using 1 by (simp add: carried_def bucket_is_empty_def)
  have upd: "rh_inv (table[pos := ?b]) (psls[pos := psl])"
    using 1 pos by (intro rh_inv_update) auto
  consider (empty) "bucket_is_empty (table ! pos)"
    | (evict) "\<not> bucket_is_empty (table ! pos)" "psls ! pos < psl"
    | (step) "\<not> bucket_is_empty (table ! pos)" "\<not> psls ! pos < psl"
    by blast
  then show ?case
  proof cases
    case empty
    then show ?thesis
      using 1(6) pos upd ne
      by (auto simp: insert_loop.simps [of table] mset_occupied_update_empty)
  next
    case evict
    then have e: "psls ! pos \<noteq> MAX_PSL"
      by (auto dest: less_not_MAX_PSL)
    have "insert_loop (table[pos := ?b]) (psls[pos := psl]) ((pos + 1) mod length table)
        (psls ! pos + 1) (bk_fingerprint (table ! pos)) (bk_offset (table ! pos)) = Ok (table', psls')"
      using 1(6) pos evict e by (simp add: insert_loop.simps [of table] Let_def)
    moreover have "carried (table[pos := ?b]) ((pos + 1) mod length table) (psls ! pos + 1)
        (bk_fingerprint (table ! pos))"
      using 1 pos evict e by (intro evict_step) auto
    ultimately have IH: "rh_inv table' psls' \<and> length table' = length table \<and>
        mset (occupied table') = add_mset (table ! pos) (mset (occupied (table[pos := ?b])))"
      using 1(1) [OF _ evict refl refl refl refl refl e] pos upd 1(4) by auto
    then show ?thesis
      using mset_occupied_update_full [OF pos(1) evict(1) ne] by simp
  next
    case step
    then have "psl \<noteq> MAX_PSL"
      using 1(6) pos by (auto simp: insert_loop.simps [of table])
    moreover from this have "carried table ((pos + 1) mod length table) (psl + 1) fp"
      using 1(5) step by (intro carried_step)
    ultimately show ?thesis
      using 1(2) [OF _ step] 1(3,4,6) pos step by (auto simp: insert_loop.simps [of table])
  qed
qed

text \<open>Consecutive slots of the ring are distinct, so a long probed run needs as many entries.\<close>

lemma inj_on_ring: "inj_on (\<lambda>j. (h + j) mod n) {..<(n::nat)}"
proof (rule linorder_inj_onI')
  fix i j
  assume ij: "i \<in> {..<n}" "j \<in> {..<n}" "i < j"
  show "(h + i) mod n \<noteq> (h + j) mod n"
  proof
    assume "(h + i) mod n = (h + j) mod n"
    then have "n dvd (h + j) - (h + i)"
      using mod_eq_dvd_iff_nat [of "h + i" "h + j" n] ij by simp
    then have "n dvd j - i" by simp
    moreover have "0 < j - i" "j - i < n" using ij by auto
    ultimately show False
      by (meson nat_dvd_not_less)
  qed
qed

lemma probed_n_occupied:
  assumes "probed table fp d"
  shows "min (length table) d \<le> n_occupied table"
proof -
  let ?n = "length table"
  let ?f = "\<lambda>j. (home ?n fp + j) mod ?n"
  let ?J = "{..<min ?n d}"
  have "inj_on ?f ?J"
    by (rule inj_on_subset [OF inj_on_ring]) auto
  then have "card (?f ` ?J) = min ?n d"
    by (simp add: card_image)
  moreover have sub: "?f ` ?J \<subseteq> {i. i < length table \<and> \<not> bucket_is_empty (table ! i)}"
  proof (rule image_subsetI)
    fix j
    assume "j \<in> ?J"
    then have "j < d" and "0 < ?n" by auto
    with assms show "?f j \<in> {i. i < length table \<and> \<not> bucket_is_empty (table ! i)}"
      by (simp only: mem_Collect_eq probed_def mod_less_divisor) blast
  qed
  moreover have "card (?f ` ?J) \<le> card {i. i < length table \<and> \<not> bucket_is_empty (table ! i)}"
    by (rule card_mono [OF _ sub]) simp
  ultimately have "min ?n d \<le> card {i. i < length table \<and> \<not> bucket_is_empty (table ! i)}"
    by simp
  then show ?thesis
    by (simp add: n_occupied_def length_filter_conv_card)
qed

lemma unat_MAX_PSL: "unat MAX_PSL = 255"
  by (simp add: MAX_PSL_def unsigned_minus_1_eq_mask mask_eq_exp_minus_1)

lemma n_occupied_update_full:
  assumes "p < length table" and "\<not> bucket_is_empty (table ! p)" and "\<not> bucket_is_empty b"
  shows "n_occupied (table[p := b]) = n_occupied table"
  using arg_cong [OF mset_occupied_update_full [OF assms], of size] by (simp add: n_occupied_eq)

lemma insert_loop_outcome:
  assumes "rh_inv table psls" and "table \<noteq> []" and "carried table pos psl fp"
  shows "(\<exists>r. insert_loop table psls pos psl fp off = Ok r) \<or>
    insert_loop table psls pos psl fp off = Err (PslOverflow MAX_PSL (n_occupied table) (length table))
      \<and> min (length table) 256 \<le> n_occupied table"
  using assms
proof (induction table psls pos psl fp off rule: insert_loop.induct)
  case (1 table psls pos psl fp off)
  let ?b = "\<lparr>bk_fingerprint = fp, bk_offset = off\<rparr>"
  have pos: "pos < length table" "pos < length psls"
    using 1 carried_pos by (auto simp: rh_inv_def)
  have ne: "\<not> bucket_is_empty ?b"
    using 1 by (simp add: carried_def bucket_is_empty_def)
  consider (empty) "bucket_is_empty (table ! pos)"
    | (evict) "\<not> bucket_is_empty (table ! pos)" "psls ! pos < psl"
    | (step) "\<not> bucket_is_empty (table ! pos)" "\<not> psls ! pos < psl" "psl \<noteq> MAX_PSL"
    | (overflow) "\<not> bucket_is_empty (table ! pos)" "\<not> psls ! pos < psl" "psl = MAX_PSL"
    by blast
  then show ?case
  proof cases
    case empty
    then show ?thesis using pos by (simp add: insert_loop.simps [of table])
  next
    case evict
    then have e: "psls ! pos \<noteq> MAX_PSL" by (auto dest: less_not_MAX_PSL)
    have "rh_inv (table[pos := ?b]) (psls[pos := psl])"
      using 1 pos by (intro rh_inv_update) auto
    moreover have "carried (table[pos := ?b]) ((pos + 1) mod length table) (psls ! pos + 1)
        (bk_fingerprint (table ! pos))"
      using 1 pos evict e by (intro evict_step) auto
    ultimately show ?thesis
      using 1(1) [OF _ evict refl refl refl refl refl e] pos 1(4) evict e
        n_occupied_update_full [OF pos(1) evict(1) ne]
      by (simp add: insert_loop.simps [of table] Let_def)
  next
    case step
    then have "carried table ((pos + 1) mod length table) (psl + 1) fp"
      using 1(5) by (intro carried_step)
    then show ?thesis
      using 1(2) [OF _ step] 1(3,4) pos step by (simp add: insert_loop.simps [of table])
  next
    case overflow
    have "probed table fp (Suc 255)"
      using 1(5) overflow(1,3) by (simp only: probed_Suc carried_def unat_MAX_PSL) simp
    then have "min (length table) 256 \<le> n_occupied table"
      using probed_n_occupied by fastforce
    then show ?thesis
      using overflow pos by (simp add: insert_loop.simps [of table])
  qed
qed

lemma carried_home:
  assumes "fp \<noteq> 0"
  shows "carried table (unat fp mod length table) 0 fp"
  using assms by (simp add: carried_def home_def probed_def)

lemma insert_v4_correct:
  assumes "rh_inv table psls" and "bk_fingerprint e \<noteq> 0"
    and "insert_v4 table psls e = Ok (table', psls')"
  shows "rh_inv table' psls' \<and> length table' = length table \<and>
    mset (occupied table') = add_mset e (mset (occupied table))"
proof -
  have ne: "table \<noteq> []" using assms(3) by (auto simp: insert_v4_def)
  then have loop: "insert_loop table psls (unat (bk_fingerprint e) mod length table) 0
      (bk_fingerprint e) (bk_offset e) = Ok (table', psls')"
    using assms(3) by (simp add: insert_v4_def Let_def)
  have "\<lparr>bk_fingerprint = bk_fingerprint e, bk_offset = bk_offset e\<rparr> = e" by simp
  with insert_loop_correct [OF assms(1) ne carried_home [OF assms(2)] loop]
  show ?thesis by (simp only:)
qed

lemma insert_v4_outcome:
  assumes "rh_inv table psls" and "bk_fingerprint e \<noteq> 0" and "table \<noteq> []"
  shows "(\<exists>r. insert_v4 table psls e = Ok r) \<or>
    insert_v4 table psls e = Err (PslOverflow MAX_PSL (n_occupied table) (length table))
      \<and> min (length table) 256 \<le> n_occupied table"
  using assms insert_loop_outcome [OF assms(1,3) carried_home [OF assms(2)]]
  by (simp add: insert_v4_def Let_def)

section \<open>Table construction\<close>

abbreviation insert_all :: "Bucket list \<Rightarrow> Bucket list \<times> u8 list \<Rightarrow> (Bucket list \<times> u8 list) fres" where
  "insert_all \<equiv> foldR (\<lambda>e (table, psls). insert_v4 table psls e)"

definition valid_entries :: "Bucket list \<Rightarrow> bool" where
  "valid_entries es \<longleftrightarrow> (\<forall>e \<in> set es. bk_fingerprint e \<noteq> 0)"

lemma valid_entries_Cons [simp]:
  "valid_entries (e # es) \<longleftrightarrow> bk_fingerprint e \<noteq> 0 \<and> valid_entries es"
  by (simp add: valid_entries_def)

lemma empty_table:
  "rh_inv (replicate n Bucket_default) (replicate n 0)"
  "occupied (replicate n Bucket_default) = []"
  by (simp_all add: rh_inv_def occupied_def bucket_is_empty_def Bucket_default_def)

lemma insert_all_correct:
  assumes "insert_all es (table, psls) = Ok (table', psls')"
    and "rh_inv table psls" and "valid_entries es"
  shows "rh_inv table' psls' \<and> length table' = length table \<and>
    mset (occupied table') = mset es + mset (occupied table)"
  using assms
proof (induction es arbitrary: table psls)
  case Nil
  then show ?case by simp
next
  case (Cons e es)
  then obtain t p where step: "insert_v4 table psls e = Ok (t, p)"
    and rest: "insert_all es (t, p) = Ok (table', psls')"
    by (auto simp: res_simps)
  from step Cons.prems have "rh_inv t p \<and> length t = length table \<and>
      mset (occupied t) = add_mset e (mset (occupied table))"
    by (intro insert_v4_correct) simp_all
  with Cons.IH [OF rest] Cons.prems show ?case by simp
qed

text \<open>A pass over a non-empty table ends in a table or in an overflow at \<open>MAX_PSL\<close>.\<close>

lemma insert_all_outcome:
  assumes "rh_inv table psls" and "valid_entries es" and "table \<noteq> []"
  shows "(\<exists>r. insert_all es (table, psls) = Ok r) \<or>
    (\<exists>k. insert_all es (table, psls) = Err (PslOverflow MAX_PSL k (length table)) \<and>
      min (length table) 256 \<le> k \<and> k < length es + n_occupied table)"
  using assms
proof (induction es arbitrary: table psls)
  case Nil
  then show ?case by simp
next
  case (Cons e es)
  from insert_v4_outcome [of table psls e] Cons.prems
  consider (ok) t p where "insert_v4 table psls e = Ok (t, p)"
    | (err) "insert_v4 table psls e = Err (PslOverflow MAX_PSL (n_occupied table) (length table))"
        "min (length table) 256 \<le> n_occupied table"
    by (metis surj_pair valid_entries_Cons)
  then show ?case
  proof cases
    case ok
    with Cons.prems have c: "rh_inv t p \<and> length t = length table \<and>
        mset (occupied t) = add_mset e (mset (occupied table))"
      by (intro insert_v4_correct) simp_all
    then have "n_occupied t = Suc (n_occupied table)"
      unfolding n_occupied_eq by (metis size_add_mset size_mset)
    moreover have "t \<noteq> []" using c Cons.prems by auto
    ultimately show ?thesis
      using Cons.IH [of t p] c ok Cons.prems by simp
  qed auto
qed

lemma fill_correct:
  assumes "fill es n = Ok (table, psls)" and "valid_entries es"
  shows "rh_inv table psls \<and> length table = n \<and> mset (occupied table) = mset es"
  using insert_all_correct [OF assms(1) [unfolded fill_def] empty_table(1) assms(2)]
  by (simp add: empty_table)

lemma fill_outcome:
  assumes "valid_entries es" and "0 < n"
  shows "(\<exists>table psls. fill es n = Ok (table, psls)) \<or>
    (\<exists>k. fill es n = Err (PslOverflow MAX_PSL k n) \<and> min n 256 \<le> k \<and> k < length es)"
  using insert_all_outcome [OF empty_table(1) assms(1), of n] assms(2)
  by (auto simp: fill_def n_occupied_eq empty_table)

lemma length_le_bucket_count: "n \<le> bucket_count n"
  by (simp add: bucket_count_def)

lemma bucket_count_pos: "0 < n \<Longrightarrow> 0 < bucket_count n"
  using length_le_bucket_count [of n] by simp

lemma grow_less: "0 < n \<Longrightarrow> n < grow n"
  by (simp add: grow_def)

lemma fill_Nil: "fill [] n = Ok (replicate n Bucket_default, replicate n 0)"
  by (simp add: fill_def)

text \<open>With at most 256 entries the first table always suffices.\<close>

lemma build_small:
  assumes "valid_entries es" and "length es \<le> 256"
  shows "\<exists>table. build es = Some (Ok (table, 0))"
proof (cases "es = []")
  case True
  then show ?thesis
    by (simp add: build_def build_from.simps fill_Nil)
next
  case False
  then have pos: "0 < bucket_count (length es)"
    by (simp add: bucket_count_pos)
  have "\<exists>table psls. fill es (bucket_count (length es)) = Ok (table, psls)"
    using fill_outcome [OF assms(1) pos] assms(2) length_le_bucket_count [of "length es"] by auto
  then show ?thesis
    by (auto simp: build_def build_from.simps)
qed

text \<open>A returning \<open>build_from\<close> returns a completed pass at some size of the growth sequence.\<close>

lemma build_from_result:
  assumes "build_from es n r = Some y"
  shows "\<exists>k. (\<exists>table psls. fill es ((grow ^^ k) n) = Ok (table, psls) \<and> y = Ok (table, r + k)) \<or>
    fill es ((grow ^^ k) n) = Panic \<and> y = Panic"
  using assms
proof (induction es n r y rule: build_from.raw_induct [rotated, consumes 1])
  case (1 build_from' es n r y)
  consider (ok) t p where "fill es n = Ok (t, p)" | (err) e where "fill es n = Err e"
    | (panic) "fill es n = Panic"
    by (cases "fill es n") auto
  then show ?case
  proof cases
    case ok
    with 1 have "fill es ((grow ^^ 0) n) = Ok (t, p) \<and> y = Ok (t, r + 0)" by auto
    then show ?thesis by blast
  next
    case err
    with 1(2) have "build_from' es (grow n) (r + 1) = Some y" by simp
    from 1(1) [OF this] obtain k where
      "(\<exists>table psls. fill es ((grow ^^ k) (grow n)) = Ok (table, psls) \<and> y = Ok (table, r + 1 + k)) \<or>
        fill es ((grow ^^ k) (grow n)) = Panic \<and> y = Panic" by blast
    then have "(\<exists>table psls. fill es ((grow ^^ Suc k) n) = Ok (table, psls) \<and> y = Ok (table, r + Suc k)) \<or>
        fill es ((grow ^^ Suc k) n) = Panic \<and> y = Panic"
      by (simp add: funpow_swap1)
    then show ?thesis by blast
  next
    case panic
    with 1 have "fill es ((grow ^^ 0) n) = Panic \<and> y = Panic" by auto
    then show ?thesis by blast
  qed
qed

lemma grow_pow_pos: "0 < n \<Longrightarrow> 0 < (grow ^^ k) n"
  by (induction k) (auto dest: grow_less)

lemma fill_no_panic:
  assumes "valid_entries es" and "es \<noteq> [] \<longrightarrow> 0 < n"
  shows "fill es n \<noteq> Panic"
  using fill_outcome [OF assms(1), of n] assms(2) by (cases "es = []") (auto simp: fill_Nil)

text \<open>What a returning \<open>build\<close> has built: never a panic, never an error.\<close>

lemma build_correct:
  assumes "build es = Some y" and "valid_entries es"
  obtains table psls k where "y = Ok (table, k)" and "rh_inv table psls"
    and "mset (occupied table) = mset es" and "length table = (grow ^^ k) (bucket_count (length es))"
proof -
  let ?n = "bucket_count (length es)"
  obtain k where k: "(\<exists>table psls. fill es ((grow ^^ k) ?n) = Ok (table, psls) \<and> y = Ok (table, k)) \<or>
      fill es ((grow ^^ k) ?n) = Panic \<and> y = Panic"
    using build_from_result [OF assms(1) [unfolded build_def]] by auto
  have "fill es ((grow ^^ k) ?n) \<noteq> Panic"
    using assms(2) by (intro fill_no_panic) (auto intro: grow_pow_pos bucket_count_pos)
  with k obtain table psls where "fill es ((grow ^^ k) ?n) = Ok (table, psls)" "y = Ok (table, k)"
    by blast
  with that fill_correct [OF _ assms(2)] show thesis by blast
qed

section \<open>Inputs on which the retry loop never ends\<close>

definition in_window :: "nat \<Rightarrow> nat \<Rightarrow> Bucket \<Rightarrow> bool" where
  "in_window a k b \<longleftrightarrow> a \<le> unat (bk_fingerprint b) \<and> unat (bk_fingerprint b) < a + k"

text \<open>
  Entries whose fingerprints lie in an interval of \<open>k\<close> values have \<open>k\<close> adjacent homes whatever
  the size of the table, so they occupy at most \<open>k + 255\<close> slots.
\<close>

lemma window_slots:
  assumes inv: "rh_inv table psls"
  shows "length (filter (in_window a k) (occupied table)) \<le> k + 255"
proof -
  let ?n = "length table"
  let ?S = "{p. p < ?n \<and> \<not> bucket_is_empty (table ! p) \<and> in_window a k (table ! p)}"
  have "?S \<subseteq> (\<lambda>j. (a + j) mod ?n) ` {..<k + 255}"
  proof
    fix p
    assume "p \<in> ?S"
    then have p: "p < ?n" and full: "\<not> bucket_is_empty (table ! p)"
      and w: "in_window a k (table ! p)" by auto
    let ?fp = "unat (bk_fingerprint (table ! p))"
    let ?j = "?fp - a + unat (psls ! p)"
    have "p = (?fp mod ?n + unat (psls ! p)) mod ?n"
      using inv p full by (simp add: rh_inv_def home_def)
    also have "\<dots> = (?fp + unat (psls ! p)) mod ?n"
      by (simp add: mod_simps)
    also have "?fp + unat (psls ! p) = a + ?j"
      using w by (simp add: in_window_def)
    finally have "p = (a + ?j) mod ?n" .
    moreover have "?j < k + 255"
      using w unat_u8_le [of "psls ! p"] unfolding in_window_def by arith
    ultimately show "p \<in> (\<lambda>j. (a + j) mod ?n) ` {..<k + 255}" by blast
  qed
  then have "card ?S \<le> card ((\<lambda>j. (a + j) mod ?n) ` {..<k + 255})"
    by (intro card_mono) auto
  also have "\<dots> \<le> k + 255"
    using card_image_le [of "{..<k + 255}" "\<lambda>j. (a + j) mod ?n"] by simp
  finally show ?thesis
    by (simp add: occupied_def length_filter_conv_card conj_commute)
qed

lemma fill_window:
  assumes "fill es n = Ok (table, psls)" and "valid_entries es"
  shows "length (filter (in_window a k) es) \<le> k + 255"
proof -
  from fill_correct [OF assms] have "rh_inv table psls" and "mset (occupied table) = mset es"
    by simp_all
  then have "length (filter (in_window a k) es) = length (filter (in_window a k) (occupied table))"
    by (metis mset_filter size_mset)
  with window_slots [OF \<open>rh_inv table psls\<close>] show ?thesis by simp
qed

lemma build_diverges:
  assumes "valid_entries es" and "k + 255 < length (filter (in_window a k) es)"
  shows "build es = None"
proof (rule ccontr)
  assume "build es \<noteq> None"
  then obtain y where y: "build es = Some y" by blast
  have "es \<noteq> []" using assms(2) by auto
  obtain m where m: "(\<exists>table psls. fill es ((grow ^^ m) (bucket_count (length es))) = Ok (table, psls)) \<or>
      fill es ((grow ^^ m) (bucket_count (length es))) = Panic"
    using build_from_result [OF y [unfolded build_def]] by auto
  have "fill es ((grow ^^ m) (bucket_count (length es))) \<noteq> Panic"
    using assms(1) \<open>es \<noteq> []\<close> by (intro fill_no_panic) (auto intro: grow_pow_pos bucket_count_pos)
  with m obtain table psls where
    "fill es ((grow ^^ m) (bucket_count (length es))) = Ok (table, psls)" by blast
  from fill_window [OF this assms(1), of a k] assms(2) show False by simp
qed

end
