(* ===== verification/V4_Probe.thy ===== *)
theory V4_Probe
  imports V4_Index
begin

text \<open>
  The group probes of \<open>v4/index.rs\<close>: the AVX2 and NEON kernels compute the same
  \<open>ProbeResult\<close> as the scalar reference on every window they are given, so \<open>probe_group\<close>
  does not depend on the target.
\<close>

section \<open>The common loop\<close>

text \<open>
  All three kernels walk the lanes in order, stop at the first empty one and record the offset of
  a matching one; they differ in how a lane is classified.
\<close>

fun lane_loop ::
    "(nat \<Rightarrow> bool) \<Rightarrow> (nat \<Rightarrow> bool) \<Rightarrow> (nat \<Rightarrow> u32) \<Rightarrow> nat list \<Rightarrow> ProbeResult \<Rightarrow> ProbeResult" where
  "lane_loop is_empty is_match off [] r = r"
| "lane_loop is_empty is_match off (i # is) r =
     (if is_empty i then r\<lparr>pr_done := True\<rparr>
      else lane_loop is_empty is_match off is
             (if is_match i then r\<lparr>pr_offsets := (pr_offsets r)[i := off i]\<rparr> else r))"

lemma lane_loop_cong:
  assumes "\<And>i. i \<in> set is \<Longrightarrow> e i = e' i" and "\<And>i. i \<in> set is \<Longrightarrow> m i = m' i"
    and "\<And>i. i \<in> set is \<Longrightarrow> off i = off' i"
  shows "lane_loop e m off is r = lane_loop e' m' off' is r"
  using assms by (induction "is" arbitrary: r) auto

lemma lane_loop_append:
  assumes "\<not> pr_done r"
  shows "lane_loop e m off (xs @ ys) r =
    (let r' = lane_loop e m off xs r in if pr_done r' then r' else lane_loop e m off ys r')"
  using assms by (induction xs arbitrary: r) (auto simp: Let_def)

lemma lane_loop_done:
  "\<not> pr_done r \<Longrightarrow> pr_done (lane_loop e m off is r) \<longleftrightarrow> (\<exists>i \<in> set is. e i)"
  by (induction "is" arbitrary: r) auto

lemma scalar_lane_loop:
  "probe_scalar_loop table cfp start is r =
     lane_loop (\<lambda>i. bucket_is_empty (table ! ((start + i) mod length table)))
       (\<lambda>i. bk_fingerprint (table ! ((start + i) mod length table)) = cfp)
       (\<lambda>i. bk_offset (table ! ((start + i) mod length table))) is r"
  by (induction "is" arbitrary: r) (auto simp: Let_def)

lemma avx2_lane_loop:
  "probe_avx2_loop table pos match_mask empty_mask is r =
     lane_loop (\<lambda>i. empty_mask AND push_bit (i * 4) 0xF \<noteq> 0)
       (\<lambda>i. match_mask AND push_bit (i * 4) 0xF \<noteq> 0) (\<lambda>i. bk_offset (table ! (pos + i))) is r"
  by (induction "is" arbitrary: r) (auto simp: Let_def)

lemma neon_lane_loop:
  "probe_neon_loop table pos base match_lanes empty_lanes is r =
     lane_loop (\<lambda>i. empty_lanes ! (i - base) \<noteq> 0) (\<lambda>i. match_lanes ! (i - base) \<noteq> 0)
       (\<lambda>i. bk_offset (table ! (pos + i))) (map (\<lambda>i. base + i) is) r"
  by (induction "is" arbitrary: r) (auto simp: add.assoc)

text \<open>The window the scalar probe sees when it does not wrap.\<close>

lemma scalar_window:
  assumes "pos + GROUP_SIZE \<le> length table"
  shows "probe_group_scalar table cfp pos =
    Ok (lane_loop (\<lambda>i. bk_fingerprint (table ! (pos + i)) = 0)
      (\<lambda>i. bk_fingerprint (table ! (pos + i)) = cfp) (\<lambda>i. bk_offset (table ! (pos + i)))
      [0..<8] ProbeResult_init)"
proof -
  have "length table \<noteq> 0" using assms by (auto simp: GROUP_SIZE_def)
  moreover have "(pos + i) mod length table = pos + i" if "i < 8" for i
    using assms that by (simp add: GROUP_SIZE_def)
  ultimately show ?thesis
    by (auto simp: probe_group_scalar_def scalar_lane_loop bucket_is_empty_def GROUP_SIZE_def
        intro!: lane_loop_cong)
qed

section \<open>Vector lanes\<close>

lemma length_table_words [simp]: "length (table_words table) = 2 * length table"
  by (induction table) (simp_all add: table_words_def)

lemma table_words_nth: "p < length table \<Longrightarrow> table_words table ! (2 * p) = bk_fingerprint (table ! p)"
proof (induction table arbitrary: p)
  case Nil
  then show ?case by simp
next
  case (Cons b table)
  then show ?case by (cases p) (simp_all add: table_words_def)
qed

lemma lanes_cmpeq_nth:
  "i < length a \<Longrightarrow> i < length b \<Longrightarrow> lanes_cmpeq a b ! i = (if a ! i = b ! i then - 1 else 0)"
  by (simp add: lanes_cmpeq_def)

lemma movemask_bit:
  "bit (mm256_movemask_epi8 v) n \<longleftrightarrow> n < 32 \<and> bit (v ! (n div 4)) (8 * (n mod 4) + 7)"
  by (auto simp: mm256_movemask_epi8_def bit_horner_sum_bit_word_iff)

lemma nonzero_bit: "(x :: u32) \<noteq> 0 \<Longrightarrow> \<exists>n. bit x n"
  by (auto simp: bit_eq_iff)

text \<open>A four-bit group of the byte mask tells whether its lane is set.\<close>

lemma movemask_lane:
  assumes lane: "lane < 8" and v: "v ! lane = 0 \<or> v ! lane = - 1"
  shows "mm256_movemask_epi8 v AND push_bit (lane * 4) 0xF \<noteq> 0 \<longleftrightarrow> v ! lane \<noteq> 0"
proof
  assume "mm256_movemask_epi8 v AND push_bit (lane * 4) 0xF \<noteq> 0"
  then obtain n where "bit (mm256_movemask_epi8 v AND push_bit (lane * 4) 0xF) n"
    using nonzero_bit by blast
  then have n: "bit (mm256_movemask_epi8 v) n" "bit (push_bit (lane * 4) (0xF :: u32)) n"
    unfolding bit_and_iff by blast+
  have F: "(0xF :: u32) = mask 4" by (simp add: mask_eq_exp_minus_1)
  from n(2) have "lane * 4 \<le> n" "n - lane * 4 < 4"
    unfolding F by (auto simp: bit_push_bit_iff bit_mask_iff)
  then have "n div 4 = lane" by auto
  with n(1) show "v ! lane \<noteq> 0" by (auto simp: movemask_bit)
next
  assume "v ! lane \<noteq> 0"
  with v have "v ! lane = - 1" by simp
  then have "bit (mm256_movemask_epi8 v) (lane * 4)"
    using lane by (simp add: movemask_bit bit_minus_1_iff)
  moreover have "bit (push_bit (lane * 4) (0xF :: u32)) (lane * 4)"
    using lane by (simp add: bit_push_bit_iff)
  ultimately have "bit (mm256_movemask_epi8 v AND push_bit (lane * 4) 0xF) (lane * 4)"
    by (simp add: bit_and_iff)
  then show "mm256_movemask_epi8 v AND push_bit (lane * 4) 0xF \<noteq> 0" by auto
qed

lemma lane_cases: "i < (8::nat) \<Longrightarrow> i = 0 \<or> i = 1 \<or> i = 2 \<or> i = 3 \<or> i = 4 \<or> i = 5 \<or> i = 6 \<or> i = 7"
  by auto

text \<open>The shuffle and the half permutation collect the eight fingerprints in table order.\<close>

lemma gather_fingerprints:
  assumes "pos + 8 \<le> length table" and "i < 8"
  shows "mm256_permute2x128
      (mm256_permutevar8x32 (mm256_loadu (table_words table) (2 * pos)) [0, 2, 4, 6, 0, 2, 4, 6])
      (mm256_permutevar8x32 (mm256_loadu (table_words table) (2 * pos + 8)) [0, 2, 4, 6, 0, 2, 4, 6])
      0x20 ! i = bk_fingerprint (table ! (pos + i))"
proof -
  have w: "table_words table ! (2 * pos + 2 * j) = bk_fingerprint (table ! (pos + j))" if "j < 8" for j
    using table_words_nth [of "pos + j" table] assms(1) that by (simp add: algebra_simps)
  have "\<not> bit (0x20 :: nat) 3" "\<not> bit (0x20 :: nat) 7"
    by (simp_all add: bit_iff_odd)
  then show ?thesis
    using lane_cases [OF assms(2)] assms(1) w [of 0] w [of 1] w [of 2] w [of 3]
      w [of 4] w [of 5] w [of 6] w [of 7]
    by (auto simp: mm256_permute2x128_def mm256_half_def mm256_permutevar8x32_def mm256_loadu_def
        bslice_nth add.assoc)
qed

lemma gather_length:
  "length (mm256_permute2x128 (mm256_permutevar8x32 a [0, 2, 4, 6, 0, 2, 4, 6])
     (mm256_permutevar8x32 b [0, 2, 4, 6, 0, 2, 4, 6]) 0x20) = 8"
  by (simp add: mm256_permute2x128_def mm256_half_def mm256_permutevar8x32_def)

section \<open>Equivalence of the kernels\<close>

lemma movemask_cmpeq:
  assumes "length a = 8" and "i < 8"
  shows "mm256_movemask_epi8 (lanes_cmpeq a (replicate 8 x)) AND push_bit (i * 4) 0xF \<noteq> 0 \<longleftrightarrow> a ! i = x"
  using assms by (subst movemask_lane) (auto simp: lanes_cmpeq_nth)

lemma avx2_eq_scalar:
  assumes "pos + GROUP_SIZE \<le> length table"
  shows "Ok (probe_group_avx2 table cfp pos) = probe_group_scalar table cfp pos"
proof -
  define fps where "fps = mm256_permute2x128
      (mm256_permutevar8x32 (mm256_loadu (table_words table) (2 * pos)) [0, 2, 4, 6, 0, 2, 4, 6])
      (mm256_permutevar8x32 (mm256_loadu (table_words table) (2 * pos + 8)) [0, 2, 4, 6, 0, 2, 4, 6])
      0x20"
  have len: "length fps = 8"
    unfolding fps_def by (rule gather_length)
  have nth: "fps ! i = bk_fingerprint (table ! (pos + i))" if "i < 8" for i
    using assms that unfolding fps_def by (intro gather_fingerprints) (simp_all add: GROUP_SIZE_def)
  show ?thesis
    unfolding scalar_window [OF assms] probe_group_avx2_def Let_def fps_def [symmetric] avx2_lane_loop
    by (rule arg_cong [where f = Ok], rule lane_loop_cong)
      (simp_all only: movemask_cmpeq [OF len] nth set_upt atLeastLessThan_iff)
qed

lemma vld2q_nth:
  assumes "pos + 4 \<le> length table" and "i < 4"
  shows "vld2q_u32_0 (table_words table) (2 * pos) ! i = bk_fingerprint (table ! (pos + i))"
  using assms table_words_nth [of "pos + i" table] by (simp add: vld2q_u32_0_def algebra_simps)

lemma neon_half:
  assumes "pos + base + 4 \<le> length table"
  shows "probe_neon_loop table pos base
      (lanes_cmpeq (vld2q_u32_0 (table_words table) (2 * (pos + base))) (replicate 4 cfp))
      (lanes_cmpeq (vld2q_u32_0 (table_words table) (2 * (pos + base))) (replicate 4 0)) [0..<4] r =
    lane_loop (\<lambda>i. bk_fingerprint (table ! (pos + i)) = 0)
      (\<lambda>i. bk_fingerprint (table ! (pos + i)) = cfp) (\<lambda>i. bk_offset (table ! (pos + i)))
      [base..<base + 4] r"
proof -
  let ?v = "vld2q_u32_0 (table_words table) (2 * (pos + base))"
  define v where "v = ?v"
  have len: "length v = 4" by (simp add: v_def vld2q_u32_0_def)
  have nth: "v ! (i - base) = bk_fingerprint (table ! (pos + i))" if "base \<le> i" "i < base + 4" for i
    using vld2q_nth [of "pos + base" table "i - base"] assms that by (simp add: v_def)
  have idx: "map (\<lambda>i. base + i) [0..<4] = [base..<base + 4]"
    using map_add_upt [of base 4] by (simp add: add.commute)
  show ?thesis
    unfolding neon_lane_loop idx v_def [symmetric]
    by (rule lane_loop_cong) (auto simp: lanes_cmpeq_nth len nth split: if_splits)
qed

lemma neon_eq_scalar:
  assumes "pos + GROUP_SIZE \<le> length table"
  shows "Ok (probe_group_neon table cfp pos) = probe_group_scalar table cfp pos"
proof -
  have "pos + 0 + 4 \<le> length table" "pos + 4 + 4 \<le> length table"
    using assms by (simp_all add: GROUP_SIZE_def)
  note halves = neon_half [OF this(1)] neon_half [OF this(2)]
  have "[0..<8] = [0..<0 + 4] @ [4..<4 + (4::nat)]"
    by (simp add: upt_conv_Cons)
  then show ?thesis
    using halves by (simp only: scalar_window [OF assms] probe_group_neon_def Let_def
        lane_loop_append add_0_right) (simp add: ProbeResult_init_def lane_loop_append Let_def)
qed

lemma probe_group_target:
  "probe_group t table cfp pos = probe_group_scalar table cfp pos"
  by (cases t) (auto simp: avx2_eq_scalar neon_eq_scalar)

end
