(* ===== verification/Data_File.thy ===== *)
theory Data_File
  imports V4_Index
begin

text \<open>
  \<open>mcfreeze-format/src/data.rs\<close>: the aligned value writer and the positioned reads, with the
  alignment arithmetic of \<open>v4/index.rs\<close> they share.

  A file is its bytes.  The writer's inner \<open>W\<close> is the byte string written so far; writes to it
  succeed (a failing device is outside the model), reads fail at the end of the file as
  \<open>read_exact_at\<close> and \<open>read_at\<close> do.  \<open>debug_assert!\<close> is compiled out.
\<close>

section \<open>Alignment\<close>

lemma and_not_mask_bits:
  "(y :: 'a::len word) AND NOT (mask k) = push_bit k (drop_bit k y)"
  by (rule bit_eqI) (auto simp: bit_simps)

lemma unat_align_up:
  assumes k: "k < 64" and x: "unat x + 2 ^ k - 1 < 2 ^ 64"
  shows "unat (align_up (2 ^ k) x) = (unat x + 2 ^ k - 1) div 2 ^ k * 2 ^ k"
proof -
  let ?y = "x + 2 ^ k - 1 :: u64"
  have "1 \<le> unat x + 2 ^ k" by (simp add: trans_le_add2)
  then have "word_of_nat (unat x + 2 ^ k - 1) = ?y"
    by (subst of_nat_diff) simp_all
  then have y: "unat ?y = unat x + 2 ^ k - 1"
    using unat_word_of_nat_less [where 'a = 64, of "unat x + 2 ^ k - 1"] x by simp
  have "align_up (2 ^ k) x = push_bit k (drop_bit k ?y)"
    unfolding align_up_def and_not_mask_bits [symmetric] by (simp add: mask_eq_exp_minus_1)
  then have "unat (align_up (2 ^ k) x) = take_bit 64 (push_bit k (unat (drop_bit k ?y)))"
    by (simp only: unsigned_push_bit_eq) simp
  also have "unat (drop_bit k ?y) = drop_bit k (unat ?y)"
    by (rule unat_drop_bit_eq)
  also have "take_bit 64 (push_bit k (drop_bit k (unat ?y))) = take_bit 64 (unat ?y div 2 ^ k * 2 ^ k)"
    by (simp only: push_bit_eq_mult drop_bit_eq_div)
  also have "\<dots> = unat ?y div 2 ^ k * 2 ^ k"
    using unat_u64_less [of ?y] by (intro take_bit_nat_eq_self) (meson div_times_less_eq_dividend order_le_less_trans)
  finally show ?thesis by (simp add: y)
qed

definition ceil64 :: "nat \<Rightarrow> nat" where
  "ceil64 x = (x + 63) div 64 * 64"

lemma ceil64_bounds: "x \<le> ceil64 x" "ceil64 x < x + 64"
  unfolding ceil64_def by presburger+

lemma ceil64_dvd: "64 dvd ceil64 x"
  by (simp add: ceil64_def)

lemma ceil64_ge: "0 < x \<Longrightarrow> 64 \<le> ceil64 x"
  unfolding ceil64_def by presburger

lemma unat_aligned_size: "unat (aligned_size s) = ceil64 (unat s)"
proof -
  have "unat (ucast s :: u64) = unat s"
    by (rule unat_ucast_up) simp
  with unat_align_up [of 6 "ucast s"] unat_u32_less [of s] show ?thesis
    by (simp add: aligned_size_def VALUE_ALIGNMENT_def ceil64_def)
qed

section \<open>Writing values\<close>

record AlignedWriter =
  aw_inner :: bytes
  aw_byte_offset :: u64
  aw_verify_seed :: u64

definition AlignedWriter_new :: "bytes \<Rightarrow> u64 \<Rightarrow> AlignedWriter fres" where
  "AlignedWriter_new inner seed =
     (if seed = 0 then Panic
      else Ok \<lparr>aw_inner = inner, aw_byte_offset = 0, aw_verify_seed = seed\<rparr>)"

definition write_value ::
    "hash \<Rightarrow> AlignedWriter \<Rightarrow> bytes \<Rightarrow> bytes \<Rightarrow> (AlignedWriter \<times> u64 \<times> u32) fres" where
  "write_value xxh64 w key val =
     (let aligned_offset = aw_byte_offset w div word_of_nat VALUE_ALIGNMENT;
          vfp = verify_fingerprint xxh64 key (aw_verify_seed w);
          len32 = word_of_nat (length val) :: u32;
          inner1 = aw_inner w @ u64_le vfp @ u32_le len32 @ val;
          on_disk_size = word_of_nat VALUE_HEADER_SIZE + len32;
          padded = aligned_size on_disk_size;
          pad_len = unat (padded - ucast on_disk_size)
      in if VALUE_ALIGNMENT < pad_len then Panic
         else Ok (w\<lparr>aw_inner := inner1 @ replicate pad_len 0,
                    aw_byte_offset := aw_byte_offset w + padded\<rparr>,
                  aligned_offset, on_disk_size))"

definition aligned_finish :: "AlignedWriter \<Rightarrow> bytes" where
  "aligned_finish w = aw_inner w"

section \<open>Positioned reads\<close>

definition pread :: "bytes \<Rightarrow> u64 \<Rightarrow> u32 \<Rightarrow> bytes fres" where
  "pread file byte_offset size' =
     (if unat byte_offset + unat size' \<le> length file \<or> size' = 0
      then Ok (bslice (unat byte_offset) (unat size') file)
      else Err (Io (IoError UnexpectedEof ''failed to fill whole buffer'')))"

definition pread_up_to :: "bytes \<Rightarrow> u64 \<Rightarrow> u32 \<Rightarrow> bytes fres" where
  "pread_up_to file byte_offset size' = Ok (bslice (unat byte_offset) (unat size') file)"

section \<open>The writer's invariant\<close>

text \<open>The recorded offset is the position in the file, a multiple of the alignment.\<close>

definition aw_inv :: "AlignedWriter \<Rightarrow> bool" where
  "aw_inv w \<longleftrightarrow> unat (aw_byte_offset w) = length (aw_inner w) \<and> 64 dvd length (aw_inner w)"

text \<open>The record of one value: header, bytes, zero padding.\<close>

definition value_record :: "hash \<Rightarrow> u64 \<Rightarrow> bytes \<Rightarrow> bytes \<Rightarrow> bytes" where
  "value_record xxh64 seed key val =
     u64_le (verify_fingerprint xxh64 key seed) @ u32_le (word_of_nat (length val)) @ val @
     replicate (ceil64 (12 + length val) - (12 + length val)) 0"

lemma length_value_record [simp]: "length (value_record xxh64 seed key val) = ceil64 (12 + length val)"
  using ceil64_bounds [of "12 + length val"] by (simp add: value_record_def)

lemma pad_len_eq: "unat (aligned_size s - ucast s) = ceil64 (unat s) - unat s"
proof -
  have u: "unat (ucast s :: u64) = unat s" by (rule unat_ucast_up) simp
  then have "(ucast s :: u64) \<le> aligned_size s"
    using ceil64_bounds [of "unat s"] by (simp add: word_le_nat_alt unat_aligned_size)
  then show ?thesis
    by (simp add: unat_sub unat_aligned_size u)
qed

lemma write_value_eq:
  "\<exists>w' o32. write_value xxh64 w key val = Ok (w', aw_byte_offset w div 64, o32)"
proof -
  let ?s = "word_of_nat VALUE_HEADER_SIZE + word_of_nat (length val) :: u32"
  have "unat (aligned_size ?s - ucast ?s) \<le> VALUE_ALIGNMENT"
    using ceil64_bounds [of "unat ?s"] by (simp add: pad_len_eq VALUE_ALIGNMENT_def)
  then show ?thesis
    by (simp add: write_value_def Let_def VALUE_ALIGNMENT_def)
qed

lemma write_value_record:
  assumes "12 + length val < 2 ^ 32"
  shows "write_value xxh64 w key val =
    Ok (w\<lparr>aw_inner := aw_inner w @ value_record xxh64 (aw_verify_seed w) key val,
          aw_byte_offset := aw_byte_offset w + word_of_nat (ceil64 (12 + length val))\<rparr>,
        aw_byte_offset w div 64, word_of_nat (12 + length val))"
proof -
  let ?s = "word_of_nat (12 + length val) :: u32"
  have s: "unat ?s = 12 + length val"
    using assms by (intro unat_word_of_nat_less) simp
  have "aligned_size ?s = word_of_nat (ceil64 (12 + length val))"
    using ceil64_bounds [of "12 + length val"] assms
    by (subst word_unat_eq_iff, subst unat_word_of_nat_less) (simp_all add: unat_aligned_size s del: of_nat_add)
  moreover have "unat (aligned_size ?s - ucast ?s) = ceil64 (12 + length val) - (12 + length val)"
    by (simp add: pad_len_eq s del: of_nat_add)
  moreover have "(word_of_nat VALUE_HEADER_SIZE + word_of_nat (length val) :: u32) = ?s"
    by (simp add: VALUE_HEADER_SIZE_def)
  moreover have "\<not> VALUE_ALIGNMENT < ceil64 (12 + length val) - (12 + length val)"
    using ceil64_bounds [of "12 + length val"] by (simp add: VALUE_ALIGNMENT_def)
  ultimately show ?thesis
    by (simp only: write_value_def Let_def value_record_def if_False append_assoc)
      (simp add: VALUE_ALIGNMENT_def)
qed

lemma write_value_inv:
  assumes "aw_inv w" and "12 + length val < 2 ^ 32"
    and "length (aw_inner w) + ceil64 (12 + length val) < 2 ^ 64"
    and "write_value xxh64 w key val = Ok (w', off, sz)"
  shows "aw_inv w' \<and> unat off * 64 = length (aw_inner w) \<and> aw_verify_seed w' = aw_verify_seed w \<and>
    aw_inner w' = aw_inner w @ value_record xxh64 (aw_verify_seed w) key val"
proof -
  let ?r = "value_record xxh64 (aw_verify_seed w) key val"
  have w': "w' = w\<lparr>aw_inner := aw_inner w @ ?r,
      aw_byte_offset := aw_byte_offset w + word_of_nat (ceil64 (12 + length val))\<rparr>"
    and off: "off = aw_byte_offset w div 64"
    using assms(4) unfolding write_value_record [OF assms(2)] by auto
  have "unat (word_of_nat (ceil64 (12 + length val)) :: u64) = ceil64 (12 + length val)"
    using assms(3) by (intro unat_word_of_nat_less) simp
  then have "unat (aw_byte_offset w + word_of_nat (ceil64 (12 + length val))) =
      length (aw_inner w) + ceil64 (12 + length val)"
    using assms by (simp add: unat_word_ariths aw_inv_def)
  moreover have "unat off * 64 = length (aw_inner w)"
    using assms(1) by (simp add: off aw_inv_def unat_div)
  ultimately show ?thesis
    using assms(1) by (simp add: w' aw_inv_def ceil64_dvd)
qed

section \<open>Files and lookup outcomes\<close>

text \<open>
  A file system maps paths to file contents; opening a missing file is \<open>NotFound\<close>.
  \<open>GetOutcome\<close> is the answer both formats give (\<open>snapshot.rs\<close>).
\<close>

type_synonym files = "path \<rightharpoonup> bytes"

definition file_open :: "files \<Rightarrow> path \<Rightarrow> bytes fres" where
  "file_open fs p = (case fs p of Some bs \<Rightarrow> Ok bs | None \<Rightarrow> Err (Io (IoError NotFound [])))"

datatype GetOutcome = Hit bytes | Miss bool

lemma path_join_inject [simp]: "path_join d s = path_join d' s' \<longleftrightarrow> d = d' \<and> s = s'"
  by (auto simp: path_join_def)

end
