(* ===== verification/V4_Reader.thy ===== *)
theory V4_Reader
  imports V4_Robin_Hood V4_Probe Data_File
begin

text \<open>
  \<open>mcfreeze-format/src/v4/reader.rs\<close>: the partition lookup (group probe, speculative read,
  verification of the stored fingerprint) and the snapshot reader that routes a key to its
  partition.

  The lookup is proved against the set of candidates of the table: a reader finds an entry
  whenever one of the buckets carrying the key's compact fingerprint verifies, and misses
  otherwise; the \<open>io\<close> flag of a miss says exactly whether a candidate existed.
\<close>

section \<open>Partition reader\<close>

record PartitionReader =
  pr_buckets :: "Bucket list"
  pr_data :: bytes
  pr_verify_seed :: u64

definition PAGE_SIZE :: u64 where
  "PAGE_SIZE = 4096"

definition read_and_verify :: "bytes \<Rightarrow> u64 \<Rightarrow> u64 \<Rightarrow> bytes option fres" where
  "read_and_verify file byte_offset expected_vfp =
     (let page_remaining = PAGE_SIZE - (byte_offset mod PAGE_SIZE);
          speculative_size = ucast page_remaining :: u32
      in rbind (pread_up_to file byte_offset speculative_size) (\<lambda>first_read.
         if length first_read < VALUE_HEADER_SIZE
         then Err (Io (IoError UnexpectedEof ''short read: value header truncated''))
         else
           let stored_vfp = u64_of_le (bslice 0 8 first_read)
           in if stored_vfp \<noteq> expected_vfp then Ok None
              else
                let byte_len = unat (u32_of_le (bslice 8 4 first_read));
                    on_disk_size = VALUE_HEADER_SIZE + byte_len
                in if on_disk_size \<le> length first_read
                   then Ok (Some (bslice VALUE_HEADER_SIZE byte_len first_read))
                   else if on_disk_size > U32_MAX then Ok None
                   else
                     let total = ucast (aligned_size (word_of_nat on_disk_size)) :: u32
                     in rbind (pread file byte_offset total) (\<lambda>raw.
                        if length raw < VALUE_HEADER_SIZE + byte_len then Panic
                        else Ok (Some (bslice VALUE_HEADER_SIZE byte_len raw)))))"

text \<open>The inner \<open>for\<close> loop over the eight lanes: the value found, and \<open>had_candidate\<close>.\<close>

fun scan_group ::
    "(u64 \<Rightarrow> bytes option fres) \<Rightarrow> u32 list \<Rightarrow> bool \<Rightarrow> (bytes option \<times> bool) fres" where
  "scan_group rv [] had = Ok (None, had)"
| "scan_group rv (off # offs) had =
     (if off = NO_MATCH then scan_group rv offs had
      else rbind (rv (ucast off * word_of_nat VALUE_ALIGNMENT)) (\<lambda>r.
           case r of Some v \<Rightarrow> Ok (Some v, True) | None \<Rightarrow> scan_group rv offs True))"

function get_loop ::
    "target \<Rightarrow> Bucket list \<Rightarrow> (u64 \<Rightarrow> bytes option fres) \<Rightarrow> u32 \<Rightarrow> nat \<Rightarrow> nat \<Rightarrow> bool
       \<Rightarrow> GetOutcome fres" where
  "get_loop arch table rv cfp pos steps had =
     (if \<not> steps < length table then Ok (Miss had)
      else rbind (probe_group arch table cfp pos) (\<lambda>result.
           rbind (scan_group rv (pr_offsets result) had) (\<lambda>(found, had').
           case found of
             Some v \<Rightarrow> Ok (Hit v)
           | None \<Rightarrow>
               if pr_done result then Ok (Miss had')
               else get_loop arch table rv cfp ((pos + GROUP_SIZE) mod length table)
                      (steps + GROUP_SIZE) had')))"
  by pat_completeness auto
termination
  by (relation "measure (\<lambda>(arch, table, rv, cfp, pos, steps, had). length table - steps)")
    (auto simp: GROUP_SIZE_def)

declare get_loop.simps [simp del]

definition partition_get ::
    "target \<Rightarrow> hash \<Rightarrow> PartitionReader \<Rightarrow> bytes \<Rightarrow> u64 \<Rightarrow> GetOutcome fres" where
  "partition_get arch xxh64 r key fp =
     (let n = length (pr_buckets r)
      in if n = 0 then Ok (Miss False)
         else get_loop arch (pr_buckets r)
                (\<lambda>byte_offset. read_and_verify (pr_data r) byte_offset
                   (verify_fingerprint xxh64 key (pr_verify_seed r)))
                (compact_fingerprint fp) (home_position fp n) 0 False)"

section \<open>Snapshot reader\<close>

text \<open>The kernel's answer to the populate hint is a parameter: \<open>None\<close> when it succeeds.\<close>

record SnapshotReader =
  sr_layout :: Layout
  sr_verify_seed :: u64
  sr_index_mmap :: bytes
  sr_data_files :: "bytes list"
  sr_ranges :: "(u64 \<times> u64) list"

definition populate_result :: "io_error option \<Rightarrow> unit fres" where
  "populate_result r =
     (case r of
        None \<Rightarrow> Ok ()
      | Some (IoError k msg) \<Rightarrow>
          if k = InvalidInput \<or> k = Unsupported then Ok () else Err (Io (IoError k msg)))"

definition SnapshotReader_open ::
    "io_error option \<Rightarrow> files \<Rightarrow> path \<Rightarrow> Meta \<Rightarrow> SnapshotReader fres" where
  "SnapshotReader_open populate fs root meta =
     rbind (Meta_layout meta) (\<lambda>layout.
     rbind (file_open fs (index_path root)) (\<lambda>index_mmap.
     rbind (populate_result populate) (\<lambda>_.
     rbind (mapR (\<lambda>(i, pm).
              rmap (\<lambda>f. (f, index_offset pm, index_n_buckets pm))
                (file_open fs (path_join (partition_dir root (n_partitions layout) i) ''data.bin'')))
            (enumerate 0 (partitions meta))) (\<lambda>parts.
     Ok \<lparr>sr_layout = layout, sr_verify_seed = verify_seed meta, sr_index_mmap = index_mmap,
         sr_data_files = map fst parts, sr_ranges = map snd parts\<rparr>))))"

text \<open>
  \<open>&mmap[offset..offset + n * 8]\<close> and \<open>cast_slice\<close>: the sum wraps in \<open>usize\<close>, an
  out-of-range slice panics, and so does a slice that is not aligned for \<open>Bucket\<close> (the mapping
  itself is page-aligned).
\<close>

definition bucket_table :: "bytes \<Rightarrow> u64 \<Rightarrow> u64 \<Rightarrow> Bucket list fres" where
  "bucket_table mmap lo n =
     (let hi = lo + n * 8
      in if unat hi < unat lo \<or> length mmap < unat hi \<or> unat lo mod 4 \<noteq> 0 \<or>
            (unat hi - unat lo) mod 8 \<noteq> 0 then Panic
         else Ok (map bucket_of_bytes
                    (chunks 8 ((unat hi - unat lo) div 8) (bslice (unat lo) (unat hi - unat lo) mmap))))"

definition reader_partition :: "SnapshotReader \<Rightarrow> nat \<Rightarrow> PartitionReader fres" where
  "reader_partition s idx =
     (if \<not> (idx < length (sr_ranges s) \<and> idx < length (sr_data_files s)) then Panic
      else rbind (bucket_table (sr_index_mmap s) (fst (sr_ranges s ! idx)) (snd (sr_ranges s ! idx)))
        (\<lambda>bs. Ok \<lparr>pr_buckets = bs, pr_data = sr_data_files s ! idx,
                  pr_verify_seed = sr_verify_seed s\<rparr>))"

definition SnapshotReader_get ::
    "target \<Rightarrow> hash \<Rightarrow> SnapshotReader \<Rightarrow> bytes \<Rightarrow> GetOutcome fres" where
  "SnapshotReader_get arch xxh64 s key =
     (let fp = fingerprint xxh64 key
      in rbind (reader_partition s (partition_of (sr_layout s) fp)) (\<lambda>p.
         partition_get arch xxh64 p key fp))"

section \<open>What a lookup scans\<close>

text \<open>\<open>slot table h j\<close> is the \<open>j\<close>-th slot of the probe sequence from \<open>h\<close>.\<close>

definition slot :: "Bucket list \<Rightarrow> nat \<Rightarrow> nat \<Rightarrow> Bucket" where
  "slot table h j = table ! ((h + j) mod length table)"

text \<open>\<open>reached\<close>: no empty slot up to and including the \<open>j\<close>-th.\<close>

definition reached :: "Bucket list \<Rightarrow> nat \<Rightarrow> nat \<Rightarrow> bool" where
  "reached table h j \<longleftrightarrow> (\<forall>i \<le> j. \<not> bucket_is_empty (slot table h i))"

definition candidates :: "Bucket list \<Rightarrow> u32 \<Rightarrow> u32 set" where
  "candidates table cfp = bk_offset ` {b \<in> set table. \<not> bucket_is_empty b \<and> bk_fingerprint b = cfp}"

lemma lane_loop_length [simp]: "length (pr_offsets (lane_loop e m off is r)) = length (pr_offsets r)"
  by (induction "is" arbitrary: r) auto

lemma lane_loop_set:
  "set (pr_offsets (lane_loop e m off is r)) \<subseteq>
     set (pr_offsets r) \<union> {off i | i. i \<in> set is \<and> \<not> e i \<and> m i}"
proof (induction "is" arbitrary: r)
  case Nil
  then show ?case by simp
next
  case (Cons i "is")
  show ?case
  proof (cases "e i")
    case True
    then show ?thesis by auto
  next
    case False
    let ?r = "if m i then r\<lparr>pr_offsets := (pr_offsets r)[i := off i]\<rparr> else r"
    have "set (pr_offsets ?r) \<subseteq> set (pr_offsets r) \<union> {off j | j. j \<in> set (i # is) \<and> \<not> e j \<and> m j}"
      using False set_update_subset_insert [of "pr_offsets r" i "off i"] by auto
    with Cons.IH [of ?r] False show ?thesis by auto
  qed
qed

lemma lane_loop_keeps:
  assumes "i \<notin> set is"
  shows "pr_offsets (lane_loop e m off is r) ! i = pr_offsets r ! i"
  using assms by (induction "is" arbitrary: r) auto

lemma lane_loop_hit:
  assumes "distinct (xs @ i # ys)" and "i < length (pr_offsets r)" and "m i" and "\<not> e i"
    and "\<forall>x \<in> set xs. \<not> e x"
  shows "pr_offsets (lane_loop e m off (xs @ i # ys) r) ! i = off i"
  using assms
proof (induction xs arbitrary: r)
  case Nil
  then show ?case by (simp add: lane_loop_keeps)
next
  case (Cons x xs)
  then show ?case by simp
qed

text \<open>The lanes of one group: every offset comes from a match, and every reached match is there.\<close>

lemma group_sound:
  assumes "probe_group arch table cfp ((h + steps) mod length table) = Ok result" and "table \<noteq> []"
  shows "set (pr_offsets result) \<subseteq> insert NO_MATCH (candidates table cfp)"
    and "pr_done result \<longleftrightarrow> (\<exists>i < 8. bucket_is_empty (slot table h (steps + i)))"
    and "\<lbrakk>i < 8; \<forall>k \<le> i. \<not> bucket_is_empty (slot table h (steps + k));
      bk_fingerprint (slot table h (steps + i)) = cfp\<rbrakk>
      \<Longrightarrow> bk_offset (slot table h (steps + i)) \<in> set (pr_offsets result)"
proof -
  have idx: "((h + steps) mod length table + i) mod length table = (h + (steps + i)) mod length table" for i
    by (simp add: mod_simps add.assoc)
  have res: "result = lane_loop (\<lambda>i. bucket_is_empty (slot table h (steps + i)))
      (\<lambda>i. bk_fingerprint (slot table h (steps + i)) = cfp) (\<lambda>i. bk_offset (slot table h (steps + i)))
      [0..<8] ProbeResult_init"
    using assms by (simp add: probe_group_target probe_group_scalar_def scalar_lane_loop idx slot_def
        GROUP_SIZE_def)
  have mem: "slot table h j \<in> set table" for j
    using assms(2) by (simp add: slot_def)
  show "set (pr_offsets result) \<subseteq> insert NO_MATCH (candidates table cfp)"
    using lane_loop_set [of _ _ _ "[0..<8]" ProbeResult_init] mem unfolding res
    by (fastforce simp: ProbeResult_init_def GROUP_SIZE_def candidates_def)
  show "pr_done result \<longleftrightarrow> (\<exists>i < 8. bucket_is_empty (slot table h (steps + i)))"
    unfolding res by (subst lane_loop_done) (auto simp: ProbeResult_init_def)
  assume i: "i < 8" and full: "\<forall>k \<le> i. \<not> bucket_is_empty (slot table h (steps + k))"
    and fp: "bk_fingerprint (slot table h (steps + i)) = cfp"
  have split: "[0..<8] = [0..<i] @ i # [Suc i..<8]"
    using i upt_add_eq_append [of 0 i "8 - i"] by (simp add: upt_conv_Cons)
  have "pr_offsets result ! i = bk_offset (slot table h (steps + i))"
    unfolding res split using i full fp
    by (intro lane_loop_hit) (auto simp: ProbeResult_init_def GROUP_SIZE_def)
  moreover have "i < length (pr_offsets result)"
    using i by (simp add: res ProbeResult_init_def GROUP_SIZE_def)
  ultimately show "bk_offset (slot table h (steps + i)) \<in> set (pr_offsets result)"
    by (metis nth_mem)
qed

lemma scan_group_append:
  "scan_group rv (xs @ ys) had =
     rbind (scan_group rv xs had) (\<lambda>(found, had').
       case found of Some v \<Rightarrow> Ok (Some v, True) | None \<Rightarrow> scan_group rv ys had')"
  by (induction xs arbitrary: had) (auto simp: rbind_assoc intro!: rbind_cong split: option.split)

lemma scan_found_had: "scan_group rv xs had = Ok (Some v, h) \<Longrightarrow> h"
  by (induction xs arbitrary: had) (auto simp: res_simps split: if_splits option.splits)

definition outcome_of :: "bytes option \<times> bool \<Rightarrow> GetOutcome" where
  "outcome_of r = (case r of (Some v, _) \<Rightarrow> Hit v | (None, had) \<Rightarrow> Miss had)"

text \<open>
  The whole loop is one scan over a list of lanes that contains every reached match and nothing
  but candidates.
\<close>

lemma get_loop_scan:
  assumes "table \<noteq> []" and "\<forall>i < steps. \<not> bucket_is_empty (slot table h i)"
  shows "\<exists>offs. get_loop arch table rv cfp ((h + steps) mod length table) steps had =
      rmap outcome_of (scan_group rv offs had) \<and>
    set offs \<subseteq> insert NO_MATCH (candidates table cfp) \<and>
    (\<forall>j. steps \<le> j \<and> j < length table \<and> reached table h j \<and> bk_fingerprint (slot table h j) = cfp
      \<longrightarrow> bk_offset (slot table h j) \<in> set offs)"
  using assms(2)
proof (induction "length table - steps" arbitrary: steps had rule: less_induct)
  case less
  let ?pos = "(h + steps) mod length table"
  show ?case
  proof (cases "steps < length table")
    case False
    then have "get_loop arch table rv cfp ?pos steps had = rmap outcome_of (scan_group rv [] had)"
      by (simp add: get_loop.simps [of arch table] outcome_of_def)
    with False show ?thesis by (intro exI [of _ "[]"]) auto
  next
    case True
    obtain result where result: "probe_group arch table cfp ?pos = Ok result"
      using assms(1) by (simp add: probe_group_target probe_group_scalar_def)
    note g = group_sound [OF result assms(1)]
    show ?thesis
    proof (cases "pr_done result")
      case fin: True
      have "bk_offset (slot table h j) \<in> set (pr_offsets result)"
        if j: "steps \<le> j" "reached table h j" "bk_fingerprint (slot table h j) = cfp" for j
      proof -
        obtain e where e: "e < 8" "bucket_is_empty (slot table h (steps + e))"
          using g(2) fin by blast
        then have "j < steps + e" using j(2) by (meson reached_def not_less)
        then show ?thesis
          using g(3) [of "j - steps"] j e(1) by (auto simp: reached_def)
      qed
      moreover have "get_loop arch table rv cfp ?pos steps had =
          rmap outcome_of (scan_group rv (pr_offsets result) had)"
        using True fin result
        by (cases "scan_group rv (pr_offsets result) had")
          (auto simp: get_loop.simps [of arch table] outcome_of_def split: option.split)
      ultimately show ?thesis using g(1) by blast
    next
      case False
      let ?steps = "steps + GROUP_SIZE"
      have full: "\<forall>i < ?steps. \<not> bucket_is_empty (slot table h i)"
      proof (intro allI impI)
        fix i
        assume "i < ?steps"
        then show "\<not> bucket_is_empty (slot table h i)"
          using less.prems g(2) False by (cases "i < steps") (auto simp: GROUP_SIZE_def
            dest!: spec [of _ "i - steps"])
      qed
      have "length table - ?steps < length table - steps"
        using True by (simp add: GROUP_SIZE_def)
      from less.hyps [OF this full] obtain rest where
        rest: "\<And>had. get_loop arch table rv cfp ((h + ?steps) mod length table) ?steps had =
            rmap outcome_of (scan_group rv (rest had) had)"
          "\<And>had. set (rest had) \<subseteq> insert NO_MATCH (candidates table cfp)"
          "\<And>had j. \<lbrakk>?steps \<le> j; j < length table; reached table h j;
             bk_fingerprint (slot table h j) = cfp\<rbrakk> \<Longrightarrow> bk_offset (slot table h j) \<in> set (rest had)"
        by metis
      have next_pos: "(?pos + GROUP_SIZE) mod length table = (h + ?steps) mod length table"
        by (simp add: mod_simps add.assoc)
      define had' where "had' = (case scan_group rv (pr_offsets result) had of Ok (_, b) \<Rightarrow> b | _ \<Rightarrow> True)"
      have eq: "get_loop arch table rv cfp ?pos steps had =
          rmap outcome_of (scan_group rv (pr_offsets result @ rest had') had)"
        using True False result
        by (cases "scan_group rv (pr_offsets result) had")
          (auto simp: get_loop.simps [of arch table _ _ ?pos] next_pos rest(1) scan_group_append
            outcome_of_def had'_def split: option.split)
      have "bk_offset (slot table h j) \<in> set (pr_offsets result @ rest had')"
        if j: "steps \<le> j" "j < length table" "reached table h j" "bk_fingerprint (slot table h j) = cfp"
        for j
      proof (cases "j < ?steps")
        case True
        then show ?thesis
          using g(3) [of "j - steps"] j by (auto simp: reached_def GROUP_SIZE_def)
      next
        case False
        then show ?thesis using rest(3) [of j had'] j by simp
      qed
      moreover have "set (pr_offsets result @ rest had') \<subseteq> insert NO_MATCH (candidates table cfp)"
        using g(1) rest(2) by simp
      ultimately show ?thesis using eq by blast
    qed
  qed
qed

section \<open>What a lookup returns\<close>

abbreviation value_addr :: "u32 \<Rightarrow> u64" where
  "value_addr off \<equiv> ucast off * word_of_nat VALUE_ALIGNMENT"

lemma scan_group_spec:
  assumes "\<forall>off \<in> set offs - {NO_MATCH}. rv (value_addr off) = Ok (content off)"
  shows "(\<exists>off v. off \<in> set offs - {NO_MATCH} \<and> content off = Some v \<and>
      scan_group rv offs had = Ok (Some v, True)) \<or>
    (\<forall>off \<in> set offs - {NO_MATCH}. content off = None) \<and>
      scan_group rv offs had = Ok (None, had \<or> set offs - {NO_MATCH} \<noteq> {})"
  using assms
proof (induction offs arbitrary: had)
  case Nil
  then show ?case by simp
next
  case (Cons off offs)
  show ?case
  proof (cases "off = NO_MATCH")
    case True
    with Cons show ?thesis by auto
  next
    case False
    with Cons.prems have rv: "rv (value_addr off) = Ok (content off)" by simp
    show ?thesis
    proof (cases "content off")
      case None
      with False rv have "scan_group rv (off # offs) had = scan_group rv offs True" by simp
      with Cons.IH [of True] Cons.prems None False show ?thesis by auto
    next
      case (Some v)
      with False rv show ?thesis by auto
    qed
  qed
qed

text \<open>Every occupied bucket is met by a probe from its home before an empty slot.\<close>

definition probe_complete :: "Bucket list \<Rightarrow> bool" where
  "probe_complete table \<longleftrightarrow>
     (\<forall>b \<in> set table. \<not> bucket_is_empty b \<longrightarrow>
        (\<exists>j < length table. slot table (home (length table) (bk_fingerprint b)) j = b \<and>
           reached table (home (length table) (bk_fingerprint b)) j))"

lemma rh_inv_probe_complete:
  assumes "rh_inv table psls"
  shows "probe_complete table"
  unfolding probe_complete_def
proof (intro ballI impI)
  fix b
  assume b: "b \<in> set table" "\<not> bucket_is_empty b"
  then obtain p where p: "p < length table" "table ! p = b" by (auto simp: in_set_conv_nth)
  let ?n = "length table" and ?d = "unat (psls ! p)"
  let ?h = "home ?n (bk_fingerprint b)"
  have at: "(?h + ?d) mod ?n = p" and run: "probed table (bk_fingerprint b) ?d"
    using assms p b(2) by (auto simp: rh_inv_def)
  have sl: "slot table ?h (?d mod ?n) = b"
    using at p by (simp add: slot_def mod_simps)
  have "\<not> bucket_is_empty (slot table ?h i)" if "i \<le> ?d mod ?n" for i
  proof (cases "i = ?d mod ?n")
    case True
    then show ?thesis using sl b(2) by simp
  next
    case False
    then have "i < ?d" using that by (meson le_neq_trans mod_less_eq_dividend order_less_le_trans)
    with run show ?thesis by (simp add: probed_def slot_def)
  qed
  moreover have "?d mod ?n < ?n" using p(1) by (intro mod_less_divisor) auto
  ultimately show "\<exists>j < ?n. slot table ?h j = b \<and> reached table ?h j"
    using sl by (auto simp: reached_def)
qed

lemma get_loop_spec:
  assumes "table \<noteq> []" and complete: "probe_complete table" and "cfp \<noteq> 0"
    and no: "NO_MATCH \<notin> candidates table cfp"
    and rv: "\<forall>off \<in> candidates table cfp. rv (value_addr off) = Ok (content off)"
  shows "(\<exists>off \<in> candidates table cfp. \<exists>v. content off = Some v \<and>
      get_loop arch table rv cfp (home (length table) cfp) 0 False = Ok (Hit v)) \<or>
    (\<forall>off \<in> candidates table cfp. content off = None) \<and>
      get_loop arch table rv cfp (home (length table) cfp) 0 False = Ok (Miss (candidates table cfp \<noteq> {}))"
proof -
  let ?h = "home (length table) cfp"
  have h0: "(?h + 0) mod length table = ?h" by (simp add: home_def)
  obtain offs where loop: "get_loop arch table rv cfp ?h 0 False = rmap outcome_of (scan_group rv offs False)"
    and sub: "set offs \<subseteq> insert NO_MATCH (candidates table cfp)"
    and all: "\<And>j. \<lbrakk>j < length table; reached table ?h j; bk_fingerprint (slot table ?h j) = cfp\<rbrakk>
      \<Longrightarrow> bk_offset (slot table ?h j) \<in> set offs"
    using get_loop_scan [OF assms(1), of 0 ?h arch rv cfp False] unfolding h0 by auto
  have "candidates table cfp \<subseteq> set offs"
    using complete all by (fastforce simp: candidates_def probe_complete_def)
  with sub no have eq: "set offs - {NO_MATCH} = candidates table cfp" by auto
  show ?thesis
    using scan_group_spec [of offs rv content False] rv unfolding eq loop
    by (auto simp: outcome_of_def)
qed

lemma compact_fingerprint_nonzero [simp]: "compact_fingerprint fp \<noteq> 0"
  by (simp add: compact_fingerprint_def Let_def)

lemma home_position_home: "home_position fp n = home n (compact_fingerprint fp)"
  by (simp add: home_position_def home_def)

section \<open>The interface between the index and the lookup\<close>

text \<open>
  What the reader relies on: a builder of tables that, when it returns, has stored exactly the
  given entries where a probe meets them.
\<close>

locale index_builder =
  fixes build_index :: "Bucket list \<Rightarrow> (Bucket list \<times> nat) fres option"
  assumes built: "\<lbrakk>build_index es = Some y; valid_entries es\<rbrakk> \<Longrightarrow>
    \<exists>table k. y = Ok (table, k) \<and> probe_complete table \<and> mset (occupied table) = mset es"
begin

lemma built_candidates:
  assumes "build_index es = Some (Ok (table, k))" and "valid_entries es"
  shows "candidates table cfp = bk_offset ` {e \<in> set es. bk_fingerprint e = cfp}"
proof -
  have "set (occupied table) = set es"
    using built [OF assms] by (metis Pair_inject mset_eq_setD res.inject(1))
  then have "{b \<in> set table. \<not> bucket_is_empty b \<and> bk_fingerprint b = cfp} =
      {e \<in> set es. bk_fingerprint e = cfp}"
    by (auto simp: occupied_def)
  then show ?thesis by (simp add: candidates_def)
qed

lemma lookup_built:
  assumes b: "build_index es = Some (Ok (table, k))" and v: "valid_entries es"
    and no: "\<forall>e \<in> set es. bk_offset e \<noteq> NO_MATCH"
    and rv: "\<And>e. e \<in> set es \<Longrightarrow> bk_fingerprint e = compact_fingerprint fp \<Longrightarrow>
      read_and_verify file (bucket_byte_offset e) (verify_fingerprint xxh64 key seed) =
        Ok (content (bk_offset e))"
  defines "C \<equiv> {e \<in> set es. bk_fingerprint e = compact_fingerprint fp}"
  shows "(\<exists>e \<in> C. \<exists>v. content (bk_offset e) = Some v \<and>
      partition_get arch xxh64 \<lparr>pr_buckets = table, pr_data = file, pr_verify_seed = seed\<rparr> key fp
        = Ok (Hit v)) \<or>
    (\<forall>e \<in> C. content (bk_offset e) = None) \<and>
      partition_get arch xxh64 \<lparr>pr_buckets = table, pr_data = file, pr_verify_seed = seed\<rparr> key fp
        = Ok (Miss (C \<noteq> {}))"
proof -
  let ?cfp = "compact_fingerprint fp"
  note cand = built_candidates [OF b v, of ?cfp, folded C_def]
  have complete: "probe_complete table" and occ: "mset (occupied table) = mset es"
    using built [OF b v] by auto
  show ?thesis
  proof (cases "table = []")
    case True
    with occ have "C = {}" by (auto simp: C_def occupied_def)
    with True show ?thesis by (simp add: partition_get_def)
  next
    case False
    have "NO_MATCH \<notin> candidates table ?cfp"
      using no unfolding cand by (auto simp: C_def)
    moreover have "\<forall>off \<in> candidates table ?cfp.
        read_and_verify file (value_addr off) (verify_fingerprint xxh64 key seed) = Ok (content off)"
      using rv unfolding cand by (auto simp: C_def bucket_byte_offset_def)
    ultimately have "(\<exists>off \<in> candidates table ?cfp. \<exists>v. content off = Some v \<and>
        partition_get arch xxh64 \<lparr>pr_buckets = table, pr_data = file, pr_verify_seed = seed\<rparr> key fp = Ok (Hit v)) \<or>
      (\<forall>off \<in> candidates table ?cfp. content off = None) \<and>
        partition_get arch xxh64 \<lparr>pr_buckets = table, pr_data = file, pr_verify_seed = seed\<rparr> key fp
          = Ok (Miss (candidates table ?cfp \<noteq> {}))"
      using get_loop_spec [OF False complete compact_fingerprint_nonzero] False
      by (simp add: partition_get_def Let_def home_position_home)
    then show ?thesis unfolding cand by auto
  qed
qed

end

interpretation robin_hood: index_builder build
proof unfold_locales
  fix es y
  assume "build es = Some y" and "valid_entries es"
  then show "\<exists>table k. y = Ok (table, k) \<and> probe_complete table \<and> mset (occupied table) = mset es"
    by (elim build_correct) (auto intro: rh_inv_probe_complete)
qed

section \<open>Reading back a written value\<close>

lemma header_slices:
  "bslice 0 8 (u64_le a @ u32_le b @ rest) = u64_le a"
  "bslice 8 4 (u64_le a @ u32_le b @ rest) = u32_le b"
  "bslice 12 (length v) (u64_le a @ u32_le b @ v @ rest) = v"
  by (simp_all add: bslice_def)

text \<open>The speculative size: at least one alignment unit, at most a page.\<close>

lemma speculative_size:
  assumes "64 dvd unat off"
  shows "64 \<le> unat (ucast (PAGE_SIZE - (off mod PAGE_SIZE)) :: u32)"
    and "unat (ucast (PAGE_SIZE - (off mod PAGE_SIZE)) :: u32) \<le> 4096"
proof -
  let ?m = "unat off mod 4096"
  have m: "?m < 4096" by simp
  have "64 dvd ?m" using assms by (simp add: dvd_mod)
  with m have m': "?m \<le> 4032" by (auto elim!: dvdE)
  have mod: "unat (off mod PAGE_SIZE) = ?m" by (simp add: PAGE_SIZE_def unat_mod)
  then have "off mod PAGE_SIZE \<le> PAGE_SIZE"
    using m by (simp add: word_le_nat_alt PAGE_SIZE_def)
  then have "unat (PAGE_SIZE - (off mod PAGE_SIZE)) = 4096 - ?m"
    using mod by (simp add: unat_sub PAGE_SIZE_def)
  then have "unat (ucast (PAGE_SIZE - (off mod PAGE_SIZE)) :: u32) = 4096 - ?m"
    by (simp add: unsigned_ucast_eq take_bit_nat_eq_self)
  with m' show "64 \<le> unat (ucast (PAGE_SIZE - (off mod PAGE_SIZE)) :: u32)"
    and "unat (ucast (PAGE_SIZE - (off mod PAGE_SIZE)) :: u32) \<le> 4096" by simp_all
qed

definition stored_at :: "hash \<Rightarrow> u64 \<Rightarrow> bytes \<Rightarrow> u64 \<Rightarrow> bytes \<Rightarrow> bytes \<Rightarrow> bool" where
  "stored_at xxh64 seed file off key val \<longleftrightarrow>
     64 dvd unat off \<and>
     (\<exists>rest. drop (unat off) file = value_record xxh64 seed key val @ rest)"

lemma read_and_verify_other:
  assumes "stored_at xxh64 seed file off key val" and "verify_fingerprint xxh64 key seed \<noteq> vfp"
  shows "read_and_verify file off vfp = Ok None"
proof -
  obtain rest where r: "drop (unat off) file = value_record xxh64 seed key val @ rest"
    and al: "64 dvd unat off" using assms(1) by (auto simp: stored_at_def)
  let ?s = "unat (ucast (PAGE_SIZE - (off mod PAGE_SIZE)) :: u32)"
  have s: "64 \<le> ?s" by (rule speculative_size [OF al])
  let ?first = "take ?s (value_record xxh64 seed key val @ rest)"
  have read: "pread_up_to file off (ucast (PAGE_SIZE - (off mod PAGE_SIZE))) = Ok ?first"
    by (simp add: pread_up_to_def bslice_def r)
  have len: "12 \<le> length ?first"
    using s ceil64_bounds [of "12 + length val"] by simp
  have "bslice 0 8 ?first = u64_le (verify_fingerprint xxh64 key seed)"
    using s by (simp add: bslice_take value_record_def header_slices)
  with len assms(2) show ?thesis
    by (simp only: read_and_verify_def Let_def read rbind.simps VALUE_HEADER_SIZE_def u64_of_le_le)
      simp
qed

lemma read_and_verify_same:
  assumes rec: "stored_at xxh64 seed file off key val" and small: "ceil64 (12 + length val) < 2 ^ 32"
  shows "read_and_verify file off (verify_fingerprint xxh64 key seed) = Ok (Some val)"
proof -
  obtain rest where r: "drop (unat off) file = value_record xxh64 seed key val @ rest"
    and al: "64 dvd unat off" using rec by (auto simp: stored_at_def)
  let ?s = "unat (ucast (PAGE_SIZE - (off mod PAGE_SIZE)) :: u32)"
  let ?len = "length val" and ?R = "value_record xxh64 seed key val @ rest"
  have s: "64 \<le> ?s" by (rule speculative_size [OF al])
  have read: "pread_up_to file off (ucast (PAGE_SIZE - (off mod PAGE_SIZE))) = Ok (take ?s ?R)"
    by (simp add: pread_up_to_def bslice_def r)
  have len: "\<not> length (take ?s ?R) < 12"
    using s ceil64_bounds [of "12 + ?len"] by simp
  have lt: "12 + ?len < 2 ^ 32"
    using small ceil64_bounds [of "12 + ?len"] by simp
  have vfp: "bslice 0 8 (take ?s ?R) = u64_le (verify_fingerprint xxh64 key seed)"
    and l: "bslice 8 4 (take ?s ?R) = u32_le (word_of_nat ?len)"
    using s by (simp_all add: bslice_take value_record_def header_slices)
  have blen: "unat (word_of_nat ?len :: u32) = ?len"
    using lt by (intro unat_word_of_nat_less) simp
  have val: "bslice 12 ?len ?R = val"
    by (simp add: value_record_def header_slices)
  show ?thesis
  proof (cases "12 + ?len \<le> length (take ?s ?R)")
    case True
    then have "bslice 12 ?len (take ?s ?R) = val"
      using val by (subst bslice_take) simp_all
    with True show ?thesis
      using len by (simp only: read_and_verify_def Let_def read rbind.simps VALUE_HEADER_SIZE_def
          u64_of_le_le u32_of_le_le vfp l blen if_False if_True simp_thms)
  next
    case False
    let ?t = "ucast (aligned_size (word_of_nat (12 + ?len))) :: u32"
    have "unat (word_of_nat (12 + ?len) :: u32) = 12 + ?len"
      using lt by (intro unat_word_of_nat_less) simp
    then have t: "unat ?t = ceil64 (12 + ?len)"
      using small by (simp add: unsigned_ucast_eq unat_aligned_size take_bit_nat_eq_self)
    have "unat off + ceil64 (12 + ?len) \<le> length file"
      using arg_cong [OF r, of length] ceil64_bounds [of "12 + ?len"] by simp
    then have raw: "pread file off ?t = Ok (value_record xxh64 seed key val)"
      by (simp only: pread_def t bslice_def r) simp
    have "bslice 12 ?len (value_record xxh64 seed key val) = val"
      by (simp add: value_record_def header_slices)
    moreover have "\<not> U32_MAX < 12 + ?len" "\<not> length (value_record xxh64 seed key val) < 12 + ?len"
      using lt ceil64_bounds [of "12 + ?len"] by (simp_all add: U32_MAX_def)
    ultimately show ?thesis
      using False len by (simp only: read_and_verify_def Let_def read rbind.simps VALUE_HEADER_SIZE_def
          u64_of_le_le u32_of_le_le vfp l blen if_False if_True simp_thms raw)
  qed
qed

text \<open>
  A value whose padded record is exactly \<open>2 ^ 32\<close> bytes: the second read asks for
  \<open>aligned_size as u32 = 0\<close> bytes and the slice of the empty buffer panics.
\<close>

lemma read_and_verify_4g:
  assumes rec: "stored_at xxh64 seed file off key val"
    and big: "2 ^ 32 - 64 < 12 + length val" "12 + length val < 2 ^ 32"
  shows "read_and_verify file off (verify_fingerprint xxh64 key seed) = Panic"
proof -
  obtain rest where r: "drop (unat off) file = value_record xxh64 seed key val @ rest"
    and al: "64 dvd unat off" using rec by (auto simp: stored_at_def)
  let ?s = "unat (ucast (PAGE_SIZE - (off mod PAGE_SIZE)) :: u32)"
  let ?len = "length val" and ?R = "value_record xxh64 seed key val @ rest"
  have s: "64 \<le> ?s" "?s \<le> 4096" by (rule speculative_size [OF al])+
  have read: "pread_up_to file off (ucast (PAGE_SIZE - (off mod PAGE_SIZE))) = Ok (take ?s ?R)"
    by (simp add: pread_up_to_def bslice_def r)
  have len: "\<not> length (take ?s ?R) < 12" "\<not> 12 + ?len \<le> length (take ?s ?R)"
    using s ceil64_bounds [of "12 + ?len"] big by simp_all
  have vfp: "bslice 0 8 (take ?s ?R) = u64_le (verify_fingerprint xxh64 key seed)"
    and l: "bslice 8 4 (take ?s ?R) = u32_le (word_of_nat ?len)"
    using s by (simp_all add: bslice_take value_record_def header_slices)
  have blen: "unat (word_of_nat ?len :: u32) = ?len"
    using big by (intro unat_word_of_nat_less) simp
  have "unat (word_of_nat (12 + ?len) :: u32) = 12 + ?len"
    using big by (intro unat_word_of_nat_less) simp
  moreover have "ceil64 (12 + ?len) = 2 ^ 32"
    using big unfolding ceil64_def by simp
  ultimately have "(ucast (aligned_size (word_of_nat (12 + ?len))) :: u32) = 0"
    by (simp add: word_unat_eq_iff unsigned_ucast_eq unat_aligned_size take_bit_eq_mod)
  then have raw: "pread file off (ucast (aligned_size (word_of_nat (12 + ?len)))) = Ok []"
    by (simp add: pread_def bslice_def)
  have "\<not> U32_MAX < 12 + ?len" using big by (simp add: U32_MAX_def)
  with len show ?thesis
    by (simp only: read_and_verify_def Let_def read rbind.simps VALUE_HEADER_SIZE_def
        u64_of_le_le u32_of_le_le vfp l blen if_False if_True simp_thms raw) simp
qed

end
