(* ===== verification/V4_Writer.thy ===== *)
theory V4_Writer
  imports V4_Spill V4_Reader
begin

text \<open>
  \<open>mcfreeze-format/src/v4/writer.rs\<close>: partition writers, the index build of a partition, the
  snapshot writer and its finalizer.

  The file system is the map \<open>files\<close>.  A writer keeps what it has written and the files appear
  with their contents when \<open>finish_data\<close> flushes them (nothing reads them before).  The build of
  an index may not return, so what calls it yields an option.  \<open>serde_json\<close> and the clock are the
  parameters \<open>to_json\<close> and \<open>now\<close>.
\<close>

section \<open>Partition writer\<close>

record PartitionWriter =
  pw_dir :: path
  pw_data :: AlignedWriter
  pw_spill :: SpillWriter

text \<open>\<open>File::create\<close> truncates: a stale file of an earlier run is emptied.\<close>

definition PartitionWriter_new :: "path \<Rightarrow> u64 \<Rightarrow> files \<Rightarrow> (PartitionWriter \<times> files) fres" where
  "PartitionWriter_new dir seed fs =
     rbind (AlignedWriter_new [] seed) (\<lambda>data.
       Ok (\<lparr>pw_dir = dir, pw_data = data, pw_spill = SpillWriter_create\<rparr>,
           fs(path_join dir ''data.bin'' \<mapsto> [], path_join dir ''spill.bin'' \<mapsto> [])))"

definition partition_write ::
    "hash \<Rightarrow> PartitionWriter \<Rightarrow> bytes \<Rightarrow> u64 \<Rightarrow> bytes \<Rightarrow> PartitionWriter fres" where
  "partition_write xxh64 w key fp val =
     rbind (write_value xxh64 (pw_data w) key val) (\<lambda>(data, aligned_offset, on_disk_size).
     rbind (Bucket_new (compact_fingerprint fp) aligned_offset) (\<lambda>bucket.
       Ok (w\<lparr>pw_data := data, pw_spill := spill_push (pw_spill w) bucket\<rparr>)))"

text \<open>\<open>PartitionBuildReady\<close> holds only its directory.\<close>

definition finish_data :: "PartitionWriter \<Rightarrow> files \<Rightarrow> path \<times> files" where
  "finish_data w fs =
     (pw_dir w,
      fs(path_join (pw_dir w) ''data.bin'' \<mapsto> aligned_finish (pw_data w),
         path_join (pw_dir w) ''spill.bin'' \<mapsto> fst (spill_finish (pw_spill w))))"

section \<open>Duplicate-fingerprint preflight\<close>

definition MAX_DUPLICATE_FINGERPRINT_CHAIN :: nat where
  "MAX_DUPLICATE_FINGERPRINT_CHAIN = 255"

fun check_loop :: "Bucket list \<Rightarrow> (u32 \<rightharpoonup> u32) \<Rightarrow> u32 \<Rightarrow> unit fres" where
  "check_loop [] counts worst = Ok ()"
| "check_loop (e # es) counts worst =
     (let c = (case counts (bk_fingerprint e) of None \<Rightarrow> 0 | Some c \<Rightarrow> c) + 1;
          counts' = counts(bk_fingerprint e \<mapsto> c)
      in if c > worst then
           if unat c > MAX_DUPLICATE_FINGERPRINT_CHAIN
           then Err (DuplicateFingerprints (unat c) MAX_DUPLICATE_FINGERPRINT_CHAIN)
           else check_loop es counts' c
         else check_loop es counts' worst)"

definition check_no_pathological_duplicates :: "Bucket list \<Rightarrow> unit fres" where
  "check_no_pathological_duplicates entries = check_loop entries Map.empty 0"

section \<open>Index build\<close>

text \<open>The fill rate is kept as the pair of integers whose quotient the code rounds to \<open>f64\<close>.\<close>

record PartitionIndexStats =
  pis_n_keys :: u64
  pis_n_buckets :: u64
  pis_fill_rate :: "nat \<times> nat"
  pis_retries :: nat

definition build_index :: "files \<Rightarrow> path \<Rightarrow> (Bucket list \<times> PartitionIndexStats) fres option" where
  "build_index fs dir =
     (case fs (path_join dir ''spill.bin'') of
        None \<Rightarrow> Some (Ok ([], \<lparr>pis_n_keys = 0, pis_n_buckets = 0, pis_fill_rate = (0, 1),
                               pis_retries = 0\<rparr>))
      | Some file \<Rightarrow>
          tbind (Some (SpillReader_open file)) (\<lambda>spill.
          tbind (Some (records spill)) (\<lambda>entries.
          tbind (Some (check_no_pathological_duplicates entries)) (\<lambda>_.
          tbind (build entries) (\<lambda>(table, retries).
            Some (Ok (table,
              \<lparr>pis_n_keys = sr_count spill, pis_n_buckets = word_of_nat (length table),
               pis_fill_rate = (if length table > 0 then (unat (sr_count spill), length table) else (0, 1)),
               pis_retries = retries\<rparr>)))))))"

definition remove_spill :: "path \<Rightarrow> files \<Rightarrow> files" where
  "remove_spill dir fs = fs(path_join dir ''spill.bin'' := None)"

section \<open>Snapshot writer and finalizer\<close>

record SnapshotWriter =
  sw_root :: path
  sw_layout :: Layout
  sw_verify_seed :: u64
  sw_partitions :: "PartitionWriter list"

fun open_partitions ::
    "path \<Rightarrow> u32 \<Rightarrow> u64 \<Rightarrow> nat list \<Rightarrow> files \<Rightarrow> (PartitionWriter list \<times> files) fres" where
  "open_partitions root n seed [] fs = Ok ([], fs)"
| "open_partitions root n seed (i # is) fs =
     rbind (PartitionWriter_new (partition_dir root n i) seed fs) (\<lambda>(w, fs).
     rbind (open_partitions root n seed is fs) (\<lambda>(ws, fs). Ok (w # ws, fs)))"

definition SnapshotWriter_new :: "path \<Rightarrow> u32 \<Rightarrow> files \<Rightarrow> (SnapshotWriter \<times> files) fres" where
  "SnapshotWriter_new root n fs =
     rbind (Layout_new n) (\<lambda>layout.
     rbind (open_partitions root n DEFAULT_VERIFY_SEED [0..<unat n] fs) (\<lambda>(ws, fs).
       Ok (\<lparr>sw_root = root, sw_layout = layout, sw_verify_seed = DEFAULT_VERIFY_SEED,
            sw_partitions = ws\<rparr>, fs)))"

definition SnapshotWriter_write ::
    "hash \<Rightarrow> SnapshotWriter \<Rightarrow> bytes \<Rightarrow> bytes \<Rightarrow> SnapshotWriter fres" where
  "SnapshotWriter_write xxh64 w key val =
     (let fp = fingerprint xxh64 key;
          idx = partition_of (sw_layout w) fp
      in if idx < length (sw_partitions w)
         then rmap (\<lambda>pw. w\<lparr>sw_partitions := (sw_partitions w)[idx := pw]\<rparr>)
                (partition_write xxh64 (sw_partitions w ! idx) key fp val)
         else Panic)"

record SnapshotFinalizer =
  sf_root :: path
  sf_layout :: Layout
  sf_verify_seed :: u64

definition into_partition_writers :: "SnapshotWriter \<Rightarrow> PartitionWriter list \<times> SnapshotFinalizer" where
  "into_partition_writers w =
     (sw_partitions w,
      \<lparr>sf_root = sw_root w, sf_layout = sw_layout w, sf_verify_seed = sw_verify_seed w\<rparr>)"

definition write_index :: "SnapshotFinalizer \<Rightarrow> Bucket list list \<Rightarrow> files \<Rightarrow> UnifiedIndexInfo \<times> files" where
  "write_index f tables fs =
     (let (file, info) = write_unified_index tables
      in (info, fs(index_path (sf_root f) \<mapsto> file)))"

definition meta_of :: "SnapshotFinalizer \<Rightarrow> UnifiedIndexInfo \<Rightarrow> Stats option \<Rightarrow> json option \<Rightarrow> Meta" where
  "meta_of f info st enc =
     \<lparr>format_version = FORMAT_VERSION_V4, hash_algorithm = HASH_ALGORITHM,
      verify_seed = sf_verify_seed f,
      partitions = map (\<lambda>(off, n). \<lparr>index_offset = off, index_n_buckets = n\<rparr>)
        (zip (ui_offsets info) (ui_n_buckets info)),
      stats = st, encoding = enc\<rparr>"

definition write_meta ::
    "(Meta \<Rightarrow> bytes) \<Rightarrow> SnapshotFinalizer \<Rightarrow> UnifiedIndexInfo \<Rightarrow> Stats option \<Rightarrow> json option
       \<Rightarrow> files \<Rightarrow> files" where
  "write_meta to_json f info st enc fs =
     fs(path_join (sf_root f) ''meta.json'' \<mapsto> to_json (meta_of f info st enc))"

definition finalizer_finish ::
    "(Meta \<Rightarrow> bytes) \<Rightarrow> string \<Rightarrow> SnapshotFinalizer \<Rightarrow> path list \<Rightarrow> files \<Rightarrow> files fres option" where
  "finalizer_finish to_json now f ready fs =
     tbind (mapT (build_index fs) ready) (\<lambda>built.
       let tables = map fst built;
           n_keys_total = sum_list (map (\<lambda>(_, st). pis_n_keys st) built);
           (info, fs1) = write_index f tables fs;
           st = \<lparr>st_n_keys = n_keys_total, st_created_at = now, st_scatter = None, st_index = None\<rparr>;
           fs2 = write_meta to_json f info (Some st) None fs1
       in Some (Ok (fold remove_spill ready fs2)))"

fun finish_all :: "PartitionWriter list \<Rightarrow> files \<Rightarrow> path list \<times> files" where
  "finish_all [] fs = ([], fs)"
| "finish_all (w # ws) fs =
     (let (dir, fs1) = finish_data w fs; (dirs, fs2) = finish_all ws fs1 in (dir # dirs, fs2))"

definition SnapshotWriter_finish ::
    "(Meta \<Rightarrow> bytes) \<Rightarrow> string \<Rightarrow> SnapshotWriter \<Rightarrow> files \<Rightarrow> files fres option" where
  "SnapshotWriter_finish to_json now w fs =
     (let (pws, fin) = into_partition_writers w; (ready, fs1) = finish_all pws fs
      in finalizer_finish to_json now fin ready fs1)"

end
