(* ===== verification/V4_Roundtrip.thy ===== *)
theory V4_Roundtrip
  imports V4_Writer
begin

text \<open>
  What the V4 writer promises its reader: the unified index file gives every table back, a
  partition writer's files describe exactly the pairs written to it, and a snapshot that was
  written, finished and opened answers every lookup from the pairs written.
\<close>

section \<open>The unified index file\<close>

lemma bucket_table_at:
  assumes "length pre = unat lo" and "8 dvd unat lo"
    and "length (pre @ concat (map bucket_bytes table) @ post) < 2 ^ 64"
  shows "bucket_table (pre @ concat (map bucket_bytes table) @ post) lo (word_of_nat (length table))
    = Ok table"
proof -
  let ?hi = "lo + word_of_nat (length table) * 8 :: u64"
  have len: "length (concat (map bucket_bytes table)) = 8 * length table"
    by (rule bucket_codec.length_concat_enc)
  have hi: "unat ?hi = unat lo + 8 * length table"
    using assms by (intro unat_eq_of_nat) (simp_all add: len)
  have "unat lo mod 4 = 0" using assms(2) by (auto elim!: dvdE)
  moreover have "bslice (unat lo) (8 * length table) (pre @ concat (map bucket_bytes table) @ post) =
      concat (map bucket_bytes table) @ []"
    using assms(1) len by (simp add: bslice_middle)
  ultimately show ?thesis
    using assms(1) len bucket_codec.decode_chunks [of table "[]"] hi
    by (simp add: bucket_table_def)
qed

text \<open>Every table stands at its recorded offset.\<close>

definition tables_at :: "bytes \<Rightarrow> u64 list \<Rightarrow> u64 list \<Rightarrow> Bucket list list \<Rightarrow> bool" where
  "tables_at file offs ns tables \<longleftrightarrow>
     length offs = length tables \<and> length ns = length tables \<and>
     (\<forall>i < length tables. ns ! i = word_of_nat (length (tables ! i)) \<and> 8 dvd unat (offs ! i) \<and>
        (\<exists>pre post. file = pre @ concat (map bucket_bytes (tables ! i)) @ post \<and>
           length pre = unat (offs ! i)))"

lemma tables_at_Nil: "tables_at file [] [] []"
  by (simp add: tables_at_def)

lemma tables_at_snoc:
  assumes "tables_at file offs ns tables" and "unat off = length file" and "8 dvd length file"
  shows "tables_at (file @ concat (map bucket_bytes table) @ post) (offs @ [off])
    (ns @ [word_of_nat (length table)]) (tables @ [table])"
proof -
  have "\<exists>pre' post'. file @ concat (map bucket_bytes table) @ post = pre' @ xs @ post' \<and> length pre' = n"
    if "\<exists>pre' post'. file = pre' @ xs @ post' \<and> length pre' = n" for xs n
    using that by fastforce
  then show ?thesis
    using assms unfolding tables_at_def by (simp add: nth_append less_Suc_eq) blast
qed

lemma write_tables_length:
  "write_tables img off info tables = (img', info') \<Longrightarrow> length img \<le> length img'"
proof (induction tables arbitrary: img off info)
  case Nil
  then show ?case by simp
next
  case (Cons table tables)
  show ?case
    using Cons.prems by (auto simp: Let_def split: if_splits dest!: Cons.IH)
qed

text \<open>The loop keeps the tables written so far, whatever it pads and appends.\<close>

lemma write_tables_keeps:
  assumes "write_tables img off info tables = (img', info')" and "length img' \<le> 2 ^ 63"
    and "unat off = length img" and "8 dvd length img"
    and "tables_at img (ui_offsets info) (ui_n_buckets info) done_tables"
  shows "tables_at img' (ui_offsets info') (ui_n_buckets info') (done_tables @ tables)"
  using assms
proof (induction tables arbitrary: img off info done_tables)
  case Nil
  then show ?case by simp
next
  case (Cons table tables)
  let ?bs = "concat (map bucket_bytes table)"
  let ?info = "\<lparr>ui_offsets = ui_offsets info @ [off],
      ui_n_buckets = ui_n_buckets info @ [word_of_nat (length table)]\<rparr>"
  let ?off = "off + word_of_nat (length ?bs)" and ?img = "img @ ?bs"
  have bs: "length ?bs = 8 * length table" by (rule bucket_codec.length_concat_enc)
  show ?case
  proof (cases "tables \<noteq> [] \<and> ?off mod word_of_nat INDEX_ALIGNMENT \<noteq> 0")
    case True
    let ?al = "align_up (word_of_nat INDEX_ALIGNMENT) ?off"
    let ?pad = "replicate (unat ?al - length ?img) 0"
    have step: "write_tables (?img @ ?pad) ?al ?info tables = (img', info')"
      using Cons.prems(1) True by (simp add: Let_def)
    have le: "length ?img \<le> 2 ^ 63"
      using write_tables_length [OF step] Cons.prems(2) by simp
    have off: "unat ?off = length ?img"
      using le by (intro unat_eq_of_nat) (simp_all add: Cons.prems(3) [symmetric])
    have al: "unat ?al = (length ?img + 2 ^ 21 - 1) div 2 ^ 21 * 2 ^ 21"
      using unat_align_up [of 21 ?off] le off by (simp add: INDEX_ALIGNMENT_def)
    have "length ?img \<le> unat ?al" and "8 dvd unat ?al"
      using ceil_mult_ge [of "2 ^ 21" "length ?img"] unfolding al by simp_all
    then have "unat ?al = length (?img @ ?pad)" "8 dvd length (?img @ ?pad)" by simp_all
    moreover have "tables_at (?img @ ?pad) (ui_offsets ?info) (ui_n_buckets ?info) (done_tables @ [table])"
      using tables_at_snoc [OF Cons.prems(5) Cons.prems(3,4), of table ?pad] by simp
    ultimately have "tables_at img' (ui_offsets info') (ui_n_buckets info') ((done_tables @ [table]) @ tables)"
      by (rule Cons.IH [OF step Cons.prems(2)])
    then show ?thesis by simp
  next
    case False
    have step: "write_tables ?img ?off ?info tables = (img', info')"
      using Cons.prems(1) False by (simp add: Let_def)
    have le: "length ?img \<le> 2 ^ 63"
      using write_tables_length [OF step] Cons.prems(2) by simp
    have off: "unat ?off = length ?img"
      using le by (intro unat_eq_of_nat) (simp_all add: Cons.prems(3) [symmetric])
    moreover have "8 dvd length ?img" using Cons.prems(4) bs by simp
    moreover have "tables_at ?img (ui_offsets ?info) (ui_n_buckets ?info) (done_tables @ [table])"
      using tables_at_snoc [OF Cons.prems(5) Cons.prems(3,4), of table "[]"] by simp
    ultimately have "tables_at img' (ui_offsets info') (ui_n_buckets info') ((done_tables @ [table]) @ tables)"
      by (rule Cons.IH [OF step Cons.prems(2)])
    then show ?thesis by simp
  qed
qed

lemma write_unified_index_tables:
  assumes "write_unified_index tables = (file, info)" and "length file \<le> 2 ^ 63"
  shows "tables_at file (ui_offsets info) (ui_n_buckets info) tables"
  using write_tables_keeps [OF assms(1) [unfolded write_unified_index_def] assms(2), of "[]"]
  by (simp add: tables_at_def)

lemma tables_at_bucket_table:
  assumes "tables_at file offs ns tables" and "i < length tables" and "length file \<le> 2 ^ 63"
  shows "bucket_table file (offs ! i) (ns ! i) = Ok (tables ! i)"
proof -
  from assms obtain pre post where "file = pre @ concat (map bucket_bytes (tables ! i)) @ post"
    "length pre = unat (offs ! i)" "8 dvd unat (offs ! i)" "ns ! i = word_of_nat (length (tables ! i))"
    by (auto simp: tables_at_def)
  with bucket_table_at [of pre "offs ! i" "tables ! i" post] assms(3) show ?thesis by simp
qed

section \<open>Partition writer\<close>

type_synonym kv = "bytes \<times> u64 \<times> bytes"

text \<open>A pair the format can represent: its padded record fits a 32-bit size.\<close>

definition fits :: "bytes \<Rightarrow> bool" where
  "fits val \<longleftrightarrow> ceil64 (12 + length val) < 2 ^ 32"

definition entry_for :: "hash \<Rightarrow> u64 \<Rightarrow> bytes \<Rightarrow> Bucket \<Rightarrow> kv \<Rightarrow> bool" where
  "entry_for xxh64 seed data e kv =
     (case kv of (key, fp, val) \<Rightarrow>
        bk_fingerprint e = compact_fingerprint fp \<and> bk_offset e \<noteq> NO_MATCH \<and> fits val \<and>
        stored_at xxh64 seed data (bucket_byte_offset e) key val)"

definition pw_inv :: "hash \<Rightarrow> u64 \<Rightarrow> PartitionWriter \<Rightarrow> kv list \<Rightarrow> Bucket list \<Rightarrow> bool" where
  "pw_inv xxh64 seed w kvs es \<longleftrightarrow>
     aw_inv (pw_data w) \<and> aw_verify_seed (pw_data w) = seed \<and> spill_inv (pw_spill w) es \<and>
     64 * length es \<le> length (aw_inner (pw_data w)) \<and>
     length (aw_inner (pw_data w)) \<le> 2 ^ 38 + 2 ^ 32 \<and>
     list_all2 (entry_for xxh64 seed (aw_inner (pw_data w))) es kvs"

lemma stored_at_append:
  "stored_at xxh64 seed data off key val \<Longrightarrow> stored_at xxh64 seed (data @ suffix) off key val"
proof -
  assume "stored_at xxh64 seed data off key val"
  then obtain rest where al: "64 dvd unat off" and r: "drop (unat off) data = value_record xxh64 seed key val @ rest"
    by (auto simp: stored_at_def)
  have "drop (unat off) data \<noteq> []"
    unfolding r using ceil64_bounds [of "12 + length val"] length_value_record [of xxh64 seed key val]
    by (metis Nil_is_append_conv add_is_0 le_zero_eq list.size(3) zero_neq_numeral)
  then have "unat off - length data = 0" by simp
  then have "drop (unat off) (data @ suffix) = value_record xxh64 seed key val @ (rest @ suffix)"
    by (simp add: r)
  with al show ?thesis by (auto simp: stored_at_def)
qed

lemma entry_for_append:
  "entry_for xxh64 seed data e kv \<Longrightarrow> entry_for xxh64 seed (data @ suffix) e kv"
  by (auto simp: entry_for_def stored_at_append split: prod.splits)

lemma unat_MAX_OFFSET: "unat MAX_OFFSET = 2 ^ 32 - 2"
  by (simp add: MAX_OFFSET_def)

lemma Bucket_new_Ok:
  assumes "Bucket_new fp off = Ok b"
  shows "unat off \<le> 2 ^ 32 - 2 \<and> bk_fingerprint b = fp \<and> bk_offset b \<noteq> NO_MATCH \<and>
    unat (bucket_byte_offset b) = 64 * unat off"
proof -
  have le: "unat off \<le> 2 ^ 32 - 2" and b: "b = \<lparr>bk_fingerprint = fp, bk_offset = ucast off\<rparr>"
    using assms unat_MAX_OFFSET
    by (auto simp: Bucket_new_def word_less_nat_alt unat_ucast_up split: if_splits)
  have u: "unat (ucast off :: u32) = unat off"
    using le by (simp add: unsigned_ucast_eq take_bit_nat_eq_self)
  then have "unat (ucast (ucast off :: u32) :: u64) = unat off"
    by (simp add: unat_ucast_up)
  moreover have "unat (NO_MATCH) = 2 ^ 32 - 1"
    by (simp add: NO_MATCH_def unsigned_minus_1_eq_mask mask_eq_exp_minus_1)
  ultimately show ?thesis
    using le u by (auto simp: b bucket_byte_offset_def VALUE_ALIGNMENT_def unat_word_ariths)
qed

lemma partition_write_inv:
  assumes inv: "pw_inv xxh64 seed w kvs es" and fits: "fits val"
    and wr: "partition_write xxh64 w key fp val = Ok w'"
  shows "pw_dir w' = pw_dir w \<and> (\<exists>e. pw_inv xxh64 seed w' (kvs @ [(key, fp, val)]) (es @ [e]))"
proof -
  obtain data off sz b where wv: "write_value xxh64 (pw_data w) key val = Ok (data, off, sz)"
    and bn: "Bucket_new (compact_fingerprint fp) off = Ok b"
    and w': "w' = w\<lparr>pw_data := data, pw_spill := spill_push (pw_spill w) b\<rparr>"
    using wr by (auto simp: partition_write_def res_simps)
  let ?old = "aw_inner (pw_data w)" and ?r = "value_record xxh64 seed key val"
  have small: "12 + length val < 2 ^ 32" "ceil64 (12 + length val) < 2 ^ 32"
    using fits ceil64_bounds [of "12 + length val"] by (simp_all add: fits_def)
  have d: "aw_inv data \<and> unat off * 64 = length ?old \<and> aw_verify_seed data = seed \<and>
      aw_inner data = ?old @ ?r"
    using write_value_inv [OF _ small(1) _ wv] inv small by (simp add: pw_inv_def)
  note b = Bucket_new_Ok [OF bn]
  have "stored_at xxh64 seed (aw_inner data) (bucket_byte_offset b) key val"
    using d b by (auto simp: stored_at_def)
  then have "entry_for xxh64 seed (aw_inner data) b (key, fp, val)"
    using b fits by (simp add: entry_for_def)
  moreover have "list_all2 (entry_for xxh64 seed (aw_inner data)) es kvs"
    using inv d by (auto simp: pw_inv_def elim!: list_all2_mono intro: entry_for_append)
  ultimately have "list_all2 (entry_for xxh64 seed (aw_inner data)) (es @ [b]) (kvs @ [(key, fp, val)])"
    by (simp add: list_all2_appendI)
  moreover have "length (aw_inner data) \<le> 2 ^ 38 + 2 ^ 32" "64 * length (es @ [b]) \<le> length (aw_inner data)"
    using inv d b small ceil64_ge [of "12 + length val"] by (auto simp: pw_inv_def)
  ultimately have "pw_inv xxh64 seed w' (kvs @ [(key, fp, val)]) (es @ [b])"
    using inv d by (simp add: pw_inv_def w' spill_inv_push)
  then show ?thesis by (auto simp: w')
qed

text \<open>A freshly created writer.\<close>

lemma PartitionWriter_new_inv:
  assumes "PartitionWriter_new dir seed fs = Ok (w, fs')"
  shows "pw_dir w = dir \<and> pw_inv xxh64 seed w [] []"
  using assms
  by (auto simp: PartitionWriter_new_def AlignedWriter_new_def res_simps pw_inv_def aw_inv_def
      spill_inv_create split: if_splits)

lemma pw_inv_build_index:
  assumes inv: "pw_inv xxh64 seed w kvs es"
    and spill: "fs (path_join dir ''spill.bin'') = Some (fst (spill_finish (pw_spill w)))"
    and built: "build_index fs dir = Some (Ok (table, st))"
  shows "\<exists>k. build es = Some (Ok (table, k)) \<and> unat (pis_n_keys st) = length kvs"
proof -
  have len: "length es < 2 ^ 64" using inv by (simp add: pw_inv_def)
  obtain r where r: "SpillReader_open (fst (spill_finish (pw_spill w))) = Ok r"
    "unat (sr_count r) = length es" "records r = Ok es"
    using spill_roundtrip [OF _ len] inv by (auto simp: pw_inv_def)
  have "length es = length kvs"
    using inv by (auto simp: pw_inv_def dest: list_all2_lengthD)
  with r show ?thesis
    using built spill by (auto simp: build_index_def res_simps)
qed

lemma pw_inv_valid:
  assumes "pw_inv xxh64 seed w kvs es"
  shows "valid_entries es" and "\<forall>e \<in> set es. bk_offset e \<noteq> NO_MATCH"
proof -
  have "bk_fingerprint e \<noteq> 0 \<and> bk_offset e \<noteq> NO_MATCH" if "e \<in> set es" for e
    using list_all2_left [OF _ that] assms by (fastforce simp: pw_inv_def entry_for_def)
  then show "valid_entries es" and "\<forall>e \<in> set es. bk_offset e \<noteq> NO_MATCH"
    by (auto simp: valid_entries_def)
qed

lemma entry_for_read:
  assumes "entry_for xxh64 seed data e (k, fp, v)"
  shows "read_and_verify data (bucket_byte_offset e) vfp =
    Ok (if verify_fingerprint xxh64 k seed = vfp then Some v else None)"
  using assms read_and_verify_same read_and_verify_other
  by (auto simp: entry_for_def fits_def)

text \<open>
  A lookup in one partition, in terms of the pairs written to it: a pair with the same compact
  and verify fingerprints is a hit; without one it is a miss, which did I/O exactly when a pair
  shares the compact fingerprint.
\<close>

lemma partition_lookup:
  assumes inv: "pw_inv xxh64 seed w kvs es" and built: "build es = Some (Ok (table, k))"
  shows "(\<exists>(k', fp', v) \<in> set kvs. compact_fingerprint fp' = compact_fingerprint fp \<and>
      verify_fingerprint xxh64 k' seed = verify_fingerprint xxh64 key seed \<and>
      partition_get arch xxh64 \<lparr>pr_buckets = table, pr_data = aw_inner (pw_data w),
        pr_verify_seed = seed\<rparr> key fp = Ok (Hit v)) \<or>
    (\<forall>(k', fp', v) \<in> set kvs. compact_fingerprint fp' = compact_fingerprint fp \<longrightarrow>
      verify_fingerprint xxh64 k' seed \<noteq> verify_fingerprint xxh64 key seed) \<and>
    partition_get arch xxh64 \<lparr>pr_buckets = table, pr_data = aw_inner (pw_data w),
      pr_verify_seed = seed\<rparr> key fp =
        Ok (Miss (\<exists>(k', fp', v) \<in> set kvs. compact_fingerprint fp' = compact_fingerprint fp))"
proof -
  let ?data = "aw_inner (pw_data w)" and ?vfp = "verify_fingerprint xxh64 key seed"
  let ?P = "partition_get arch xxh64 \<lparr>pr_buckets = table, pr_data = ?data, pr_verify_seed = seed\<rparr> key fp"
  define content where "content off =
    (case read_and_verify ?data (value_addr off) ?vfp of Ok c \<Rightarrow> c | _ \<Rightarrow> None)" for off
  have pairs: "list_all2 (entry_for xxh64 seed ?data) es kvs"
    using inv by (simp add: pw_inv_def)
  have to_kv: "\<exists>k' fp' v. (k', fp', v) \<in> set kvs \<and> entry_for xxh64 seed ?data e (k', fp', v)"
    if "e \<in> set es" for e
    using list_all2_left [OF pairs that] by force
  have to_e: "\<exists>e \<in> set es. entry_for xxh64 seed ?data e kv" if "kv \<in> set kvs" for kv
    using pairs that by (rule list_all2_right)
  have content: "content (bk_offset e) = (if verify_fingerprint xxh64 k' seed = ?vfp then Some v else None)"
    if "entry_for xxh64 seed ?data e (k', fp', v)" for e k' fp' v
    using entry_for_read [OF that, of ?vfp] by (simp add: content_def bucket_byte_offset_def)
  have rv: "read_and_verify ?data (bucket_byte_offset e) ?vfp = Ok (content (bk_offset e))" if "e \<in> set es" for e
  proof -
    from to_kv [OF that] obtain k' fp' v where kv: "entry_for xxh64 seed ?data e (k', fp', v)"
      by blast
    show ?thesis
      by (simp only: content [OF kv] entry_for_read [OF kv])
  qed
  have cfp: "bk_fingerprint e = compact_fingerprint fp'" if "entry_for xxh64 seed ?data e (k', fp', v)" for e k' fp' v
    using that by (simp add: entry_for_def)
  from robin_hood.lookup_built [OF built pw_inv_valid [OF inv], of fp ?data xxh64 key seed content arch] rv
  consider (hit) e v where "e \<in> set es" "bk_fingerprint e = compact_fingerprint fp"
      "content (bk_offset e) = Some v" "?P = Ok (Hit v)"
    | (miss) "\<forall>e \<in> set es. bk_fingerprint e = compact_fingerprint fp \<longrightarrow> content (bk_offset e) = None"
      "?P = Ok (Miss ({e \<in> set es. bk_fingerprint e = compact_fingerprint fp} \<noteq> {}))"
    by auto
  then show ?thesis
  proof cases
    case hit
    obtain k' fp' v' where kv: "(k', fp', v') \<in> set kvs" "entry_for xxh64 seed ?data e (k', fp', v')"
      using to_kv [OF hit(1)] by blast
    with content [OF kv(2)] cfp [OF kv(2)] hit have "v' = v" "verify_fingerprint xxh64 k' seed = ?vfp"
      "compact_fingerprint fp' = compact_fingerprint fp" by (auto split: if_splits)
    with kv(1) hit(4) show ?thesis by blast
  next
    case miss
    have "verify_fingerprint xxh64 k' seed \<noteq> ?vfp"
      if "(k', fp', v) \<in> set kvs" "compact_fingerprint fp' = compact_fingerprint fp" for k' fp' v
      using to_e [OF that(1)] that(2) miss(1) content cfp by fastforce
    moreover have "({e \<in> set es. bk_fingerprint e = compact_fingerprint fp} \<noteq> {}) =
        (\<exists>(k', fp', v) \<in> set kvs. compact_fingerprint fp' = compact_fingerprint fp)"
      using to_e to_kv cfp by fastforce
    ultimately show ?thesis using miss(2) by auto
  qed
qed

section \<open>Snapshot writer\<close>

text \<open>The pairs of a run that are routed to partition \<open>p\<close>, with their fingerprints.\<close>

definition routed :: "hash \<Rightarrow> Layout \<Rightarrow> (bytes \<times> bytes) list \<Rightarrow> nat \<Rightarrow> kv list" where
  "routed xxh64 l kvs p =
     map (\<lambda>(k, v). (k, fingerprint xxh64 k, v))
       (filter (\<lambda>(k, v). partition_of l (fingerprint xxh64 k) = p) kvs)"

definition snap_inv :: "hash \<Rightarrow> path \<Rightarrow> u32 \<Rightarrow> SnapshotWriter \<Rightarrow> (bytes \<times> bytes) list \<Rightarrow> bool" where
  "snap_inv xxh64 root n w kvs \<longleftrightarrow>
     sw_root w = root \<and> Layout_new n = Ok (sw_layout w) \<and> sw_verify_seed w = DEFAULT_VERIFY_SEED \<and>
     length (sw_partitions w) = unat n \<and>
     (\<forall>p < unat n. pw_dir (sw_partitions w ! p) = partition_dir root n p \<and>
        (\<exists>es. pw_inv xxh64 DEFAULT_VERIFY_SEED (sw_partitions w ! p) (routed xxh64 (sw_layout w) kvs p) es))"

lemma open_partitions_Ok:
  assumes "open_partitions root n seed is fs = Ok (ws, fs')"
  shows "list_all2 (\<lambda>i w. pw_dir w = partition_dir root n i \<and> pw_inv xxh64 seed w [] []) is ws"
  using assms
proof (induction "is" arbitrary: fs ws fs')
  case Nil
  then show ?case by simp
next
  case (Cons i "is")
  then obtain w fs1 ws' fs2 where "PartitionWriter_new (partition_dir root n i) seed fs = Ok (w, fs1)"
    and "open_partitions root n seed is fs1 = Ok (ws', fs2)" and "ws = w # ws'"
    by (auto simp: res_simps)
  with Cons.IH show ?case by (auto dest!: PartitionWriter_new_inv)
qed

lemma SnapshotWriter_new_inv:
  assumes "SnapshotWriter_new root n fs = Ok (w, fs')"
  shows "snap_inv xxh64 root n w []"
proof -
  obtain ws where "Layout_new n = Ok (sw_layout w)" "sw_root w = root"
    "sw_verify_seed w = DEFAULT_VERIFY_SEED" "sw_partitions w = ws"
    and ws: "open_partitions root n DEFAULT_VERIFY_SEED [0..<unat n] fs = Ok (ws, fs')"
    using assms by (auto simp: SnapshotWriter_new_def res_simps)
  with open_partitions_Ok [OF ws, of xxh64] show ?thesis
    by (auto simp: snap_inv_def routed_def list_all2_conv_all_nth)
qed

lemma SnapshotWriter_write_inv:
  assumes inv: "snap_inv xxh64 root n w kvs" and fits: "fits val"
    and wr: "SnapshotWriter_write xxh64 w key val = Ok w'"
  shows "snap_inv xxh64 root n w' (kvs @ [(key, val)])"
proof -
  let ?fp = "fingerprint xxh64 key"
  let ?p = "partition_of (sw_layout w) ?fp"
  obtain pw where pw: "partition_write xxh64 (sw_partitions w ! ?p) key ?fp val = Ok pw"
    and w': "w' = w\<lparr>sw_partitions := (sw_partitions w)[?p := pw]\<rparr>"
    using wr by (auto simp: SnapshotWriter_write_def Let_def res_simps split: if_splits)
  have p: "?p < unat n"
    using inv by (auto simp: snap_inv_def intro: partition_of_bound)
  obtain es where es: "pw_inv xxh64 DEFAULT_VERIFY_SEED (sw_partitions w ! ?p)
      (routed xxh64 (sw_layout w) kvs ?p) es"
    using inv p by (auto simp: snap_inv_def)
  note step = partition_write_inv [OF es fits pw]
  show ?thesis
    using inv p step by (auto simp: snap_inv_def w' routed_def nth_list_update)
qed

definition write_all :: "hash \<Rightarrow> (bytes \<times> bytes) list \<Rightarrow> SnapshotWriter \<Rightarrow> SnapshotWriter fres" where
  "write_all xxh64 = foldR (\<lambda>(k, v) w. SnapshotWriter_write xxh64 w k v)"

lemma write_all_inv:
  assumes "write_all xxh64 kvs w = Ok w'" and "snap_inv xxh64 root n w pre"
    and "\<forall>(k, v) \<in> set kvs. fits v"
  shows "snap_inv xxh64 root n w' (pre @ kvs)"
  using assms
proof (induction kvs arbitrary: w pre)
  case Nil
  then show ?case by (simp add: write_all_def)
next
  case (Cons kv kvs)
  obtain k v where kv: "kv = (k, v)" by (cases kv)
  with Cons.prems obtain w1 where w1: "SnapshotWriter_write xxh64 w k v = Ok w1"
    "write_all xxh64 kvs w1 = Ok w'"
    by (auto simp: write_all_def res_simps)
  have "snap_inv xxh64 root n w1 (pre @ [(k, v)])"
    using SnapshotWriter_write_inv [OF Cons.prems(2) _ w1(1)] Cons.prems(3) kv by simp
  from Cons.IH [OF w1(2) this] Cons.prems(3) kv show ?case by simp
qed

section \<open>Finishing\<close>

lemma finish_all_fst: "fst (finish_all ws fs) = map pw_dir ws"
  by (induction ws arbitrary: fs) (auto simp: finish_data_def Let_def split: prod.splits dest: arg_cong [where f = fst])

lemma finish_all_other:
  assumes "\<forall>w \<in> set ws. q \<noteq> path_join (pw_dir w) ''data.bin'' \<and> q \<noteq> path_join (pw_dir w) ''spill.bin''"
  shows "snd (finish_all ws fs) q = fs q"
  using assms
  by (induction ws arbitrary: fs) (simp_all add: finish_data_def split_beta)

lemma finish_all_files:
  assumes "distinct (map pw_dir ws)" and "w \<in> set ws"
  shows "snd (finish_all ws fs) (path_join (pw_dir w) ''data.bin'') = Some (aw_inner (pw_data w)) \<and>
    snd (finish_all ws fs) (path_join (pw_dir w) ''spill.bin'') = Some (fst (spill_finish (pw_spill w)))"
  using assms
proof (induction ws arbitrary: fs)
  case Nil
  then show ?case by simp
next
  case (Cons x ws)
  show ?case
  proof (cases "w = x")
    case True
    then have "\<forall>y \<in> set ws. pw_dir w \<noteq> pw_dir y" using Cons.prems by auto
    then show ?thesis
      using True by (simp add: finish_data_def split_beta finish_all_other aligned_finish_def)
  next
    case False
    with Cons show ?thesis by (simp add: split_beta)
  qed
qed

lemma remove_spills_other:
  assumes "\<forall>d. q \<noteq> path_join d ''spill.bin''"
  shows "fold remove_spill ready fs q = fs q"
  using assms by (induction ready arbitrary: fs) (simp_all add: remove_spill_def)

lemma snap_inv_dirs:
  assumes "snap_inv xxh64 root n w kvs"
  shows "map pw_dir (sw_partitions w) = map (partition_dir root n) [0..<unat n]"
  using assms by (auto simp: snap_inv_def intro: nth_equalityI)

lemma snap_inv_distinct:
  assumes "snap_inv xxh64 root n w kvs"
  shows "distinct (map pw_dir (sw_partitions w))"
  unfolding snap_inv_dirs [OF assms] by (simp add: distinct_map inj_on_def partition_dir_inject)

lemma partition_dir_paths:
  "path_join (partition_dir root n p) s \<noteq> index_path root"
  "path_join (partition_dir root n p) s \<noteq> path_join root t"
  by (simp_all add: partition_dir_def index_path_def data_dir_def path_join_def Let_def)

lemma finalizer_finish_Ok:
  assumes "finalizer_finish to_json now f ready fs = Some (Ok fs')"
  obtains built index info st where "mapT (build_index fs) ready = Some (Ok built)"
    and "write_unified_index (map fst built) = (index, info)"
    and "fs' = fold remove_spill ready
       (write_meta to_json f info st None (fs(index_path (sf_root f) \<mapsto> index)))"
proof -
  obtain built where "mapT (build_index fs) ready = Some (Ok built)"
    using assms by (auto simp: finalizer_finish_def tbind_Ok_iff)
  moreover obtain index info where "write_unified_index (map fst built) = (index, info)" by force
  moreover from calculation have "fs' = fold remove_spill ready (write_meta to_json f info
      (Some \<lparr>st_n_keys = sum_list (map (\<lambda>(_, st). pis_n_keys st) built), st_created_at = now,
        st_scatter = None, st_index = None\<rparr>) None (fs(index_path (sf_root f) \<mapsto> index)))"
    using assms by (simp add: finalizer_finish_def write_index_def)
  ultimately show thesis by (rule that)
qed

text \<open>The files a finished snapshot consists of.\<close>

lemma finish_files:
  assumes inv: "snap_inv xxh64 root n w kvs"
    and fin: "SnapshotWriter_finish to_json now w fs = Some (Ok fs')"
  obtains tables index info st where
    "length tables = unat n" and "write_unified_index tables = (index, info)"
    and "fs' (index_path root) = Some index"
    and "fs' (path_join root ''meta.json'') = Some (to_json (meta_of
       \<lparr>sf_root = root, sf_layout = sw_layout w, sf_verify_seed = DEFAULT_VERIFY_SEED\<rparr> info st None))"
    and "\<And>p. p < unat n \<Longrightarrow> fs' (path_join (partition_dir root n p) ''data.bin'') =
       Some (aw_inner (pw_data (sw_partitions w ! p)))"
    and "\<And>p es. p < unat n \<Longrightarrow>
       pw_inv xxh64 DEFAULT_VERIFY_SEED (sw_partitions w ! p) (routed xxh64 (sw_layout w) kvs p) es \<Longrightarrow>
       \<exists>k. build es = Some (Ok (tables ! p, k))"
proof -
  let ?ws = "sw_partitions w" and ?dir = "partition_dir root n"
  let ?f = "\<lparr>sf_root = root, sf_layout = sw_layout w, sf_verify_seed = DEFAULT_VERIFY_SEED\<rparr>"
  define fs1 where "fs1 = snd (finish_all ?ws fs)"
  have w: "sw_root w = root" "sw_verify_seed w = DEFAULT_VERIFY_SEED" "length ?ws = unat n"
    and dir: "\<And>p. p < unat n \<Longrightarrow> pw_dir (?ws ! p) = ?dir p"
    using inv by (auto simp: snap_inv_def)
  have fin1: "finalizer_finish to_json now ?f (map ?dir [0..<unat n]) fs1 = Some (Ok fs')"
    using fin w snap_inv_dirs [OF inv] finish_all_fst [of ?ws fs]
    by (simp add: SnapshotWriter_finish_def into_partition_writers_def split_beta fs1_def)
  then obtain built index info st where b: "mapT (build_index fs1) (map ?dir [0..<unat n]) = Some (Ok built)"
    and wui: "write_unified_index (map fst built) = (index, info)"
    and fs': "fs' = fold remove_spill (map ?dir [0..<unat n])
       (write_meta to_json ?f info st None (fs1(index_path root \<mapsto> index)))"
    by (elim finalizer_finish_Ok) auto
  then have built: "list_all2 (\<lambda>d r. build_index fs1 d = Some (Ok r)) (map ?dir [0..<unat n]) built"
    by (simp add: mapT_Ok_iff)
  have len: "length built = unat n" using built by (auto dest: list_all2_lengthD)
  have files: "fs1 (path_join (?dir p) ''data.bin'') = Some (aw_inner (pw_data (?ws ! p)))"
    "fs1 (path_join (?dir p) ''spill.bin'') = Some (fst (spill_finish (pw_spill (?ws ! p))))" if "p < unat n" for p
    using finish_all_files [OF snap_inv_distinct [OF inv], of "?ws ! p" fs] that w(3) dir [OF that]
    by (simp_all add: fs1_def)
  show thesis
  proof (rule that [of "map fst built" index info st])
    show "length (map fst built) = unat n" by (simp add: len)
    show "write_unified_index (map fst built) = (index, info)" by (rule wui)
    show "fs' (index_path root) = Some index"
      unfolding fs' by (subst remove_spills_other) (simp_all add: write_meta_def index_path_def)
    show "fs' (path_join root ''meta.json'') = Some (to_json (meta_of ?f info st None))"
      unfolding fs' by (subst remove_spills_other) (simp_all add: write_meta_def)
    show "fs' (path_join (?dir p) ''data.bin'') = Some (aw_inner (pw_data (?ws ! p)))" if "p < unat n" for p
      unfolding fs' by (subst remove_spills_other)
        (simp_all add: write_meta_def partition_dir_paths files [OF that] del: path_join_inject, simp)
    show "\<exists>k. build es = Some (Ok (map fst built ! p, k))" if p: "p < unat n" and
      es: "pw_inv xxh64 DEFAULT_VERIFY_SEED (?ws ! p) (routed xxh64 (sw_layout w) kvs p) es" for p es
    proof -
      have "build_index fs1 (?dir p) = Some (Ok (fst (built ! p), snd (built ! p)))"
        using built p by (simp add: list_all2_conv_all_nth)
      from pw_inv_build_index [OF es files(2) [OF p] this] show ?thesis
        using p len by auto
    qed
  qed
qed

section \<open>Write, finish, open, get\<close>

text \<open>
  The answers a snapshot of the pairs \<open>kvs\<close> may give for \<open>key\<close>.  Keys are compared by what the
  format stores of them: the partition, the compact fingerprint and the verify fingerprint.
\<close>

definition same_slot :: "hash \<Rightarrow> Layout \<Rightarrow> bytes \<Rightarrow> bytes \<Rightarrow> bool" where
  "same_slot xxh64 l k k' \<longleftrightarrow>
     partition_of l (fingerprint xxh64 k) = partition_of l (fingerprint xxh64 k') \<and>
     compact_fingerprint (fingerprint xxh64 k) = compact_fingerprint (fingerprint xxh64 k')"

definition same_print :: "hash \<Rightarrow> Layout \<Rightarrow> u64 \<Rightarrow> bytes \<Rightarrow> bytes \<Rightarrow> bool" where
  "same_print xxh64 l seed k k' \<longleftrightarrow>
     same_slot xxh64 l k k' \<and> verify_fingerprint xxh64 k seed = verify_fingerprint xxh64 k' seed"

definition answers ::
    "hash \<Rightarrow> Layout \<Rightarrow> u64 \<Rightarrow> (bytes \<times> bytes) list \<Rightarrow> bytes \<Rightarrow> GetOutcome \<Rightarrow> bool" where
  "answers xxh64 l seed kvs key res =
     (case res of
        Hit v \<Rightarrow> \<exists>k. (k, v) \<in> set kvs \<and> same_print xxh64 l seed k key
      | Miss io \<Rightarrow> (\<forall>(k, v) \<in> set kvs. \<not> same_print xxh64 l seed k key) \<and>
          (io \<longleftrightarrow> (\<exists>(k, v) \<in> set kvs. same_slot xxh64 l k key)))"

lemma routed_same_slot:
  "(k, fp, v) \<in> set (routed xxh64 l kvs (partition_of l (fingerprint xxh64 key))) \<and>
     compact_fingerprint fp = compact_fingerprint (fingerprint xxh64 key) \<longleftrightarrow>
   (k, v) \<in> set kvs \<and> fp = fingerprint xxh64 k \<and> same_slot xxh64 l k key"
  by (auto simp: routed_def same_slot_def)

lemma partition_lookup_answers:
  assumes "pw_inv xxh64 seed w (routed xxh64 l kvs (partition_of l (fingerprint xxh64 key))) es"
    and "build es = Some (Ok (table, k))"
  shows "\<exists>res. partition_get arch xxh64 \<lparr>pr_buckets = table, pr_data = aw_inner (pw_data w),
      pr_verify_seed = seed\<rparr> key (fingerprint xxh64 key) = Ok res \<and> answers xxh64 l seed kvs key res"
proof -
  let ?fp = "fingerprint xxh64 key"
  let ?R = "routed xxh64 l kvs (partition_of l ?fp)"
  let ?P = "partition_get arch xxh64 \<lparr>pr_buckets = table, pr_data = aw_inner (pw_data w),
      pr_verify_seed = seed\<rparr> key ?fp"
  note r = routed_same_slot [of _ _ _ xxh64 l kvs key]
  from partition_lookup [OF assms, of ?fp key arch] show ?thesis
  proof (elim disjE conjE bexE)
    fix kv
    assume kv: "kv \<in> set ?R" "case kv of (k', fp', v) \<Rightarrow> compact_fingerprint fp' = compact_fingerprint ?fp \<and>
      verify_fingerprint xxh64 k' seed = verify_fingerprint xxh64 key seed \<and> ?P = Ok (Hit v)"
    obtain k' fp' v where "kv = (k', fp', v)" by (cases kv)
    with kv r [of k' fp' v] have "(k', v) \<in> set kvs" "same_print xxh64 l seed k' key" "?P = Ok (Hit v)"
      by (simp_all add: same_print_def)
    then show ?thesis by (auto simp: answers_def)
  next
    assume none: "\<forall>(k', fp', v) \<in> set ?R. compact_fingerprint fp' = compact_fingerprint ?fp \<longrightarrow>
        verify_fingerprint xxh64 k' seed \<noteq> verify_fingerprint xxh64 key seed"
      and miss: "?P = Ok (Miss (\<exists>(k', fp', v) \<in> set ?R. compact_fingerprint fp' = compact_fingerprint ?fp))"
    have "(\<exists>(k', fp', v) \<in> set ?R. compact_fingerprint fp' = compact_fingerprint ?fp) \<longleftrightarrow>
        (\<exists>(k, v) \<in> set kvs. same_slot xxh64 l k key)"
      using r by fastforce
    moreover have "\<not> same_print xxh64 l seed k key" if "(k, v) \<in> set kvs" for k v
      using that r [of k "fingerprint xxh64 k" v] none by (fastforce simp: same_print_def)
    ultimately show ?thesis
      using miss by (auto simp: answers_def)
  qed
qed

lemma mapR_enumerate:
  assumes "\<And>i. i < length xs \<Longrightarrow> f (i, xs ! i) = Ok (g i)"
  shows "mapR f (enumerate 0 xs) = Ok (map g [0..<length xs])"
proof -
  have "mapR f (enumerate 0 xs) = Ok (map (\<lambda>(i, x). g i) (enumerate 0 xs))"
    using assms by (intro mapR_Ok_map) (auto simp: in_set_enumerate_eq)
  also have "map (\<lambda>(i, x). g i) (enumerate 0 xs) = map g [0..<length xs]"
    by (auto simp: nth_enumerate_eq intro: nth_equalityI)
  finally show ?thesis .
qed

text \<open>
  Files with an index of \<open>tables\<close>, their metadata and the partitions' data open to a reader that
  looks every key up in the table and the data of its partition.
\<close>

lemma v4_files_open:
  assumes lay: "Layout_new n = Ok l" and len: "length tables = unat n"
    and wui: "write_unified_index tables = (index, info)" and size: "length index \<le> 2 ^ 63"
    and idx: "fs (index_path root) = Some index"
    and data: "\<And>p. p < unat n \<Longrightarrow> fs (path_join (partition_dir root n p) ''data.bin'') = Some (D p)"
    and pop: "populate_result populate = Ok ()"
  shows "\<exists>r. SnapshotReader_open populate fs root
      (meta_of \<lparr>sf_root = root', sf_layout = l, sf_verify_seed = seed\<rparr> info st enc) = Ok r \<and>
    (\<forall>key. let fp = fingerprint xxh64 key; p = partition_of l fp in
       SnapshotReader_get arch xxh64 r key =
         partition_get arch xxh64 \<lparr>pr_buckets = tables ! p, pr_data = D p, pr_verify_seed = seed\<rparr> key fp)"
proof -
  define meta where "meta = meta_of \<lparr>sf_root = root', sf_layout = l, sf_verify_seed = seed\<rparr> info st enc"
  have ln: "n_partitions l = n" using lay by (auto simp: Layout_new_Ok_iff)
  have at: "tables_at index (ui_offsets info) (ui_n_buckets info) tables"
    using wui size by (rule write_unified_index_tables)
  then have lens: "length (ui_offsets info) = unat n" "length (ui_n_buckets info) = unat n"
    by (simp_all add: tables_at_def len)
  have plen: "length (partitions meta) = unat n"
    by (simp add: meta_def meta_of_def lens)
  have ml: "Meta_layout meta = Ok l"
    using lay plen by (simp add: Meta_layout_def) (simp add: meta_def meta_of_def)
  have vs: "verify_seed meta = seed" by (simp add: meta_def meta_of_def)
  define g where "g p = (D p, ui_offsets info ! p, ui_n_buckets info ! p)" for p
  have parts: "mapR (\<lambda>(i, pm). rmap (\<lambda>f. (f, index_offset pm, index_n_buckets pm))
      (file_open fs (path_join (partition_dir root n i) ''data.bin''))) (enumerate 0 (partitions meta)) =
      Ok (map g [0..<length (partitions meta)])"
    by (rule mapR_enumerate) (simp add: plen file_open_def data g_def meta_def meta_of_def lens)
  define r where "r = \<lparr>sr_layout = l, sr_verify_seed = seed, sr_index_mmap = index,
      sr_data_files = map fst (map g [0..<unat n]), sr_ranges = map snd (map g [0..<unat n])\<rparr>"
  have idx_open: "file_open fs (index_path root) = Ok index"
    by (simp add: file_open_def idx)
  have "SnapshotReader_open populate fs root meta = Ok r"
    using parts by (simp add: SnapshotReader_open_def ml ln idx_open pop plen r_def vs)
  moreover have "SnapshotReader_get arch xxh64 r key =
      partition_get arch xxh64 \<lparr>pr_buckets = tables ! partition_of l (fingerprint xxh64 key),
        pr_data = D (partition_of l (fingerprint xxh64 key)), pr_verify_seed = seed\<rparr> key (fingerprint xxh64 key)" for key
  proof -
    let ?p = "partition_of l (fingerprint xxh64 key)"
    have p: "?p < unat n" using lay by (rule partition_of_bound)
    have "reader_partition r ?p = Ok \<lparr>pr_buckets = tables ! ?p, pr_data = D ?p, pr_verify_seed = seed\<rparr>"
      using p tables_at_bucket_table [OF at _ size, of ?p] len
      by (simp add: reader_partition_def r_def g_def)
    then show ?thesis by (simp add: SnapshotReader_get_def Let_def r_def)
  qed
  ultimately show ?thesis unfolding meta_def Let_def by blast
qed

text \<open>A finished snapshot opens, and the reader it opens to answers from the pairs written.\<close>

lemma finished_snapshot_opens:
  assumes inv: "snap_inv xxh64 root n w kvs"
    and fin: "SnapshotWriter_finish to_json now w fs = Some (Ok fs')"
    and size: "\<And>index. fs' (index_path root) = Some index \<Longrightarrow> length index \<le> 2 ^ 63"
    and pop: "populate_result populate = Ok ()"
  shows "\<exists>meta r. fs' (path_join root ''meta.json'') = Some (to_json meta) \<and>
    format_version meta = FORMAT_VERSION_V4 \<and>
    SnapshotReader_open populate fs' root meta = Ok r \<and>
    (\<forall>key. \<exists>res. SnapshotReader_get arch xxh64 r key = Ok res \<and>
       answers xxh64 (sw_layout w) DEFAULT_VERIFY_SEED kvs key res)"
proof -
  obtain tables index info st where len: "length tables = unat n"
    and wui: "write_unified_index tables = (index, info)"
    and idx: "fs' (index_path root) = Some index"
    and js: "fs' (path_join root ''meta.json'') = Some (to_json (meta_of
       \<lparr>sf_root = root, sf_layout = sw_layout w, sf_verify_seed = DEFAULT_VERIFY_SEED\<rparr> info st None))"
    and data: "\<And>p. p < unat n \<Longrightarrow> fs' (path_join (partition_dir root n p) ''data.bin'') =
       Some (aw_inner (pw_data (sw_partitions w ! p)))"
    and bld: "\<And>p es. p < unat n \<Longrightarrow>
       pw_inv xxh64 DEFAULT_VERIFY_SEED (sw_partitions w ! p) (routed xxh64 (sw_layout w) kvs p) es \<Longrightarrow>
       \<exists>k. build es = Some (Ok (tables ! p, k))"
    by (rule finish_files [OF inv fin]) blast
  let ?l = "sw_layout w"
  have lay: "Layout_new n = Ok ?l" using inv by (auto simp: snap_inv_def Layout_new_Ok_iff)
  define meta where "meta = meta_of
    \<lparr>sf_root = root, sf_layout = ?l, sf_verify_seed = DEFAULT_VERIFY_SEED\<rparr> info st None"
  obtain r where r: "SnapshotReader_open populate fs' root meta = Ok r"
    "\<And>key. SnapshotReader_get arch xxh64 r key = partition_get arch xxh64
       \<lparr>pr_buckets = tables ! partition_of ?l (fingerprint xxh64 key),
        pr_data = aw_inner (pw_data (sw_partitions w ! partition_of ?l (fingerprint xxh64 key))),
        pr_verify_seed = DEFAULT_VERIFY_SEED\<rparr> key (fingerprint xxh64 key)"
    using v4_files_open [where fs = fs' and D = "\<lambda>p. aw_inner (pw_data (sw_partitions w ! p))",
        OF lay len wui size [OF idx] idx data pop] unfolding meta_def Let_def by blast
  have "\<exists>res. SnapshotReader_get arch xxh64 r key = Ok res \<and>
      answers xxh64 ?l DEFAULT_VERIFY_SEED kvs key res" for key
  proof -
    let ?p = "partition_of ?l (fingerprint xxh64 key)"
    have p: "?p < unat n" using lay by (rule partition_of_bound)
    obtain es where es: "pw_inv xxh64 DEFAULT_VERIFY_SEED (sw_partitions w ! ?p) (routed xxh64 ?l kvs ?p) es"
      using inv p by (auto simp: snap_inv_def)
    obtain k where k: "build es = Some (Ok (tables ! ?p, k))" using bld [OF p es] by blast
    from partition_lookup_answers [OF es k, of arch] show ?thesis unfolding r(2) .
  qed
  moreover have "format_version meta = FORMAT_VERSION_V4"
    by (simp add: meta_def meta_of_def)
  ultimately show ?thesis
    using js r(1) unfolding meta_def [symmetric] by blast
qed

end
