(* ===== verification/V4_Properties.thy ===== *)
theory V4_Properties
  imports V4_Roundtrip
begin

text \<open>
  The properties of the V4 format: the preflight, when the writer succeeds, and the statements
  about table construction, probing, reading and the whole write/finish/open/get cycle.
\<close>

section \<open>The preflight\<close>

abbreviation fps :: "Bucket list \<Rightarrow> u32 multiset" where
  "fps es \<equiv> image_mset bk_fingerprint (mset es)"

text \<open>The counters after the entries of \<open>M\<close>, none over the limit.\<close>

definition counted :: "u32 multiset \<Rightarrow> (u32 \<rightharpoonup> u32) \<Rightarrow> u32 \<Rightarrow> bool" where
  "counted M counts worst \<longleftrightarrow>
     (\<forall>fp. counts fp = (if count M fp = 0 then None else Some (word_of_nat (count M fp)))) \<and>
     (\<forall>fp. count M fp \<le> unat worst) \<and> unat worst \<le> 255"

lemma counted_step:
  assumes "counted M counts worst" and c_def: "c = Suc (count M fp)" and "c \<le> 255"
  shows "counted (add_mset fp M) (counts(fp \<mapsto> word_of_nat c))
    (if unat worst < c then word_of_nat c else worst)"
proof -
  have u: "unat (word_of_nat c :: u32) = c"
    using assms(3) by (intro unat_word_of_nat_less) simp
  have old: "count M fp' \<le> unat worst" for fp'
    using assms(1) by (simp add: counted_def)
  have worst: "unat worst \<le> 255"
    using assms(1) by (simp add: counted_def)
  let ?counts = "counts(fp \<mapsto> word_of_nat c)"
  let ?worst = "if unat worst < c then word_of_nat c else worst :: u32"
  have uw: "unat ?worst = (if unat worst < c then c else unat worst)" by (simp add: u)
  have "?counts fp' = (if count (add_mset fp M) fp' = 0 then None
      else Some (word_of_nat (count (add_mset fp M) fp')))" for fp'
    using assms(1) by (cases "fp' = fp") (simp_all only: counted_def fun_upd_apply count_add_mset c_def, auto simp: count_eq_zero_iff)
  moreover have "count (add_mset fp M) fp' \<le> unat ?worst" for fp'
    unfolding uw count_add_mset using old [of fp'] c_def by auto
  moreover have "unat ?worst \<le> 255"
    unfolding uw using worst assms(3) by simp
  ultimately show ?thesis unfolding counted_def by blast
qed

lemma check_loop_correct:
  assumes "counted M counts worst"
  shows "check_loop es counts worst = Ok () \<and> (\<forall>fp. count (M + fps es) fp \<le> 255) \<or>
    check_loop es counts worst = Err (DuplicateFingerprints 256 255) \<and>
      (\<exists>fp. 255 < count (M + fps es) fp)"
  using assms
proof (induction es arbitrary: M counts worst)
  case Nil
  then show ?case by (auto simp: counted_def intro: order_trans)
next
  case (Cons e es)
  let ?fp = "bk_fingerprint e"
  define c where "c = Suc (count M ?fp)"
  have "c \<le> 256"
    using Cons.prems by (auto simp: counted_def c_def intro: order_trans)
  then have u: "unat (word_of_nat c :: u32) = c"
    by (intro unat_word_of_nat_less) simp
  have cnt: "(case counts ?fp of None \<Rightarrow> 0 | Some c \<Rightarrow> c) + 1 = (word_of_nat c :: u32)"
    using Cons.prems by (simp add: counted_def c_def)
  have M: "M + fps (e # es) = add_mset ?fp M + fps es" by simp
  have loop: "check_loop (e # es) counts worst =
      (if unat worst < c then
         if c > 255 then Err (DuplicateFingerprints c 255)
         else check_loop es (counts(?fp \<mapsto> word_of_nat c)) (word_of_nat c)
       else check_loop es (counts(?fp \<mapsto> word_of_nat c)) worst)"
    by (simp add: cnt word_less_nat_alt u MAX_DUPLICATE_FINGERPRINT_CHAIN_def Let_def)
  show ?case
  proof (cases "c > 255")
    case True
    moreover have "unat worst < c" using True Cons.prems by (auto simp: counted_def)
    moreover have "c = 256" using True \<open>c \<le> 256\<close> by simp
    moreover have "255 < count (add_mset ?fp M + fps es) ?fp" using True by (simp add: c_def)
    ultimately show ?thesis unfolding M loop by auto
  next
    case False
    then have "counted (add_mset ?fp M) (counts(?fp \<mapsto> word_of_nat c))
        (if unat worst < c then word_of_nat c else worst)"
      using Cons.prems by (intro counted_step) (simp_all add: c_def)
    moreover have "check_loop (e # es) counts worst = check_loop es (counts(?fp \<mapsto> word_of_nat c))
        (if unat worst < c then word_of_nat c else worst)"
      using False by (simp only: loop) simp
    ultimately show ?thesis unfolding M by (simp only: Cons.IH)
  qed
qed

lemma check_no_pathological_duplicates_iff:
  "check_no_pathological_duplicates es = Ok () \<longleftrightarrow> (\<forall>fp. count (fps es) fp \<le> 255)"
  "check_no_pathological_duplicates es \<noteq> Ok () \<Longrightarrow>
     check_no_pathological_duplicates es = Err (DuplicateFingerprints 256 255)"
proof -
  have "counted {#} Map.empty 0" by (simp add: counted_def)
  from check_loop_correct [OF this, of es]
  show "check_no_pathological_duplicates es = Ok () \<longleftrightarrow> (\<forall>fp. count (fps es) fp \<le> 255)"
    and "check_no_pathological_duplicates es \<noteq> Ok () \<Longrightarrow>
      check_no_pathological_duplicates es = Err (DuplicateFingerprints 256 255)"
    by (auto simp: check_no_pathological_duplicates_def not_le dest: leD)
qed

lemma count_fps_le_length: "count (fps es) fp \<le> length es"
  by (metis count_le_size size_image_mset size_mset)

text \<open>A partition of at most 255 entries always gets its index.\<close>

lemma build_index_small:
  assumes inv: "pw_inv xxh64 seed w kvs es"
    and spill: "fs (path_join dir ''spill.bin'') = Some (fst (spill_finish (pw_spill w)))"
    and small: "length kvs \<le> 255"
  shows "\<exists>r. build_index fs dir = Some (Ok r)"
proof -
  have len: "length es = length kvs"
    using inv by (auto simp: pw_inv_def dest: list_all2_lengthD)
  obtain r where r: "SpillReader_open (fst (spill_finish (pw_spill w))) = Ok r" "records r = Ok es"
    using spill_roundtrip [of "pw_spill w" es] inv by (auto simp: pw_inv_def)
  have "check_no_pathological_duplicates es = Ok ()"
    unfolding check_no_pathological_duplicates_iff(1)
    using count_fps_le_length [of es] len small order_trans by metis
  moreover obtain table where "build es = Some (Ok (table, 0))"
    using build_small [OF pw_inv_valid(1) [OF inv]] len small by auto
  ultimately show ?thesis
    using r spill by (simp add: build_index_def)
qed

section \<open>When the writer succeeds\<close>

definition padded_total :: "(bytes \<times> bytes) list \<Rightarrow> nat" where
  "padded_total kvs = sum_list (map (\<lambda>(k, v). ceil64 (12 + length v)) kvs)"

lemma Bucket_new_total:
  assumes "unat off \<le> 2 ^ 32 - 2"
  shows "\<exists>b. Bucket_new fp off = Ok b"
  using assms unat_MAX_OFFSET by (simp add: Bucket_new_def word_less_nat_alt unat_ucast_up)

lemma partition_write_total:
  assumes inv: "pw_inv xxh64 seed w kvs es" and fits: "fits val"
    and room: "length (aw_inner (pw_data w)) \<le> 2 ^ 37"
  shows "\<exists>w'. partition_write xxh64 w key fp val = Ok w' \<and>
    length (aw_inner (pw_data w')) = length (aw_inner (pw_data w)) + ceil64 (12 + length val)"
proof -
  have small: "12 + length val < 2 ^ 32"
    using fits ceil64_bounds [of "12 + length val"] by (simp add: fits_def)
  let ?off = "aw_byte_offset (pw_data w) div 64"
  have "unat ?off \<le> 2 ^ 32 - 2"
    using inv room by (simp add: pw_inv_def aw_inv_def unat_div)
  then obtain b where "Bucket_new (compact_fingerprint fp) ?off = Ok b"
    using Bucket_new_total by blast
  then show ?thesis
    by (simp add: partition_write_def write_value_record [OF small])
qed

lemma SnapshotWriter_write_total:
  assumes inv: "snap_inv xxh64 root n w pre" and fits: "fits v"
    and room: "\<forall>p < unat n. length (aw_inner (pw_data (sw_partitions w ! p))) \<le> s" "s \<le> 2 ^ 37"
  shows "\<exists>w'. SnapshotWriter_write xxh64 w k v = Ok w' \<and>
    (\<forall>p < unat n. length (aw_inner (pw_data (sw_partitions w' ! p))) \<le> s + ceil64 (12 + length v))"
proof -
  let ?fp = "fingerprint xxh64 k"
  let ?p = "partition_of (sw_layout w) ?fp"
  have p: "?p < unat n" and len: "length (sw_partitions w) = unat n"
    using inv by (auto simp: snap_inv_def intro: partition_of_bound)
  obtain es where "pw_inv xxh64 DEFAULT_VERIFY_SEED (sw_partitions w ! ?p)
      (routed xxh64 (sw_layout w) pre ?p) es"
    using inv p by (auto simp: snap_inv_def)
  moreover have "length (aw_inner (pw_data (sw_partitions w ! ?p))) \<le> 2 ^ 37"
    using room p by (meson le_trans)
  ultimately obtain pw where pw: "partition_write xxh64 (sw_partitions w ! ?p) k ?fp v = Ok pw"
    "length (aw_inner (pw_data pw)) = length (aw_inner (pw_data (sw_partitions w ! ?p))) + ceil64 (12 + length v)"
    using partition_write_total [OF _ fits] by blast
  have "length (aw_inner (pw_data ((sw_partitions w)[?p := pw] ! q))) \<le> s + ceil64 (12 + length v)"
    if "q < unat n" for q
    using room(1) that p pw(2) len by (cases "q = ?p") (auto intro: trans_le_add1)
  then show ?thesis
    using p pw(1) len by (simp add: SnapshotWriter_write_def Let_def)
qed

lemma write_all_total:
  assumes "snap_inv xxh64 root n w pre" and "\<forall>(k, v) \<in> set kvs. fits v"
    and "\<forall>p < unat n. length (aw_inner (pw_data (sw_partitions w ! p))) \<le> s"
    and "s + padded_total kvs \<le> 2 ^ 37"
  shows "\<exists>w'. write_all xxh64 kvs w = Ok w'"
  using assms
proof (induction kvs arbitrary: w pre s)
  case Nil
  then show ?case by (simp add: write_all_def)
next
  case (Cons kv kvs)
  obtain k v where kv: "kv = (k, v)" by (cases kv)
  then have fv: "fits v" using Cons.prems(2) by simp
  have sum: "s + ceil64 (12 + length v) + padded_total kvs \<le> 2 ^ 37"
    using Cons.prems(4) kv by (simp add: padded_total_def)
  then have "s \<le> 2 ^ 37" by simp
  then obtain w1 where w1: "SnapshotWriter_write xxh64 w k v = Ok w1"
    "\<forall>p < unat n. length (aw_inner (pw_data (sw_partitions w1 ! p))) \<le> s + ceil64 (12 + length v)"
    using SnapshotWriter_write_total [OF Cons.prems(1) fv Cons.prems(3)] by blast
  from Cons.IH [OF SnapshotWriter_write_inv [OF Cons.prems(1) fv w1(1)] _ w1(2) sum] Cons.prems(2)
  obtain w' where "write_all xxh64 kvs w1 = Ok w'" by auto
  with w1(1) kv show ?case by (simp add: write_all_def)
qed

lemma open_partitions_total:
  assumes "seed \<noteq> 0"
  shows "\<exists>ws fs'. open_partitions root n seed is fs = Ok (ws, fs') \<and>
    (\<forall>w \<in> set ws. aw_inner (pw_data w) = [])"
proof (induction "is" arbitrary: fs)
  case Nil
  then show ?case by simp
next
  case (Cons i "is")
  obtain w fs1 where w: "PartitionWriter_new (partition_dir root n i) seed fs = Ok (w, fs1)"
    "aw_inner (pw_data w) = []"
    using assms by (auto simp: PartitionWriter_new_def AlignedWriter_new_def)
  then show ?case using Cons [of fs1] by auto
qed

lemma SnapshotWriter_new_total:
  assumes "is_power_of_two n"
  shows "\<exists>w fs'. SnapshotWriter_new root n fs = Ok (w, fs') \<and>
    (\<forall>p < unat n. aw_inner (pw_data (sw_partitions w ! p)) = [])"
proof -
  obtain l where l: "Layout_new n = Ok l" using assms Layout_new_Ok_iff by blast
  have "DEFAULT_VERIFY_SEED \<noteq> 0" by (simp add: DEFAULT_VERIFY_SEED_def)
  from open_partitions_total [OF this, of root n "[0..<unat n]" fs]
  obtain ws fs' where ws: "open_partitions root n DEFAULT_VERIFY_SEED [0..<unat n] fs = Ok (ws, fs')"
    "\<forall>w \<in> set ws. aw_inner (pw_data w) = []" by blast
  have "length ws = unat n"
    using list_all2_lengthD [OF open_partitions_Ok [OF ws(1)]] by simp
  with ws l show ?thesis by (simp add: SnapshotWriter_new_def)
qed

text \<open>The size of the unified index: tables and at most one 2 MiB gap each.\<close>

definition index_bound :: "Bucket list list \<Rightarrow> nat" where
  "index_bound tables = sum_list (map (\<lambda>t. 8 * length t + 2 ^ 21) tables)"

lemma write_tables_bound:
  assumes "write_tables img off info tables = (img', info')" and "unat off = length img"
    and "length img + index_bound tables \<le> 2 ^ 63"
  shows "length img' \<le> length img + index_bound tables"
  using assms
proof (induction tables arbitrary: img off info)
  case Nil
  then show ?case by simp
next
  case (Cons table tables)
  let ?bs = "concat (map bucket_bytes table)"
  let ?off = "off + word_of_nat (length ?bs)" and ?img = "img @ ?bs"
  have bs: "length ?bs = 8 * length table" by (rule bucket_codec.length_concat_enc)
  have bound: "length ?img + 2 ^ 21 + index_bound tables = length img + index_bound (table # tables)"
    by (simp add: index_bound_def bs)
  have off: "unat ?off = length ?img"
    using Cons.prems(3) bound by (intro unat_eq_of_nat) (simp_all add: Cons.prems(2) [symmetric])
  let ?al = "align_up (word_of_nat INDEX_ALIGNMENT) ?off"
  have eq: "unat ?al = (length ?img + 2 ^ 21 - 1) div 2 ^ 21 * 2 ^ 21"
    using unat_align_up [of 21 ?off] Cons.prems(3) bound off by (simp add: INDEX_ALIGNMENT_def)
  have al: "length ?img \<le> unat ?al" "unat ?al \<le> length ?img + 2 ^ 21"
    unfolding eq by (rule ceil_mult_ge, simp) (rule order_trans [OF div_times_less_eq_dividend], simp)
  show ?case
  proof (cases "tables \<noteq> [] \<and> ?off mod word_of_nat INDEX_ALIGNMENT \<noteq> 0")
    case True
    have step: "write_tables (?img @ replicate (unat ?al - length ?img) 0) ?al
        \<lparr>ui_offsets = ui_offsets info @ [off], ui_n_buckets = ui_n_buckets info @ [word_of_nat (length table)]\<rparr>
        tables = (img', info')"
      using Cons.prems(1) True by (simp add: Let_def)
    have "length (?img @ replicate (unat ?al - length ?img) (0 :: u8)) = unat ?al" using al by simp
    with Cons.IH [OF step] al bound Cons.prems(3) show ?thesis by simp
  next
    case False
    have step: "write_tables ?img ?off
        \<lparr>ui_offsets = ui_offsets info @ [off], ui_n_buckets = ui_n_buckets info @ [word_of_nat (length table)]\<rparr>
        tables = (img', info')"
      using Cons.prems(1) False by (simp add: Let_def)
    from Cons.IH [OF step off] bound Cons.prems(3) show ?thesis by simp
  qed
qed

lemma index_bound_small:
  assumes "\<forall>t \<in> set tables. length t \<le> 269" and "length tables < 2 ^ 32"
  shows "index_bound tables \<le> 2 ^ 62"
proof -
  have "index_bound tables \<le> length tables * 2 ^ 22"
    unfolding index_bound_def using assms(1) by (induction tables) auto
  also have "\<dots> \<le> 2 ^ 32 * 2 ^ 22" using assms(2) by (intro mult_right_mono) auto
  finally show ?thesis by simp
qed

lemma build_small_length:
  assumes "build es = Some (Ok (table, k))" and "valid_entries es" and "length es \<le> 255"
  shows "length table \<le> 269"
proof -
  obtain t where t: "build es = Some (Ok (t, 0))"
    using build_small [OF assms(2)] assms(3) by auto
  then have "length table = bucket_count (length es)"
    using assms(1) by (auto elim: build_correct [OF _ assms(2)])
  also have "\<dots> \<le> 269" using assms(3) by (simp add: bucket_count_def)
  finally show ?thesis .
qed

lemma finish_total:
  assumes inv: "snap_inv xxh64 root n w kvs"
    and small: "\<And>p. p < unat n \<Longrightarrow> length (routed xxh64 (sw_layout w) kvs p) \<le> 255"
  shows "\<exists>fs'. SnapshotWriter_finish to_json now w fs = Some (Ok fs') \<and>
    (\<forall>index. fs' (index_path root) = Some index \<longrightarrow> length index \<le> 2 ^ 63)"
proof -
  let ?ws = "sw_partitions w" and ?dir = "partition_dir root n"
  define fs1 where "fs1 = snd (finish_all ?ws fs)"
  have len: "length ?ws = unat n" using inv by (simp add: snap_inv_def)
  have "\<exists>r. build_index fs1 d = Some (Ok r)" if d: "d \<in> set (map ?dir [0..<unat n])" for d
  proof -
    obtain p where p: "p < unat n" "d = ?dir p" using d by auto
    obtain es where "pw_inv xxh64 DEFAULT_VERIFY_SEED (?ws ! p) (routed xxh64 (sw_layout w) kvs p) es"
      and "pw_dir (?ws ! p) = d"
      using inv p by (auto simp: snap_inv_def)
    then show ?thesis
      using finish_all_files [OF snap_inv_distinct [OF inv], of "?ws ! p" fs] p(1) len small [OF p(1)]
      by (intro build_index_small) (auto simp: fs1_def)
  qed
  then obtain built where "mapT (build_index fs1) (map ?dir [0..<unat n]) = Some (Ok built)"
    using mapT_total by blast
  then have "\<exists>fs'. SnapshotWriter_finish to_json now w fs = Some (Ok fs')"
    using snap_inv_dirs [OF inv] finish_all_fst [of ?ws fs]
    by (simp add: SnapshotWriter_finish_def into_partition_writers_def split_beta fs1_def
        finalizer_finish_def Let_def)
  then obtain fs' where fin: "SnapshotWriter_finish to_json now w fs = Some (Ok fs')" by blast
  obtain tables index info where t: "length tables = unat n"
    and wui: "write_unified_index tables = (index, info)" and idx: "fs' (index_path root) = Some index"
    and bld: "\<And>p es. p < unat n \<Longrightarrow>
       pw_inv xxh64 DEFAULT_VERIFY_SEED (?ws ! p) (routed xxh64 (sw_layout w) kvs p) es \<Longrightarrow>
       \<exists>k. build es = Some (Ok (tables ! p, k))"
    by (rule finish_files [OF inv fin]) blast
  have "length (tables ! p) \<le> 269" if p: "p < unat n" for p
  proof -
    obtain es where es: "pw_inv xxh64 DEFAULT_VERIFY_SEED (?ws ! p) (routed xxh64 (sw_layout w) kvs p) es"
      using inv p by (auto simp: snap_inv_def)
    then have "length es \<le> 255"
      using small [OF p] by (auto simp: pw_inv_def dest!: list_all2_lengthD)
    then show ?thesis
      using bld [OF p es] build_small_length [OF _ pw_inv_valid(1) [OF es]] by blast
  qed
  then have "index_bound tables \<le> 2 ^ 62"
    using t unat_u32_less [of n] by (intro index_bound_small) (auto simp: in_set_conv_nth)
  then have "length index \<le> 2 ^ 63"
    using write_tables_bound [OF wui [unfolded write_unified_index_def]] by simp
  with fin idx show ?thesis by auto
qed


section \<open>Exact lookups\<close>

text \<open>Without a collision among the prints, the answers are those of the map.\<close>

lemma answers_map_of:
  assumes "answers xxh64 l seed kvs key res" and "distinct (map fst kvs)"
    and "\<forall>(k, v) \<in> set kvs. same_print xxh64 l seed k key \<longrightarrow> k = key"
  shows "case map_of kvs key of Some v \<Rightarrow> res = Hit v | None \<Rightarrow> \<exists>io. res = Miss io"
proof (cases res)
  case (Hit v)
  with assms(1) obtain k where "(k, v) \<in> set kvs" "same_print xxh64 l seed k key"
    by (auto simp: answers_def)
  with assms(3) have "(key, v) \<in> set kvs" by auto
  with assms(2) have "map_of kvs key = Some v" by (rule map_of_is_SomeI)
  with Hit show ?thesis by simp
next
  case (Miss io)
  have "map_of kvs key = None"
  proof (rule ccontr)
    assume "map_of kvs key \<noteq> None"
    then obtain v where "(key, v) \<in> set kvs" by (auto dest: map_of_SomeD)
    with assms(1) Miss have "\<not> same_print xxh64 l seed key key" by (auto simp: answers_def)
    then show False by (simp add: same_print_def same_slot_def)
  qed
  with Miss show ?thesis by simp
qed

section \<open>Values of four gibibytes and more\<close>

text \<open>The length field and the padding are computed from \<open>value.len() as u32\<close>.\<close>

lemma write_value_truncates:
  assumes inv: "aw_inv w" and room: "length (aw_inner w) + 12 + length val + 64 < 2 ^ 64"
  shows "\<exists>w' pad. write_value xxh64 w key val = Ok (w', aw_byte_offset w div 64, word_of_nat (12 + length val)) \<and>
    aw_inner w' = aw_inner w @ u64_le (verify_fingerprint xxh64 key (aw_verify_seed w)) @
      u32_le (word_of_nat (length val)) @ val @ replicate pad 0 \<and> pad < 64 \<and>
    aw_verify_seed w' = aw_verify_seed w \<and> unat (aw_byte_offset w') mod 64 = 0 \<and>
    unat (aw_byte_offset w') + (12 + length val) div 2 ^ 32 * 2 ^ 32 = length (aw_inner w')"
proof -
  let ?n = "12 + length val"
  let ?s = "word_of_nat VALUE_HEADER_SIZE + word_of_nat (length val) :: u32"
  have eq: "?s = word_of_nat ?n" by (simp add: VALUE_HEADER_SIZE_def)
  have s: "unat ?s = ?n mod 2 ^ 32" unfolding eq unat_of_nat by simp
  define pad where "pad = ceil64 (unat ?s) - unat ?s"
  have pad: "unat (aligned_size ?s - ucast ?s) = pad" "pad < 64"
    using ceil64_bounds [of "unat ?s"] by (simp_all add: pad_len_eq pad_def)
  have off: "unat (aw_byte_offset w) = length (aw_inner w)" "length (aw_inner w) mod 64 = 0" using inv by (simp_all add: aw_inv_def dvd_eq_mod_eq_0)
  have le: "ceil64 (unat ?s) < unat ?s + 64" "unat ?s \<le> ?n" using ceil64_bounds(2) [of "unat ?s"] s by (simp_all add: mod_less_eq_dividend)
  then have new: "unat (aw_byte_offset w + aligned_size ?s) = length (aw_inner w) + ceil64 (unat ?s)"
    using off(1) unat_aligned_size [of ?s] room by (subst unat_plus_if') simp
  have "ceil64 (unat ?s) = unat ?s + pad" using ceil64_bounds(1) [of "unat ?s"] by (simp add: pad_def)
  then have "length (aw_inner w) + ceil64 (unat ?s) + ?n div 2 ^ 32 * 2 ^ 32 = length (aw_inner w) + ?n + pad"
    using s div_mult_mod_eq [of ?n "2 ^ 32"] by linarith
  moreover have "(length (aw_inner w) + ceil64 (unat ?s)) mod 64 = 0" using off(2) ceil64_dvd [of "unat ?s"] by presburger
  moreover have "write_value xxh64 w key val = Ok (w\<lparr>aw_inner := aw_inner w @ u64_le (verify_fingerprint xxh64 key (aw_verify_seed w)) @
      u32_le (word_of_nat (length val)) @ val @ replicate pad 0, aw_byte_offset := aw_byte_offset w + aligned_size ?s\<rparr>,
      aw_byte_offset w div 64, word_of_nat ?n)"
    using pad by (simp add: write_value_def Let_def eq VALUE_ALIGNMENT_def del: of_nat_add)
  ultimately show ?thesis using pad(2) new by (intro exI [of _ "w\<lparr>aw_inner := aw_inner w @ u64_le (verify_fingerprint xxh64 key (aw_verify_seed w)) @
      u32_le (word_of_nat (length val)) @ val @ replicate pad 0, aw_byte_offset := aw_byte_offset w + aligned_size ?s\<rparr>"] exI [of _ pad]) simp
qed

section \<open>Properties\<close>

text \<open>A hash for the concrete instances: the key as a number, shifted, plus the seed.\<close>

definition demo_hash :: hash where
  "demo_hash key seed = word_of_nat (nat_of_le key) * 2 ^ 32 + seed"

definition demo_kvs :: "(bytes \<times> bytes) list" where
  "demo_kvs = [([7], [1, 2, 3]), ([9], [])]"

lemma demo_fits: "\<forall>(k, v) \<in> set demo_kvs. fits v"
  by (simp add: demo_kvs_def fits_def ceil64_def)

lemma demo_layout: "Layout_new 1 = Ok \<lparr>n_partitions = 1, partition_mask = 0\<rparr>"
proof -
  have "is_power_of_two (1 :: u32)"
    unfolding is_power_of_two_iff by (rule exI [of _ 0]) simp
  then show ?thesis by (simp add: Layout_new_Ok_iff)
qed

lemma demo_pow2: "is_power_of_two (1 :: u32)"
  using demo_layout by (simp add: Layout_new_Ok_iff)

lemma length_routed_le: "length (routed xxh64 l kvs p) \<le> length kvs"
  by (simp add: routed_def)

lemma small_snapshot_finishes:
  assumes "is_power_of_two n" and fit: "\<forall>(k, v) \<in> set kvs. fits v"
    and "padded_total kvs \<le> 2 ^ 37"
    and small: "\<And>l p. Layout_new n = Ok l \<Longrightarrow> p < unat n \<Longrightarrow> length (routed xxh64 l kvs p) \<le> 255"
  shows "\<exists>w0 fs0 w fs'. SnapshotWriter_new root n fs = Ok (w0, fs0) \<and>
     write_all xxh64 kvs w0 = Ok w \<and> Layout_new n = Ok (sw_layout w) \<and>
     SnapshotWriter_finish to_json now w fs0 = Some (Ok fs') \<and>
     (\<forall>index. fs' (index_path root) = Some index \<longrightarrow> length index \<le> 2 ^ 63)"
proof -
  obtain w0 fs0 where new: "SnapshotWriter_new root n fs = Ok (w0, fs0)"
    and empty: "\<forall>p < unat n. aw_inner (pw_data (sw_partitions w0 ! p)) = []"
    using SnapshotWriter_new_total [OF assms(1)] by blast
  note inv = SnapshotWriter_new_inv [OF new, of xxh64]
  obtain w where w: "write_all xxh64 kvs w0 = Ok w"
    using write_all_total [OF inv fit, of 0] empty assms(3) by auto
  have inv': "snap_inv xxh64 root n w kvs"
    using write_all_inv [OF w inv fit] by simp
  then have l: "Layout_new n = Ok (sw_layout w)" by (simp add: snap_inv_def)
  show ?thesis
    using new w l finish_total [OF inv' small [OF l], of to_json now fs0] by blast
qed

lemma demo_finished:
  "\<exists>w0 fs0 w fs'. SnapshotWriter_new [''snap''] 1 Map.empty = Ok (w0, fs0) \<and>
     write_all demo_hash demo_kvs w0 = Ok w \<and>
     SnapshotWriter_finish to_json now w fs0 = Some (Ok fs') \<and>
     (\<forall>index. fs' (index_path [''snap'']) = Some index \<longrightarrow> length index \<le> 2 ^ 63)"
proof -
  have "padded_total demo_kvs \<le> 2 ^ 37"
    by (simp add: padded_total_def demo_kvs_def ceil64_def)
  moreover have "length (routed demo_hash l demo_kvs p) \<le> 255" for l p
    using length_routed_le [of demo_hash l demo_kvs p] by (simp add: demo_kvs_def)
  ultimately show ?thesis
    using small_snapshot_finishes [OF demo_pow2 demo_fits] by metis
qed

lemma demo_answer:
  assumes "answers demo_hash l DEFAULT_VERIFY_SEED demo_kvs [7] res"
  shows "res = Hit [1, 2, 3]"
  using answers_map_of [OF assms]
  by (simp add: demo_kvs_def same_print_def same_slot_def fingerprint_def compact_fingerprint_def
      verify_fingerprint_def demo_hash_def)

text \<open>
  C5. Whatever was written to a V4 snapshot is what its reader answers from: after writing pairs
  (each small enough for the format's 32-bit size), finishing and opening the snapshot, every
  lookup returns, a hit carries a value written under a key with the same partition, compact and
  verify fingerprints, and a miss means no such key was written; its \<open>io\<close> flag is set exactly
  when some written key shares the partition and the compact fingerprint.
\<close>

theorem v4_snapshot_roundtrip:
  assumes "SnapshotWriter_new root n fs = Ok (w0, fs0)"
    and "write_all xxh64 kvs w0 = Ok w" and "\<forall>(k, v) \<in> set kvs. fits v"
    and "SnapshotWriter_finish to_json now w fs0 = Some (Ok fs')"
    and "\<And>index. fs' (index_path root) = Some index \<Longrightarrow> length index \<le> 2 ^ 63"
    and "populate_result populate = Ok ()"
  shows "\<exists>meta r. fs' (path_join root ''meta.json'') = Some (to_json meta) \<and>
    format_version meta = FORMAT_VERSION_V4 \<and>
    SnapshotReader_open populate fs' root meta = Ok r \<and>
    (\<forall>key. \<exists>res. SnapshotReader_get arch xxh64 r key = Ok res \<and>
       answers xxh64 (sw_layout w) DEFAULT_VERIFY_SEED kvs key res)"
proof -
  have "snap_inv xxh64 root n w kvs"
    using write_all_inv [OF assms(2) SnapshotWriter_new_inv [OF assms(1)] assms(3)] by simp
  from finished_snapshot_opens [OF this assms(4-6)] show ?thesis .
qed

theorem v4_snapshot_roundtrip_witness:
  "\<exists>w0 fs0 w fs' meta r. SnapshotWriter_new [''snap''] 1 Map.empty = Ok (w0, fs0) \<and>
     write_all demo_hash demo_kvs w0 = Ok w \<and>
     SnapshotWriter_finish (\<lambda>m. []) ''now'' w fs0 = Some (Ok fs') \<and>
     SnapshotReader_open None fs' [''snap''] meta = Ok r \<and>
     SnapshotReader_get OtherArch demo_hash r [7] = Ok (Hit [1, 2, 3])"
proof -
  obtain w0 fs0 w fs' where run: "SnapshotWriter_new [''snap''] 1 Map.empty = Ok (w0, fs0)"
    "write_all demo_hash demo_kvs w0 = Ok w"
    "SnapshotWriter_finish (\<lambda>m. []) ''now'' w fs0 = Some (Ok fs')"
    "\<forall>index. fs' (index_path [''snap'']) = Some index \<longrightarrow> length index \<le> 2 ^ 63"
    using demo_finished by blast
  have pop: "populate_result None = Ok ()" by (simp add: populate_result_def)
  obtain meta r res where r: "SnapshotReader_open None fs' [''snap''] meta = Ok r"
    "SnapshotReader_get OtherArch demo_hash r [7] = Ok res"
    "answers demo_hash (sw_layout w) DEFAULT_VERIFY_SEED demo_kvs [7] res"
    using v4_snapshot_roundtrip [OF run(1,2) demo_fits run(3) _ pop, of OtherArch] run(4) by metis
  with run demo_answer [OF r(3)] show ?thesis by blast
qed

text \<open>
  The whole V4 pipeline succeeds on every snapshot with at most 255 pairs in a partition and
  at most 128 GiB of padded values: the directory is created, every write and the finish return,
  the snapshot opens and every lookup is answered from the pairs written.
\<close>

theorem v4_small_snapshot:
  assumes "is_power_of_two n" and "\<forall>(k, v) \<in> set kvs. fits v" and "padded_total kvs \<le> 2 ^ 37"
    and "\<And>l p. Layout_new n = Ok l \<Longrightarrow> p < unat n \<Longrightarrow> length (routed xxh64 l kvs p) \<le> 255"
    and "populate_result populate = Ok ()"
  shows "\<exists>w0 fs0 w fs' meta r. SnapshotWriter_new root n fs = Ok (w0, fs0) \<and>
    write_all xxh64 kvs w0 = Ok w \<and> SnapshotWriter_finish to_json now w fs0 = Some (Ok fs') \<and>
    fs' (path_join root ''meta.json'') = Some (to_json meta) \<and>
    SnapshotReader_open populate fs' root meta = Ok r \<and>
    (\<forall>key. \<exists>res. SnapshotReader_get arch xxh64 r key = Ok res \<and>
       answers xxh64 (sw_layout w) DEFAULT_VERIFY_SEED kvs key res)"
proof -
  obtain w0 fs0 w fs' where run: "SnapshotWriter_new root n fs = Ok (w0, fs0)"
    "write_all xxh64 kvs w0 = Ok w" "SnapshotWriter_finish to_json now w fs0 = Some (Ok fs')"
    "\<forall>index. fs' (index_path root) = Some index \<longrightarrow> length index \<le> 2 ^ 63"
    using small_snapshot_finishes [OF assms(1-4)] by blast
  have "snap_inv xxh64 root n w kvs"
    using write_all_inv [OF run(2) SnapshotWriter_new_inv [OF run(1)] assms(2)] by simp
  from finished_snapshot_opens [OF this run(3) _ assms(5), of arch] run show ?thesis by blast
qed

theorem v4_small_snapshot_witness:
  "\<exists>w0 fs0 w fs' meta r. SnapshotWriter_new [''snap''] 1 Map.empty = Ok (w0, fs0) \<and>
     write_all demo_hash demo_kvs w0 = Ok w \<and>
     SnapshotWriter_finish (\<lambda>m. []) ''now'' w fs0 = Some (Ok fs') \<and>
     SnapshotReader_open None fs' [''snap''] meta = Ok r \<and>
     (\<exists>res. SnapshotReader_get (X86_64 True) demo_hash r [8] = Ok res)"
proof -
  have "padded_total demo_kvs \<le> 2 ^ 37"
    by (simp add: padded_total_def demo_kvs_def ceil64_def)
  moreover have "length (routed demo_hash l demo_kvs p) \<le> 255" for l p
    using length_routed_le [of demo_hash l demo_kvs p] by (simp add: demo_kvs_def)
  moreover have "populate_result None = Ok ()" by (simp add: populate_result_def)
  ultimately show ?thesis
    using v4_small_snapshot [OF demo_pow2 demo_fits, of demo_hash None "[''snap'']" Map.empty
        "\<lambda>m. []" "''now''" "X86_64 True"] by metis
qed




text \<open>
  C17. When the retry loop of the index build returns, it returns a table and never an error: the
  table satisfies the Robin Hood probe invariant, holds exactly the given entries, and its size
  is the initial size grown once per retry.
\<close>

theorem build_returns_table:
  assumes "build es = Some y" and "valid_entries es"
  shows "\<exists>table psls k. y = Ok (table, k) \<and> rh_inv table psls \<and>
    mset (occupied table) = mset es \<and> length table = (grow ^^ k) (bucket_count (length es))"
proof -
  obtain table psls k where "y = Ok (table, k)" and "rh_inv table psls"
    and "mset (occupied table) = mset es" and "length table = (grow ^^ k) (bucket_count (length es))"
    by (rule build_correct [OF assms])
  then show ?thesis by (intro exI conjI)
qed

theorem build_returns_table_witness:
  "\<exists>table psls. build [\<lparr>bk_fingerprint = 5, bk_offset = 0\<rparr>] = Some (Ok (table, 0)) \<and>
     rh_inv table psls \<and> occupied table = [\<lparr>bk_fingerprint = 5, bk_offset = 0\<rparr>]"
proof -
  have v: "valid_entries [\<lparr>bk_fingerprint = 5, bk_offset = 0\<rparr>]" by (simp add: valid_entries_def)
  then obtain table where "build [\<lparr>bk_fingerprint = 5, bk_offset = 0\<rparr>] = Some (Ok (table, 0))"
    using build_small by fastforce
  with build_returns_table [OF this v] show ?thesis by auto
qed

text \<open>
  The index build returns on the first attempt for every set of at most 256 entries, whatever
  their fingerprints.
\<close>

theorem build_total_256:
  assumes "valid_entries es" and "length es \<le> 256"
  shows "\<exists>table. build es = Some (Ok (table, 0))"
  by (rule build_small [OF assms])

theorem build_total_256_witness:
  "\<exists>table. build (replicate 256 \<lparr>bk_fingerprint = 1, bk_offset = 0\<rparr>) = Some (Ok (table, 0))"
  using build_total_256 [of "replicate 256 \<lparr>bk_fingerprint = 1, bk_offset = 0\<rparr>"]
  by (simp add: valid_entries_def)

text \<open>
  C37. The retry loop never returns when more than \<open>k + 255\<close> entries have fingerprints in an
  interval of \<open>k\<close> values, because growing the table keeps adjacent fingerprints adjacent.
\<close>

theorem build_never_returns:
  assumes "valid_entries es" and "k + 255 < length (filter (in_window a k) es)"
  shows "build es = None"
  by (rule build_diverges [OF assms])

text \<open>129 entries with fingerprint 1 and 129 with fingerprint 2 pass the preflight and never end.\<close>

theorem build_never_returns_witness:
  "let es = replicate 129 \<lparr>bk_fingerprint = 1, bk_offset = 0\<rparr> @
      replicate 129 \<lparr>bk_fingerprint = 2, bk_offset = 0\<rparr>
   in check_no_pathological_duplicates es = Ok () \<and> build es = None"
proof -
  let ?a = "\<lparr>bk_fingerprint = 1, bk_offset = 0\<rparr>" and ?b = "\<lparr>bk_fingerprint = 2, bk_offset = 0\<rparr>"
  let ?es = "replicate 129 ?a @ replicate 129 ?b"
  have "count (fps ?es) fp \<le> 255" for fp
    by simp
  then have "check_no_pathological_duplicates ?es = Ok ()"
    unfolding check_no_pathological_duplicates_iff(1) by blast
  moreover have "build ?es = None"
  proof (rule build_never_returns [where a = 1 and k = 2])
    show "valid_entries ?es" by (auto simp: valid_entries_def)
    have "in_window 1 2 ?a" "in_window 1 2 ?b" by (simp_all add: in_window_def)
    then have "filter (in_window 1 2) ?es = ?es" by simp
    then show "2 + 255 < length (filter (in_window 1 2) ?es)" by simp
  qed
  ultimately show ?thesis by (simp only: Let_def simp_thms)
qed

text \<open>
  C16. Inserting an entry in a table that satisfies the Robin Hood invariant either stores exactly
  that entry and keeps the invariant, or reports a probe-length overflow, and then the table is
  full or holds at least 256 entries; it never panics.
\<close>

theorem insert_v4_spec:
  assumes "rh_inv table psls" and "bk_fingerprint e \<noteq> 0" and "table \<noteq> []"
  shows "(\<exists>table' psls'. insert_v4 table psls e = Ok (table', psls') \<and> rh_inv table' psls' \<and>
      length table' = length table \<and> mset (occupied table') = add_mset e (mset (occupied table))) \<or>
    insert_v4 table psls e = Err (PslOverflow MAX_PSL (n_occupied table) (length table)) \<and>
      min (length table) 256 \<le> n_occupied table"
  using insert_v4_outcome [OF assms] insert_v4_correct [OF assms(1,2)] by fastforce

theorem insert_v4_spec_witness:
  "\<exists>table' psls'. insert_v4 [Bucket_default, Bucket_default] [0, 0] \<lparr>bk_fingerprint = 3, bk_offset = 8\<rparr>
     = Ok (table', psls') \<and> rh_inv table' psls' \<and> occupied table' = [\<lparr>bk_fingerprint = 3, bk_offset = 8\<rparr>]"
proof -
  have "rh_inv [Bucket_default, Bucket_default] [0, 0]" "occupied [Bucket_default, Bucket_default] = []"
    using empty_table [of 2] by (simp_all add: numeral_2_eq_2)
  with insert_v4_spec [of "[Bucket_default, Bucket_default]" "[0, 0]" "\<lparr>bk_fingerprint = 3, bk_offset = 8\<rparr>"]
  show ?thesis by (auto simp: n_occupied_eq)
qed

text \<open>
  C27. The AVX2 and NEON probes compute what the scalar probe computes, so the result of a group
  probe does not depend on the target or on the CPU features detected.
\<close>

theorem probe_group_any_target:
  "probe_group arch table cfp pos = probe_group_scalar table cfp pos"
  by (rule probe_group_target)


text \<open>
  Reading a stored value back: at the offset where the record of a key and value stands, the
  reader returns exactly the value when the expected verify fingerprint is the stored one and
  nothing otherwise, whether or not the value fits the speculative read of the page.
\<close>

theorem read_back_value:
  assumes "stored_at xxh64 seed data off key val" and "fits val"
  shows "read_and_verify data off vfp =
    Ok (if verify_fingerprint xxh64 key seed = vfp then Some val else None)"
  using assms read_and_verify_same read_and_verify_other by (auto simp: fits_def)

theorem read_back_value_witness:
  "read_and_verify (value_record demo_hash 3 [7] [1, 2]) 0 (verify_fingerprint demo_hash [7] 3) =
     Ok (Some [1, 2])"
proof -
  have "stored_at demo_hash 3 (value_record demo_hash 3 [7] [1, 2]) 0 [7] [1, 2]"
    by (simp add: stored_at_def)
  moreover have "fits [1, 2]" by (simp add: fits_def ceil64_def)
  ultimately show ?thesis using read_back_value by fastforce
qed

text \<open>
  C39. A stored value whose padded record is exactly four gibibytes makes the reader panic: the
  aligned size wraps to zero in the cast to \<open>u32\<close>, the second read returns no byte and the slice
  of the empty buffer is out of range.
\<close>

theorem read_4gib_record_panics:
  assumes "stored_at xxh64 seed data off key val"
    and "2 ^ 32 - 64 < 12 + length val" and "12 + length val < 2 ^ 32"
  shows "read_and_verify data off (verify_fingerprint xxh64 key seed) = Panic"
  by (rule read_and_verify_4g [OF assms])

theorem read_4gib_record_panics_witness:
  "read_and_verify (value_record demo_hash 3 [7] (replicate 4294967274 0)) 0
     (verify_fingerprint demo_hash [7] 3) = Panic"
proof -
  have "stored_at demo_hash 3 (value_record demo_hash 3 [7] (replicate 4294967274 0)) 0 [7]
      (replicate 4294967274 0)"
    by (simp add: stored_at_def)
  from read_4gib_record_panics [OF this] show ?thesis by (simp only: length_replicate) simp
qed

text \<open>
  C40. Writing a value whose record has four gibibytes or more breaks the data file: the call succeeds
  and the whole value is written, but the length field, the size returned for the index and the
  padding are computed modulo \<open>2 ^ 32\<close>.  The recorded offset falls behind the position in the file by
  the multiple of \<open>2 ^ 32\<close> that was cut off, and whatever value is written next is indexed that far
  before the place where it is stored.
\<close>

theorem write_4gib_value_drifts:
  assumes "aw_inv w" and "2 ^ 32 \<le> 12 + length val" and "length (aw_inner w) + 12 + length val + 64 < 2 ^ 64"
  shows "\<exists>w' off sz pad. write_value xxh64 w key val = Ok (w', off, sz) \<and> unat sz = (12 + length val) mod 2 ^ 32 \<and>
    aw_inner w' = aw_inner w @ u64_le (verify_fingerprint xxh64 key (aw_verify_seed w)) @
      u32_le (word_of_nat (length val mod 2 ^ 32)) @ val @ replicate pad 0 \<and> pad < 64 \<and> \<not> aw_inv w' \<and>
    unat (aw_byte_offset w') + (12 + length val) div 2 ^ 32 * 2 ^ 32 = length (aw_inner w') \<and>
    (\<forall>key2 val2. \<exists>w2 off2 sz2. write_value xxh64 w' key2 val2 = Ok (w2, off2, sz2) \<and>
       unat off2 * 64 + (12 + length val) div 2 ^ 32 * 2 ^ 32 = length (aw_inner w'))"
proof -
  obtain w' pad where w': "write_value xxh64 w key val = Ok (w', aw_byte_offset w div 64, word_of_nat (12 + length val))"
    "aw_inner w' = aw_inner w @ u64_le (verify_fingerprint xxh64 key (aw_verify_seed w)) @
      u32_le (word_of_nat (length val)) @ val @ replicate pad 0" "pad < 64" "unat (aw_byte_offset w') mod 64 = 0"
    "unat (aw_byte_offset w') + (12 + length val) div 2 ^ 32 * 2 ^ 32 = length (aw_inner w')"
    using write_value_truncates [OF assms(1,3), of xxh64 key] by (elim exE conjE) (rule that)
  have len: "(word_of_nat (length val) :: u32) = word_of_nat (length val mod 2 ^ 32)"
    by (simp only: word_unat_eq_iff unat_of_nat) simp
  have "0 < (12 + length val) div 2 ^ 32 * 2 ^ 32" using assms(2) by (simp add: div_greater_zero_iff)
  then have "\<not> aw_inv w'" using w'(5) by (auto simp: aw_inv_def)
  moreover have "\<exists>w2 sz2. write_value xxh64 w' key2 val2 = Ok (w2, aw_byte_offset w' div 64, sz2)" for key2 val2
    by (rule write_value_eq)
  moreover have "unat (aw_byte_offset w' div 64) * 64 = unat (aw_byte_offset w')"
    using w'(4) by (simp add: unat_div mod_eq_0_iff_dvd)
  moreover have "unat (word_of_nat (12 + length val) :: u32) = (12 + length val) mod 2 ^ 32" unfolding unat_of_nat by simp
  ultimately show ?thesis using w'(1-3,5) unfolding len by metis
qed

theorem write_4gib_value_drifts_witness:
  "\<exists>w' off sz. write_value demo_hash \<lparr>aw_inner = [], aw_byte_offset = 0, aw_verify_seed = 3\<rparr> [7]
      (replicate 4294967296 0) = Ok (w', off, sz) \<and> \<not> aw_inv w' \<and> unat sz = 12"
proof -
  let ?w = "\<lparr>aw_inner = [], aw_byte_offset = 0, aw_verify_seed = 3\<rparr>" and ?v = "replicate 4294967296 0 :: bytes"
  have 1: "aw_inv ?w" by (simp add: aw_inv_def)
  have 2: "2 ^ 32 \<le> 12 + length ?v" "length (aw_inner ?w) + 12 + length ?v + 64 < 2 ^ 64" by (simp_all only: length_replicate) simp_all
  have 3: "(12 + length ?v) mod 2 ^ 32 = 12" by (simp only: length_replicate) simp
  from write_4gib_value_drifts [OF 1 2, of demo_hash "[7]"] show ?thesis unfolding 3 by blast
qed

text \<open>
  Below that limit the writer keeps its invariant: the recorded offset is the position in the
  file, a multiple of the alignment, and the value is stored at the returned offset.
\<close>

theorem write_value_keeps_position:
  assumes "aw_inv w" and "12 + length val < 2 ^ 32"
    and "length (aw_inner w) + ceil64 (12 + length val) < 2 ^ 64"
    and "write_value xxh64 w key val = Ok (w', off, sz)"
  shows "aw_inv w' \<and> stored_at xxh64 (aw_verify_seed w) (aw_inner w') (off * 64) key val"
proof -
  note d = write_value_inv [OF assms]
  have "unat (off * 64) = unat off * 64"
    using d assms(3) by (simp add: unat_word_ariths)
  with d have "unat (off * 64) = length (aw_inner w)" by simp
  with d assms(1) show ?thesis by (simp add: stored_at_def aw_inv_def ceil64_dvd)
qed

theorem write_value_keeps_position_witness:
  "\<exists>w' off sz. write_value demo_hash \<lparr>aw_inner = [], aw_byte_offset = 0, aw_verify_seed = 3\<rparr> [7] [1, 2]
      = Ok (w', off, sz) \<and> aw_inv w' \<and> stored_at demo_hash 3 (aw_inner w') (off * 64) [7] [1, 2]"
proof -
  let ?w = "\<lparr>aw_inner = [], aw_byte_offset = 0, aw_verify_seed = 3\<rparr>"
  have w: "aw_inv ?w" "12 + length [1, 2 :: u8] < 2 ^ 32"
    "length (aw_inner ?w) + ceil64 (12 + length [1, 2 :: u8]) < 2 ^ 64"
    by (simp_all add: aw_inv_def ceil64_def)
  obtain w' off sz where "write_value demo_hash ?w [7] [1, 2] = Ok (w', off, sz)"
    using write_value_eq by blast
  with write_value_keeps_position [OF w this] show ?thesis by auto
qed

text \<open>
  A spill file written record by record and finished reads back as exactly the records
  pushed, and the header counts them.
\<close>

theorem spill_file_roundtrip:
  assumes "length es < 2 ^ 64"
  shows "\<exists>r. SpillReader_open (fst (spill_finish (fold (\<lambda>b w. spill_push w b) es SpillWriter_create))) = Ok r \<and>
    unat (sr_count r) = length es \<and> records r = Ok es"
proof -
  from spill_inv_fold [OF spill_inv_create, of es] have "spill_inv (fold (\<lambda>b w. spill_push w b) es SpillWriter_create) es"
    by simp
  from spill_roundtrip [OF this assms] show ?thesis .
qed

theorem spill_file_roundtrip_witness:
  "\<exists>r. SpillReader_open (fst (spill_finish (spill_push SpillWriter_create \<lparr>bk_fingerprint = 5, bk_offset = 1\<rparr>))) = Ok r \<and>
     records r = Ok [\<lparr>bk_fingerprint = 5, bk_offset = 1\<rparr>]"
  using spill_file_roundtrip [of "[\<lparr>bk_fingerprint = 5, bk_offset = 1\<rparr>]"] by auto

text \<open>
  A spill file whose record area is shorter than its header counts is an error, never a
  shorter list of records.
\<close>

theorem truncated_spill_is_error:
  assumes "SpillReader_open bs = Ok r" and "length bs < 16 + 8 * unat (sr_count r)"
  shows "records r = Err eof_error"
  using assms spill_records_short [of "sr_rest r" "unat (sr_count r)"]
  by (auto simp: SpillReader_open_def records_def SPILL_HEADER_SIZE_def split: if_splits)

theorem truncated_spill_is_error_witness:
  "\<exists>r. SpillReader_open (SPILL_MAGIC @ u64_le 1 @ [0, 0]) = Ok r \<and> records r = Err eof_error"
proof -
  let ?r = "\<lparr>sr_rest = [0, 0], sr_count = 1\<rparr>"
  have "SpillReader_open (SPILL_MAGIC @ u64_le 1 @ [0, 0]) = Ok ?r"
    by (simp add: SpillReader_open_def SPILL_HEADER_SIZE_def slice_simps)
  with truncated_spill_is_error [OF this] show ?thesis by simp
qed

text \<open>
  Every partition's table is read back from the unified index file at the offset and size
  recorded for it.
\<close>

theorem unified_index_roundtrip:
  assumes "write_unified_index tables = (img, info)" and "length img \<le> 2 ^ 63" and "i < length tables"
  shows "bucket_table img (ui_offsets info ! i) (ui_n_buckets info ! i) = Ok (tables ! i)"
  by (rule tables_at_bucket_table [OF write_unified_index_tables [OF assms(1,2)] assms(3,2)])

theorem unified_index_roundtrip_witness:
  "\<exists>img info. write_unified_index [[\<lparr>bk_fingerprint = 5, bk_offset = 1\<rparr>]] = (img, info) \<and>
     bucket_table img (ui_offsets info ! 0) (ui_n_buckets info ! 0) = Ok [\<lparr>bk_fingerprint = 5, bk_offset = 1\<rparr>]"
proof -
  let ?t = "[[\<lparr>bk_fingerprint = 5, bk_offset = 1\<rparr>]]"
  obtain img info where w: "write_unified_index ?t = (img, info)" by force
  then have "length img \<le> 2 ^ 63"
    by (auto simp: write_unified_index_def Let_def bucket_bytes_def)
  with w unified_index_roundtrip [OF w, of 0] show ?thesis by auto
qed

text \<open>
  The preflight accepts a set of entries exactly when no compact fingerprint occurs more than
  255 times, and otherwise reports the first count over the limit.
\<close>

theorem preflight_exact:
  "check_no_pathological_duplicates es =
     (if \<forall>fp. count (fps es) fp \<le> 255 then Ok () else Err (DuplicateFingerprints 256 255))"
  using check_no_pathological_duplicates_iff by auto

text \<open>
  Routing: a layout exists exactly for a power-of-two partition count, every fingerprint is
  routed to the remainder of its value by the count, and distinct partitions have distinct
  directories.
\<close>

theorem routing_exact:
  "(case Layout_new n of
      Ok l \<Rightarrow> (\<exists>k < 32. n = 2 ^ k) \<and> (\<forall>fp. partition_of l fp = unat fp mod unat n \<and> partition_of l fp < unat n)
    | Err e \<Rightarrow> \<not> (\<exists>k < 32. n = 2 ^ k) \<and> e = InvalidPartitionCount n
    | Panic \<Rightarrow> False) \<and>
   (partition_dir root n i = partition_dir root n j \<longleftrightarrow> i = j)"
proof (cases "Layout_new n")
  case (Ok l)
  then have "\<exists>k < 32. n = 2 ^ k"
    by (auto simp: Layout_new_Ok_iff is_power_of_two_iff)
  with partition_of_mod [OF Ok] partition_of_bound [OF Ok] show ?thesis
    by (simp add: Ok partition_dir_inject)
next
  case (Err e)
  then show ?thesis
    by (auto simp: Layout_new_def partition_dir_inject is_power_of_two_iff split: if_splits)
next
  case Panic
  then show ?thesis by (auto simp: Layout_new_def split: if_splits)
qed

end
