(* ===== verification/V5_Block.thy ===== *)
theory V5_Block
  imports Data_File
begin

text \<open>
  \<open>mcfreeze-format/src/v5/block.rs\<close> and \<open>v5/fence.rs\<close>: record and block encoding, the block
  assembler with its fallible sink, block verification and scanning, and the fence search.

  The assembler's operations return their result together with the assembler, because its state
  after a failure is part of the contract (it is poisoned).  The sink is a parameter: what it
  does to its own state \<open>'w\<close> and whether it fails.
\<close>

section \<open>Constants and sizes\<close>

definition CHECKSUM_LEN :: nat where
  "CHECKSUM_LEN = 4"

definition HEADER_LEN :: nat where
  "HEADER_LEN = 12"

definition RECORD_ALIGN :: nat where
  "RECORD_ALIGN = 8"

definition STUB_PAYLOAD_LEN :: nat where
  "STUB_PAYLOAD_LEN = 12"

definition MAX_VALUE_LEN :: u32 where
  "MAX_VALUE_LEN = push_bit 30 1 - 1"

definition FLAG_OUT_OF_LINE :: u32 where
  "FLAG_OUT_OF_LINE = push_bit 31 1"

definition FLAG_COMPRESSED :: u32 where
  "FLAG_COMPRESSED = push_bit 30 1"

text \<open>\<open>(n + 7) & !7\<close> on \<open>usize\<close>: the next multiple of 8.\<close>

definition align8 :: "nat \<Rightarrow> nat" where
  "align8 n = (n + (RECORD_ALIGN - 1)) div RECORD_ALIGN * RECORD_ALIGN"

definition encoded_len :: "nat \<Rightarrow> nat" where
  "encoded_len payload_len = align8 (HEADER_LEN + payload_len)"

definition checksum32 :: "hash \<Rightarrow> bytes \<Rightarrow> u32" where
  "checksum32 xxh64 bs = ucast (xxh64 bs 0)"

definition v5_verify_fingerprint :: "hash \<Rightarrow> bytes \<Rightarrow> u64 \<Rightarrow> u64" where
  "v5_verify_fingerprint xxh64 key seed = (let h = xxh64 key seed in if h = 0 then 1 else h)"

record Stub =
  heap_offset :: u64
  stored_len :: u32
  value_checksum :: u32

datatype Record = Inline u64 bytes bool | StubRec u64 Stub bool

fun record_vfp :: "Record \<Rightarrow> u64" where
  "record_vfp (Inline vfp _ _) = vfp"
| "record_vfp (StubRec vfp _ _) = vfp"

section \<open>Verification\<close>

definition verify :: "hash \<Rightarrow> bytes \<Rightarrow> unit fres" where
  "verify xxh64 block =
     (if length block < CHECKSUM_LEN then Err (CorruptBlock ''block shorter than its checksum'')
      else
        let body = length block - CHECKSUM_LEN;
            stored = u32_of_le (drop body block)
        in if checksum32 xxh64 (take body block) \<noteq> stored then Err BlockChecksumMismatch
           else Ok ())"

section \<open>Fences\<close>

definition fence_of :: "u64 \<Rightarrow> u32" where
  "fence_of fp = ucast (drop_bit 32 fp)"

text \<open>
  \<open>slice::partition_point\<close> is the binary search of the standard library: a window of \<open>sz\<close> elements
  from \<open>base\<close> is halved down to one element.  On a slice partitioned by its predicate it finds the
  length of the first part; the reader does not check that the fences are sorted, so the search is
  followed as it runs.
\<close>

function search_window :: "('a \<Rightarrow> bool) \<Rightarrow> 'a list \<Rightarrow> nat \<Rightarrow> nat \<Rightarrow> nat" where
  "search_window P xs base sz =
     (if sz \<le> 1 then (if P (xs ! base) then base + 1 else base)
      else
        let half = sz div 2; mid = base + half
        in search_window P xs (if P (xs ! mid) then mid else base) (sz - half))"
  by pat_completeness auto
termination
  by (relation "measure (\<lambda>(P, xs, base, sz). sz)") auto

declare search_window.simps [simp del]

definition partition_point :: "('a \<Rightarrow> bool) \<Rightarrow> 'a list \<Rightarrow> nat" where
  "partition_point P xs = (if xs = [] then 0 else search_window P xs 0 (length xs))"

definition candidate_blocks :: "u32 list \<Rightarrow> u32 \<Rightarrow> nat list" where
  "candidate_blocks fences h =
     (let lo = partition_point (\<lambda>f. f < h) fences;
          eq = length (takeWhile (\<lambda>f. f = h) (drop lo fences));
          back = (if lo > 0 then [lo - 1] else [])
      in [lo..<lo + eq] @ back)"

section \<open>Block assembler\<close>

type_synonym 'w sink = "bytes \<Rightarrow> 'w \<Rightarrow> unit fres \<times> 'w"

record 'w BlockAssembler =
  ba_block_size :: nat
  ba_buf :: bytes
  ba_fences :: "u32 list"
  ba_failed :: bool
  ba_sink :: 'w

definition BlockAssembler_new :: "nat \<Rightarrow> 'w \<Rightarrow> (error, 'w BlockAssembler) res" where
  "BlockAssembler_new block_size w =
     (if block_size mod RECORD_ALIGN = 0 \<and> block_size \<ge> CHECKSUM_LEN + encoded_len STUB_PAYLOAD_LEN
      then Ok \<lparr>ba_block_size = block_size, ba_buf = [], ba_fences = [], ba_failed = False, ba_sink = w\<rparr>
      else Panic)"

text \<open>\<open>Vec::resize(n, 0)\<close>.\<close>

definition resize :: "nat \<Rightarrow> bytes \<Rightarrow> bytes" where
  "resize n bs = take n bs @ replicate (n - length bs) 0"

definition cut :: "hash \<Rightarrow> 'w sink \<Rightarrow> 'w BlockAssembler \<Rightarrow> unit fres \<times> 'w BlockAssembler" where
  "cut xxh64 sink a =
     (let body = ba_block_size a - CHECKSUM_LEN;
          buf = resize body (ba_buf a);
          buf = buf @ u32_le (checksum32 xxh64 buf);
          (res, w) = sink buf (ba_sink a)
      in (res, a\<lparr>ba_buf := [], ba_sink := w,
                 ba_failed := (ba_failed a \<or> is_err res)\<rparr>))"

definition push_header ::
    "hash \<Rightarrow> 'w sink \<Rightarrow> u64 \<Rightarrow> u64 \<Rightarrow> nat \<Rightarrow> u32 \<Rightarrow> 'w BlockAssembler \<Rightarrow> unit fres \<times> 'w BlockAssembler" where
  "push_header xxh64 sink fp vfp payload_len length_flags a =
     (if ba_failed a then (Err AssemblerPoisoned, a)
      else if vfp = 0 then (Panic, a)
      else
        let enc = encoded_len payload_len;
            capacity = ba_block_size a - CHECKSUM_LEN
        in if enc > capacity then (Err (RecordTooLarge enc capacity), a)
           else
             let (res, a1) = (if length (ba_buf a) + enc > capacity then cut xxh64 sink a else (Ok (), a))
             in if res \<noteq> Ok () then (res, a1)
                else
                  let fences = (if ba_buf a1 = [] then ba_fences a1 @ [fence_of fp] else ba_fences a1)
                  in (Ok (), a1\<lparr>ba_fences := fences,
                                ba_buf := ba_buf a1 @ u64_le vfp @ u32_le length_flags\<rparr>))"

definition push_payload :: "bytes \<Rightarrow> 'w BlockAssembler \<Rightarrow> 'w BlockAssembler" where
  "push_payload payload a =
     (let buf = ba_buf a @ payload in a\<lparr>ba_buf := resize (align8 (length buf)) buf\<rparr>)"

definition push_inline ::
    "hash \<Rightarrow> 'w sink \<Rightarrow> u64 \<Rightarrow> u64 \<Rightarrow> bytes \<Rightarrow> bool \<Rightarrow> 'w BlockAssembler \<Rightarrow> unit fres \<times> 'w BlockAssembler" where
  "push_inline xxh64 sink fp vfp stored compressed a =
     (if length stored > unat MAX_VALUE_LEN
      then (Err (ValueTooLarge (word_of_nat (length stored)) MAX_VALUE_LEN), a)
      else
        let lf = (word_of_nat (length stored) :: u32);
            lf = (if compressed then lf OR FLAG_COMPRESSED else lf);
            (res, a1) = push_header xxh64 sink fp vfp (length stored) lf a
        in if res \<noteq> Ok () then (res, a1) else (Ok (), push_payload stored a1))"

definition push_stub ::
    "hash \<Rightarrow> 'w sink \<Rightarrow> u64 \<Rightarrow> u64 \<Rightarrow> Stub \<Rightarrow> bool \<Rightarrow> 'w BlockAssembler \<Rightarrow> unit fres \<times> 'w BlockAssembler" where
  "push_stub xxh64 sink fp vfp stub compressed a =
     (if stored_len stub > MAX_VALUE_LEN
      then (Err (ValueTooLarge (ucast (stored_len stub)) MAX_VALUE_LEN), a)
      else
        let lf = stored_len stub OR FLAG_OUT_OF_LINE;
            lf = (if compressed then lf OR FLAG_COMPRESSED else lf);
            (res, a1) = push_header xxh64 sink fp vfp STUB_PAYLOAD_LEN lf a
        in if res \<noteq> Ok () then (res, a1)
           else (Ok (), push_payload (u64_le (heap_offset stub) @ u32_le (value_checksum stub)) a1))"

definition assembler_finish ::
    "hash \<Rightarrow> 'w sink \<Rightarrow> 'w BlockAssembler \<Rightarrow> u32 list fres \<times> 'w BlockAssembler" where
  "assembler_finish xxh64 sink a =
     (if ba_failed a then (Err AssemblerPoisoned, a)
      else
        let (res, a1) = (if ba_buf a \<noteq> [] then cut xxh64 sink a else (Ok (), a))
        in (rbind res (\<lambda>_. Ok (ba_fences a1)), a1))"

section \<open>Scanning\<close>

function scan_records :: "bytes \<Rightarrow> nat \<Rightarrow> nat \<Rightarrow> Record fres list" where
  "scan_records block usable pos =
     (if pos + HEADER_LEN > usable then []
      else
        let vfp = u64_of_le (bslice pos 8 block)
        in if vfp = 0 then []
           else
             let lf = u32_of_le (bslice (pos + 8) 4 block);
                 len = lf AND MAX_VALUE_LEN;
                 out_of_line = (lf AND FLAG_OUT_OF_LINE \<noteq> 0);
                 compressed = (lf AND FLAG_COMPRESSED \<noteq> 0);
                 payload_len = (if out_of_line then STUB_PAYLOAD_LEN else unat len);
                 start = pos + HEADER_LEN
             in if start + payload_len > usable then [Err (CorruptBlock ''record overruns block'')]
                else
                  let payload = bslice start payload_len block;
                      rec = (if out_of_line
                        then StubRec vfp \<lparr>heap_offset = u64_of_le (bslice 0 8 payload), stored_len = len,
                               value_checksum = u32_of_le (bslice 8 4 payload)\<rparr> compressed
                        else Inline vfp payload compressed)
                  in Ok rec # scan_records block usable (align8 (start + payload_len)))"
  by pat_completeness auto
termination
  by (relation "measure (\<lambda>(block, usable, pos). usable - pos)")
    (auto simp: HEADER_LEN_def align8_def RECORD_ALIGN_def)

declare scan_records.simps [simp del]

definition block_records :: "bytes \<Rightarrow> Record fres list" where
  "block_records block = scan_records block (length block - CHECKSUM_LEN) 0"

fun find_loop :: "Record fres list \<Rightarrow> u64 \<Rightarrow> Record option fres" where
  "find_loop [] vfp = Ok None"
| "find_loop (r # rs) vfp =
     rbind r (\<lambda>rec. if record_vfp rec = vfp then Ok (Some rec) else find_loop rs vfp)"

definition find_v5 :: "hash \<Rightarrow> bytes \<Rightarrow> u64 \<Rightarrow> Record option fres" where
  "find_v5 xxh64 block vfp = rbind (verify xxh64 block) (\<lambda>_. find_loop (block_records block) vfp)"


section \<open>Record encoding\<close>

lemma align8_bounds: "n \<le> align8 n" "align8 n < n + 8" "8 dvd align8 n"
  unfolding align8_def RECORD_ALIGN_def by presburger+

lemma align8_add:
  assumes "8 dvd p"
  shows "align8 (p + n) = p + align8 n"
proof -
  obtain k where p: "p = 8 * k" using assms by (elim dvdE)
  have "(p + n + 7) div 8 = k + (n + 7) div 8"
    using div_mult_self2 [of 8 "n + 7" k] by (simp add: p ac_simps)
  then show ?thesis by (simp add: align8_def RECORD_ALIGN_def p)
qed

lemma align8_id: "8 dvd n \<Longrightarrow> align8 n = n"
  using align8_add [of n 0] by (simp add: align8_def RECORD_ALIGN_def)

fun record_payload :: "Record \<Rightarrow> bytes" where
  "record_payload (Inline vfp v c) = v"
| "record_payload (StubRec vfp s c) = u64_le (heap_offset s) @ u32_le (value_checksum s)"

fun record_lf :: "Record \<Rightarrow> u32" where
  "record_lf (Inline vfp v c) =
     (if c then word_of_nat (length v) OR FLAG_COMPRESSED else word_of_nat (length v))"
| "record_lf (StubRec vfp s c) =
     (if c then (stored_len s OR FLAG_OUT_OF_LINE) OR FLAG_COMPRESSED else stored_len s OR FLAG_OUT_OF_LINE)"

fun record_ok :: "Record \<Rightarrow> bool" where
  "record_ok (Inline vfp v c) \<longleftrightarrow> vfp \<noteq> 0 \<and> length v < 2 ^ 30"
| "record_ok (StubRec vfp s c) \<longleftrightarrow> vfp \<noteq> 0 \<and> unat (stored_len s) < 2 ^ 30"

definition record_bytes :: "Record \<Rightarrow> bytes" where
  "record_bytes r =
     u64_le (record_vfp r) @ u32_le (record_lf r) @ record_payload r @
     replicate (encoded_len (length (record_payload r)) - (12 + length (record_payload r))) 0"

lemma length_record_bytes [simp]:
  "length (record_bytes r) = encoded_len (length (record_payload r))"
  using align8_bounds [of "12 + length (record_payload r)"]
  by (simp add: record_bytes_def encoded_len_def HEADER_LEN_def)

lemma encoded_len_ge: "12 + n \<le> encoded_len n" "8 dvd encoded_len n"
  using align8_bounds [of "12 + n"] by (simp_all add: encoded_len_def HEADER_LEN_def)

text \<open>The 30-bit length and the two flags share a word without touching each other.\<close>

lemma MAX_VALUE_LEN_mask: "MAX_VALUE_LEN = mask 30"
  by (simp add: MAX_VALUE_LEN_def mask_eq_exp_minus_1)

lemma unat_MAX_VALUE_LEN: "unat MAX_VALUE_LEN = 2 ^ 30 - 1"
  by (simp add: MAX_VALUE_LEN_def)

lemma unat_MAX_VALUE_LEN_u64: "unat (ucast MAX_VALUE_LEN :: u64) = 2 ^ 30 - 1"
  by (subst unat_ucast_up) (simp_all add: unat_MAX_VALUE_LEN)

lemma flags_bits:
  "bit FLAG_OUT_OF_LINE n \<longleftrightarrow> n = 31" "bit FLAG_COMPRESSED n \<longleftrightarrow> n = 30"
  unfolding FLAG_OUT_OF_LINE_def FLAG_COMPRESSED_def push_bit_of_1 bit_exp_iff by auto

lemma small_bits:
  assumes "unat (x :: u32) < 2 ^ 30"
  shows "bit x n \<Longrightarrow> n < 30"
proof (rule ccontr)
  assume "bit x n" "\<not> n < 30"
  have "take_bit 30 x = x"
    using assms by (simp add: word_unat_eq_iff unsigned_take_bit_eq take_bit_nat_eq_self)
  with \<open>bit x n\<close> have "bit (take_bit 30 x) n" by simp
  then show False using \<open>\<not> n < 30\<close> by (simp add: bit_take_bit_iff)
qed

lemma and_flag: "(x :: u32) AND FLAG_OUT_OF_LINE \<noteq> 0 \<longleftrightarrow> bit x 31"
  "x AND FLAG_COMPRESSED \<noteq> 0 \<longleftrightarrow> bit x 30"
  unfolding FLAG_OUT_OF_LINE_def FLAG_COMPRESSED_def
  by (simp_all only: bit_iff_and_push_bit_not_eq_0)

lemma length_field:
  assumes "unat x < 2 ^ 30"
  shows "(if c then x OR FLAG_COMPRESSED else x) AND MAX_VALUE_LEN = x"
    and "(if c then (x OR FLAG_OUT_OF_LINE) OR FLAG_COMPRESSED else x OR FLAG_OUT_OF_LINE) AND MAX_VALUE_LEN = x"
  using small_bits [OF assms]
  by (auto simp: MAX_VALUE_LEN_mask intro!: bit_eqI simp: bit_and_iff bit_or_iff bit_mask_iff flags_bits)

lemma flag_fields:
  assumes "unat x < 2 ^ 30"
  shows "bit (if c then x OR FLAG_COMPRESSED else x) 30 \<longleftrightarrow> c"
    and "\<not> bit (if c then x OR FLAG_COMPRESSED else x) 31"
    and "bit (if c then (x OR FLAG_OUT_OF_LINE) OR FLAG_COMPRESSED else x OR FLAG_OUT_OF_LINE) 30 \<longleftrightarrow> c"
    and "bit (if c then (x OR FLAG_OUT_OF_LINE) OR FLAG_COMPRESSED else x OR FLAG_OUT_OF_LINE) 31"
  using small_bits [OF assms, of 30] small_bits [OF assms, of 31] by (auto simp: bit_or_iff flags_bits)

section \<open>Scanning\<close>

lemma scan_one:
  assumes "record_ok r" and "8 dvd length pre"
    and "length pre + encoded_len (length (record_payload r)) \<le> usable"
  shows "scan_records (pre @ record_bytes r @ post) usable (length pre) =
    Ok r # scan_records (pre @ record_bytes r @ post) usable (length (pre @ record_bytes r))"
proof -
  let ?b = "pre @ record_bytes r @ post" and ?p = "length pre" and ?n = "length (record_payload r)"
  have slices: "bslice ?p 8 ?b = u64_le (record_vfp r)" "bslice (?p + 8) 4 ?b = u32_le (record_lf r)"
    "bslice (?p + 12) ?n ?b = record_payload r"
    by (simp_all add: record_bytes_def bslice_def)
  have fit: "\<not> ?p + 12 > usable" "\<not> ?p + 12 + ?n > usable"
    using assms(3) encoded_len_ge [of ?n] by simp_all
  have next_pos: "align8 (?p + 12 + ?n) = length (pre @ record_bytes r)"
    using align8_add [OF assms(2), of "12 + ?n"] by (simp add: encoded_len_def HEADER_LEN_def add.assoc)
  show ?thesis
  proof (cases r)
    case (Inline vfp v c)
    then have ok: "vfp \<noteq> 0" "length v < 2 ^ 30" using assms(1) by auto
    then have u: "unat (word_of_nat (length v) :: u32) = length v"
      by (intro unat_word_of_nat_less) simp
    then have s: "unat (word_of_nat (length v) :: u32) < 2 ^ 30" using ok by simp
    show ?thesis
      using slices fit next_pos ok Inline
      by (subst scan_records.simps)
        (simp add: HEADER_LEN_def Let_def and_flag flag_fields [OF s] length_field [OF s] u del: if_split)
  next
    case (StubRec vfp s c)
    then have ok: "vfp \<noteq> 0" "unat (stored_len s) < 2 ^ 30" using assms(1) by auto
    have pay: "bslice 0 8 (record_payload r) = u64_le (heap_offset s)"
      "bslice 8 4 (record_payload r) = u32_le (value_checksum s)" "?n = 12"
      by (simp_all add: StubRec bslice_def)
    show ?thesis
      using slices fit next_pos ok pay StubRec
      by (subst scan_records.simps)
        (simp add: HEADER_LEN_def STUB_PAYLOAD_LEN_def Let_def and_flag flag_fields [OF ok(2)]
          length_field [OF ok(2)] del: if_split)
  qed
qed

text \<open>A sealed block: the records, zero padding and the checksum.\<close>

definition block_body :: "nat \<Rightarrow> Record list \<Rightarrow> bytes" where
  "block_body block_size rs = resize (block_size - CHECKSUM_LEN) (concat (map record_bytes rs))"

definition seal :: "hash \<Rightarrow> nat \<Rightarrow> Record list \<Rightarrow> bytes" where
  "seal xxh64 block_size rs =
     block_body block_size rs @ u32_le (checksum32 xxh64 (block_body block_size rs))"

abbreviation records_len :: "Record list \<Rightarrow> nat" where
  "records_len rs \<equiv> length (concat (map record_bytes rs))"

lemma records_len_dvd: "8 dvd records_len rs"
  by (induction rs) (simp_all add: encoded_len_ge)

lemma scan_end:
  assumes "usable \<le> length pre + z" and "usable \<le> length (pre @ replicate z 0 @ post)"
  shows "scan_records (pre @ replicate z 0 @ post) usable (length pre) = []"
proof (cases "length pre + 12 > usable")
  case True
  then show ?thesis by (subst scan_records.simps) (simp add: HEADER_LEN_def)
next
  case False
  then have "bslice (length pre) 8 (pre @ replicate z 0 @ post) = replicate 8 0"
    using assms by (simp add: bslice_def take_replicate)
  moreover have "u64_of_le (replicate 8 0) = 0"
    by (simp add: u64_of_le_def numeral_eq_Suc)
  ultimately show ?thesis by (subst scan_records.simps) (simp add: HEADER_LEN_def Let_def)
qed

lemma scan_all:
  assumes "\<forall>r \<in> set rs. record_ok r" and "8 dvd length pre"
    and "length pre + records_len rs + z = usable"
  shows "scan_records (pre @ concat (map record_bytes rs) @ replicate z 0 @ post) usable (length pre) = map Ok rs"
  using assms
proof (induction rs arbitrary: pre)
  case Nil
  then show ?case using scan_end [of usable pre z post] by simp
next
  case (Cons r rs)
  have "scan_records (pre @ record_bytes r @ concat (map record_bytes rs) @ replicate z 0 @ post) usable (length pre) =
      Ok r # scan_records (pre @ record_bytes r @ concat (map record_bytes rs) @ replicate z 0 @ post) usable
        (length (pre @ record_bytes r))"
    using Cons.prems by (intro scan_one) simp_all
  moreover have "8 dvd length (pre @ record_bytes r)"
    using Cons.prems by (simp add: encoded_len_ge)
  ultimately show ?case
    using Cons.IH [of "pre @ record_bytes r"] Cons.prems by simp
qed

lemma length_seal: "length (seal xxh64 bs rs) = bs - 4 + 4"
  by (simp add: seal_def block_body_def resize_def CHECKSUM_LEN_def)

lemma verify_seal: "verify xxh64 (seal xxh64 bs rs) = Ok ()"
  by (simp add: verify_def seal_def CHECKSUM_LEN_def)

lemma records_seal:
  assumes "\<forall>r \<in> set rs. record_ok r" and "records_len rs \<le> bs - 4"
  shows "block_records (seal xxh64 bs rs) = map Ok rs"
proof -
  let ?z = "bs - 4 - records_len rs"
  have "block_body bs rs = concat (map record_bytes rs) @ replicate ?z 0"
    using assms(2) by (simp add: block_body_def resize_def CHECKSUM_LEN_def)
  moreover have "length (seal xxh64 bs rs) - CHECKSUM_LEN = bs - 4"
    by (simp add: length_seal CHECKSUM_LEN_def)
  moreover have "records_len rs + ?z = bs - 4"
    using assms(2) by simp
  ultimately show ?thesis
    using scan_all [OF assms(1), of "[]" ?z "bs - 4" "u32_le (checksum32 xxh64 (block_body bs rs))"]
    by (simp only: block_records_def seal_def append_assoc) simp
qed

lemma find_loop_map_Ok: "find_loop (map Ok rs) vfp = Ok (List.find (\<lambda>r. record_vfp r = vfp) rs)"
  by (induction rs) auto

lemma find_seal:
  assumes "\<forall>r \<in> set rs. record_ok r" and "records_len rs \<le> bs - 4"
  shows "find_v5 xxh64 (seal xxh64 bs rs) vfp = Ok (List.find (\<lambda>r. record_vfp r = vfp) rs)"
  by (simp add: find_v5_def verify_seal records_seal [OF assms] find_loop_map_Ok)

section \<open>The assembler\<close>

text \<open>Pushing a record of either kind.\<close>

fun push_record ::
    "hash \<Rightarrow> 'w sink \<Rightarrow> u64 \<Rightarrow> Record \<Rightarrow> 'w BlockAssembler \<Rightarrow> unit fres \<times> 'w BlockAssembler" where
  "push_record xxh64 sink fp (Inline vfp v c) a = push_inline xxh64 sink fp vfp v c a"
| "push_record xxh64 sink fp (StubRec vfp s c) a = push_stub xxh64 sink fp vfp s c a"

lemma push_record_eq:
  assumes "record_ok r"
  shows "push_record xxh64 sink fp r a =
    (let (res, a1) = push_header xxh64 sink fp (record_vfp r) (length (record_payload r)) (record_lf r) a
     in if res \<noteq> Ok () then (res, a1) else (Ok (), push_payload (record_payload r) a1))"
proof (cases r)
  case (Inline vfp v c)
  then have "\<not> length v > unat MAX_VALUE_LEN"
    using assms by (simp add: unat_MAX_VALUE_LEN)
  then show ?thesis unfolding Inline by (simp add: push_inline_def split_beta)
next
  case (StubRec vfp s c)
  then have "\<not> stored_len s > MAX_VALUE_LEN"
    using assms by (simp add: word_less_nat_alt unat_MAX_VALUE_LEN)
  then show ?thesis unfolding StubRec by (simp add: push_stub_def STUB_PAYLOAD_LEN_def split_beta)
qed

lemma push_record_Ok_cases:
  assumes ok: "record_ok r" and push: "push_record xxh64 sink fp r a = (Ok (), a')"
  defines "enc \<equiv> encoded_len (length (record_payload r))"
  obtains a1 where "\<not> ba_failed a" and "enc \<le> ba_block_size a - 4"
    and "length (ba_buf a) + enc > ba_block_size a - 4 \<and> cut xxh64 sink a = (Ok (), a1) \<or>
      length (ba_buf a) + enc \<le> ba_block_size a - 4 \<and> a1 = a"
    and "a' = push_payload (record_payload r)
       (a1\<lparr>ba_fences := (if ba_buf a1 = [] then ba_fences a1 @ [fence_of fp] else ba_fences a1),
           ba_buf := ba_buf a1 @ u64_le (record_vfp r) @ u32_le (record_lf r)\<rparr>)"
proof -
  have vfp: "record_vfp r \<noteq> 0" using ok by (cases r) auto
  have nf: "\<not> ba_failed a" and enc: "enc \<le> ba_block_size a - 4"
    using push vfp by (auto simp: push_record_eq [OF ok] push_header_def Let_def CHECKSUM_LEN_def enc_def
        split: if_splits)
  define c where "c = (if length (ba_buf a) + enc > ba_block_size a - 4 then cut xxh64 sink a else (Ok (), a))"
  obtain res a1 where c': "c = (res, a1)" by force
  have res: "res = Ok ()" and a': "a' = push_payload (record_payload r)
       (a1\<lparr>ba_fences := (if ba_buf a1 = [] then ba_fences a1 @ [fence_of fp] else ba_fences a1),
           ba_buf := ba_buf a1 @ u64_le (record_vfp r) @ u32_le (record_lf r)\<rparr>)"
    using push nf enc vfp c'
    by (auto simp: push_record_eq [OF ok] push_header_def Let_def CHECKSUM_LEN_def enc_def c_def
        split: if_splits)
  show thesis
    using that [of a1] nf enc a' c' res by (auto simp: c_def split: if_splits)
qed

type_synonym frec = "u64 \<times> Record"

abbreviation frecs_bytes :: "frec list \<Rightarrow> bytes" where
  "frecs_bytes rs \<equiv> concat (map record_bytes (map snd rs))"

definition block_fence :: "frec list \<Rightarrow> u32" where
  "block_fence g = fence_of (fst (hd g))"

definition group_ok :: "nat \<Rightarrow> frec list \<Rightarrow> bool" where
  "group_ok bs g \<longleftrightarrow> g \<noteq> [] \<and> length (frecs_bytes g) \<le> bs - 4 \<and> (\<forall>(fp, r) \<in> set g. record_ok r)"

text \<open>
  The blocks emitted so far are the sealed groups, the buffer holds the current group, and there
  is one fence per started block.
\<close>

definition asm_inv ::
    "hash \<Rightarrow> ('w \<Rightarrow> bytes) \<Rightarrow> bytes \<Rightarrow> 'w BlockAssembler \<Rightarrow> frec list list \<Rightarrow> frec list \<Rightarrow> bool" where
  "asm_inv xxh64 contents base a groups cur \<longleftrightarrow>
     \<not> ba_failed a \<and> ba_buf a = frecs_bytes cur \<and>
     contents (ba_sink a) = base @ concat (map (seal xxh64 (ba_block_size a) \<circ> map snd) groups) \<and>
     (\<forall>g \<in> set groups. group_ok (ba_block_size a) g) \<and>
     (cur \<noteq> [] \<longrightarrow> group_ok (ba_block_size a) cur) \<and>
     ba_fences a = map block_fence (groups @ (if cur = [] then [] else [cur]))"

lemma frecs_bytes_Nil_iff: "frecs_bytes g = [] \<longleftrightarrow> g = []"
proof (cases g)
  case (Cons x xs)
  have "length (record_bytes (snd x)) \<noteq> 0"
    using encoded_len_ge [of "length (record_payload (snd x))"] by simp
  then have "record_bytes (snd x) \<noteq> []" by fastforce
  then show ?thesis by (simp add: Cons)
qed simp

text \<open>The records of a partition in order; the first failure stops the loop.\<close>

fun push_records ::
    "hash \<Rightarrow> 'w sink \<Rightarrow> frec list \<Rightarrow> 'w BlockAssembler \<Rightarrow> unit fres \<times> 'w BlockAssembler" where
  "push_records xxh64 sink [] a = (Ok (), a)"
| "push_records xxh64 sink ((fp, r) # frs) a =
     (let (res, a1) = push_record xxh64 sink fp r a
      in if res \<noteq> Ok () then (res, a1) else push_records xxh64 sink frs a1)"

text \<open>
  The contract of a sink: a successful call has appended the block to the output.  Nothing is
  assumed of a failed call.
\<close>

locale block_sink =
  fixes sink :: "'w sink" and contents :: "'w \<Rightarrow> bytes"
  assumes sink_appends: "sink b w = (Ok (), w') \<Longrightarrow> contents w' = contents w @ b"
begin

lemma cut_ok:
  assumes inv: "asm_inv xxh64 contents base a groups cur" and "cur \<noteq> []"
    and cut: "cut xxh64 sink a = (Ok (), a')"
  shows "asm_inv xxh64 contents base a' (groups @ [cur]) [] \<and> ba_block_size a' = ba_block_size a"
proof -
  let ?b = "seal xxh64 (ba_block_size a) (map snd cur)"
  have buf: "ba_buf a = frecs_bytes cur" using inv by (simp add: asm_inv_def)
  obtain w where s: "sink ?b (ba_sink a) = (Ok (), w)"
    and a': "a' = a\<lparr>ba_buf := [], ba_sink := w\<rparr>"
    using cut inv by (auto simp: cut_def Let_def seal_def block_body_def buf asm_inv_def split: prod.splits)
  from sink_appends [OF s] show ?thesis
    using inv assms(2) by (simp add: asm_inv_def a')
qed

lemma cut_error:
  assumes "cut xxh64 sink a = (res, a')" and "is_err res"
  shows "ba_failed a'"
  using assms by (auto simp: cut_def Let_def split: prod.splits)

lemma asm_inv_append:
  assumes inv: "asm_inv xxh64 contents base a groups cur" and ok: "record_ok r"
    and room: "length (ba_buf a) + encoded_len (length (record_payload r)) \<le> ba_block_size a - 4"
  shows "asm_inv xxh64 contents base (push_payload (record_payload r)
       (a\<lparr>ba_fences := (if ba_buf a = [] then ba_fences a @ [fence_of fp] else ba_fences a),
           ba_buf := ba_buf a @ u64_le (record_vfp r) @ u32_le (record_lf r)\<rparr>)) groups (cur @ [(fp, r)])"
proof -
  let ?n = "length (record_payload r)"
  let ?buf = "ba_buf a @ u64_le (record_vfp r) @ u32_le (record_lf r) @ record_payload r"
  have buf: "ba_buf a = frecs_bytes cur" using inv by (simp add: asm_inv_def)
  have "8 dvd length (ba_buf a)" unfolding buf by (rule records_len_dvd)
  then have al: "align8 (length ?buf) = length (ba_buf a) + encoded_len ?n"
    using align8_add [of "length (ba_buf a)" "12 + ?n"] by (simp add: encoded_len_def HEADER_LEN_def add.assoc)
  have "resize (align8 (length ?buf)) ?buf = ba_buf a @ record_bytes r"
    unfolding al using encoded_len_ge [of ?n] by (simp add: resize_def record_bytes_def)
  moreover have "ba_buf a = [] \<longleftrightarrow> cur = []" unfolding buf by (rule frecs_bytes_Nil_iff)
  ultimately show ?thesis
    using inv ok room buf
    by (auto simp: asm_inv_def push_payload_def Let_def group_ok_def block_fence_def hd_append)
qed

lemma push_record_ok:
  assumes inv: "asm_inv xxh64 contents base a groups cur" and ok: "record_ok r"
    and push: "push_record xxh64 sink fp r a = (Ok (), a')"
  shows "ba_block_size a' = ba_block_size a \<and>
    (\<exists>groups' cur'. asm_inv xxh64 contents base a' groups' cur' \<and>
       concat groups' @ cur' = concat groups @ cur @ [(fp, r)])"
proof -
  let ?enc = "encoded_len (length (record_payload r))"
  obtain a1 where enc: "?enc \<le> ba_block_size a - 4"
    and c: "length (ba_buf a) + ?enc > ba_block_size a - 4 \<and> cut xxh64 sink a = (Ok (), a1) \<or>
      length (ba_buf a) + ?enc \<le> ba_block_size a - 4 \<and> a1 = a"
    and a': "a' = push_payload (record_payload r)
       (a1\<lparr>ba_fences := (if ba_buf a1 = [] then ba_fences a1 @ [fence_of fp] else ba_fences a1),
           ba_buf := ba_buf a1 @ u64_le (record_vfp r) @ u32_le (record_lf r)\<rparr>)"
    by (rule push_record_Ok_cases [OF ok push])
  have keep: "ba_block_size a' = ba_block_size a1" by (simp add: a' push_payload_def Let_def)
  from c show ?thesis
  proof (elim disjE conjE)
    assume big: "length (ba_buf a) + ?enc > ba_block_size a - 4" and "cut xxh64 sink a = (Ok (), a1)"
    have "cur \<noteq> []" using big enc inv by (auto simp: asm_inv_def)
    from cut_ok [OF inv this] \<open>cut xxh64 sink a = (Ok (), a1)\<close>
    have inv1: "asm_inv xxh64 contents base a1 (groups @ [cur]) []" "ba_block_size a1 = ba_block_size a"
      by simp_all
    then have "ba_buf a1 = []" by (simp add: asm_inv_def)
    then have "asm_inv xxh64 contents base a' (groups @ [cur]) ([] @ [(fp, r)])"
      unfolding a' using enc inv1(2) by (intro asm_inv_append [OF inv1(1) ok]) simp
    with keep inv1(2) show ?thesis
      by (intro conjI exI [of _ "groups @ [cur]"] exI [of _ "[(fp, r)]"]) simp_all
  next
    assume room: "length (ba_buf a) + ?enc \<le> ba_block_size a - 4" and a1: "a1 = a"
    have "asm_inv xxh64 contents base a' groups (cur @ [(fp, r)])"
      unfolding a' a1 by (rule asm_inv_append [OF inv ok room])
    with keep a1 show ?thesis
      by (intro conjI exI [of _ groups] exI [of _ "cur @ [(fp, r)]"]) simp_all
  qed
qed

text \<open>Finishing seals the last group; the output is the sealed groups with one fence each.\<close>

lemma assembler_finish_ok:
  assumes inv: "asm_inv xxh64 contents base a groups cur"
    and fin: "assembler_finish xxh64 sink a = (Ok fences, a')"
  shows "\<exists>all. concat all = concat groups @ cur \<and> (\<forall>g \<in> set all. group_ok (ba_block_size a) g) \<and>
    fences = map block_fence all \<and>
    contents (ba_sink a') = base @ concat (map (seal xxh64 (ba_block_size a) \<circ> map snd) all)"
proof -
  have nf: "\<not> ba_failed a" and buf: "ba_buf a = frecs_bytes cur" using inv by (auto simp: asm_inv_def)
  show ?thesis
  proof (cases "cur = []")
    case True
    then have "fences = ba_fences a" "a' = a"
      using fin nf buf by (auto simp: assembler_finish_def)
    with inv True show ?thesis by (intro exI [of _ groups]) (simp add: asm_inv_def)
  next
    case False
    then have "ba_buf a \<noteq> []" using buf frecs_bytes_Nil_iff [of cur] by simp
    then have "cut xxh64 sink a = (Ok (), a')" and f: "fences = ba_fences a'"
      using fin nf by (auto simp: assembler_finish_def res_simps Let_def split: prod.splits)
    from cut_ok [OF inv False this(1)] f show ?thesis
      by (intro exI [of _ "groups @ [cur]"]) (auto simp: asm_inv_def)
  qed
qed

lemma push_records_ok:
  assumes "asm_inv xxh64 contents base a groups cur" and "\<forall>(fp, r) \<in> set frs. record_ok r"
    and "push_records xxh64 sink frs a = (Ok (), a')"
  shows "ba_block_size a' = ba_block_size a \<and>
    (\<exists>groups' cur'. asm_inv xxh64 contents base a' groups' cur' \<and>
       concat groups' @ cur' = concat groups @ cur @ frs)"
  using assms
proof (induction frs arbitrary: a groups cur)
  case Nil
  then show ?case by auto
next
  case (Cons fr frs)
  obtain fp r where fr: "fr = (fp, r)" by (cases fr)
  obtain a1 where a1: "push_record xxh64 sink fp r a = (Ok (), a1)"
    "push_records xxh64 sink frs a1 = (Ok (), a')"
    using Cons.prems(3) by (auto simp: fr split: prod.splits if_splits)
  from push_record_ok [OF Cons.prems(1) _ a1(1)] Cons.prems(2) fr obtain groups1 cur1 where
    g: "ba_block_size a1 = ba_block_size a" "asm_inv xxh64 contents base a1 groups1 cur1"
      "concat groups1 @ cur1 = concat groups @ cur @ [(fp, r)]" by auto
  from Cons.IH [OF g(2) _ a1(2)] Cons.prems(2) obtain groups2 cur2 where
    "ba_block_size a' = ba_block_size a1" "asm_inv xxh64 contents base a' groups2 cur2"
    "concat groups2 @ cur2 = concat groups1 @ cur1 @ frs" by auto
  with g fr show ?case by (metis append.assoc append_Cons append_Nil)
qed

end

section \<open>Fence search\<close>

lemma unat_fence_of: "unat (fence_of fp) = unat fp div 2 ^ 32"
proof -
  have "unat fp div 2 ^ 32 < 2 ^ 32"
    using unat_u64_less [of fp] by (simp add: less_mult_imp_div_less)
  moreover have "unat (drop_bit 32 fp) = unat fp div 2 ^ 32"
    by (subst unat_drop_bit_eq) (rule drop_bit_eq_div)
  ultimately show ?thesis
    by (simp add: fence_of_def unsigned_ucast_eq take_bit_nat_eq_self)
qed

lemma fence_of_mono: "x \<le> y \<Longrightarrow> fence_of x \<le> fence_of y"
  by (simp add: word_le_nat_alt unat_fence_of div_le_mono)

lemma search_window_bound:
  assumes "0 < sz" and "base + sz \<le> length xs"
  shows "search_window P xs base sz \<le> length xs"
  using assms
proof (induction P xs base sz rule: search_window.induct)
  case (1 P xs base sz)
  show ?case
  proof (cases "sz \<le> 1")
    case True
    then show ?thesis using 1 by (subst search_window.simps) simp
  next
    case False
    let ?base = "if P (xs ! (base + sz div 2)) then base + sz div 2 else base"
    have "search_window P xs ?base (sz - sz div 2) \<le> length xs"
      using False 1(2,3) by (intro 1(1) [OF False refl refl]) auto
    then show ?thesis using False by (subst search_window.simps) (simp add: Let_def)
  qed
qed

lemma partition_point_bound: "partition_point P xs \<le> length xs"
  using search_window_bound [of "length xs" 0 xs P] by (simp add: partition_point_def)

text \<open>On a partitioned slice the window always holds the boundary.\<close>

lemma search_window_partitioned:
  assumes "\<And>i. i < length xs \<Longrightarrow> P (xs ! i) \<longleftrightarrow> i < n" and "0 < sz" and "base + sz \<le> length xs"
    and "base \<le> n" and "n \<le> base + sz"
  shows "search_window P xs base sz = n"
  using assms
proof (induction P xs base sz rule: search_window.induct)
  case (1 P xs base sz)
  show ?case
  proof (cases "sz \<le> 1")
    case True
    then show ?thesis using 1(2) [of base] 1(3-) by (subst search_window.simps) auto
  next
    case False
    let ?mid = "base + sz div 2"
    have mid: "P (xs ! ?mid) \<longleftrightarrow> ?mid < n" using 1(2) [of ?mid] 1(3,4) False by simp
    have "search_window P xs (if P (xs ! ?mid) then ?mid else base) (sz - sz div 2) = n"
      using False 1(4-) mid by (intro 1(1) [OF False refl refl 1(2)]) (auto split: if_splits)
    then show ?thesis using False by (subst search_window.simps) (simp add: Let_def)
  qed
qed

lemma partition_point_partitioned:
  assumes "\<And>i j. i \<le> j \<Longrightarrow> j < length xs \<Longrightarrow> P (xs ! j) \<Longrightarrow> P (xs ! i)"
  shows "partition_point P xs = length (takeWhile P xs)"
proof (cases "xs = []")
  case False
  let ?n = "length (takeWhile P xs)"
  have "P (xs ! i) \<longleftrightarrow> i < ?n" if "i < length xs" for i
  proof
    assume "P (xs ! i)"
    show "i < ?n"
    proof (rule ccontr)
      assume "\<not> i < ?n"
      then have "P (xs ! ?n)" using assms [of ?n i] that \<open>P (xs ! i)\<close> by simp
      then show False using nth_length_takeWhile [of P xs] \<open>\<not> i < ?n\<close> that by simp
    qed
  next
    assume "i < ?n"
    then show "P (xs ! i)" by (metis nth_mem set_takeWhileD takeWhile_nth)
  qed
  from search_window_partitioned [OF this, of "length xs" 0] False length_takeWhile_le [of P xs] show ?thesis
    by (simp add: partition_point_def)
qed (simp add: partition_point_def)

lemma partition_point_sorted:
  "sorted xs \<Longrightarrow> partition_point (\<lambda>x. x < h) xs = length (takeWhile (\<lambda>x. x < h) xs)"
  by (rule partition_point_partitioned) (meson sorted_nth_mono order_le_less_trans)

lemma candidate_blocks_bound: "i \<in> set (candidate_blocks fences h) \<Longrightarrow> i < length fences"
proof -
  let ?lo = "partition_point (\<lambda>f. f < h) fences"
  assume "i \<in> set (candidate_blocks fences h)"
  then have "i < ?lo + length (takeWhile (\<lambda>f. f = h) (drop ?lo fences)) \<or> i < ?lo"
    by (auto simp: candidate_blocks_def Let_def split: if_splits)
  then show ?thesis
    using partition_point_bound [of "\<lambda>f. f < h" fences]
      length_takeWhile_le [of "\<lambda>f. f = h" "drop ?lo fences"] by auto
qed

lemma candidate_equal:
  assumes "sorted fences" and i: "i < length fences" and h: "fences ! i = h"
  shows "i \<in> set (candidate_blocks fences h)"
proof -
  let ?lo = "length (takeWhile (\<lambda>f. f < h) fences)"
  have lo: "?lo \<le> i"
  proof (rule ccontr)
    assume "\<not> ?lo \<le> i"
    then have "takeWhile (\<lambda>f. f < h) fences ! i \<in> set (takeWhile (\<lambda>f. f < h) fences)"
      by (intro nth_mem) simp
    then have "fences ! i < h"
      using \<open>\<not> ?lo \<le> i\<close> by (metis set_takeWhileD takeWhile_nth not_le)
    with h show False by simp
  qed
  have "Suc (i - ?lo) \<le> length (takeWhile (\<lambda>f. f = h) (drop ?lo fences))"
  proof (rule length_takeWhile_less_P_nth)
    show "Suc (i - ?lo) \<le> length (drop ?lo fences)" using i lo by simp
    fix j
    assume "j < Suc (i - ?lo)"
    then have j: "?lo + j \<le> i" using lo by simp
    have "\<not> fences ! ?lo < h"
      using i lo by (intro nth_length_takeWhile) simp
    moreover have "fences ! ?lo \<le> fences ! (?lo + j)" "fences ! (?lo + j) \<le> fences ! i"
      using assms(1) i j by (auto intro: sorted_nth_mono)
    ultimately show "drop ?lo fences ! j = h" using h i j by simp
  qed
  then show ?thesis using lo by (auto simp: candidate_blocks_def Let_def partition_point_sorted [OF assms(1)])
qed

lemma candidate_back:
  assumes "sorted fences" and i: "i < length fences" and "fences ! i < h"
    and nxt: "Suc i < length fences \<Longrightarrow> h \<le> fences ! Suc i"
  shows "i \<in> set (candidate_blocks fences h)"
proof -
  have "takeWhile (\<lambda>f. f < h) fences = take (Suc i) fences"
  proof (rule takeWhile_eq_take_P_nth)
    fix j
    assume "j < Suc i" "j < length fences"
    then have "fences ! j \<le> fences ! i" using assms(1) i by (auto intro: sorted_nth_mono)
    with assms(3) show "fences ! j < h" by simp
  next
    assume "Suc i < length fences"
    from nxt [OF this] show "\<not> fences ! Suc i < h" by simp
  qed
  then show ?thesis using i by (simp add: candidate_blocks_def Let_def partition_point_sorted [OF assms(1)])
qed

lemma sorted_concat_nth:
  assumes "sorted (map fst (concat groups))" and "i < j" and "j < length groups"
    and "x \<in> set (groups ! i)" and "y \<in> set (groups ! j)"
  shows "fst x \<le> fst y"
  using assms
proof (induction groups arbitrary: i j)
  case Nil
  then show ?case by simp
next
  case (Cons g groups)
  obtain j' where j': "j = Suc j'" using Cons.prems(2) by (cases j) auto
  show ?case
  proof (cases i)
    case 0
    have "y \<in> set (concat groups)" using Cons.prems j' by auto
    then show ?thesis using Cons.prems(1,4) 0 by (auto simp: sorted_append)
  next
    case (Suc i')
    with Cons.prems j' have "sorted (map fst (concat groups))" by (simp add: sorted_append)
    from Cons.IH [OF this, of i' j'] Cons.prems Suc j' show ?thesis by simp
  qed
qed

lemma sorted_concat_hd:
  assumes "sorted (map fst g)" and "x \<in> set g"
  shows "fst (hd g) \<le> fst x"
  using assms by (cases g) auto

text \<open>Every block that holds a record of a fingerprint is a candidate for it.\<close>

lemma candidate_blocks_complete:
  assumes srt: "sorted (map fst (concat groups))" and ne: "\<forall>g \<in> set groups. g \<noteq> []"
    and i: "i < length groups" and mem: "(fp, r) \<in> set (groups ! i)"
  shows "i \<in> set (candidate_blocks (map block_fence groups) (fence_of fp))"
proof -
  let ?F = "map block_fence groups"
  have hd_in: "hd (groups ! j) \<in> set (groups ! j)" if "j < length groups" for j
    using ne that by simp
  have mono: "?F ! j \<le> ?F ! k" if "j \<le> k" "k < length groups" for j k
  proof (cases "j = k")
    case False
    with that have "fst (hd (groups ! j)) \<le> fst (hd (groups ! k))"
      by (intro sorted_concat_nth [OF srt, of j k] hd_in) simp_all
    with that show ?thesis by (simp add: block_fence_def fence_of_mono)
  qed simp
  then have sF: "sorted ?F" by (simp add: sorted_iff_nth_mono)
  have "sorted (map fst (groups ! i))"
    using srt i by (metis concat_append id_take_nth_drop map_append sorted_append concat.simps(2))
  then have "?F ! i \<le> fence_of fp"
    using sorted_concat_hd [OF _ mem] i by (simp add: block_fence_def fence_of_mono)
  moreover have "fence_of fp \<le> ?F ! Suc i" if "Suc i < length groups"
    using sorted_concat_nth [OF srt _ that mem hd_in [OF that]] that by (simp add: block_fence_def fence_of_mono)
  ultimately show ?thesis
    using candidate_equal [OF sF, of i "fence_of fp"] candidate_back [OF sF, of i "fence_of fp"] i
    by (cases "?F ! i = fence_of fp") auto
qed

end
