(* ===== verification/V5_Format.thy ===== *)
theory V5_Format
  imports V5_Block
begin

text \<open>
  The V5 metadata and its validation (\<open>v5/meta.rs\<close>), the sketch (\<open>v5/sketch.rs\<close>) and value
  compression (\<open>v5/compress.rs\<close>).

  \<open>xorf\<close> and \<open>zstd\<close> are third-party: what the code calls of them are the fields of the
  parameters \<open>xorf_lib\<close> and \<open>zstd_lib\<close>.  The pool of decompression contexts is a cache of
  interchangeable contexts and is not visible in any result.
\<close>

section \<open>Third-party libraries\<close>

record xorf_lib =
  bf8_try_from :: "u64 list \<Rightarrow> (string, bytes \<times> bytes) res"
  bf8_contains :: "bytes \<Rightarrow> bytes \<Rightarrow> u64 \<Rightarrow> bool"

record zstd_lib =
  z_dctx :: "bytes option \<Rightarrow> (io_error, unit) res"
  z_decompress :: "bytes option \<Rightarrow> bytes \<Rightarrow> nat \<Rightarrow> (io_error, bytes) res"
  z_cctx :: "int \<Rightarrow> bytes option \<Rightarrow> (io_error, unit) res"
  z_compress :: "int \<Rightarrow> bytes option \<Rightarrow> bytes \<Rightarrow> (io_error, bytes) res"
  z_train :: "bytes list \<Rightarrow> nat \<Rightarrow> (io_error, bytes) res"
  z_version_number :: nat

section \<open>Metadata\<close>

definition FORMAT_VERSION_V5 :: u32 where
  "FORMAT_VERSION_V5 = 5"

definition MIN_BLOCK_SIZE :: u32 where
  "MIN_BLOCK_SIZE = 4096"

definition MAX_AUTO_BLOCK_SIZE :: u32 where
  "MAX_AUTO_BLOCK_SIZE = 64 * 1024"

definition CODEC_ZSTD :: string where
  "CODEC_ZSTD = ''zstd''"

definition SKETCH_KIND :: string where
  "SKETCH_KIND = ''binary_fuse8''"

record SketchMeta =
  sk_kind :: string

record CompressionMeta =
  cm_codec :: string
  cm_dict :: bool
  cm_dict_checksum :: "u32 option"
  cm_min_compress_len :: u32
  cm_zstd_version :: "string option"

record PartitionMetaV5 =
  n_blocks :: u64
  sketch_checksum :: "u32 option"

record MetaV5 =
  m5_format_version :: u32
  m5_hash_algorithm :: string
  m5_verify_seed :: u64
  m5_block_size :: u32
  m5_inline_threshold :: u32
  m5_sketch :: "SketchMeta option"
  m5_compression :: "CompressionMeta option"
  m5_partitions :: "PartitionMetaV5 list"
  m5_stats :: "Stats option"
  m5_encoding :: "json option"

definition validate_block_size :: "u32 \<Rightarrow> unit fres" where
  "validate_block_size bs =
     (if \<not> is_power_of_two bs \<or> bs < MIN_BLOCK_SIZE then Err (InvalidBlockSize bs) else Ok ())"

definition check_sketch_kind :: "MetaV5 \<Rightarrow> unit fres" where
  "check_sketch_kind m =
     (case m5_sketch m of
        Some s \<Rightarrow> if sk_kind s \<noteq> SKETCH_KIND then Err (UnsupportedSketchKind (sk_kind s)) else Ok ()
      | None \<Rightarrow> Ok ())"

definition check_sketch_anchor :: "MetaV5 \<Rightarrow> PartitionMetaV5 \<Rightarrow> unit fres" where
  "check_sketch_anchor m pm =
     (case (m5_sketch m \<noteq> None \<and> n_blocks pm > 0, sketch_checksum pm \<noteq> None) of
        (True, False) \<Rightarrow> Err (InvalidSketchMeta
          ''non-empty partition with the filter enabled requires sketch_checksum'')
      | (False, True) \<Rightarrow> Err (InvalidSketchMeta ''sketch_checksum present without a written sketch'')
      | _ \<Rightarrow> Ok ())"

definition check_compression :: "MetaV5 \<Rightarrow> unit fres" where
  "check_compression m =
     (case m5_compression m of
        None \<Rightarrow> Ok ()
      | Some c \<Rightarrow>
          if cm_codec c \<noteq> CODEC_ZSTD then Err (UnsupportedCodec (cm_codec c))
          else if cm_dict c \<and> cm_dict_checksum c = None
               then Err (InvalidCompressionMeta ''dict: true requires dict_checksum'')
          else if \<not> cm_dict c \<and> cm_dict_checksum c \<noteq> None
               then Err (InvalidCompressionMeta ''dict_checksum requires dict: true'')
          else Ok ())"

definition check_block_count :: "MetaV5 \<Rightarrow> PartitionMetaV5 \<Rightarrow> unit fres" where
  "check_block_count m pm =
     (if unat (n_blocks pm) * unat (m5_block_size m) \<ge> 2 ^ 64
      then Err (InvalidBlockCount (n_blocks pm)) else Ok ())"

definition MetaV5_layout :: "MetaV5 \<Rightarrow> Layout fres" where
  "MetaV5_layout m =
     (if m5_hash_algorithm m \<noteq> HASH_ALGORITHM then Err (UnsupportedHashAlgorithm (m5_hash_algorithm m))
      else
        rbind (validate_block_size (m5_block_size m)) (\<lambda>_.
        rbind (check_sketch_kind m) (\<lambda>_.
        rbind (foldR (\<lambda>pm _. check_sketch_anchor m pm) (m5_partitions m) ()) (\<lambda>_.
        rbind (check_compression m) (\<lambda>_.
        rbind (foldR (\<lambda>pm _. check_block_count m pm) (m5_partitions m) ()) (\<lambda>_.
        Layout_new (word_of_nat (length (m5_partitions m)))))))))"

section \<open>Sketch\<close>

definition DESCRIPTOR_LEN :: nat where
  "DESCRIPTOR_LEN = 20"

text \<open>A parsed sketch is its two parts: the descriptor and the fingerprint bytes.\<close>

type_synonym sketch = "bytes \<times> bytes"

definition sketch_parse :: "bytes \<Rightarrow> sketch fres" where
  "sketch_parse buf =
     (if length buf < DESCRIPTOR_LEN then Err (CorruptSketch ''sketch shorter than its descriptor'')
      else
        let sl = u32_of_le (bslice 8 4 buf);
            msk = u32_of_le (bslice 12 4 buf);
            scl = u32_of_le (bslice 16 4 buf);
            n_fingerprints = (word_of_nat (length buf - DESCRIPTOR_LEN) :: u64)
        in if sl = 0 \<or> \<not> is_power_of_two sl \<or> msk \<noteq> sl - 1
           then Err (CorruptSketch ''invalid sketch segment descriptor'')
           else if scl mod sl \<noteq> 0 \<or> n_fingerprints \<noteq> ucast scl + 2 * ucast sl
           then Err (CorruptSketch ''sketch descriptor/fingerprint length mismatch'')
           else Ok (take DESCRIPTOR_LEN buf, drop DESCRIPTOR_LEN buf))"

definition sketch_contains :: "xorf_lib \<Rightarrow> sketch \<Rightarrow> u64 \<Rightarrow> bool" where
  "sketch_contains xorf s fp = bf8_contains xorf (fst s) (snd s) fp"

definition sketch_build :: "xorf_lib \<Rightarrow> u64 list \<Rightarrow> bytes fres" where
  "sketch_build xorf fps =
     (case bf8_try_from xorf fps of
        Ok (desc, fingerprints) \<Rightarrow> Ok (desc @ fingerprints)
      | Err e \<Rightarrow> Err (SketchBuild e)
      | Panic \<Rightarrow> Panic)"

definition verify_sketch :: "hash \<Rightarrow> bytes \<Rightarrow> u32 \<Rightarrow> unit fres" where
  "verify_sketch xxh64 bs expected =
     (let got = checksum32 xxh64 bs
      in if got \<noteq> expected then Err (SketchChecksumMismatch got expected) else Ok ())"

section \<open>Compression\<close>

datatype Mode = NoCompression | Zstd_Mode | ZstdDict_Mode

fun mode_str :: "Mode \<Rightarrow> string" where
  "mode_str NoCompression = ''none''"
| "mode_str Zstd_Mode = ''zstd''"
| "mode_str ZstdDict_Mode = ''zstd-dict''"

definition mode_from_str :: "string \<Rightarrow> Mode option" where
  "mode_from_str s =
     (if s = ''none'' then Some NoCompression
      else if s = ''zstd'' then Some Zstd_Mode
      else if s = ''zstd-dict'' then Some ZstdDict_Mode
      else None)"

definition zstd_version :: "zstd_lib \<Rightarrow> string" where
  "zstd_version z =
     (let n = z_version_number z
      in show_nat (n div 10000) @ ''.'' @ show_nat (n div 100 mod 100) @ ''.'' @ show_nat (n mod 100))"

definition train_dict :: "zstd_lib \<Rightarrow> bytes list \<Rightarrow> nat \<Rightarrow> bytes fres" where
  "train_dict z samples max_size = map_err DictTrain (z_train z samples max_size)"

definition verify_dict :: "hash \<Rightarrow> bytes \<Rightarrow> u32 \<Rightarrow> unit fres" where
  "verify_dict xxh64 dict expected =
     (let got = checksum32 xxh64 dict
      in if got \<noteq> expected then Err (DictChecksumMismatch got expected) else Ok ())"

record Compressor =
  c_level :: int
  c_dict :: "bytes option"
  c_min_compress_len :: nat

definition Compressor_new :: "zstd_lib \<Rightarrow> int \<Rightarrow> bytes option \<Rightarrow> nat \<Rightarrow> Compressor fres" where
  "Compressor_new z level dict min_len =
     rbind (map_err Zstd (z_cctx z level dict)) (\<lambda>_.
       Ok \<lparr>c_level = level, c_dict = dict, c_min_compress_len = min_len\<rparr>)"

definition compress :: "zstd_lib \<Rightarrow> Compressor \<Rightarrow> bytes \<Rightarrow> bytes option fres" where
  "compress z c val =
     (if length val < c_min_compress_len c then Ok None
      else rbind (map_err Zstd (z_compress z (c_level c) (c_dict c) val)) (\<lambda>frame.
           Ok (if length frame < length val then Some frame else None)))"

type_synonym Decompressor = "bytes option"

definition Decompressor_new :: "zstd_lib \<Rightarrow> bytes option \<Rightarrow> Decompressor fres" where
  "Decompressor_new z dict = rbind (map_err Zstd (z_dctx z dict)) (\<lambda>_. Ok dict)"

definition frame_content_size :: "bytes \<Rightarrow> u64 fres" where
  "frame_content_size frame =
     (case frame of
        [] \<Rightarrow> Err (CorruptFrame ''empty frame'')
      | fhd # _ \<Rightarrow>
          if fhd AND 0x08 \<noteq> 0 then Err (CorruptFrame ''reserved frame header bit set'')
          else
            let single_segment = (fhd AND 0x20 \<noteq> 0);
                sel = unat (drop_bit 6 fhd)
            in if sel = 0 \<and> \<not> single_segment then Err (CorruptFrame ''frame content size not pinned'')
               else
                 let fcs_len = (if sel = 0 then 1 else if sel = 1 then 2 else if sel = 2 then 4 else 8 :: nat);
                     start = 1 + (if single_segment then 0 else 1) + [0, 1, 2, 4] ! unat (fhd AND 0x03)
                 in if length frame < start + fcs_len then Err (CorruptFrame ''truncated frame header'')
                    else
                      let size' = u64_of_le (bslice start fcs_len frame @ replicate (8 - fcs_len) 0)
                      in Ok (if fcs_len = 2 then size' + 256 else size'))"

definition decompress :: "zstd_lib \<Rightarrow> Decompressor \<Rightarrow> bytes \<Rightarrow> bytes fres" where
  "decompress z d frame =
     rbind (frame_content_size frame) (\<lambda>content_size.
       if content_size > ucast MAX_VALUE_LEN then Err (FrameContentTooLarge content_size MAX_VALUE_LEN)
       else
         rbind (map_err Decompress (z_decompress z d frame (unat content_size))) (\<lambda>val.
           if length val \<noteq> unat content_size
           then Err (CorruptFrame ''decompressed size differs from pinned content size'')
           else Ok val))"

fun decode :: "zstd_lib \<Rightarrow> bytes \<Rightarrow> bool \<Rightarrow> Decompressor option \<Rightarrow> bytes fres" where
  "decode z stored False codec = Ok stored"
| "decode z stored True (Some d) = decompress z d stored"
| "decode z stored True None = Err CompressedValueWithoutCodec"

end
