(* ===== verification/V5_Reader.thy ===== *)
theory V5_Reader
  imports V5_Format
begin

text \<open>
  \<open>v5/reader.rs\<close>: opening a V5 snapshot (dictionary, fences, block and sketch files, each checked
  against the metadata) and the lookup: sketch, fence search, block scan, heap read, decoding.
\<close>

section \<open>Opening\<close>

definition fence_load :: "files \<Rightarrow> path \<Rightarrow> u64 \<Rightarrow> nat \<Rightarrow> u32 list fres" where
  "fence_load fs p expected_blocks part =
     rbind (file_open fs p) (\<lambda>file.
       let len = (word_of_nat (length file) :: u64)
       in if len \<noteq> expected_blocks * 4
          then Err (SnapshotFileSize part ''fences.bin'' len (expected_blocks * 4))
          else Ok (map u32_of_le (chunks 4 (length file div 4) file)))"

record Partition =
  pt_fences :: "u32 list"
  pt_blocks :: bytes
  pt_heap :: bytes
  pt_sketch :: "sketch option"

record SnapshotReaderV5 =
  r5_partitions :: "Partition list"
  r5_layout :: Layout
  r5_verify_seed :: u64
  r5_block_size :: u32
  r5_codec :: "Decompressor option"

definition open_codec ::
    "zstd_lib \<Rightarrow> hash \<Rightarrow> files \<Rightarrow> path \<Rightarrow> CompressionMeta option \<Rightarrow> Decompressor option fres" where
  "open_codec z xxh64 fs root cmeta =
     (case cmeta of
        None \<Rightarrow> Ok None
      | Some c \<Rightarrow>
          rbind (if cm_dict c then
                   rbind (ok_or (InvalidCompressionMeta ''dict: true requires dict_checksum'')
                            (cm_dict_checksum c)) (\<lambda>expected.
                   rbind (ok_or (DictUnreadable (IoError NotFound []))
                            (fs (path_join root ''dict.bin''))) (\<lambda>bs.
                   rbind (verify_dict xxh64 bs expected) (\<lambda>_. Ok (Some bs))))
                 else Ok None) (\<lambda>dict.
          rbind (Decompressor_new z dict) (\<lambda>d. Ok (Some d))))"

definition open_sketch ::
    "hash \<Rightarrow> files \<Rightarrow> path \<Rightarrow> nat \<Rightarrow> MetaV5 \<Rightarrow> PartitionMetaV5 \<Rightarrow> sketch option fres" where
  "open_sketch xxh64 fs dir i meta pm =
     (if m5_sketch meta \<noteq> None \<and> n_blocks pm > 0 then
        rbind (ok_or (SnapshotFileRead i ''sketch.bin'' (IoError NotFound []))
                 (fs (path_join dir ''sketch.bin''))) (\<lambda>bs.
        rbind (ok_or (InvalidSketchMeta ''sketch present without sketch_checksum'')
                 (sketch_checksum pm)) (\<lambda>expected.
        rbind (verify_sketch xxh64 bs expected) (\<lambda>_.
        rbind (sketch_parse bs) (\<lambda>s. Ok (Some s)))))
      else Ok None)"

definition open_partition ::
    "hash \<Rightarrow> files \<Rightarrow> path \<Rightarrow> Layout \<Rightarrow> MetaV5 \<Rightarrow> nat \<times> PartitionMetaV5 \<Rightarrow> Partition fres" where
  "open_partition xxh64 fs root layout meta ipm =
     (let (i, pm) = ipm; dir = partition_dir root (n_partitions layout) i;
          block_size = (ucast (m5_block_size meta) :: u64)
      in rbind (fence_load fs (path_join dir ''fences.bin'') (n_blocks pm) i) (\<lambda>fences.
         rbind (file_open fs (path_join dir ''blocks.bin'')) (\<lambda>blocks.
           let blocks_len = (word_of_nat (length blocks) :: u64)
           in if blocks_len \<noteq> n_blocks pm * block_size
              then Err (SnapshotFileSize i ''blocks.bin'' blocks_len (n_blocks pm * block_size))
              else
                rbind (open_sketch xxh64 fs dir i meta pm) (\<lambda>sk.
                rbind (file_open fs (path_join dir ''heap.bin'')) (\<lambda>heap.
                  Ok \<lparr>pt_fences = fences, pt_blocks = blocks, pt_heap = heap, pt_sketch = sk\<rparr>)))))"

definition SnapshotReaderV5_open ::
    "zstd_lib \<Rightarrow> hash \<Rightarrow> files \<Rightarrow> path \<Rightarrow> MetaV5 \<Rightarrow> SnapshotReaderV5 fres" where
  "SnapshotReaderV5_open z xxh64 fs root meta =
     rbind (MetaV5_layout meta) (\<lambda>layout.
     rbind (open_codec z xxh64 fs root (m5_compression meta)) (\<lambda>codec.
     rbind (mapR (open_partition xxh64 fs root layout meta) (enumerate 0 (m5_partitions meta))) (\<lambda>parts.
     Ok \<lparr>r5_partitions = parts, r5_layout = layout, r5_verify_seed = m5_verify_seed meta,
         r5_block_size = m5_block_size meta, r5_codec = codec\<rparr>)))"

section \<open>Lookup\<close>

text \<open>The bytes of a matched record: inline, or from the heap with its own checksum.\<close>

fun resolve :: "zstd_lib \<Rightarrow> hash \<Rightarrow> bytes \<Rightarrow> Decompressor option \<Rightarrow> Record \<Rightarrow> bytes fres" where
  "resolve z xxh64 heap codec (Inline vfp val c) = decode z val c codec"
| "resolve z xxh64 heap codec (StubRec vfp stub c) =
     rbind (pread heap (heap_offset stub) (stored_len stub)) (\<lambda>val.
       if checksum32 xxh64 val \<noteq> value_checksum stub then Err ValueChecksumMismatch
       else decode z val c codec)"

fun probe_blocks ::
    "zstd_lib \<Rightarrow> hash \<Rightarrow> u32 \<Rightarrow> Decompressor option \<Rightarrow> Partition \<Rightarrow> u64 \<Rightarrow> nat list \<Rightarrow> bool
       \<Rightarrow> GetOutcome fres" where
  "probe_blocks z xxh64 bs codec part vfp [] io = Ok (Miss io)"
| "probe_blocks z xxh64 bs codec part vfp (b # cands) io =
     rbind (pread (pt_blocks part) (word_of_nat b * ucast bs) bs) (\<lambda>buf.
     rbind (find_v5 xxh64 buf vfp) (\<lambda>r.
       case r of
         Some rec \<Rightarrow> rmap Hit (resolve z xxh64 (pt_heap part) codec rec)
       | None \<Rightarrow> probe_blocks z xxh64 bs codec part vfp cands True))"

definition partition_get5 ::
    "zstd_lib \<Rightarrow> xorf_lib \<Rightarrow> hash \<Rightarrow> u32 \<Rightarrow> Decompressor option \<Rightarrow> Partition \<Rightarrow> u64 \<Rightarrow> u64
       \<Rightarrow> GetOutcome fres" where
  "partition_get5 z xorf xxh64 bs codec part fp vfp =
     (if (case pt_sketch part of Some s \<Rightarrow> \<not> sketch_contains xorf s fp | None \<Rightarrow> False)
      then Ok (Miss False)
      else probe_blocks z xxh64 bs codec part vfp (candidate_blocks (pt_fences part) (fence_of fp)) False)"

definition SnapshotReaderV5_get ::
    "zstd_lib \<Rightarrow> xorf_lib \<Rightarrow> hash \<Rightarrow> SnapshotReaderV5 \<Rightarrow> bytes \<Rightarrow> GetOutcome fres" where
  "SnapshotReaderV5_get z xorf xxh64 s key =
     (let fp = fingerprint xxh64 key;
          vfp = v5_verify_fingerprint xxh64 key (r5_verify_seed s);
          p = partition_of (r5_layout s) fp
      in if p < length (r5_partitions s)
         then partition_get5 z xorf xxh64 (r5_block_size s) (r5_codec s) (r5_partitions s ! p) fp vfp
         else Panic)"

end
