(* ===== verification/File_System.thy ===== *)
theory File_System
  imports Data_File
begin

text \<open>
  Operations on the file system that may fail: a function of the files that returns its result
  with the files it leaves, so the state after an error is part of the model.  \<open>io_bind\<close> is the
  operator \<open>?\<close> followed by the rest of the function.

  A file appears with its contents when the code has synced and closed it; a file that is created
  (truncated) earlier is empty until then.  Directories are implicit, and the device does not fail
  on writes.
\<close>

named_theorems io_simps \<open>equations and equivalences of file operations\<close>

type_synonym ('e, 's, 'a) effect = "'s \<Rightarrow> ('e, 'a) res \<times> 's"
type_synonym ('s, 'a) stateful = "(error, 's, 'a) effect"
type_synonym 'a io = "(files, 'a) stateful"

definition io_return :: "'a \<Rightarrow> ('e, 's, 'a) effect" where
  "io_return x s = (Ok x, s)"

definition io_lift :: "('e, 'a) res \<Rightarrow> ('e, 's, 'a) effect" where
  "io_lift r s = (r, s)"

definition io_bind :: "('e, 's, 'a) effect \<Rightarrow> ('a \<Rightarrow> ('e, 's, 'b) effect) \<Rightarrow> ('e, 's, 'b) effect" where
  "io_bind m f s =
     (case m s of
        (Ok x, s') \<Rightarrow> f x s'
      | (Err e, s') \<Rightarrow> (Err e, s')
      | (Panic, s') \<Rightarrow> (Panic, s'))"

text \<open>An update that cannot fail: a truncating create, a best-effort removal.\<close>

definition io_do :: "('s \<Rightarrow> 's) \<Rightarrow> ('e, 's, unit) effect" where
  "io_do f s = (Ok (), f s)"

fun io_mapM :: "('a \<Rightarrow> ('e, 's, 'b) effect) \<Rightarrow> 'a list \<Rightarrow> ('e, 's, 'b list) effect" where
  "io_mapM f [] = io_return []"
| "io_mapM f (x # xs) = io_bind (f x) (\<lambda>y. io_bind (io_mapM f xs) (\<lambda>ys. io_return (y # ys)))"

text \<open>Every element is processed, also after a failure; the results are collected.\<close>

fun io_collect :: "('a \<Rightarrow> ('e, 's, 'b) effect) \<Rightarrow> 'a list \<Rightarrow> 's \<Rightarrow> ('e, 'b) res list \<times> 's" where
  "io_collect f [] s = ([], s)"
| "io_collect f (x # xs) s =
     (let (r, s1) = f x s; (rs, s2) = io_collect f xs s1 in (r # rs, s2))"

fun io_foldM :: "('a \<Rightarrow> 'c \<Rightarrow> ('e, 's, 'c) effect) \<Rightarrow> 'a list \<Rightarrow> 'c \<Rightarrow> ('e, 's, 'c) effect" where
  "io_foldM f [] c = io_return c"
| "io_foldM f (x # xs) c = io_bind (f x c) (io_foldM f xs)"

definition io_map_err :: "('e \<Rightarrow> 'f) \<Rightarrow> ('e, 's, 'a) effect \<Rightarrow> ('f, 's, 'a) effect" where
  "io_map_err g m s = (let (r, s') = m s in (map_err g r, s'))"

section \<open>File operations\<close>

definition read_file :: "path \<Rightarrow> bytes io" where
  "read_file p fs = (file_open fs p, fs)"

definition path_exists :: "path \<Rightarrow> bool io" where
  "path_exists p fs = (Ok (fs p \<noteq> None), fs)"

definition file_create :: "path \<Rightarrow> unit io" where
  "file_create p = io_do (\<lambda>fs. fs(p \<mapsto> []))"

definition write_data_file :: "path \<Rightarrow> bytes \<Rightarrow> unit io" where
  "write_data_file p bs = io_do (\<lambda>fs. fs(p \<mapsto> bs))"

definition remove_file :: "path \<Rightarrow> unit io" where
  "remove_file p = io_do (\<lambda>fs. fs(p := None))"

definition rename_file :: "path \<Rightarrow> path \<Rightarrow> unit io" where
  "rename_file p q fs =
     (case fs p of
        Some bs \<Rightarrow> (Ok (), (fs(p := None))(q \<mapsto> bs))
      | None \<Rightarrow> (Err (Io (IoError NotFound [])), fs))"

section \<open>Equations\<close>

lemma io_bind_Ok_iff [io_simps]:
  "io_bind m f s = (Ok y, s2) \<longleftrightarrow> (\<exists>x s1. m s = (Ok x, s1) \<and> f x s1 = (Ok y, s2))"
  by (auto simp: io_bind_def split: prod.splits res.splits)

lemma io_return_iff [io_simps]: "io_return x s = (Ok y, s2) \<longleftrightarrow> y = x \<and> s2 = s"
  by (auto simp: io_return_def)

lemma io_lift_iff [io_simps]: "io_lift r s = (Ok y, s2) \<longleftrightarrow> r = Ok y \<and> s2 = s"
  by (auto simp: io_lift_def)

lemma io_do_iff [io_simps]: "io_do f s = (Ok y, s2) \<longleftrightarrow> s2 = f s"
  by (auto simp: io_do_def)

lemma read_file_iff [io_simps]: "read_file p fs = (Ok bs, fs2) \<longleftrightarrow> fs p = Some bs \<and> fs2 = fs"
  by (auto simp: read_file_def file_open_def split: option.splits)

lemma path_exists_iff [io_simps]: "path_exists p fs = (Ok b, fs2) \<longleftrightarrow> b = (fs p \<noteq> None) \<and> fs2 = fs"
  by (auto simp: path_exists_def)

lemma io_bind_Ok: "m s = (Ok x, s1) \<Longrightarrow> io_bind m f s = f x s1"
  by (simp add: io_bind_def)

lemma io_bind_Err: "m s = (Err e, s1) \<Longrightarrow> io_bind m f s = (Err e, s1)"
  by (simp add: io_bind_def)

lemma io_bind_return [simp]: "io_bind (io_return x) f s = f x s"
  by (simp add: io_bind_def io_return_def)

lemma io_bind_lift_Ok [simp]: "io_bind (io_lift (Ok x)) f s = f x s"
  by (simp add: io_bind_def io_lift_def)

lemma io_bind_do [simp]: "io_bind (io_do g) f s = f () (g s)"
  by (simp add: io_bind_def io_do_def)

lemma io_bind_exists [simp]: "io_bind (path_exists p) f fs = f (fs p \<noteq> None) fs"
  by (simp add: io_bind_def path_exists_def)

lemma io_bind_read: "fs p = Some bs \<Longrightarrow> io_bind (read_file p) f fs = f bs fs"
  by (simp add: io_bind_def read_file_def file_open_def)

text \<open>An operation that changes only the files of a set of paths.\<close>

definition touches :: "path set \<Rightarrow> 'a io \<Rightarrow> bool" where
  "touches A m \<longleftrightarrow> (\<forall>fs p. p \<notin> A \<longrightarrow> snd (m fs) p = fs p)"

named_theorems touches_intros \<open>operations that change only the files of a set\<close>

lemma touches_return [touches_intros]: "touches A (io_return x)"
  by (simp add: touches_def io_return_def)

lemma touches_lift [touches_intros]: "touches A (io_lift r)"
  by (simp add: touches_def io_lift_def)

lemma touches_read [touches_intros]: "touches A (read_file p)"
  by (simp add: touches_def read_file_def)

lemma touches_exists [touches_intros]: "touches A (path_exists p)"
  by (simp add: touches_def path_exists_def)

lemma touches_create [touches_intros]: "p \<in> A \<Longrightarrow> touches A (file_create p)"
  by (auto simp: touches_def file_create_def io_do_def)

lemma touches_write [touches_intros]: "p \<in> A \<Longrightarrow> touches A (write_data_file p bs)"
  by (auto simp: touches_def write_data_file_def io_do_def)

lemma touches_remove [touches_intros]: "p \<in> A \<Longrightarrow> touches A (remove_file p)"
  by (auto simp: touches_def remove_file_def io_do_def)

lemma touches_rename [touches_intros]: "p \<in> A \<Longrightarrow> q \<in> A \<Longrightarrow> touches A (rename_file p q)"
  by (auto simp: touches_def rename_file_def split: option.splits)

lemma touches_bind [touches_intros]:
  assumes "touches A m" and "\<And>x. touches A (f x)"
  shows "touches A (io_bind m f)"
  unfolding touches_def
proof (intro allI impI)
  fix fs p
  assume "p \<notin> A"
  then show "snd (io_bind m f fs) p = fs p"
    using assms by (cases "m fs" rule: prod.exhaust; cases "fst (m fs)")
      (auto simp: touches_def io_bind_def dest!: spec [of _ fs])
qed

lemma touches_foldM [touches_intros]:
  "(\<And>x c. touches A (f x c)) \<Longrightarrow> touches A (io_foldM f xs c)"
  by (induction xs arbitrary: c) (auto intro: touches_intros)

lemma touches_mapM [touches_intros]:
  "(\<And>x. touches A (f x)) \<Longrightarrow> touches A (io_mapM f xs)"
  by (induction xs) (auto intro: touches_intros)

lemma touchesD: "touches A m \<Longrightarrow> m fs = (r, fs2) \<Longrightarrow> p \<notin> A \<Longrightarrow> fs2 p = fs p"
  unfolding touches_def by (metis snd_conv)

text \<open>The files directly below a directory.\<close>

definition in_dir :: "path \<Rightarrow> path set" where
  "in_dir dir = {p. \<exists>name. p = path_join dir name}"

lemma in_dir_join [simp]: "path_join dir name \<in> in_dir dir' \<longleftrightarrow> dir = dir'"
  by (auto simp: in_dir_def)

end
