(* ===== verification/V5_Arrival.thy ===== *)
theory V5_Arrival
  imports V5_Reader File_System
begin

text \<open>
  The arrival log of the V5 builder (\<open>v5/builder.rs\<close>): the appender that writes it, the size
  histogram and the block size derived from it, the parser, the radix pass into bucket files and
  the sampling of a prefix; and the publication of marker files.

  \<open>serde_json\<close> is a parameter: the encoder and decoder of each transient schema are fields of
  \<open>serde_lib\<close>.
\<close>

section \<open>Constants and schemas\<close>

definition FRAME_HEADER :: nat where
  "FRAME_HEADER = 20"

definition HIST_BUCKETS :: nat where
  "HIST_BUCKETS = 33"

definition SAMPLE_PREFIX_BYTES :: nat where
  "SAMPLE_PREFIX_BYTES = 64 * 1024 * 1024"

definition DEFAULT_BUCKET_BYTES :: u64 where
  "DEFAULT_BUCKET_BYTES = 128 * 1024 * 1024"

definition MAX_RADIX_BUCKETS :: nat where
  "MAX_RADIX_BUCKETS = 64"

definition DEFAULT_LEVEL :: int where
  "DEFAULT_LEVEL = 3"

definition DEFAULT_MIN_COMPRESS_LEN :: nat where
  "DEFAULT_MIN_COMPRESS_LEN = 64"

definition DEFAULT_DICT_LEN :: nat where
  "DEFAULT_DICT_LEN = 64 * 1024"

datatype MarkerMode = Rename | DirectWrite

record ArrivalStats =
  as_n_keys :: u64
  as_data_bytes :: u64
  as_hist :: "u64 list"

record Plan =
  pl_block_size :: u32
  pl_inline_threshold :: u32
  pl_sketch :: bool
  pl_compression :: Mode
  pl_min_compress_len :: u32
  pl_dict_checksum :: "u32 option"
  pl_n_samples :: u64
  pl_dict_len :: u64
  pl_dict_fallback :: bool
  pl_sample_bytes_raw :: u64
  pl_sample_bytes_stored :: u64
  pl_zstd_version :: "string option"

record PartitionBuildDone =
  pd_n_keys :: u64
  pd_data_bytes :: u64
  pd_n_blocks :: u64
  pd_n_stubs :: u64
  pd_blocks_bytes :: u64
  pd_heap_bytes :: u64
  pd_sketch_bytes :: u64
  pd_sketch_checksum :: "u32 option"
  pd_value_bytes_raw :: u64
  pd_value_bytes_stored :: u64
  pd_n_compressed :: u64
  pd_n_raw :: u64

text \<open>The wall-clock time is kept as text: no code computes with it.\<close>

record IndexDone =
  id_n_keys :: u64
  id_n_blocks :: u64
  id_n_stubs :: u64
  id_block_size :: u32
  id_inline_threshold :: u32
  id_blocks_bytes :: u64
  id_heap_bytes :: u64
  id_fences_bytes :: u64
  id_sketch :: bool
  id_sketch_bytes :: u64
  id_compression :: Mode
  id_min_compress_len :: u32
  id_dict_checksum :: "u32 option"
  id_n_samples :: u64
  id_dict_len :: u64
  id_dict_fallback :: bool
  id_sample_bytes_raw :: u64
  id_sample_bytes_stored :: u64
  id_value_bytes_raw :: u64
  id_value_bytes_stored :: u64
  id_n_compressed :: u64
  id_n_raw :: u64
  id_zstd_version :: "string option"
  id_wall_secs :: "string option"
  id_partitions :: "PartitionBuildDone list"

record serde_lib =
  enc_stats :: "ArrivalStats \<Rightarrow> bytes"
  dec_stats :: "bytes \<Rightarrow> ArrivalStats fres"
  enc_plan :: "Plan \<Rightarrow> bytes"
  dec_plan :: "bytes \<Rightarrow> Plan fres"
  enc_pdone :: "PartitionBuildDone \<Rightarrow> bytes"
  dec_pdone :: "bytes \<Rightarrow> PartitionBuildDone fres"
  enc_idone :: "IndexDone \<Rightarrow> bytes"
  dec_idone :: "bytes \<Rightarrow> IndexDone fres"
  enc_meta5 :: "MetaV5 \<Rightarrow> bytes"
  dec_meta5 :: "bytes \<Rightarrow> MetaV5 fres"

definition read_json :: "(bytes \<Rightarrow> 'a fres) \<Rightarrow> path \<Rightarrow> 'a io" where
  "read_json dec p = io_bind (read_file p) (\<lambda>bs. io_lift (dec bs))"

section \<open>Markers\<close>

text \<open>\<open>path\<close> with \<open>.tmp\<close> appended to its last component.\<close>

definition tmp_path :: "path \<Rightarrow> path" where
  "tmp_path p = butlast p @ [last p @ ''.tmp'']"

definition write_marker :: "path \<Rightarrow> bytes \<Rightarrow> MarkerMode \<Rightarrow> unit io" where
  "write_marker p json mode =
     (case mode of
        Rename \<Rightarrow>
          io_bind (file_create (tmp_path p)) (\<lambda>_.
          io_bind (write_data_file (tmp_path p) json) (\<lambda>_.
          rename_file (tmp_path p) p))
      | DirectWrite \<Rightarrow>
          io_bind (file_create p) (\<lambda>_. write_data_file p json))"

section \<open>Size histogram\<close>

definition leading_zeros :: "u64 \<Rightarrow> nat" where
  "leading_zeros x = length (takeWhile (\<lambda>i. \<not> bit x i) (rev [0..<64]))"

text \<open>\<open>hist[(64 - rec.leading_zeros())] += 1\<close>, with the bounds check of indexing.\<close>

definition hist_bump :: "nat \<Rightarrow> u64 list \<Rightarrow> u64 list fres" where
  "hist_bump payload_len hist =
     (let rec = (word_of_nat (encoded_len payload_len) :: u64);
          i = 64 - leading_zeros rec
      in if i < length hist then Ok (hist[i := hist ! i + 1]) else Panic)"

text \<open>\<open>iter_mut().zip(stats.hist)\<close>: the shorter list decides.\<close>

fun hist_merge :: "u64 list \<Rightarrow> u64 list \<Rightarrow> u64 list" where
  "hist_merge (h # hs) (s # ss) = (h + s) # hist_merge hs ss"
| "hist_merge hs ss = hs"

text \<open>\<open>iter().position\<close> with the running sum it captures.\<close>

fun median_position :: "u64 \<Rightarrow> u64 list \<Rightarrow> u64 \<Rightarrow> nat option" where
  "median_position half [] cumulative = None"
| "median_position half (c # cs) cumulative =
     (if cumulative + c \<ge> half then Some 0
      else map_option Suc (median_position half cs (cumulative + c)))"

definition auto_tune_block_size :: "u64 list \<Rightarrow> u32 fres" where
  "auto_tune_block_size hist =
     (let total = sum_list hist
      in if total = 0 then Ok MIN_BLOCK_SIZE
         else
           case median_position (total div 2 + total mod 2) hist 0 of
             None \<Rightarrow> Panic
           | Some median_bucket \<Rightarrow>
               let block = (2 :: u64) ^ min (median_bucket + 1) 31
               in Ok (min (max (ucast block) MIN_BLOCK_SIZE) MAX_AUTO_BLOCK_SIZE))"

section \<open>Appender\<close>

record V5Appender =
  va_dir :: path
  va_out :: bytes
  va_verify_seed :: u64
  va_marker_mode :: MarkerMode
  va_n_keys :: u64
  va_data_bytes :: u64
  va_hist :: "u64 list"

definition V5Appender_append :: "hash \<Rightarrow> V5Appender \<Rightarrow> bytes \<Rightarrow> u64 \<Rightarrow> bytes \<Rightarrow> V5Appender fres" where
  "V5Appender_append xxh64 a key fp val =
     (if length val > unat MAX_VALUE_LEN
      then Err (ValueTooLarge (word_of_nat (length val)) MAX_VALUE_LEN)
      else
        let vfp = v5_verify_fingerprint xxh64 key (va_verify_seed a);
            out = va_out a @ u64_le fp @ u64_le vfp @ u32_le (word_of_nat (length val)) @ val
        in rbind (hist_bump (length val) (va_hist a)) (\<lambda>hist.
             Ok (a\<lparr>va_out := out, va_hist := hist, va_n_keys := va_n_keys a + 1,
                  va_data_bytes := va_data_bytes a + word_of_nat (FRAME_HEADER + length val)\<rparr>)))"

definition V5Appender_finish :: "serde_lib \<Rightarrow> V5Appender \<Rightarrow> unit io" where
  "V5Appender_finish sj a =
     io_bind (write_data_file (path_join (va_dir a) ''arrival.bin'') (va_out a)) (\<lambda>_.
       write_marker (path_join (va_dir a) ''arrival.stats'')
         (enc_stats sj \<lparr>as_n_keys = va_n_keys a, as_data_bytes = va_data_bytes a, as_hist = va_hist a\<rparr>)
         (va_marker_mode a))"

section \<open>Frames\<close>

record FrameRef =
  fr_fp :: u64
  fr_vfp :: u64
  fr_start :: nat
  fr_len :: nat

definition eof_error :: "string \<Rightarrow> error" where
  "eof_error msg = Io (IoError UnexpectedEof msg)"

function parse_loop :: "bytes \<Rightarrow> nat \<Rightarrow> FrameRef list fres" where
  "parse_loop buf pos =
     (if pos \<ge> length buf then Ok []
      else if pos + FRAME_HEADER > length buf then Err (eof_error ''truncated arrival frame header'')
      else
        let fp = u64_of_le (bslice pos 8 buf);
            vfp = u64_of_le (bslice (pos + 8) 8 buf);
            len = unat (u32_of_le (bslice (pos + 16) 4 buf));
            start = pos + FRAME_HEADER
        in if start + len > length buf then Err (eof_error ''truncated arrival frame value'')
           else rmap (\<lambda>frames. \<lparr>fr_fp = fp, fr_vfp = vfp, fr_start = start, fr_len = len\<rparr> # frames)
                  (parse_loop buf (start + len)))"
  by pat_completeness auto
termination
  by (relation "measure (\<lambda>(buf, pos). length buf - pos)") (auto simp: FRAME_HEADER_def)

declare parse_loop.simps [simp del]

definition parse_frames :: "bytes \<Rightarrow> FrameRef list fres" where
  "parse_frames buf = parse_loop buf 0"

function sample_loop :: "bytes \<Rightarrow> nat \<Rightarrow> bytes list" where
  "sample_loop buf pos =
     (if pos + FRAME_HEADER > length buf then []
      else
        let len = unat (u32_of_le (bslice (pos + 16) 4 buf));
            start = pos + FRAME_HEADER
        in if start + len > length buf then []
           else (if len > 0 then [bslice start len buf] else []) @ sample_loop buf (start + len))"
  by pat_completeness auto
termination
  by (relation "measure (\<lambda>(buf, pos). length buf - pos)") (auto simp: FRAME_HEADER_def)

declare sample_loop.simps [simp del]

definition sample_arrival_prefix :: "path \<Rightarrow> nat \<Rightarrow> bytes list io" where
  "sample_arrival_prefix arrival max_bytes =
     io_bind (read_file arrival) (\<lambda>file. io_return (sample_loop (take max_bytes file) 0))"

section \<open>Radix buckets\<close>

text \<open>\<open>None\<close> is a clean end of file; the second component is the unread rest.\<close>

definition read_exact_or_eof :: "nat \<Rightarrow> bytes \<Rightarrow> (bytes \<times> bytes) option fres" where
  "read_exact_or_eof n input =
     (if n = 0 then Ok (Some ([], input))
      else if input = [] then Ok None
      else if length input < n then Err (eof_error ''truncated arrival frame'')
      else Ok (Some (take n input, drop n input)))"

lemma read_exact_or_eof_Some:
  "read_exact_or_eof n input = Ok (Some (h, r)) \<Longrightarrow> h = take n input \<and> r = drop n input \<and> n \<le> length input"
  by (auto simp: read_exact_or_eof_def split: if_splits)

text \<open>
  The shift amount wraps at the width of the word: for a single bucket, where it is 64, the index is
  the whole fingerprint (a debug build panics).  \<open>build_partition\<close> only calls the pass for more buckets.
\<close>

function scatter_loop :: "nat \<Rightarrow> bytes \<Rightarrow> bytes list \<Rightarrow> bytes list fres" where
  "scatter_loop shift input outs =
     (case read_exact_or_eof FRAME_HEADER input of
        Err e \<Rightarrow> Err e
      | Panic \<Rightarrow> Panic
      | Ok None \<Rightarrow> Ok outs
      | Ok (Some (header, rest)) \<Rightarrow>
          let fp = u64_of_le (bslice 0 8 header);
              len = unat (u32_of_le (bslice 16 4 header))
          in if length rest < len then Err (eof_error ''failed to fill whole buffer'')
             else
               let b = unat (drop_bit (shift mod 64) fp)
               in if b < length outs
                  then scatter_loop shift (drop len rest) (outs[b := outs ! b @ header @ take len rest])
                  else Panic)"
  by pat_completeness auto
termination
  by (relation "measure (\<lambda>(shift, input, outs). length input)")
    (auto dest!: read_exact_or_eof_Some simp: FRAME_HEADER_def)

declare scatter_loop.simps [simp del]

definition trailing_zeros :: "nat \<Rightarrow> nat" where
  "trailing_zeros n = length (takeWhile (\<lambda>i. \<not> bit n i) [0..<64])"

definition bucket_path :: "path \<Rightarrow> nat \<Rightarrow> path" where
  "bucket_path dir b = path_join dir (''bucket-'' @ pad_zero 4 b @ ''.bin'')"

text \<open>
  The buckets are created first and filled in one pass; when the pass fails their contents are
  unspecified, and the next attempt sweeps them.
\<close>

definition scatter_to_buckets :: "path \<Rightarrow> path \<Rightarrow> nat \<Rightarrow> path list io" where
  "scatter_to_buckets dir arrival n_buckets =
     (let shift = 64 - trailing_zeros n_buckets;
          paths = map (bucket_path dir) [0..<n_buckets]
      in io_bind (io_mapM file_create paths) (\<lambda>_.
         io_bind (read_file arrival) (\<lambda>input.
         io_bind (io_lift (scatter_loop shift input (replicate n_buckets []))) (\<lambda>outs.
         io_bind (io_mapM (\<lambda>(p, out). write_data_file p out) (zip paths outs)) (\<lambda>_.
         io_return paths)))))"

text \<open>\<open>u64::checked_next_power_of_two\<close>.\<close>

definition checked_next_power_of_two :: "nat \<Rightarrow> nat option" where
  "checked_next_power_of_two x =
     (case filter (\<lambda>k. x \<le> 2 ^ k) [0..<64] of [] \<Rightarrow> None | k # _ \<Rightarrow> Some (2 ^ k))"

definition div_ceil :: "nat \<Rightarrow> nat \<Rightarrow> nat" where
  "div_ceil a b = a div b + (if a mod b > 0 then 1 else 0)"

definition radix_bucket_count :: "u64 \<Rightarrow> u64 \<Rightarrow> nat" where
  "radix_bucket_count arrival_bytes target_bytes =
     (let n = div_ceil (unat arrival_bytes) (max (unat target_bytes) 1);
          p = (case checked_next_power_of_two n of Some p \<Rightarrow> p | None \<Rightarrow> U64_MAX)
      in min (max p 1) MAX_RADIX_BUCKETS)"

section \<open>Sweeping transient files\<close>

definition is_bucket_or_tmp :: "string \<Rightarrow> bool" where
  "is_bucket_or_tmp name \<longleftrightarrow>
     take 7 name = ''bucket-'' \<or> (length name \<ge> 4 \<and> drop (length name - 4) name = ''.tmp'')"

definition remove_bucket_files :: "path \<Rightarrow> unit io" where
  "remove_bucket_files dir =
     io_do (\<lambda>fs p. if p \<noteq> [] \<and> butlast p = dir \<and> is_bucket_or_tmp (last p) then None else fs p)"

definition sweep_partition_transients :: "path \<Rightarrow> unit io" where
  "sweep_partition_transients dir =
     io_bind (remove_file (path_join dir ''arrival.bin'')) (\<lambda>_.
     io_bind (remove_file (path_join dir ''arrival.stats'')) (\<lambda>_.
     remove_bucket_files dir))"

end
