(* ===== verification/V5_Builder.thy ===== *)
theory V5_Builder
  imports V5_Arrival
begin

text \<open>
  \<open>v5/builder.rs\<close>: the plan, the build of a partition (radix pass, sort, block emission) and the
  builder's operations behind the format seam.

  \<open>sort_unstable_by_key\<close> leaves the order of equal keys open and is the parameter \<open>sort_u\<close>.
  Partitions are built by a thread pool; they touch disjoint directories, so the model builds them
  in order and, like the code, collects every result before it looks at the first error.  The two
  mutex-guarded cells of the builder are the state \<open>Cells\<close>.  Logging and the progress callback
  are left out.
\<close>

section \<open>Configuration\<close>

record V5Options =
  vo_block_size :: "u32 option"
  vo_bucket_bytes :: "u64 option"
  vo_sketch :: bool
  vo_compression :: Mode
  vo_min_compress_len :: u32
  vo_marker_mode :: MarkerMode

definition V5Options_default :: V5Options where
  "V5Options_default =
     \<lparr>vo_block_size = None, vo_bucket_bytes = None, vo_sketch = True, vo_compression = NoCompression,
      vo_min_compress_len = word_of_nat DEFAULT_MIN_COMPRESS_LEN, vo_marker_mode = Rename\<rparr>"

record BuilderConfig =
  bc_root :: path
  bc_n_partitions :: u32
  bc_verify_seed :: u64
  bc_data_buf_bytes :: nat
  bc_spill_buf_bytes :: nat
  bc_v5 :: V5Options

record V5Builder =
  vb_root :: path
  vb_layout :: Layout
  vb_verify_seed :: u64
  vb_data_buf_bytes :: nat
  vb_block_size_override :: "u32 option"
  vb_bucket_bytes :: u64
  vb_sketch :: bool
  vb_compression :: Mode
  vb_min_compress_len :: u32
  vb_marker_mode :: MarkerMode

record Cells =
  c_plan :: "Plan option"
  c_done :: "IndexDone option"

definition V5Builder_new :: "BuilderConfig \<Rightarrow> (V5Builder \<times> Cells) fres" where
  "V5Builder_new config =
     rbind (case vo_block_size (bc_v5 config) of Some bs \<Rightarrow> validate_block_size bs | None \<Rightarrow> Ok ()) (\<lambda>_.
     rbind (Layout_new (bc_n_partitions config)) (\<lambda>layout.
       Ok (\<lparr>vb_root = bc_root config, vb_layout = layout, vb_verify_seed = bc_verify_seed config,
            vb_data_buf_bytes = bc_data_buf_bytes config,
            vb_block_size_override = vo_block_size (bc_v5 config),
            vb_bucket_bytes = (case vo_bucket_bytes (bc_v5 config) of Some b \<Rightarrow> b | None \<Rightarrow> DEFAULT_BUCKET_BYTES),
            vb_sketch = vo_sketch (bc_v5 config), vb_compression = vo_compression (bc_v5 config),
            vb_min_compress_len = vo_min_compress_len (bc_v5 config),
            vb_marker_mode = vo_marker_mode (bc_v5 config)\<rparr>,
           \<lparr>c_plan = None, c_done = None\<rparr>)))"

abbreviation builder_dir :: "V5Builder \<Rightarrow> nat \<Rightarrow> path" where
  "builder_dir b p \<equiv> partition_dir (vb_root b) (n_partitions (vb_layout b)) p"

abbreviation builder_parts :: "V5Builder \<Rightarrow> nat list" where
  "builder_parts b \<equiv> [0..<unat (n_partitions (vb_layout b))]"

section \<open>Plan\<close>

definition read_dict :: "path \<Rightarrow> u32 \<Rightarrow> bytes io" where
  "read_dict root expected fs =
     (map_err (\<lambda>_. DictMissing expected (IoError NotFound [])) (file_open fs (path_join root ''dict.bin'')), fs)"

fun first_samples :: "V5Builder \<Rightarrow> nat list \<Rightarrow> bytes list io" where
  "first_samples b [] = io_return []"
| "first_samples b (p # ps) =
     io_bind (sample_arrival_prefix (path_join (builder_dir b p) ''arrival.bin'') SAMPLE_PREFIX_BYTES) (\<lambda>samples.
       if samples \<noteq> [] then io_return samples else first_samples b ps)"

definition train_step :: "zstd_lib \<Rightarrow> hash \<Rightarrow> path \<Rightarrow> bytes list \<Rightarrow> Plan \<Rightarrow> (Plan \<times> bytes option) io" where
  "train_step z xxh64 root samples plan =
     (case (if samples = [] then Err (DictTrain (IoError OtherKind ''no samples''))
            else train_dict z samples DEFAULT_DICT_LEN) of
        Ok bs \<Rightarrow>
          io_bind (write_data_file (path_join root ''dict.bin'') bs) (\<lambda>_.
          io_return (plan\<lparr>pl_dict_checksum := Some (checksum32 xxh64 bs),
                          pl_dict_len := word_of_nat (length bs)\<rparr>, Some bs))
      | Err e \<Rightarrow> io_return (plan\<lparr>pl_compression := Zstd_Mode, pl_dict_fallback := True\<rparr>, None)
      | Panic \<Rightarrow> io_lift Panic)"

definition measure_sample :: "zstd_lib \<Rightarrow> Compressor \<Rightarrow> bytes \<Rightarrow> Plan \<times> u64 list \<Rightarrow> (Plan \<times> u64 list) fres" where
  "measure_sample z c v ph =
     (let (plan, hist) = ph
      in rbind (compress z c v) (\<lambda>frame.
         let stored = (case frame of Some f \<Rightarrow> length f | None \<Rightarrow> length v)
         in rbind (hist_bump stored hist) (\<lambda>hist.
            Ok (plan\<lparr>pl_sample_bytes_raw := pl_sample_bytes_raw plan + word_of_nat (length v),
                     pl_sample_bytes_stored := pl_sample_bytes_stored plan + word_of_nat stored\<rparr>, hist))))"

definition plan_compression :: "zstd_lib \<Rightarrow> hash \<Rightarrow> V5Builder \<Rightarrow> Plan \<Rightarrow> (Plan \<times> u64 list) io" where
  "plan_compression z xxh64 b plan =
     io_bind (first_samples b (builder_parts b)) (\<lambda>samples.
       let plan = plan\<lparr>pl_n_samples := word_of_nat (length samples)\<rparr>
       in io_bind (if vb_compression b = ZstdDict_Mode then train_step z xxh64 (vb_root b) samples plan
                   else io_return (plan, None)) (\<lambda>(plan, dict).
          io_bind (io_lift (Compressor_new z DEFAULT_LEVEL dict (unat (pl_min_compress_len plan)))) (\<lambda>c.
          io_lift (foldR (measure_sample z c) samples (plan, replicate HIST_BUCKETS 0)))))"

definition merged_hist :: "serde_lib \<Rightarrow> V5Builder \<Rightarrow> u64 list io" where
  "merged_hist sj b =
     io_foldM (\<lambda>p hist.
       io_bind (read_json (dec_stats sj) (path_join (builder_dir b p) ''arrival.stats'')) (\<lambda>st.
       io_return (hist_merge hist (as_hist st)))) (builder_parts b) (replicate HIST_BUCKETS 0)"

definition initial_plan :: "zstd_lib \<Rightarrow> V5Builder \<Rightarrow> Plan" where
  "initial_plan z b =
     \<lparr>pl_block_size = 0, pl_inline_threshold = 0, pl_sketch = vb_sketch b,
      pl_compression = vb_compression b, pl_min_compress_len = vb_min_compress_len b,
      pl_dict_checksum = None, pl_n_samples = 0, pl_dict_len = 0, pl_dict_fallback = False,
      pl_sample_bytes_raw = 0, pl_sample_bytes_stored = 0,
      pl_zstd_version = (if vb_compression b \<noteq> NoCompression then Some (zstd_version z) else None)\<rparr>"

definition derive_plan :: "zstd_lib \<Rightarrow> hash \<Rightarrow> serde_lib \<Rightarrow> V5Builder \<Rightarrow> Plan io" where
  "derive_plan z xxh64 sj b =
     io_bind (merged_hist sj b) (\<lambda>hist.
     io_bind (remove_file (path_join (vb_root b) ''dict.bin'')) (\<lambda>_.
     io_bind (if vb_compression b \<noteq> NoCompression
              then io_bind (plan_compression z xxh64 b (initial_plan z b)) (\<lambda>(plan, stored_hist).
                   io_return (plan, if pl_n_samples plan > 0 then stored_hist else hist))
              else io_return (initial_plan z b, hist)) (\<lambda>(plan, hist).
     io_bind (case vb_block_size_override b of
                Some bs \<Rightarrow> io_return bs
              | None \<Rightarrow> io_lift (auto_tune_block_size hist)) (\<lambda>bs.
       let plan = plan\<lparr>pl_block_size := bs, pl_inline_threshold := bs div 2\<rparr>
       in io_bind (write_marker (path_join (vb_root b) ''v5.plan'') (enc_plan sj plan) (vb_marker_mode b)) (\<lambda>_.
          io_return plan)))))"

definition load_plan :: "hash \<Rightarrow> serde_lib \<Rightarrow> V5Builder \<Rightarrow> Plan io" where
  "load_plan xxh64 sj b =
     io_bind (read_json (dec_plan sj) (path_join (vb_root b) ''v5.plan'')) (\<lambda>plan.
       case pl_dict_checksum plan of
         None \<Rightarrow> io_return plan
       | Some expected \<Rightarrow>
           io_bind (read_dict (vb_root b) expected) (\<lambda>dict.
           io_bind (io_lift (verify_dict xxh64 dict expected)) (\<lambda>_. io_return plan)))"

text \<open>Operations on the builder's cells and the files.\<close>

type_synonym bstate = "Cells \<times> files"

definition on_files :: "'a io \<Rightarrow> ('c \<times> files, 'a) stateful" where
  "on_files m s = (let (r, fs) = m (snd s) in (r, (fst s, fs)))"

definition ensure_plan :: "zstd_lib \<Rightarrow> hash \<Rightarrow> serde_lib \<Rightarrow> V5Builder \<Rightarrow> (bstate, Plan) stateful" where
  "ensure_plan z xxh64 sj b s =
     (case c_plan (fst s) of
        Some plan \<Rightarrow> io_return plan s
      | None \<Rightarrow>
          io_bind (on_files (io_bind (path_exists (path_join (vb_root b) ''v5.plan'')) (\<lambda>present.
              if present then load_plan xxh64 sj b else derive_plan z xxh64 sj b))) (\<lambda>plan.
          io_bind (io_do (\<lambda>(c, fs). (c\<lparr>c_plan := Some plan\<rparr>, fs))) (\<lambda>_. io_return plan)) s)"

section \<open>Building a partition\<close>

definition file_sink :: "bytes sink" where
  "file_sink b w = (Ok (), w @ b)"

record Emit =
  em_asm :: "bytes BlockAssembler"
  em_heap :: bytes
  em_n_keys :: u64
  em_n_stubs :: u64
  em_heap_offset :: u64
  em_value_bytes_raw :: u64
  em_value_bytes_stored :: u64
  em_n_compressed :: u64
  em_n_raw :: u64
  em_sketch_fps :: "u64 list"

definition emit_stored ::
    "hash \<Rightarrow> Plan \<Rightarrow> FrameRef \<Rightarrow> bytes \<Rightarrow> bool \<Rightarrow> Emit \<Rightarrow> Emit fres" where
  "emit_stored xxh64 plan f stored compressed em =
     (if (word_of_nat (length stored) :: u32) \<le> pl_inline_threshold plan then
        let (res, asm) = push_inline xxh64 file_sink (fr_fp f) (fr_vfp f) stored compressed (em_asm em)
        in rbind res (\<lambda>_. Ok (em\<lparr>em_asm := asm, em_n_keys := em_n_keys em + 1\<rparr>))
      else
        let stub = \<lparr>heap_offset = em_heap_offset em, stored_len = word_of_nat (length stored),
                    value_checksum = checksum32 xxh64 stored\<rparr>;
            (res, asm) = push_stub xxh64 file_sink (fr_fp f) (fr_vfp f) stub compressed (em_asm em)
        in rbind res (\<lambda>_. Ok (em\<lparr>em_asm := asm, em_heap := em_heap em @ stored,
             em_heap_offset := em_heap_offset em + word_of_nat (length stored),
             em_n_stubs := em_n_stubs em + 1, em_n_keys := em_n_keys em + 1\<rparr>)))"

definition emit_frame ::
    "zstd_lib \<Rightarrow> hash \<Rightarrow> Plan \<Rightarrow> Compressor option \<Rightarrow> bytes \<Rightarrow> FrameRef \<Rightarrow> Emit \<Rightarrow> Emit fres" where
  "emit_frame z xxh64 plan compressor buf f em =
     (let em = (if pl_sketch plan then em\<lparr>em_sketch_fps := em_sketch_fps em @ [fr_fp f]\<rparr> else em);
          val = bslice (fr_start f) (fr_len f) buf
      in rbind (case compressor of Some c \<Rightarrow> compress z c val | None \<Rightarrow> Ok None) (\<lambda>frame.
         let (stored, compressed) = (case frame of Some fr \<Rightarrow> (fr, True) | None \<Rightarrow> (val, False));
             em = em\<lparr>em_value_bytes_raw := em_value_bytes_raw em + word_of_nat (length val),
                    em_value_bytes_stored := em_value_bytes_stored em + word_of_nat (length stored),
                    em_n_compressed := em_n_compressed em + (if compressed then 1 else 0),
                    em_n_raw := em_n_raw em + (if compressed then 0 else 1)\<rparr>
         in emit_stored xxh64 plan f stored compressed em))"

definition emit_bucket ::
    "zstd_lib \<Rightarrow> hash \<Rightarrow> (FrameRef list \<Rightarrow> FrameRef list) \<Rightarrow> Plan \<Rightarrow> Compressor option \<Rightarrow> path \<Rightarrow> path \<Rightarrow> Emit \<Rightarrow> Emit io" where
  "emit_bucket z xxh64 sort_u plan compressor arrival bucket em =
     io_bind (read_file bucket) (\<lambda>buf.
     io_bind (io_lift (parse_frames buf)) (\<lambda>frames.
     io_bind (io_lift (foldR (emit_frame z xxh64 plan compressor buf) (sort_u frames) em)) (\<lambda>em.
     io_bind (if bucket \<noteq> arrival then remove_file bucket else io_return ()) (\<lambda>_.
     io_return em))))"

definition emit_new :: "bytes BlockAssembler \<Rightarrow> Emit" where
  "emit_new asm =
     \<lparr>em_asm = asm, em_heap = [], em_n_keys = 0, em_n_stubs = 0, em_heap_offset = 0,
      em_value_bytes_raw = 0, em_value_bytes_stored = 0, em_n_compressed = 0, em_n_raw = 0,
      em_sketch_fps = []\<rparr>"

definition partition_compressor :: "zstd_lib \<Rightarrow> Plan \<Rightarrow> bytes option \<Rightarrow> Compressor option fres" where
  "partition_compressor z plan dict =
     (if pl_compression plan = NoCompression then Ok None
      else rmap Some (Compressor_new z DEFAULT_LEVEL dict (unat (pl_min_compress_len plan))))"

text \<open>Blocks, heap, fences and sketch of an emitted partition, and its build record.\<close>

definition write_outputs ::
    "hash \<Rightarrow> xorf_lib \<Rightarrow> path \<Rightarrow> Plan \<Rightarrow> u64 \<Rightarrow> Emit \<Rightarrow> PartitionBuildDone io" where
  "write_outputs xxh64 xorf dir plan arrival_bytes em =
     (let (res, asm) = assembler_finish xxh64 file_sink (em_asm em)
      in io_bind (io_lift res) (\<lambda>fences.
         io_bind (write_data_file (path_join dir ''blocks.bin'') (ba_sink asm)) (\<lambda>_.
         io_bind (write_data_file (path_join dir ''heap.bin'') (em_heap em)) (\<lambda>_.
         io_bind (write_data_file (path_join dir ''fences.bin'') (concat (map u32_le fences))) (\<lambda>_.
         io_bind (if pl_sketch plan \<and> em_sketch_fps em \<noteq> []
                  then io_bind (io_lift (sketch_build xorf (remdups_adj (em_sketch_fps em)))) (\<lambda>bs.
                       io_bind (write_data_file (path_join dir ''sketch.bin'') bs) (\<lambda>_.
                       io_return (word_of_nat (length bs), Some (checksum32 xxh64 bs))))
                  else io_return (0, None)) (\<lambda>(sketch_bytes, sketch_sum).
         io_return \<lparr>pd_n_keys = em_n_keys em, pd_data_bytes = arrival_bytes,
           pd_n_blocks = word_of_nat (length fences), pd_n_stubs = em_n_stubs em,
           pd_blocks_bytes = word_of_nat (length fences) * ucast (pl_block_size plan),
           pd_heap_bytes = em_heap_offset em, pd_sketch_bytes = sketch_bytes,
           pd_sketch_checksum = sketch_sum, pd_value_bytes_raw = em_value_bytes_raw em,
           pd_value_bytes_stored = em_value_bytes_stored em, pd_n_compressed = em_n_compressed em,
           pd_n_raw = em_n_raw em\<rparr>))))))"

definition build_fresh ::
    "zstd_lib \<Rightarrow> xorf_lib \<Rightarrow> hash \<Rightarrow> (FrameRef list \<Rightarrow> FrameRef list) \<Rightarrow> path \<Rightarrow> Plan \<Rightarrow> bytes option
       \<Rightarrow> u64 \<Rightarrow> PartitionBuildDone io" where
  "build_fresh z xorf xxh64 sort_u dir plan dict target_bytes =
     (let arrival = path_join dir ''arrival.bin''
      in io_bind (io_mapM (\<lambda>f. remove_file (path_join dir f))
                   [''blocks.bin'', ''heap.bin'', ''fences.bin'', ''sketch.bin'']) (\<lambda>_.
         io_bind (remove_bucket_files dir) (\<lambda>_.
         io_bind (read_file arrival) (\<lambda>content.
           let arrival_bytes = (word_of_nat (length content) :: u64);
               n_buckets = radix_bucket_count arrival_bytes target_bytes
           in io_bind (if n_buckets = 1 then io_return [arrival]
                       else scatter_to_buckets dir arrival n_buckets) (\<lambda>buckets.
              io_bind (file_create (path_join dir ''blocks.bin'')) (\<lambda>_.
              io_bind (file_create (path_join dir ''heap.bin'')) (\<lambda>_.
              io_bind (io_lift (partition_compressor z plan dict)) (\<lambda>compressor.
              io_bind (io_lift (BlockAssembler_new (unat (pl_block_size plan)) [])) (\<lambda>asm.
              io_bind (io_foldM (emit_bucket z xxh64 sort_u plan compressor arrival) buckets (emit_new asm)) (\<lambda>em.
              write_outputs xxh64 xorf dir plan arrival_bytes em))))))))))"

definition build_partition ::
    "zstd_lib \<Rightarrow> xorf_lib \<Rightarrow> hash \<Rightarrow> (FrameRef list \<Rightarrow> FrameRef list) \<Rightarrow> serde_lib \<Rightarrow> path \<Rightarrow> Plan
       \<Rightarrow> bytes option \<Rightarrow> u64 \<Rightarrow> MarkerMode \<Rightarrow> PartitionBuildDone io" where
  "build_partition z xorf xxh64 sort_u sj dir plan dict target_bytes mode =
     io_bind (path_exists (path_join dir ''build.done'')) (\<lambda>present.
       if present then
         io_bind (read_json (dec_pdone sj) (path_join dir ''build.done'')) (\<lambda>d.
         io_bind (sweep_partition_transients dir) (\<lambda>_. io_return d))
       else
         io_bind (build_fresh z xorf xxh64 sort_u dir plan dict target_bytes) (\<lambda>d.
         io_bind (write_marker (path_join dir ''build.done'') (enc_pdone sj d) mode) (\<lambda>_.
         io_bind (sweep_partition_transients dir) (\<lambda>_. io_return d))))"

section \<open>The builder's operations\<close>

definition V5Builder_appender :: "V5Builder \<Rightarrow> nat \<Rightarrow> V5Appender io" where
  "V5Builder_appender b p =
     (let dir = builder_dir b p
      in io_bind (remove_file (path_join dir ''arrival.stats'')) (\<lambda>_.
         io_bind (file_create (path_join dir ''arrival.bin'')) (\<lambda>_.
         io_return \<lparr>va_dir = dir, va_out = [], va_verify_seed = vb_verify_seed b,
           va_marker_mode = vb_marker_mode b, va_n_keys = 0, va_data_bytes = 0,
           va_hist = replicate HIST_BUCKETS 0\<rparr>)))"

text \<open>A probe is the key count and the data bytes.\<close>

record ScatterProbe =
  sp_n_keys :: u64
  sp_data_bytes :: u64

definition V5Builder_scatter_probe :: "serde_lib \<Rightarrow> V5Builder \<Rightarrow> nat \<Rightarrow> ScatterProbe option io" where
  "V5Builder_scatter_probe sj b p =
     (let dir = builder_dir b p
      in io_bind (path_exists (path_join dir ''arrival.stats'')) (\<lambda>present.
           if present then
             io_bind (read_json (dec_stats sj) (path_join dir ''arrival.stats'')) (\<lambda>st.
             io_return (Some \<lparr>sp_n_keys = as_n_keys st, sp_data_bytes = as_data_bytes st\<rparr>))
           else
             io_bind (path_exists (path_join dir ''build.done'')) (\<lambda>present.
               if present then
                 io_bind (read_json (dec_pdone sj) (path_join dir ''build.done'')) (\<lambda>d.
                 io_return (Some \<lparr>sp_n_keys = pd_n_keys d, sp_data_bytes = pd_data_bytes d\<rparr>))
               else io_return None)))"

definition sweep_transients :: "V5Builder \<Rightarrow> unit io" where
  "sweep_transients b =
     io_bind (remove_file (path_join (vb_root b) ''v5.plan'')) (\<lambda>_.
     io_bind (io_mapM (\<lambda>p. sweep_partition_transients (builder_dir b p)) (builder_parts b)) (\<lambda>_.
     io_return ()))"

definition V5Builder_plan :: "zstd_lib \<Rightarrow> hash \<Rightarrow> serde_lib \<Rightarrow> V5Builder \<Rightarrow> (bstate, unit) stateful" where
  "V5Builder_plan z xxh64 sj b =
     io_bind (on_files (path_exists (path_join (vb_root b) ''index.done''))) (\<lambda>present.
       if present then io_return ()
       else io_bind (ensure_plan z xxh64 sj b) (\<lambda>_. io_return ()))"

definition index_done_of :: "string \<Rightarrow> Plan \<Rightarrow> PartitionBuildDone list \<Rightarrow> IndexDone" where
  "index_done_of secs plan parts =
     \<lparr>id_n_keys = sum_list (map pd_n_keys parts), id_n_blocks = sum_list (map pd_n_blocks parts),
      id_n_stubs = sum_list (map pd_n_stubs parts), id_block_size = pl_block_size plan,
      id_inline_threshold = pl_inline_threshold plan,
      id_blocks_bytes = sum_list (map pd_blocks_bytes parts),
      id_heap_bytes = sum_list (map pd_heap_bytes parts),
      id_fences_bytes = sum_list (map (\<lambda>p. pd_n_blocks p * 4) parts),
      id_sketch = pl_sketch plan, id_sketch_bytes = sum_list (map pd_sketch_bytes parts),
      id_compression = pl_compression plan, id_min_compress_len = pl_min_compress_len plan,
      id_dict_checksum = pl_dict_checksum plan, id_n_samples = pl_n_samples plan,
      id_dict_len = pl_dict_len plan, id_dict_fallback = pl_dict_fallback plan,
      id_sample_bytes_raw = pl_sample_bytes_raw plan, id_sample_bytes_stored = pl_sample_bytes_stored plan,
      id_value_bytes_raw = sum_list (map pd_value_bytes_raw parts),
      id_value_bytes_stored = sum_list (map pd_value_bytes_stored parts),
      id_n_compressed = sum_list (map pd_n_compressed parts), id_n_raw = sum_list (map pd_n_raw parts),
      id_zstd_version = pl_zstd_version plan, id_wall_secs = Some secs, id_partitions = parts\<rparr>"

definition build_dict :: "hash \<Rightarrow> V5Builder \<Rightarrow> Plan \<Rightarrow> bytes option io" where
  "build_dict xxh64 b plan =
     (case pl_dict_checksum plan of
        Some expected \<Rightarrow>
          io_bind (read_dict (vb_root b) expected) (\<lambda>bs.
          io_bind (io_lift (verify_dict xxh64 bs expected)) (\<lambda>_. io_return (Some bs)))
      | None \<Rightarrow> io_return None)"

definition build_partitions ::
    "zstd_lib \<Rightarrow> xorf_lib \<Rightarrow> hash \<Rightarrow> (FrameRef list \<Rightarrow> FrameRef list) \<Rightarrow> serde_lib \<Rightarrow> V5Builder \<Rightarrow> Plan
       \<Rightarrow> bytes option \<Rightarrow> PartitionBuildDone list io" where
  "build_partitions z xorf xxh64 sort_u sj b plan dict fs =
     (let (rs, fs1) = io_collect (\<lambda>p. build_partition z xorf xxh64 sort_u sj (builder_dir b p) plan dict
              (vb_bucket_bytes b) (vb_marker_mode b)) (builder_parts b) fs
      in (mapR id rs, fs1))"

definition set_done :: "IndexDone \<Rightarrow> (bstate, unit) stateful" where
  "set_done d = io_do (\<lambda>(c, fs). (c\<lparr>c_done := Some d\<rparr>, fs))"

definition V5Builder_build ::
    "zstd_lib \<Rightarrow> xorf_lib \<Rightarrow> hash \<Rightarrow> (FrameRef list \<Rightarrow> FrameRef list) \<Rightarrow> serde_lib \<Rightarrow> string \<Rightarrow> V5Builder
       \<Rightarrow> (bstate, u64) stateful" where
  "V5Builder_build z xorf xxh64 sort_u sj secs b =
     (let sentinel = path_join (vb_root b) ''index.done''
      in io_bind (on_files (path_exists sentinel)) (\<lambda>present.
           if present then
             io_bind (on_files (read_json (dec_idone sj) sentinel)) (\<lambda>d.
             io_bind (on_files (sweep_transients b)) (\<lambda>_.
             io_bind (set_done d) (\<lambda>_. io_return (id_n_keys d))))
           else
             io_bind (ensure_plan z xxh64 sj b) (\<lambda>plan.
             io_bind (on_files (build_dict xxh64 b plan)) (\<lambda>dict.
             io_bind (on_files (build_partitions z xorf xxh64 sort_u sj b plan dict)) (\<lambda>parts.
               let d = index_done_of secs plan parts
               in io_bind (on_files (write_marker sentinel (enc_idone sj d) (vb_marker_mode b))) (\<lambda>_.
                  io_bind (on_files (remove_file (path_join (vb_root b) ''v5.plan''))) (\<lambda>_.
                  io_bind (set_done d) (\<lambda>_. io_return (id_n_keys d)))))))))"

definition meta_of_done :: "V5Builder \<Rightarrow> IndexDone \<Rightarrow> Stats \<Rightarrow> json option \<Rightarrow> MetaV5" where
  "meta_of_done b d st enc =
     \<lparr>m5_format_version = FORMAT_VERSION_V5, m5_hash_algorithm = HASH_ALGORITHM,
      m5_verify_seed = vb_verify_seed b, m5_block_size = id_block_size d,
      m5_inline_threshold = id_inline_threshold d,
      m5_sketch = (if id_sketch d then Some \<lparr>sk_kind = SKETCH_KIND\<rparr> else None),
      m5_compression = (if id_compression d = NoCompression then None
        else Some \<lparr>cm_codec = CODEC_ZSTD, cm_dict = (id_dict_checksum d \<noteq> None),
          cm_dict_checksum = id_dict_checksum d, cm_min_compress_len = id_min_compress_len d,
          cm_zstd_version = id_zstd_version d\<rparr>),
      m5_partitions = map (\<lambda>p. \<lparr>n_blocks = pd_n_blocks p, sketch_checksum = pd_sketch_checksum p\<rparr>)
        (id_partitions d),
      m5_stats = Some st, m5_encoding = enc\<rparr>"

definition V5Builder_finalize ::
    "serde_lib \<Rightarrow> V5Builder \<Rightarrow> Stats \<Rightarrow> json option \<Rightarrow> (bstate, unit) stateful" where
  "V5Builder_finalize sj b st enc s =
     (case c_done (fst s) of
        None \<Rightarrow> (Err FinalizeBeforeBuild, s)
      | Some d \<Rightarrow>
          on_files (write_marker (path_join (vb_root b) ''meta.json'')
            (enc_meta5 sj (meta_of_done b d st enc)) (vb_marker_mode b)) s)"

end
