(* ===== verification/V4_Builder.thy ===== *)
theory V4_Builder
  imports V4_Writer V5_Builder
begin

text \<open>
  \<open>mcfreeze-format/src/v4/builder.rs\<close>: the V4 format behind the builder seam.

  The builder's mutex-guarded cells are the state \<open>V4Cells\<close>: the build handle each appender
  deposits, and the index information \<open>finalize\<close> consumes.  The index build may not return, so
  \<open>build\<close> yields an option.  The fill-rate statistics are kept as the integers the code divides;
  their floating-point minimum, maximum and mean are not modelled.  \<open>serde_json\<close> is a parameter.
\<close>

record PartitionIndexDone =
  pi_n_keys :: u64
  pi_n_buckets :: u64
  pi_fill_rate :: "nat \<times> nat"
  pi_retries :: u64

record IndexDoneV4 =
  i4_n_keys :: u64
  i4_n_buckets :: u64
  i4_n_overflow_partitions :: u64
  i4_total_retries :: u64
  i4_index_bytes :: u64
  i4_wall_secs :: "string option"
  i4_partitions :: "PartitionIndexDone list"
  i4_index_offsets :: "u64 list"
  i4_index_n_buckets :: "u64 list"

record serde4_lib =
  enc_idone4 :: "IndexDoneV4 \<Rightarrow> bytes"
  dec_idone4 :: "bytes \<Rightarrow> IndexDoneV4 fres"
  enc_meta4 :: "Meta \<Rightarrow> bytes"
  dec_meta4 :: "bytes \<Rightarrow> Meta fres"

record V4Builder =
  v4_finalizer :: SnapshotFinalizer
  v4_layout :: Layout
  v4_verify_seed :: u64
  v4_data_buf_bytes :: nat
  v4_spill_buf_bytes :: nat

record V4Cells =
  v4_ready :: "path option list"
  v4_index_info :: "UnifiedIndexInfo option"

type_synonym v4state = "V4Cells \<times> files"

definition V4Builder_new :: "BuilderConfig \<Rightarrow> (V4Builder \<times> V4Cells) fres" where
  "V4Builder_new config =
     rbind (Layout_new (bc_n_partitions config)) (\<lambda>layout.
       Ok (\<lparr>v4_finalizer = \<lparr>sf_root = bc_root config, sf_layout = layout, sf_verify_seed = bc_verify_seed config\<rparr>,
            v4_layout = layout, v4_verify_seed = bc_verify_seed config,
            v4_data_buf_bytes = bc_data_buf_bytes config, v4_spill_buf_bytes = bc_spill_buf_bytes config\<rparr>,
           \<lparr>v4_ready = replicate (unat (bc_n_partitions config)) None, v4_index_info = None\<rparr>))"

abbreviation v4_dir :: "V4Builder \<Rightarrow> nat \<Rightarrow> path" where
  "v4_dir b p \<equiv> partition_dir (sf_root (v4_finalizer b)) (n_partitions (v4_layout b)) p"

abbreviation v4_parts :: "V4Builder \<Rightarrow> nat list" where
  "v4_parts b \<equiv> [0..<unat (n_partitions (v4_layout b))]"

section \<open>Appenders\<close>

record V4Appender =
  v4a_writer :: PartitionWriter
  v4a_slot :: nat

definition V4Builder_appender :: "V4Builder \<Rightarrow> nat \<Rightarrow> (v4state, V4Appender) stateful" where
  "V4Builder_appender b p s =
     (case PartitionWriter_new (v4_dir b p) (v4_verify_seed b) (snd s) of
        Ok (w, fs) \<Rightarrow>
          if p < length (v4_ready (fst s)) then (Ok \<lparr>v4a_writer = w, v4a_slot = p\<rparr>, (fst s, fs))
          else (Panic, (fst s, fs))
      | Err e \<Rightarrow> (Err e, s)
      | Panic \<Rightarrow> (Panic, s))"

definition V4Appender_append :: "hash \<Rightarrow> V4Appender \<Rightarrow> bytes \<Rightarrow> u64 \<Rightarrow> bytes \<Rightarrow> V4Appender fres" where
  "V4Appender_append xxh64 a key fp val =
     rmap (\<lambda>w. a\<lparr>v4a_writer := w\<rparr>) (partition_write xxh64 (v4a_writer a) key fp val)"

definition V4Appender_finish :: "V4Appender \<Rightarrow> (v4state, unit) stateful" where
  "V4Appender_finish a s =
     (let (ready, fs) = finish_data (v4a_writer a) (snd s)
      in (Ok (), ((fst s)\<lparr>v4_ready := (v4_ready (fst s))[v4a_slot a := Some ready]\<rparr>, fs)))"

section \<open>Build\<close>

text \<open>The deposited handles are taken; a missing one is the partition's directory.\<close>

definition take_ready :: "V4Builder \<Rightarrow> V4Cells \<Rightarrow> path list \<times> V4Cells" where
  "take_ready b c =
     (map (\<lambda>(p, slot). case slot of Some dir \<Rightarrow> dir | None \<Rightarrow> v4_dir b p) (enumerate 0 (v4_ready c)),
      c\<lparr>v4_ready := map (\<lambda>_. None) (v4_ready c)\<rparr>)"

definition V4Builder_scatter_probe :: "V4Builder \<Rightarrow> nat \<Rightarrow> ScatterProbe option io" where
  "V4Builder_scatter_probe b p fs =
     (let dir = v4_dir b p
      in case fs (path_join dir ''data.bin'') of
           None \<Rightarrow> (Ok None, fs)
         | Some data \<Rightarrow>
             let data_bytes = (word_of_nat (length data) :: u64)
             in case fs (path_join dir ''spill.bin'') of
                  Some spill \<Rightarrow>
                    (rmap (\<lambda>r. Some \<lparr>sp_n_keys = sr_count r, sp_data_bytes = data_bytes\<rparr>) (SpillReader_open spill), fs)
                | None \<Rightarrow>
                    if fs (index_path (sf_root (v4_finalizer b))) \<noteq> None
                    then (Ok (Some \<lparr>sp_n_keys = 0, sp_data_bytes = data_bytes\<rparr>), fs)
                    else (Ok None, fs))"

definition V4Builder_plan :: "V4Builder \<Rightarrow> (v4state, unit) stateful" where
  "V4Builder_plan b = io_return ()"

definition partition_index_done :: "PartitionIndexStats \<Rightarrow> PartitionIndexDone" where
  "partition_index_done st =
     \<lparr>pi_n_keys = pis_n_keys st, pi_n_buckets = pis_n_buckets st, pi_fill_rate = pis_fill_rate st,
      pi_retries = word_of_nat (pis_retries st)\<rparr>"

definition index_done4_of ::
    "string \<Rightarrow> nat \<Rightarrow> PartitionIndexDone list \<Rightarrow> UnifiedIndexInfo \<Rightarrow> IndexDoneV4" where
  "index_done4_of secs index_bytes parts info =
     \<lparr>i4_n_keys = sum_list (map pi_n_keys parts), i4_n_buckets = sum_list (map pi_n_buckets parts),
      i4_n_overflow_partitions = word_of_nat (length (filter (\<lambda>p. pi_retries p > 0) parts)),
      i4_total_retries = sum_list (map pi_retries parts), i4_index_bytes = word_of_nat index_bytes,
      i4_wall_secs = Some secs, i4_partitions = parts,
      i4_index_offsets = ui_offsets info, i4_index_n_buckets = ui_n_buckets info\<rparr>"

text \<open>What \<open>build\<close> does once every table is there.\<close>

definition publish_index ::
    "serde4_lib \<Rightarrow> string \<Rightarrow> V4Builder \<Rightarrow> path list \<Rightarrow> (Bucket list \<times> PartitionIndexStats) list
       \<Rightarrow> v4state \<Rightarrow> u64 fres \<times> v4state" where
  "publish_index sj secs b ready built s =
     (let root = sf_root (v4_finalizer b);
          parts = map (\<lambda>(_, st). partition_index_done st) built;
          (info, fs1) = write_index (v4_finalizer b) (map fst built) (snd s);
          index_bytes = (case fs1 (index_path root) of Some f \<Rightarrow> length f | None \<Rightarrow> 0);
          d = index_done4_of secs index_bytes parts info;
          fs2 = fs1(path_join root ''index.done'' \<mapsto> enc_idone4 sj d);
          fs3 = fold remove_spill ready fs2
      in (Ok (i4_n_keys d), ((fst s)\<lparr>v4_index_info := Some info\<rparr>, fs3)))"

definition V4Builder_build ::
    "serde4_lib \<Rightarrow> string \<Rightarrow> V4Builder \<Rightarrow> v4state \<Rightarrow> (u64 fres \<times> v4state) option" where
  "V4Builder_build sj secs b s =
     (let root = sf_root (v4_finalizer b)
      in case snd s (path_join root ''index.done'') of
           Some json \<Rightarrow>
             Some (case dec_idone4 sj json of
               Ok d \<Rightarrow>
                 (Ok (i4_n_keys d),
                  ((fst s)\<lparr>v4_index_info := Some \<lparr>ui_offsets = i4_index_offsets d, ui_n_buckets = i4_index_n_buckets d\<rparr>\<rparr>,
                   fold (\<lambda>p fs. remove_spill (v4_dir b p) fs) (v4_parts b) (snd s)))
             | Err e \<Rightarrow> (Err e, s)
             | Panic \<Rightarrow> (Panic, s))
         | None \<Rightarrow>
             let (ready, c) = take_ready b (fst s)
             in case those (map (build_index (snd s)) ready) of
                  None \<Rightarrow> None
                | Some results \<Rightarrow>
                    Some (case mapR id results of
                      Ok built \<Rightarrow> publish_index sj secs b ready built (c, snd s)
                    | Err e \<Rightarrow> (Err e, (c, snd s))
                    | Panic \<Rightarrow> (Panic, (c, snd s))))"

definition V4Builder_finalize ::
    "serde4_lib \<Rightarrow> V4Builder \<Rightarrow> Stats \<Rightarrow> json option \<Rightarrow> (v4state, unit) stateful" where
  "V4Builder_finalize sj b st enc s =
     (case v4_index_info (fst s) of
        None \<Rightarrow> (Err FinalizeBeforeBuild, s)
      | Some info \<Rightarrow> (Ok (), (fst s, write_meta (enc_meta4 sj) (v4_finalizer b) info (Some st) enc (snd s))))"

end
