(* ===== verification/Snapshot_Facade.thy ===== *)
theory Snapshot_Facade
  imports V4_Builder
begin

text \<open>
  \<open>mcfreeze-format/src/desc.rs\<close> and \<open>snapshot.rs\<close>: the format identifiers, the description of a
  snapshot directory (two-stage parse of \<open>meta.json\<close>) and the format-erased snapshot.  The decoders
  of \<open>serde_json\<close> are fields of the parameter \<open>desc_serde\<close>.
\<close>

section \<open>Format identifiers\<close>

datatype FormatId = V4 | V5

definition FormatId_DEFAULT :: FormatId where
  "FormatId_DEFAULT = V4"

definition FormatId_ALL :: "FormatId list" where
  "FormatId_ALL = [V4, V5]"

fun format_str :: "FormatId \<Rightarrow> string" where
  "format_str V4 = ''v4''"
| "format_str V5 = ''v5''"

fun join_comma :: "string list \<Rightarrow> string" where
  "join_comma [] = []"
| "join_comma [s] = s"
| "join_comma (s # ss) = s @ '', '' @ join_comma ss"

definition expected_list :: string where
  "expected_list = join_comma (map format_str FormatId_ALL)"

definition format_from_str :: "string \<Rightarrow> FormatId fres" where
  "format_from_str s =
     ok_or (UnknownFormat s expected_list) (List.find (\<lambda>f. format_str f = s) FormatId_ALL)"

section \<open>Snapshot description\<close>

datatype VersionedMeta = MetaOfV4 Meta | MetaOfV5 MetaV5

record SnapshotDesc =
  sd_root :: path
  sd_meta :: VersionedMeta

record desc_serde =
  dec_version :: "bytes \<Rightarrow> u32 fres"
  dec_desc4 :: "bytes \<Rightarrow> Meta fres"
  dec_desc5 :: "bytes \<Rightarrow> MetaV5 fres"

definition SnapshotDesc_load :: "desc_serde \<Rightarrow> files \<Rightarrow> path \<Rightarrow> SnapshotDesc fres" where
  "SnapshotDesc_load dj fs root =
     rbind (file_open fs (path_join root ''meta.json'')) (\<lambda>json.
     rbind (dec_version dj json) (\<lambda>v.
     rbind (if v = FORMAT_VERSION_V4 then
              rbind (dec_desc4 dj json) (\<lambda>m. rbind (Meta_layout m) (\<lambda>_. Ok (MetaOfV4 m)))
            else if v = FORMAT_VERSION_V5 then
              rbind (dec_desc5 dj json) (\<lambda>m. rbind (MetaV5_layout m) (\<lambda>_. Ok (MetaOfV5 m)))
            else Err (UnsupportedFormatVersion v)) (\<lambda>meta.
     Ok \<lparr>sd_root = root, sd_meta = meta\<rparr>)))"

definition desc_format :: "SnapshotDesc \<Rightarrow> FormatId" where
  "desc_format d = (case sd_meta d of MetaOfV4 _ \<Rightarrow> V4 | MetaOfV5 _ \<Rightarrow> V5)"

definition desc_stats :: "SnapshotDesc \<Rightarrow> Stats option" where
  "desc_stats d = (case sd_meta d of MetaOfV4 m \<Rightarrow> stats m | MetaOfV5 m \<Rightarrow> m5_stats m)"

definition desc_encoding :: "SnapshotDesc \<Rightarrow> json option" where
  "desc_encoding d = (case sd_meta d of MetaOfV4 m \<Rightarrow> encoding m | MetaOfV5 m \<Rightarrow> m5_encoding m)"

definition desc_n_partitions :: "SnapshotDesc \<Rightarrow> u32" where
  "desc_n_partitions d =
     (case sd_meta d of MetaOfV4 m \<Rightarrow> word_of_nat (length (partitions m))
      | MetaOfV5 m \<Rightarrow> word_of_nat (length (m5_partitions m)))"

section \<open>Snapshot\<close>

datatype Inner = InnerV4 SnapshotReader | InnerV5 SnapshotReaderV5

record Snapshot =
  sn_desc :: SnapshotDesc
  sn_inner :: Inner

text \<open>\<open>populate\<close> is the kernel's answer to \<open>MADV_POPULATE_READ\<close> (an error fails the V4 open).\<close>

definition Snapshot_open :: "io_error option \<Rightarrow> zstd_lib \<Rightarrow> hash \<Rightarrow> files \<Rightarrow> SnapshotDesc \<Rightarrow> Snapshot fres" where
  "Snapshot_open populate z xxh64 fs d =
     rbind (case sd_meta d of
              MetaOfV4 m \<Rightarrow> rmap InnerV4 (SnapshotReader_open populate fs (sd_root d) m)
            | MetaOfV5 m \<Rightarrow> rmap InnerV5 (SnapshotReaderV5_open z xxh64 fs (sd_root d) m)) (\<lambda>inner.
     Ok \<lparr>sn_desc = d, sn_inner = inner\<rparr>)"

definition Snapshot_open_path :: "io_error option \<Rightarrow> desc_serde \<Rightarrow> zstd_lib \<Rightarrow> hash \<Rightarrow> files \<Rightarrow> path \<Rightarrow> Snapshot fres" where
  "Snapshot_open_path populate dj z xxh64 fs root =
     rbind (SnapshotDesc_load dj fs root) (Snapshot_open populate z xxh64 fs)"

definition Snapshot_get :: "target \<Rightarrow> zstd_lib \<Rightarrow> xorf_lib \<Rightarrow> hash \<Rightarrow> Snapshot \<Rightarrow> bytes \<Rightarrow> GetOutcome fres" where
  "Snapshot_get arch z xorf xxh64 s key =
     (case sn_inner s of
        InnerV4 r \<Rightarrow> SnapshotReader_get arch xxh64 r key
      | InnerV5 r \<Rightarrow> SnapshotReaderV5_get z xorf xxh64 r key)"

end
