(* ===== verification/Loader.thy ===== *)
theory Loader
  imports Snapshot_Facade
begin

text \<open>
  \<open>mcfreeze-loader/src/scatter.rs\<close> and \<open>lib.rs\<close>: routing batches to partitions, the concurrent
  scatter, completion detection for a resumed load, and the build and publication of a snapshot.

  The \<open>FormatBuilder\<close> and \<open>PartitionAppender\<close> traits are the record \<open>FormatBuilder\<close> of their
  methods over the builder's cells \<open>'c\<close> and the files.  \<open>hdrhistogram\<close> and \<open>serde_json\<close> are
  parameters.  A source is the list of what its \<open>next_batch\<close> returns.  Progress callbacks, the
  wall clock and the preview of a key in an error message are left out.
\<close>

datatype LoaderError =
    FormatE error
  | IoE io_error
  | ArrowE string
  | SourceE string
  | ThreadPoolE string
  | JoinE string
  | FormatMismatch FormatId FormatId
  | LoaderValueTooLarge bytes nat nat

type_synonym 'a lres = "(LoaderError, 'a) res"

text \<open>Awaiting a spawned task: its panic is an error of the join.\<close>

fun joined :: "'a lres \<Rightarrow> 'a lres" where
  "joined (Ok x) = Ok x"
| "joined (Err e) = Err e"
| "joined Panic = Err (JoinE ''task panicked'')"

section \<open>The builder seam\<close>

record ('c, 'a) FormatBuilder =
  fb_format :: FormatId
  fb_appender :: "nat \<Rightarrow> ('c \<times> files, 'a) stateful"
  fb_append :: "'a \<Rightarrow> bytes \<Rightarrow> u64 \<Rightarrow> bytes \<Rightarrow> 'a fres"
  fb_finish :: "'a \<Rightarrow> ('c \<times> files, unit) stateful"
  fb_scatter_probe :: "nat \<Rightarrow> ('c \<times> files, ScatterProbe option) stateful"
  fb_plan :: "('c \<times> files, unit) stateful"
  fb_build :: "'c \<times> files \<Rightarrow> (u64 fres \<times> 'c \<times> files) option"
  fb_finalize :: "Stats \<Rightarrow> json option \<Rightarrow> ('c \<times> files, unit) stateful"

definition v4_format_builder ::
    "hash \<Rightarrow> serde4_lib \<Rightarrow> string \<Rightarrow> V4Builder \<Rightarrow> (V4Cells, V4Appender) FormatBuilder" where
  "v4_format_builder xxh64 sj secs b =
     \<lparr>fb_format = V4, fb_appender = V4Builder_appender b, fb_append = V4Appender_append xxh64,
      fb_finish = V4Appender_finish, fb_scatter_probe = (\<lambda>p. on_files (V4Builder_scatter_probe b p)),
      fb_plan = V4Builder_plan b, fb_build = V4Builder_build sj secs b,
      fb_finalize = V4Builder_finalize sj b\<rparr>"

definition v5_format_builder ::
    "zstd_lib \<Rightarrow> xorf_lib \<Rightarrow> hash \<Rightarrow> (FrameRef list \<Rightarrow> FrameRef list) \<Rightarrow> serde_lib \<Rightarrow> string \<Rightarrow> V5Builder
       \<Rightarrow> (Cells, V5Appender) FormatBuilder" where
  "v5_format_builder z xorf xxh64 sort_u sj secs b =
     \<lparr>fb_format = V5, fb_appender = (\<lambda>p. on_files (V5Builder_appender b p)),
      fb_append = V5Appender_append xxh64, fb_finish = (\<lambda>a. on_files (V5Appender_finish sj a)),
      fb_scatter_probe = (\<lambda>p. on_files (V5Builder_scatter_probe sj b p)),
      fb_plan = V5Builder_plan z xxh64 sj b,
      fb_build = (\<lambda>s. Some (V5Builder_build z xorf xxh64 sort_u sj secs b s)),
      fb_finalize = V5Builder_finalize sj b\<rparr>"

section \<open>Scatter statistics\<close>

record 'h hdr_lib =
  hdr_new :: 'h
  hdr_record :: "u64 \<Rightarrow> 'h \<Rightarrow> 'h"
  hdr_add :: "'h \<Rightarrow> 'h \<Rightarrow> 'h"
  hdr_recorded :: "'h \<Rightarrow> (u64 \<times> u64) list"
  hdr_len :: "'h \<Rightarrow> u64"
  hdr_min :: "'h \<Rightarrow> u64"
  hdr_max :: "'h \<Rightarrow> u64"
  hdr_mean :: "'h \<Rightarrow> string"

definition SIZE_BUCKETS :: "u64 list" where
  "SIZE_BUCKETS =
     [64, 128, 256, 512, 1024, 2048, 4096, 8192, 16384, 32768, 65536, 131072, 262144,
      524288, 1048576, 2097152, 4194304, 8388607]"

record SizeBucket =
  sb_le :: u64
  sb_count :: u64

record ValueSizeHistogram =
  vs_count :: u64
  vs_sum :: u64
  vs_min :: u64
  vs_max :: u64
  vs_mean :: string
  vs_sample_keys :: u64
  vs_buckets :: "SizeBucket list"

text \<open>The two nested loops: each bound consumes the recorded values up to it.\<close>

fun consume_le :: "u64 \<Rightarrow> (u64 \<times> u64) list \<Rightarrow> u64 \<Rightarrow> (u64 \<times> u64) list \<times> u64" where
  "consume_le le [] cumulative = ([], cumulative)"
| "consume_le le ((v, n) # recs) cumulative =
     (if v \<le> le then consume_le le recs (cumulative + n) else ((v, n) # recs, cumulative))"

fun size_buckets :: "u64 list \<Rightarrow> (u64 \<times> u64) list \<Rightarrow> u64 \<Rightarrow> SizeBucket list" where
  "size_buckets [] recs cumulative = []"
| "size_buckets (le # les) recs cumulative =
     (let (recs', c) = consume_le le recs cumulative
      in \<lparr>sb_le = le, sb_count = c\<rparr> # size_buckets les recs' c)"

definition from_histogram :: "'h hdr_lib \<Rightarrow> 'h \<Rightarrow> u64 \<Rightarrow> u64 \<Rightarrow> ValueSizeHistogram" where
  "from_histogram hl h vsum sample_keys =
     \<lparr>vs_count = hdr_len hl h, vs_sum = vsum,
      vs_min = (if hdr_len hl h = 0 then 0 else hdr_min hl h),
      vs_max = (if hdr_len hl h = 0 then 0 else hdr_max hl h), vs_mean = hdr_mean hl h,
      vs_sample_keys = sample_keys, vs_buckets = size_buckets SIZE_BUCKETS (hdr_recorded hl h) 0\<rparr>"

record PartitionDone =
  pdn_n_keys :: u64
  pdn_value_sizes :: "ValueSizeHistogram option"

record ScatterDone =
  sdn_format :: FormatId
  sdn_n_keys :: u64
  sdn_n_partitions :: u32
  sdn_data_bytes :: u64
  sdn_wall_secs :: "string option"
  sdn_bytes_per_sec :: "u64 option"
  sdn_value_sizes :: "ValueSizeHistogram option"
  sdn_partitions :: "PartitionDone list"

record loader_serde =
  enc_sdone :: "ScatterDone \<Rightarrow> bytes"
  dec_sdone :: "bytes \<Rightarrow> ScatterDone fres"
  parse_json :: "bytes \<Rightarrow> json option"

section \<open>Fan-out\<close>

type_synonym PartitionBatch = "(bytes \<times> u64 \<times> bytes) list"

record Fanout =
  fo_layout :: Layout
  fo_sub_batches :: "PartitionBatch list"
  fo_n_keys :: u64
  fo_data_bytes :: u64
  fo_max_value_bytes :: nat

definition fanout :: "Layout \<Rightarrow> nat \<Rightarrow> Fanout" where
  "fanout layout max_value_bytes =
     \<lparr>fo_layout = layout, fo_sub_batches = replicate (unat (n_partitions layout)) [], fo_n_keys = 0,
      fo_data_bytes = 0, fo_max_value_bytes = max_value_bytes\<rparr>"

text \<open>The callback of \<open>for_each_kv\<close>; after the first oversized value it does nothing.\<close>

definition fanout_kv ::
    "hash \<Rightarrow> bytes \<times> bytes \<Rightarrow> LoaderError option \<times> Fanout \<Rightarrow> (LoaderError option \<times> Fanout) lres" where
  "fanout_kv xxh64 kv st =
     (let (key, val) = kv; (oversized, f) = st
      in if oversized \<noteq> None then Ok (oversized, f)
         else if length val > fo_max_value_bytes f
         then Ok (Some (LoaderValueTooLarge key (length val) (fo_max_value_bytes f)), f)
         else
           let fp = fingerprint xxh64 key;
               idx = partition_of (fo_layout f) fp
           in if idx < length (fo_sub_batches f)
              then Ok (None, f\<lparr>fo_sub_batches := (fo_sub_batches f)[idx := fo_sub_batches f ! idx @ [(key, fp, val)]],
                              fo_n_keys := fo_n_keys f + 1,
                              fo_data_bytes := fo_data_bytes f + word_of_nat (length val)\<rparr>)
              else Panic)"

text \<open>The sub-batches of one source batch, in the order \<open>scatter_batch\<close> sends them.\<close>

definition scatter_batch ::
    "hash \<Rightarrow> (bytes \<times> bytes) list \<Rightarrow> Fanout \<Rightarrow> (Fanout \<times> (nat \<times> PartitionBatch) list) lres" where
  "scatter_batch xxh64 batch f =
     rbind (foldR (fanout_kv xxh64) batch (None, f)) (\<lambda>(oversized, f).
       case oversized of
         Some e \<Rightarrow> Err e
       | None \<Rightarrow>
           Ok (f\<lparr>fo_sub_batches := map (\<lambda>_. []) (fo_sub_batches f)\<rparr>,
               filter (\<lambda>(idx, b). b \<noteq> []) (enumerate 0 (fo_sub_batches f))))"

section \<open>Concurrent scatter\<close>

text \<open>
  Every source has a task that alternates between fetching a batch and sending its sub-batches; a
  partition's channel delivers the batches sent to it in the order of the sends.  A step of
  \<open>scatter_step\<close> is one fetch or one send of one task; \<open>ss_queues\<close> has all the batches sent to each
  partition.  It does not say when a send has to wait: that is \<open>channel_step\<close> below, whose runs are
  runs of \<open>scatter_step\<close>.
\<close>

type_synonym source = "(string, (bytes \<times> bytes) list) res list"

record Task =
  tk_fanout :: Fanout
  tk_source :: source
  tk_sending :: "(nat \<times> PartitionBatch) list"

record ScatterState =
  ss_tasks :: "Task list"
  ss_queues :: "PartitionBatch list list"

inductive scatter_step :: "hash \<Rightarrow> ScatterState \<Rightarrow> ScatterState \<Rightarrow> bool" for xxh64 where
  fetch: "i < length (ss_tasks s) \<Longrightarrow> tk_sending (ss_tasks s ! i) = [] \<Longrightarrow>
    tk_source (ss_tasks s ! i) = Ok batch # rest \<Longrightarrow>
    scatter_batch xxh64 batch (tk_fanout (ss_tasks s ! i)) = Ok (f, sends) \<Longrightarrow>
    scatter_step xxh64 s (s\<lparr>ss_tasks := (ss_tasks s)[i := \<lparr>tk_fanout = f, tk_source = rest, tk_sending = sends\<rparr>]\<rparr>)"
| send: "i < length (ss_tasks s) \<Longrightarrow> tk_sending (ss_tasks s ! i) = (p, b) # sends \<Longrightarrow> p < length (ss_queues s) \<Longrightarrow>
    scatter_step xxh64 s (s\<lparr>ss_tasks := (ss_tasks s)[i := (ss_tasks s ! i)\<lparr>tk_sending := sends\<rparr>],
                            ss_queues := (ss_queues s)[p := ss_queues s ! p @ [b]]\<rparr>)"

definition scatter_start :: "Layout \<Rightarrow> nat \<Rightarrow> source list \<Rightarrow> ScatterState" where
  "scatter_start layout max_value_bytes sources =
     \<lparr>ss_tasks = map (\<lambda>src. \<lparr>tk_fanout = fanout layout max_value_bytes, tk_source = src, tk_sending = []\<rparr>) sources,
      ss_queues = replicate (unat (n_partitions layout)) []\<rparr>"

definition scatter_finished :: "ScatterState \<Rightarrow> bool" where
  "scatter_finished s \<longleftrightarrow> (\<forall>t \<in> set (ss_tasks s). tk_source t = [] \<and> tk_sending t = [])"

text \<open>
  With the channels of \<open>ScatterPhase::new\<close>: a channel holds at most \<open>channel_capacity.max(1)\<close> batches, a
  send waits while it is full, and the partition's writer takes the batches out (\<open>ch_taken\<close> counts
  them).  The writers are blocking tasks, spawned in the order of the partitions, each running until
  its channel closes; the runtime's pool runs \<open>threads\<close> of them at a time, first come first served.
\<close>

record ChannelState =
  ch_scatter :: ScatterState
  ch_taken :: "nat list"

definition in_channel :: "ChannelState \<Rightarrow> nat \<Rightarrow> nat" where
  "in_channel c p = length (ss_queues (ch_scatter c) ! p) - ch_taken c ! p"

inductive channel_step :: "hash \<Rightarrow> nat \<Rightarrow> nat \<Rightarrow> ChannelState \<Rightarrow> ChannelState \<Rightarrow> bool"
  for xxh64 channel_capacity threads where
  fetched: "channel_step xxh64 channel_capacity threads c
      (c\<lparr>ch_scatter := s\<lparr>ss_tasks := (ss_tasks s)[i := \<lparr>tk_fanout = f, tk_source = rest, tk_sending = sends\<rparr>]\<rparr>\<rparr>)"
    if "s = ch_scatter c" "i < length (ss_tasks s)" "tk_sending (ss_tasks s ! i) = []" "tk_source (ss_tasks s ! i) = Ok batch # rest"
      "scatter_batch xxh64 batch (tk_fanout (ss_tasks s ! i)) = Ok (f, sends)"
| queued: "channel_step xxh64 channel_capacity threads c
      (c\<lparr>ch_scatter := s\<lparr>ss_tasks := (ss_tasks s)[i := (ss_tasks s ! i)\<lparr>tk_sending := sends\<rparr>],
                       ss_queues := (ss_queues s)[p := ss_queues s ! p @ [b]]\<rparr>\<rparr>)"
    if "s = ch_scatter c" "i < length (ss_tasks s)" "tk_sending (ss_tasks s ! i) = (p, b) # sends" "p < length (ss_queues s)"
      "in_channel c p < max channel_capacity 1"
| taken: "channel_step xxh64 channel_capacity threads c (c\<lparr>ch_taken := (ch_taken c)[p := Suc (ch_taken c ! p)]\<rparr>)"
    if "p < threads" "p < length (ch_taken c)" "0 < in_channel c p"

definition channel_start :: "Layout \<Rightarrow> nat \<Rightarrow> source list \<Rightarrow> ChannelState" where
  "channel_start layout max_value_bytes sources =
     \<lparr>ch_scatter = scatter_start layout max_value_bytes sources, ch_taken = replicate (unat (n_partitions layout)) 0\<rparr>"

definition channel_finished :: "ChannelState \<Rightarrow> bool" where
  "channel_finished c \<longleftrightarrow> scatter_finished (ch_scatter c) \<and> (\<forall>p < length (ch_taken c). in_channel c p = 0)"

section \<open>Partition writers\<close>

record 'h PartitionStats =
  ps_n_keys :: u64
  ps_sum_bytes :: u64
  ps_histogram :: 'h

definition writer_record ::
    "('c, 'a) FormatBuilder \<Rightarrow> 'h hdr_lib \<Rightarrow> bytes \<times> u64 \<times> bytes \<Rightarrow> 'a \<times> 'h PartitionStats
       \<Rightarrow> ('a \<times> 'h PartitionStats) fres" where
  "writer_record fb hl kv st =
     (let (key, fp, val) = kv; (a, ps) = st; size' = (word_of_nat (length val) :: u64);
          h = hdr_record hl (max size' 1) (ps_histogram ps)
      in rbind (fb_append fb a key fp val) (\<lambda>a.
         Ok (a, \<lparr>ps_n_keys = ps_n_keys ps + 1, ps_sum_bytes = ps_sum_bytes ps + size', ps_histogram = h\<rparr>)))"

definition partition_writer ::
    "('c, 'a) FormatBuilder \<Rightarrow> 'h hdr_lib \<Rightarrow> 'a \<times> PartitionBatch list
       \<Rightarrow> (LoaderError, 'c \<times> files, 'h PartitionStats) effect" where
  "partition_writer fb hl ab =
     (let (a, batches) = ab
      in io_map_err FormatE
        (io_bind (io_lift (foldR (writer_record fb hl) (concat batches)
            (a, \<lparr>ps_n_keys = 0, ps_sum_bytes = 0, ps_histogram = hdr_new hl\<rparr>))) (\<lambda>(a, ps).
         io_bind (fb_finish fb a) (\<lambda>_. io_return ps))))"

text \<open>\<open>create_appenders\<close>: one appender per partition, in order.\<close>

definition create_appenders ::
    "('c, 'a) FormatBuilder \<Rightarrow> Layout \<Rightarrow> (LoaderError, 'c \<times> files, 'a list) effect" where
  "create_appenders fb layout = io_map_err FormatE (io_mapM (fb_appender fb) [0..<unat (n_partitions layout)])"

text \<open>Both the loader's sentinel and the format's markers are published the same way.\<close>

definition write_sentinel :: "path \<Rightarrow> bytes \<Rightarrow> MarkerMode \<Rightarrow> (LoaderError, 'c \<times> files, unit) effect" where
  "write_sentinel p json mode = io_map_err FormatE (on_files (write_marker p json mode))"

record ScatterStats =
  sst_n_keys :: u64
  sst_data_bytes :: u64

definition phase_finish ::
    "('c, 'a) FormatBuilder \<Rightarrow> 'h hdr_lib \<Rightarrow> loader_serde \<Rightarrow> path \<Rightarrow> Layout \<Rightarrow> MarkerMode \<Rightarrow> string \<Rightarrow> u64
       \<Rightarrow> 'a list \<Rightarrow> ScatterState \<Rightarrow> (LoaderError, 'c \<times> files, ScatterStats) effect" where
  "phase_finish fb hl lj root layout mode secs rate appenders ss s =
     (let data_bytes = sum_list (map (fo_data_bytes \<circ> tk_fanout) (ss_tasks ss));
          (rs, s1) = io_collect (partition_writer fb hl) (zip appenders (ss_queues ss)) s
      in io_bind (io_lift (mapR joined rs)) (\<lambda>stats.
           let merged = fold (\<lambda>ps h. hdr_add hl h (ps_histogram ps)) stats (hdr_new hl);
               total_sum = sum_list (map ps_sum_bytes stats);
               parts = map (\<lambda>ps. \<lparr>pdn_n_keys = ps_n_keys ps,
                 pdn_value_sizes = Some (from_histogram hl (ps_histogram ps) (ps_sum_bytes ps) (ps_n_keys ps))\<rparr>) stats;
               n_keys = sum_list (map pdn_n_keys parts);
               d = \<lparr>sdn_format = fb_format fb, sdn_n_keys = n_keys, sdn_n_partitions = n_partitions layout,
                    sdn_data_bytes = data_bytes, sdn_wall_secs = Some secs, sdn_bytes_per_sec = Some rate,
                    sdn_value_sizes = Some (from_histogram hl merged total_sum n_keys), sdn_partitions = parts\<rparr>
           in io_bind (write_sentinel (path_join root ''scatter.done'') (enc_sdone lj d) mode) (\<lambda>_.
              io_return \<lparr>sst_n_keys = n_keys, sst_data_bytes = data_bytes\<rparr>)) s1)"

section \<open>Completion detection\<close>

fun probe_all ::
    "('c, 'a) FormatBuilder \<Rightarrow> nat list \<Rightarrow> (LoaderError, 'c \<times> files, ScatterProbe list option) effect" where
  "probe_all fb [] = io_return (Some [])"
| "probe_all fb (p # ps) =
     io_bind (io_map_err FormatE (fb_scatter_probe fb p)) (\<lambda>r.
       case r of
         None \<Rightarrow> io_return None
       | Some probe \<Rightarrow> io_bind (probe_all fb ps) (\<lambda>rest. io_return (map_option ((#) probe) rest)))"

definition derive_scatter_done ::
    "('c, 'a) FormatBuilder \<Rightarrow> loader_serde \<Rightarrow> path \<Rightarrow> Layout \<Rightarrow> MarkerMode
       \<Rightarrow> (LoaderError, 'c \<times> files, u64 option) effect" where
  "derive_scatter_done fb lj root layout mode =
     io_bind (probe_all fb [0..<unat (n_partitions layout)]) (\<lambda>probes.
       case probes of
         None \<Rightarrow> io_return None
       | Some ps \<Rightarrow>
           let n_keys = sum_list (map sp_n_keys ps);
               d = \<lparr>sdn_format = fb_format fb, sdn_n_keys = n_keys, sdn_n_partitions = n_partitions layout,
                    sdn_data_bytes = sum_list (map sp_data_bytes ps), sdn_wall_secs = None,
                    sdn_bytes_per_sec = None, sdn_value_sizes = None,
                    sdn_partitions = map (\<lambda>p. \<lparr>pdn_n_keys = sp_n_keys p, pdn_value_sizes = None\<rparr>) ps\<rparr>
           in io_bind (write_sentinel (path_join root ''scatter.done'') (enc_sdone lj d) mode) (\<lambda>_.
              io_return (Some n_keys)))"

text \<open>
  \<open>Some n\<close>: scatter can be skipped, with the key count \<open>n\<close> (the byte count reported is 0).  \<open>dec_sdone\<close>
  decodes the bytes as \<open>read_to_string\<close> and \<open>from_str\<close> do: a sentinel that is not UTF-8 is an I/O error,
  one that is not the JSON expected is derived anew.
\<close>

definition check_scatter_done ::
    "('c, 'a) FormatBuilder \<Rightarrow> loader_serde \<Rightarrow> path \<Rightarrow> Layout \<Rightarrow> MarkerMode
       \<Rightarrow> (LoaderError, 'c \<times> files, u64 option) effect" where
  "check_scatter_done fb lj root layout mode s =
     (case snd s (path_join root ''scatter.done'') of
        Some json \<Rightarrow>
          (case dec_sdone lj json of
             Ok d \<Rightarrow>
               if sdn_format d \<noteq> fb_format fb then (Err (FormatMismatch (fb_format fb) (sdn_format d)), s)
               else (Ok (Some (sdn_n_keys d)), s)
           | Err (Io e) \<Rightarrow> (Err (IoE e), s)
           | Err e \<Rightarrow> derive_scatter_done fb lj root layout mode s
           | Panic \<Rightarrow> (Panic, s))
      | None \<Rightarrow> derive_scatter_done fb lj root layout mode s)"

section \<open>The scatter phase\<close>

text \<open>
  What the task of a source returns once it has gone as far as it can: its fan-out, the error of
  its source, or the error of the batch that does not scatter.
\<close>

definition task_result :: "hash \<Rightarrow> Task \<Rightarrow> Fanout lres" where
  "task_result xxh64 t =
     (case tk_source t of
        [] \<Rightarrow> Ok (tk_fanout t)
      | Ok batch # _ \<Rightarrow> rmap fst (scatter_batch xxh64 batch (tk_fanout t))
      | Err e # _ \<Rightarrow> Err (SourceE e)
      | Panic # _ \<Rightarrow> Panic)"

text \<open>
  \<open>ss\<close> is the state the tasks reached.  When one of them fails, the phase is dropped: every
  channel closes and the detached writers drain what they received and finish their appenders, as
  far as the process lives on (\<open>drains\<close> says for which partitions).
\<close>

definition run_scatter_sources ::
    "hash \<Rightarrow> ('c, 'a) FormatBuilder \<Rightarrow> 'h hdr_lib \<Rightarrow> loader_serde \<Rightarrow> path \<Rightarrow> Layout \<Rightarrow> MarkerMode \<Rightarrow> string \<Rightarrow> u64
       \<Rightarrow> (nat \<Rightarrow> bool) \<Rightarrow> ScatterState \<Rightarrow> (LoaderError, 'c \<times> files, ScatterStats) effect" where
  "run_scatter_sources xxh64 fb hl lj root layout mode secs rate drains ss =
     io_bind (create_appenders fb layout) (\<lambda>appenders s.
       let writers = map snd (filter (drains \<circ> fst) (enumerate 0 (zip appenders (ss_queues ss))));
           abandoned = snd (io_collect (partition_writer fb hl) writers s)
       in case mapR (joined \<circ> task_result xxh64) (ss_tasks ss) of
            Ok fanouts \<Rightarrow> phase_finish fb hl lj root layout mode secs rate appenders ss s
          | Err e \<Rightarrow> (Err e, abandoned)
          | Panic \<Rightarrow> (Panic, abandoned))"

definition scatter_result_from_done ::
    "('c, 'a) FormatBuilder \<Rightarrow> loader_serde \<Rightarrow> path \<Rightarrow> u32 \<Rightarrow> MarkerMode
       \<Rightarrow> (LoaderError, 'c \<times> files, ScatterStats option) effect" where
  "scatter_result_from_done fb lj root n mode =
     io_bind (io_lift (map_err FormatE (Layout_new n))) (\<lambda>layout.
     io_bind (check_scatter_done fb lj root layout mode) (\<lambda>r.
     io_return (map_option (\<lambda>k. \<lparr>sst_n_keys = k, sst_data_bytes = 0\<rparr>) r)))"

definition scatter_parallel ::
    "hash \<Rightarrow> ('c, 'a) FormatBuilder \<Rightarrow> 'h hdr_lib \<Rightarrow> loader_serde \<Rightarrow> path \<Rightarrow> u32 \<Rightarrow> MarkerMode \<Rightarrow> string \<Rightarrow> u64
       \<Rightarrow> (nat \<Rightarrow> bool) \<Rightarrow> ScatterState \<Rightarrow> (LoaderError, 'c \<times> files, ScatterStats) effect" where
  "scatter_parallel xxh64 fb hl lj root n mode secs rate drains ss =
     io_bind (io_lift (map_err FormatE (Layout_new n))) (\<lambda>layout.
     io_bind (check_scatter_done fb lj root layout mode) (\<lambda>r.
       case r of
         Some k \<Rightarrow> io_return \<lparr>sst_n_keys = k, sst_data_bytes = 0\<rparr>
       | None \<Rightarrow> run_scatter_sources xxh64 fb hl lj root layout mode secs rate drains ss))"

section \<open>The loader\<close>

record LoaderConfig =
  lc_format :: FormatId
  lc_n_partitions :: u32
  lc_data_buf_bytes :: nat
  lc_spill_buf_bytes :: nat
  lc_channel_capacity :: nat
  lc_index_parallelism :: nat
  lc_progress_interval :: u64
  lc_max_value_bytes :: nat
  lc_v5 :: V5Options

definition DEFAULT_MAX_VALUE_BYTES :: nat where
  "DEFAULT_MAX_VALUE_BYTES = 16 * 1024 * 1024"

definition LoaderConfig_default :: LoaderConfig where
  "LoaderConfig_default =
     \<lparr>lc_format = FormatId_DEFAULT, lc_n_partitions = 64, lc_data_buf_bytes = 8 * 1024 * 1024,
      lc_spill_buf_bytes = 256 * 1024, lc_channel_capacity = 8, lc_index_parallelism = 2,
      lc_progress_interval = 100000, lc_max_value_bytes = DEFAULT_MAX_VALUE_BYTES, lc_v5 = V5Options_default\<rparr>"

definition loader_builder_config :: "path \<Rightarrow> LoaderConfig \<Rightarrow> BuilderConfig" where
  "loader_builder_config root cfg =
     \<lparr>bc_root = root, bc_n_partitions = lc_n_partitions cfg, bc_verify_seed = DEFAULT_VERIFY_SEED,
      bc_data_buf_bytes = lc_data_buf_bytes cfg, bc_spill_buf_bytes = lc_spill_buf_bytes cfg,
      bc_v5 = lc_v5 cfg\<rparr>"

text \<open>\<open>serde_json::Value\<close> with the control data of \<open>index.done\<close> removed.\<close>

fun strip_control :: "json \<Rightarrow> json" where
  "strip_control (JObject kvs) = JObject (filter (\<lambda>(k, v). k \<noteq> ''index_offsets'' \<and> k \<noteq> ''index_n_buckets'') kvs)"
| "strip_control j = j"

definition load_json :: "loader_serde \<Rightarrow> files \<Rightarrow> path \<Rightarrow> json option" where
  "load_json lj fs p = (case fs p of Some bs \<Rightarrow> parse_json lj bs | None \<Rightarrow> None)"

text \<open>
  \<open>finalize\<close>: plan, build (which may not return), embed the sentinels, publish \<open>meta.json\<close> and
  drop the sentinels.  The result is the number of keys.
\<close>

definition publish_snapshot ::
    "('c, 'a) FormatBuilder \<Rightarrow> loader_serde \<Rightarrow> path \<Rightarrow> string \<Rightarrow> u64 \<Rightarrow> (LoaderError, 'c \<times> files, u64) effect" where
  "publish_snapshot fb lj root now n_keys s =
     (let st = \<lparr>st_n_keys = n_keys, st_created_at = now,
                st_scatter = load_json lj (snd s) (path_join root ''scatter.done''),
                st_index = map_option strip_control (load_json lj (snd s) (path_join root ''index.done''))\<rparr>
      in io_bind (io_map_err FormatE (fb_finalize fb st None)) (\<lambda>_.
         io_bind (io_map_err FormatE (on_files (remove_file (path_join root ''scatter.done'')))) (\<lambda>_.
         io_bind (io_map_err FormatE (on_files (remove_file (path_join root ''index.done'')))) (\<lambda>_.
         io_return n_keys))) s)"

definition loader_finalize ::
    "('c, 'a) FormatBuilder \<Rightarrow> loader_serde \<Rightarrow> path \<Rightarrow> string \<Rightarrow> 'c \<times> files \<Rightarrow> (u64 lres \<times> 'c \<times> files) option" where
  "loader_finalize fb lj root now s =
     (case fb_plan fb s of
        (Err e, s1) \<Rightarrow> Some (Err (FormatE e), s1)
      | (Panic, s1) \<Rightarrow> Some (Panic, s1)
      | (Ok _, s1) \<Rightarrow>
          (case fb_build fb s1 of
             None \<Rightarrow> None
           | Some (Err e, s2) \<Rightarrow> Some (Err (FormatE e), s2)
           | Some (Panic, s2) \<Rightarrow> Some (Err (JoinE ''task panicked''), s2)
           | Some (Ok n_keys, s2) \<Rightarrow> Some (publish_snapshot fb lj root now n_keys s2)))"

text \<open>The number of keys and of data bytes reported.\<close>

definition load_parallel ::
    "hash \<Rightarrow> ('c, 'a) FormatBuilder \<Rightarrow> 'h hdr_lib \<Rightarrow> loader_serde \<Rightarrow> path \<Rightarrow> u32 \<Rightarrow> MarkerMode \<Rightarrow> string \<Rightarrow> u64
       \<Rightarrow> (nat \<Rightarrow> bool) \<Rightarrow> ScatterState \<Rightarrow> string \<Rightarrow> 'c \<times> files \<Rightarrow> ((u64 \<times> u64) lres \<times> 'c \<times> files) option" where
  "load_parallel xxh64 fb hl lj root n mode secs rate drains ss now s =
     (case scatter_parallel xxh64 fb hl lj root n mode secs rate drains ss s of
        (Ok sr, s1) \<Rightarrow>
          map_option (\<lambda>(r, s2). (rmap (\<lambda>k. (k, sst_data_bytes sr)) r, s2)) (loader_finalize fb lj root now s1)
      | (Err e, s1) \<Rightarrow> Some (Err e, s1)
      | (Panic, s1) \<Rightarrow> Some (Panic, s1))"

text \<open>
  \<open>load\<close>: the one source is polled by the caller, so its panic is not caught.  \<open>ss\<close> has one task.
\<close>

definition loader_load ::
    "hash \<Rightarrow> ('c, 'a) FormatBuilder \<Rightarrow> 'h hdr_lib \<Rightarrow> loader_serde \<Rightarrow> path \<Rightarrow> u32 \<Rightarrow> MarkerMode \<Rightarrow> string \<Rightarrow> u64
       \<Rightarrow> (nat \<Rightarrow> bool) \<Rightarrow> ScatterState \<Rightarrow> string \<Rightarrow> 'c \<times> files \<Rightarrow> ((u64 \<times> u64) lres \<times> 'c \<times> files) option" where
  "loader_load xxh64 fb hl lj root n mode secs rate drains ss now s =
     (let scatter =
        io_bind (io_lift (map_err FormatE (Layout_new n))) (\<lambda>layout.
        io_bind (check_scatter_done fb lj root layout mode) (\<lambda>r.
          case r of
            Some k \<Rightarrow> io_return \<lparr>sst_n_keys = k, sst_data_bytes = 0\<rparr>
          | None \<Rightarrow>
              io_bind (create_appenders fb layout) (\<lambda>appenders s.
                let writers = map snd (filter (drains \<circ> fst) (enumerate 0 (zip appenders (ss_queues ss))));
                    abandoned = snd (io_collect (partition_writer fb hl) writers s)
                in case task_result xxh64 (hd (ss_tasks ss)) of
                     Ok _ \<Rightarrow> phase_finish fb hl lj root layout mode secs rate appenders ss s
                   | Err e \<Rightarrow> (Err e, abandoned)
                   | Panic \<Rightarrow> (Panic, abandoned))))
      in case scatter s of
           (Ok sr, s1) \<Rightarrow>
             map_option (\<lambda>(r, s2). (rmap (\<lambda>k. (k, sst_data_bytes sr)) r, s2)) (loader_finalize fb lj root now s1)
         | (Err e, s1) \<Rightarrow> Some (Err e, s1)
         | (Panic, s1) \<Rightarrow> Some (Panic, s1))"

text \<open>Loading one source is loading a list of one source, unless the source panics.\<close>

lemma loader_load_parallel:
  assumes "ss_tasks ss = [t]" and "task_result xxh64 t \<noteq> Panic"
  shows "loader_load xxh64 fb hl lj root n mode secs rate drains ss now s =
    load_parallel xxh64 fb hl lj root n mode secs rate drains ss now s"
proof -
  have m: "mapR (joined \<circ> task_result xxh64) (ss_tasks ss) = rmap (\<lambda>f. [f]) (task_result xxh64 t)"
    using assms by (cases "task_result xxh64 t") simp_all
  have "io_bind (create_appenders fb layout) (\<lambda>appenders s.
      let writers = map snd (filter (drains \<circ> fst) (enumerate 0 (zip appenders (ss_queues ss))));
          abandoned = snd (io_collect (partition_writer fb hl) writers s)
      in case task_result xxh64 (hd (ss_tasks ss)) of
           Ok _ \<Rightarrow> phase_finish fb hl lj root layout mode secs rate appenders ss s
         | Err e \<Rightarrow> (Err e, abandoned) | Panic \<Rightarrow> (Panic, abandoned)) =
    run_scatter_sources xxh64 fb hl lj root layout mode secs rate drains ss" for layout
    unfolding run_scatter_sources_def m using assms by (cases "task_result xxh64 t") simp_all
  then show ?thesis by (simp only: loader_load_def load_parallel_def scatter_parallel_def Let_def)
qed

end
