(* ===== verification/V5_Emit.thy ===== *)
theory V5_Emit
  imports V5_Builder
begin

text \<open>
  Lemmas on the V5 build: parsing and scattering an arrival log, the order of the radix buckets,
  the appender's invariant, and the emission loop, which keeps the assembler's invariant and stores
  every frame as a record that resolves to its value.
\<close>

section \<open>Frames\<close>

type_synonym frame = "u64 \<times> u64 \<times> bytes"

fun frame_bytes :: "frame \<Rightarrow> bytes" where
  "frame_bytes (fp, vfp, v) = u64_le fp @ u64_le vfp @ u32_le (word_of_nat (length v)) @ v"

fun frame_ok :: "frame \<Rightarrow> bool" where
  "frame_ok (fp, vfp, v) \<longleftrightarrow> length v < 2 ^ 30 \<and> vfp \<noteq> 0"

abbreviation frames_bytes :: "frame list \<Rightarrow> bytes" where
  "frames_bytes fs \<equiv> concat (map frame_bytes fs)"

definition deref :: "bytes \<Rightarrow> FrameRef \<Rightarrow> frame" where
  "deref buf f = (fr_fp f, fr_vfp f, bslice (fr_start f) (fr_len f) buf)"

lemma length_frame_bytes: "length (frame_bytes (fp, vfp, v)) = 20 + length v"
  by simp

lemma frame_header:
  assumes "length v < 2 ^ 30" and b: "b = u64_le fp @ u64_le vfp @ u32_le (word_of_nat (length v)) @ v @ rest"
  shows "u64_of_le (bslice 0 8 b) = fp" and "u64_of_le (bslice 8 8 b) = vfp"
    and "unat (u32_of_le (bslice 16 4 b)) = length v" and "bslice 20 (length v) b = v"
  using assms(1) by (simp_all add: b bslice_def unat_of_nat)

lemma bslice_shift: "bslice (length pre + i) n (pre @ b) = bslice i n b"
  by (simp add: bslice_def)

lemma parse_one:
  assumes "frame_ok (fp, vfp, v)" and buf_def: "buf = pre @ frame_bytes (fp, vfp, v) @ rest"
  shows "parse_loop buf (length pre) =
    rmap (\<lambda>frames. \<lparr>fr_fp = fp, fr_vfp = vfp, fr_start = length pre + 20, fr_len = length v\<rparr> # frames)
      (parse_loop buf (length pre + 20 + length v))"
proof -
  have v: "length v < 2 ^ 30" using assms(1) by simp
  let ?b = "u64_le fp @ u64_le vfp @ u32_le (word_of_nat (length v)) @ v @ rest"
  have buf: "buf = pre @ ?b" by (simp add: buf_def)
  note h = frame_header [OF v refl, of fp vfp rest]
  have "u64_of_le (bslice (length pre) 8 buf) = fp"
    using bslice_shift [of pre 0 8 ?b] h(1) by (simp add: buf)
  moreover have "u64_of_le (bslice (length pre + 8) 8 buf) = vfp"
    unfolding buf bslice_shift by (rule h(2))
  moreover have "unat (u32_of_le (bslice (length pre + 16) 4 buf)) = length v"
    unfolding buf bslice_shift by (rule h(3))
  moreover have "length buf = length pre + 20 + length v + length rest" by (simp add: buf)
  ultimately show ?thesis
    by (subst parse_loop.simps) (simp add: FRAME_HEADER_def Let_def)
qed

text \<open>Parsing a log returns one reference per frame, and each refers to its frame.\<close>

lemma parse_loop_frames:
  assumes "\<forall>f \<in> set frames. frame_ok f"
  shows "\<exists>refs. parse_loop (pre @ frames_bytes frames) (length pre) = Ok refs \<and>
    map (deref (pre @ frames_bytes frames)) refs = frames"
  using assms
proof (induction frames arbitrary: pre)
  case Nil
  then show ?case by (subst parse_loop.simps) simp
next
  case (Cons f frames)
  obtain fp vfp v where f: "f = (fp, vfp, v)" by (cases f)
  let ?pre = "pre @ frame_bytes f" and ?buf = "pre @ frames_bytes (f # frames)"
  let ?r = "\<lparr>fr_fp = fp, fr_vfp = vfp, fr_start = length pre + 20, fr_len = length v\<rparr>"
  obtain refs where refs: "parse_loop (?pre @ frames_bytes frames) (length ?pre) = Ok refs"
    "map (deref (?pre @ frames_bytes frames)) refs = frames"
    using Cons.IH [of ?pre] Cons.prems by auto
  have "parse_loop ?buf (length pre) = rmap ((#) ?r) (parse_loop ?buf (length pre + 20 + length v))"
    using parse_one [of fp vfp v ?buf pre "frames_bytes frames"] Cons.prems f by simp
  moreover have "length pre + 20 + length v = length ?pre" by (simp add: f)
  ultimately have "parse_loop ?buf (length pre) = Ok (?r # refs)" using refs(1) by simp
  moreover have "bslice (length pre + 20) (length v) ?buf = v"
    unfolding bslice_shift by (simp add: f bslice_def)
  then have "deref ?buf ?r = f" by (simp only: deref_def f FrameRef.simps)
  moreover have "?pre @ frames_bytes frames = ?buf" by simp
  ultimately show ?case using refs(2) by (intro exI [of _ "?r # refs"]) (simp only: list.map simp_thms)
qed

lemma parse_frames_bytes:
  assumes "\<forall>f \<in> set frames. frame_ok f"
  shows "\<exists>refs. parse_frames (frames_bytes frames) = Ok refs \<and> map (deref (frames_bytes frames)) refs = frames"
  using parse_loop_frames [OF assms, of "[]"] by (simp add: parse_frames_def)

section \<open>Radix pass\<close>

lemma scatter_one:
  assumes "frame_ok (fp, vfp, v)" and "unat (drop_bit shift fp) < length outs" and "shift < 64"
  shows "scatter_loop shift (frame_bytes (fp, vfp, v) @ rest) outs =
    scatter_loop shift rest (outs[unat (drop_bit shift fp) := outs ! unat (drop_bit shift fp) @ frame_bytes (fp, vfp, v)])"
proof -
  have v: "length v < 2 ^ 30" using assms(1) by simp
  let ?h = "u64_le fp @ u64_le vfp @ u32_le (word_of_nat (length v))"
  have h: "u64_of_le (bslice 0 8 ?h) = fp" "unat (u32_of_le (bslice 16 4 ?h)) = length v"
    using v by (simp_all add: bslice_def unat_of_nat)
  have "read_exact_or_eof FRAME_HEADER (?h @ v @ rest) = Ok (Some (?h, v @ rest))"
    by (auto simp: read_exact_or_eof_def FRAME_HEADER_def simp flip: length_0_conv)
  then have "scatter_loop shift (?h @ v @ rest) outs =
      scatter_loop shift rest (outs[unat (drop_bit shift fp) := outs ! unat (drop_bit shift fp) @ ?h @ v])"
    by (subst scatter_loop.simps) (simp add: h Let_def assms(2,3) del: append_assoc)
  then show ?thesis by simp
qed

abbreviation bucket_frames :: "nat \<Rightarrow> frame list \<Rightarrow> nat \<Rightarrow> frame list" where
  "bucket_frames shift frames b \<equiv> filter (\<lambda>(fp, _). unat (drop_bit shift fp) = b) frames"

lemma scatter_loop_frames:
  assumes "\<forall>f \<in> set frames. frame_ok f" and "\<forall>(fp, _) \<in> set frames. unat (drop_bit shift fp) < length outs"
    and "shift < 64"
  shows "scatter_loop shift (frames_bytes frames) outs =
    Ok (map (\<lambda>b. outs ! b @ frames_bytes (bucket_frames shift frames b)) [0..<length outs])"
  using assms
proof (induction frames arbitrary: outs)
  case Nil
  then show ?case
    by (subst scatter_loop.simps) (simp add: read_exact_or_eof_def FRAME_HEADER_def map_nth)
next
  case (Cons f frames)
  obtain fp vfp v where f: "f = (fp, vfp, v)" by (cases f)
  let ?b = "unat (drop_bit shift fp)"
  let ?outs = "outs[?b := outs ! ?b @ frame_bytes f]"
  have "scatter_loop shift (frames_bytes (f # frames)) outs = scatter_loop shift (frames_bytes frames) ?outs"
    using scatter_one [of fp vfp v shift outs "frames_bytes frames"] Cons.prems f by simp
  also have "\<dots> = Ok (map (\<lambda>b. ?outs ! b @ frames_bytes (bucket_frames shift frames b)) [0..<length ?outs])"
    using Cons.prems by (intro Cons.IH) auto
  also have "\<dots> = Ok (map (\<lambda>b. outs ! b @ frames_bytes (bucket_frames shift (f # frames) b)) [0..<length outs])"
    by (auto simp: f nth_list_update)
  finally show ?case .
qed

section \<open>Bucket order\<close>

lemma trailing_zeros_pow2: "k < 64 \<Longrightarrow> trailing_zeros (2 ^ k) = k"
proof -
  assume k: "k < 64"
  have "takeWhile (\<lambda>i. \<not> bit (2 ^ k :: nat) i) [0..<64] = take k [0..<64]"
    by (rule takeWhile_eq_take_P_nth) (use k in \<open>auto simp: bit_exp_iff\<close>)
  then show ?thesis using k by (simp add: trailing_zeros_def)
qed

lemma radix_bucket_count_pow2: "\<exists>k \<le> 6. radix_bucket_count a t = 2 ^ k"
proof -
  have clamp: "\<exists>k \<le> 6. min (max (2 ^ j) 1) 64 = (2 ^ k :: nat)" for j
  proof (cases "j \<le> 6")
    case True
    then have "(2 ^ j :: nat) \<le> 2 ^ 6" by (intro power_increasing) simp_all
    moreover have "(1 :: nat) \<le> 2 ^ j" by simp
    ultimately show ?thesis using True by (intro exI [of _ j]) (simp add: max_absorb1 min_absorb1)
  next
    case False
    then have "(2 ^ 6 :: nat) \<le> 2 ^ j" by (intro power_increasing) simp_all
    then show ?thesis by (intro exI [of _ 6]) simp
  qed
  have big: "min (max U64_MAX 1) 64 = (2 ^ 6 :: nat)" by (simp add: U64_MAX_def)
  show ?thesis
    using clamp big
    by (auto simp: radix_bucket_count_def checked_next_power_of_two_def Let_def MAX_RADIX_BUCKETS_def
        split: list.splits option.splits intro: exI [of _ 6])
qed

lemma bucket_of_fp:
  assumes "k \<le> 64"
  shows "unat (drop_bit (64 - k) (fp :: u64)) = unat fp div 2 ^ (64 - k)"
    and "unat (drop_bit (64 - k) fp) < 2 ^ k"
proof -
  show eq: "unat (drop_bit (64 - k) fp) = unat fp div 2 ^ (64 - k)"
    by (subst unat_drop_bit_eq) (rule drop_bit_eq_div)
  have "(2 ^ 64 :: nat) = 2 ^ k * 2 ^ (64 - k)"
    using assms by (simp flip: power_add)
  then show "unat (drop_bit (64 - k) fp) < 2 ^ k"
    unfolding eq using unat_u64_less [of fp] by (metis less_mult_imp_div_less)
qed

text \<open>
  \<open>concat\<close> of per-bucket sorted lists, when the bucket is a monotone function of the key, is the
  sorted list of all elements.
\<close>

lemma sorted_concat_buckets:
  assumes mono: "\<And>x y. key x \<le> key y \<Longrightarrow> bk x \<le> (bk y :: nat)"
    and part: "\<And>b x. b < n \<Longrightarrow> x \<in> set (L b) \<Longrightarrow> bk x = b"
    and srt: "\<And>b. b < n \<Longrightarrow> sorted (map key (L b))"
  shows "sorted (map (key :: 'a \<Rightarrow> 'b::linorder) (concat (map L [0..<n])))"
  using part srt
proof (induction n)
  case 0
  then show ?case by simp
next
  case (Suc n)
  have "key x \<le> key y" if "b < n" "x \<in> set (L b)" "y \<in> set (L n)" for b x y
  proof (rule ccontr)
    assume "\<not> key x \<le> key y"
    then have "bk y \<le> bk x" by (intro mono) simp
    with that Suc.prems(1) [of b x] Suc.prems(1) [of n y] show False by simp
  qed
  then show ?case using Suc by (auto simp: sorted_append)
qed

lemma mset_concat_buckets:
  assumes "\<And>b. b < n \<Longrightarrow> mset (L b) = mset (filter (\<lambda>x. bk x = b) xs)" and "\<forall>x \<in> set xs. bk x < (n :: nat)"
  shows "mset (concat (map L [0..<n])) = mset xs"
proof -
  have "mset (concat (map L [0..<m])) = filter_mset (\<lambda>x. bk x < m) (mset xs)" if "m \<le> n" for m
    using that
  proof (induction m)
    case 0
    then show ?case by simp
  next
    case (Suc m)
    have "filter_mset (\<lambda>x. bk x < Suc m) (mset xs) =
        filter_mset (\<lambda>x. bk x < m) (mset xs) + filter_mset (\<lambda>x. bk x = m) (mset xs)"
      by (rule multiset_eqI) auto
    with Suc assms(1) [of m] show ?case by simp
  qed
  from this [of n] assms(2) show ?thesis
    by (metis filter_mset_eq_conv filter_mset_True order_refl set_mset_mset filter_mset_cong)
qed

section \<open>Appending\<close>

lemma leading_zeros_ge:
  assumes "unat x < 2 ^ k" and "k \<le> 64"
  shows "64 - leading_zeros x \<le> k"
proof -
  have nb: "\<not> bit x i" if "k \<le> i" for i
  proof -
    have "take_bit k x = x"
      using assms(1) by (simp add: word_unat_eq_iff unsigned_take_bit_eq take_bit_nat_eq_self)
    then have "bit x i \<longleftrightarrow> bit (take_bit k x) i" by simp
    with that show ?thesis by (simp add: bit_take_bit_iff)
  qed
  have "64 - k \<le> length (takeWhile (\<lambda>i. \<not> bit x i) (rev [0..<64]))"
  proof (rule length_takeWhile_less_P_nth)
    fix j
    assume "j < 64 - k"
    then show "\<not> bit x (rev [0..<64] ! j)" by (intro nb) (simp add: rev_nth)
  qed simp
  then show ?thesis by (simp add: leading_zeros_def)
qed

lemma hist_bump_total:
  assumes "payload_len < 2 ^ 30" and "length hist = HIST_BUCKETS"
  shows "\<exists>h. hist_bump payload_len hist = Ok h \<and> length h = HIST_BUCKETS"
proof -
  have "encoded_len payload_len < 2 ^ 31"
    using align8_bounds(2) [of "12 + payload_len"] assms(1) by (simp add: encoded_len_def HEADER_LEN_def)
  then have "unat (word_of_nat (encoded_len payload_len) :: u64) < 2 ^ 31"
    by (simp add: unat_of_nat)
  from leading_zeros_ge [OF this] assms(2) show ?thesis
    by (simp add: hist_bump_def Let_def HIST_BUCKETS_def)
qed

definition app_inv :: "V5Appender \<Rightarrow> frame list \<Rightarrow> bool" where
  "app_inv a frames \<longleftrightarrow>
     va_out a = frames_bytes frames \<and> (\<forall>f \<in> set frames. frame_ok f) \<and>
     length (va_hist a) = HIST_BUCKETS \<and> va_n_keys a = word_of_nat (length frames) \<and>
     va_data_bytes a = word_of_nat (length (va_out a))"

abbreviation key_frame :: "hash \<Rightarrow> u64 \<Rightarrow> bytes \<times> u64 \<times> bytes \<Rightarrow> frame" where
  "key_frame xxh64 seed kv \<equiv> (case kv of (k, fp, v) \<Rightarrow> (fp, v5_verify_fingerprint xxh64 k seed, v))"

lemma v5_verify_fingerprint_nonzero: "v5_verify_fingerprint xxh64 k seed \<noteq> 0"
  by (simp add: v5_verify_fingerprint_def Let_def)

lemma append_inv:
  assumes "app_inv a frames" and "length val < 2 ^ 30"
  shows "\<exists>a'. V5Appender_append xxh64 a key fp val = Ok a' \<and>
    app_inv a' (frames @ [key_frame xxh64 (va_verify_seed a) (key, fp, val)]) \<and>
    va_dir a' = va_dir a \<and> va_verify_seed a' = va_verify_seed a \<and> va_marker_mode a' = va_marker_mode a"
proof -
  obtain h where "hist_bump (length val) (va_hist a) = Ok h" "length h = HIST_BUCKETS"
    using hist_bump_total [OF assms(2), of "va_hist a"] assms(1) by (auto simp: app_inv_def)
  then show ?thesis
    using assms by (simp add: V5Appender_append_def Let_def unat_MAX_VALUE_LEN app_inv_def FRAME_HEADER_def
        v5_verify_fingerprint_nonzero)
qed

section \<open>Emission\<close>

interpretation blocks_file: block_sink file_sink id
  by unfold_locales (auto simp: file_sink_def)

text \<open>With room in an empty block, pushing a record to the blocks file succeeds.\<close>

lemma push_record_total:
  assumes "record_ok r" and "\<not> ba_failed a" and "encoded_len (length (record_payload r)) \<le> ba_block_size a - 4"
  shows "\<exists>a'. push_record xxh64 file_sink fp r a = (Ok (), a')"
proof -
  have "record_vfp r \<noteq> 0" using assms(1) by (cases r) auto
  then show ?thesis
    using assms by (auto simp: push_record_eq push_header_def cut_def file_sink_def Let_def CHECKSUM_LEN_def)
qed

definition codec_ok :: "zstd_lib \<Rightarrow> Compressor option \<Rightarrow> Decompressor option \<Rightarrow> bool" where
  "codec_ok z compressor codec \<longleftrightarrow>
     (\<forall>c v. compressor = Some c \<longrightarrow> length v < 2 ^ 30 \<longrightarrow>
        (\<exists>frame. compress z c v = Ok frame \<and>
           (\<forall>fr. frame = Some fr \<longrightarrow> length fr < length v \<and> decode z fr True codec = Ok v)))"

definition plan_ok :: "Plan \<Rightarrow> bool" where
  "plan_ok plan \<longleftrightarrow> is_power_of_two (pl_block_size plan) \<and> 4096 \<le> unat (pl_block_size plan) \<and>
     pl_inline_threshold plan = pl_block_size plan div 2"

text \<open>A record holds a frame when a lookup of it returns the frame's value, whatever the heap grows to.\<close>

definition holds :: "zstd_lib \<Rightarrow> hash \<Rightarrow> Decompressor option \<Rightarrow> bytes \<Rightarrow> frame \<Rightarrow> frec \<Rightarrow> bool" where
  "holds z xxh64 codec heap f fr \<longleftrightarrow>
     fst fr = fst f \<and> record_vfp (snd fr) = fst (snd f) \<and> record_ok (snd fr) \<and>
     (\<forall>ext. resolve z xxh64 (heap @ ext) codec (snd fr) = Ok (snd (snd f)))"

lemma holds_mono: "holds z xxh64 codec heap f fr \<Longrightarrow> holds z xxh64 codec (heap @ ext) f fr"
  by (simp add: holds_def)

abbreviation values_len :: "frame list \<Rightarrow> nat" where
  "values_len frames \<equiv> sum_list (map (\<lambda>(fp, vfp, v). length v) frames)"

definition em_inv ::
    "zstd_lib \<Rightarrow> hash \<Rightarrow> Decompressor option \<Rightarrow> Plan \<Rightarrow> Emit \<Rightarrow> frame list \<Rightarrow> bool" where
  "em_inv z xxh64 codec plan em frames \<longleftrightarrow>
     (\<exists>groups cur. asm_inv xxh64 id [] (em_asm em) groups cur \<and>
        list_all2 (holds z xxh64 codec (em_heap em)) frames (concat groups @ cur)) \<and>
     ba_block_size (em_asm em) = unat (pl_block_size plan) \<and>
     em_heap_offset em = word_of_nat (length (em_heap em)) \<and>
     length (em_heap em) \<le> values_len frames \<and>
     em_sketch_fps em = (if pl_sketch plan then map fst frames else []) \<and>
     em_n_keys em = word_of_nat (length frames)"

text \<open>The record a stored value becomes.\<close>

definition stored_record :: "hash \<Rightarrow> Plan \<Rightarrow> u64 \<Rightarrow> bytes \<Rightarrow> bool \<Rightarrow> u64 \<Rightarrow> Record" where
  "stored_record xxh64 plan vfp stored compressed off =
     (if (word_of_nat (length stored) :: u32) \<le> pl_inline_threshold plan then Inline vfp stored compressed
      else StubRec vfp \<lparr>heap_offset = off, stored_len = word_of_nat (length stored),
             value_checksum = checksum32 xxh64 stored\<rparr> compressed)"

lemma stored_record_fits:
  assumes "plan_ok plan" and "length stored < 2 ^ 30" and "vfp \<noteq> 0"
    and r_def: "r = stored_record xxh64 plan vfp stored compressed off"
  shows "record_ok r" and "encoded_len (length (record_payload r)) \<le> unat (pl_block_size plan) - 4"
    and "record_vfp r = vfp"
proof -
  have len: "unat (word_of_nat (length stored) :: u32) = length stored"
    using assms(2) by (intro unat_word_of_nat_less) simp
  show "record_ok r" using assms(2,3) len by (simp add: r_def stored_record_def)
  show "record_vfp r = vfp" by (simp add: r_def stored_record_def)
  have bs: "4096 \<le> unat (pl_block_size plan)"
    and th: "unat (pl_inline_threshold plan) = unat (pl_block_size plan) div 2"
    using assms(1) by (auto simp: plan_ok_def unat_div)
  have "length (record_payload r) \<le> unat (pl_block_size plan) div 2 \<or> length (record_payload r) = 12"
    using len th by (auto simp: r_def stored_record_def word_le_nat_alt)
  with bs align8_bounds(2) [of "12 + length (record_payload r)"]
  show "encoded_len (length (record_payload r)) \<le> unat (pl_block_size plan) - 4"
    by (auto simp: encoded_len_def HEADER_LEN_def)
qed

lemma pread_middle:
  assumes "unat off = length pre" and "unat n = length b"
  shows "pread (pre @ b @ ext) off n = Ok b"
  using assms by (simp add: pread_def bslice_def)

lemma stored_record_holds:
  assumes "length stored < 2 ^ 30" and "off = word_of_nat (length heap)" and "length heap < 2 ^ 64"
    and dec: "decode z stored compressed codec = Ok v"
    and r: "r = stored_record xxh64 plan vfp stored compressed off" and "record_ok r"
    and heap': "heap' = (if (word_of_nat (length stored) :: u32) \<le> pl_inline_threshold plan then heap else heap @ stored)"
  shows "holds z xxh64 codec heap' (fp, vfp, v) (fp, r)"
proof -
  have "unat off = length heap" "unat (word_of_nat (length stored) :: u32) = length stored"
    using assms(1-3) by (simp_all add: unat_of_nat)
  then have "pread (heap @ stored @ ext) off (word_of_nat (length stored)) = Ok stored" for ext
    by (rule pread_middle)
  with dec \<open>record_ok r\<close> show ?thesis
    by (auto simp: holds_def r heap' stored_record_def)
qed

lemma emit_stored_ok:
  assumes inv: "em_inv z xxh64 codec plan em frames" and pl: "plan_ok plan"
    and len: "length stored < 2 ^ 30" "length stored \<le> length v" "values_len frames < 2 ^ 64"
    and vfp: "fr_vfp f \<noteq> 0"
    and dec: "decode z stored compressed codec = Ok v"
    and em1: "em1 = em\<lparr>em_sketch_fps := (if pl_sketch plan then em_sketch_fps em @ [fr_fp f] else em_sketch_fps em),
      em_value_bytes_raw := n1, em_value_bytes_stored := n2, em_n_compressed := n3, em_n_raw := n4\<rparr>"
  shows "\<exists>em'. emit_stored xxh64 plan f stored compressed em1 = Ok em' \<and>
    em_inv z xxh64 codec plan em' (frames @ [(fr_fp f, fr_vfp f, v)])"
proof -
  let ?inl = "(word_of_nat (length stored) :: u32) \<le> pl_inline_threshold plan"
  let ?r = "stored_record xxh64 plan (fr_vfp f) stored compressed (em_heap_offset em)"
  let ?heap = "if ?inl then em_heap em else em_heap em @ stored"
  note fits = stored_record_fits [OF pl len(1) vfp refl, of xxh64 compressed "em_heap_offset em"]
  obtain groups cur where asm: "asm_inv xxh64 id [] (em_asm em) groups cur"
    and all: "list_all2 (holds z xxh64 codec (em_heap em)) frames (concat groups @ cur)"
    using inv by (auto simp: em_inv_def)
  have bs: "ba_block_size (em_asm em) = unat (pl_block_size plan)"
    and off: "em_heap_offset em = word_of_nat (length (em_heap em))"
    and hl: "length (em_heap em) \<le> values_len frames"
    using inv by (auto simp: em_inv_def)
  have "\<not> ba_failed (em_asm em)" using asm by (simp add: asm_inv_def)
  then obtain a' where a': "push_record xxh64 file_sink (fr_fp f) ?r (em_asm em) = (Ok (), a')"
    using push_record_total [OF fits(1), of "em_asm em" xxh64 "fr_fp f"] fits(2) bs by auto
  from blocks_file.push_record_ok [OF asm fits(1) a'] obtain groups' cur' where
    g: "ba_block_size a' = ba_block_size (em_asm em)" "asm_inv xxh64 id [] a' groups' cur'"
      "concat groups' @ cur' = (concat groups @ cur) @ [(fr_fp f, ?r)]" by auto
  have h: "holds z xxh64 codec ?heap (fr_fp f, fr_vfp f, v) (fr_fp f, ?r)"
    using hl len(3) by (intro stored_record_holds [OF len(1) off _ dec refl fits(1) refl]) simp
  have "list_all2 (holds z xxh64 codec ?heap) frames (concat groups @ cur)"
    using all by (rule list_all2_mono) (simp add: holds_mono)
  with h have all': "list_all2 (holds z xxh64 codec ?heap) (frames @ [(fr_fp f, fr_vfp f, v)]) (concat groups' @ cur')"
    unfolding g(3) by (intro list_all2_appendI) simp_all
  let ?em' = "em1\<lparr>em_asm := a', em_heap := ?heap, em_n_keys := em_n_keys em + 1,
    em_heap_offset := (if ?inl then em_heap_offset em else em_heap_offset em + word_of_nat (length stored)),
    em_n_stubs := (if ?inl then em_n_stubs em else em_n_stubs em + 1)\<rparr>"
  have "emit_stored xxh64 plan f stored compressed em1 = Ok ?em'"
    using a' by (auto simp: emit_stored_def em1 stored_record_def)
  moreover have "em_inv z xxh64 codec plan ?em' (frames @ [(fr_fp f, fr_vfp f, v)])"
    unfolding em_inv_def
    using g(1,2) all' inv bs off hl len(2) by (auto simp: em1 em_inv_def intro!: exI [of _ groups'] exI [of _ cur'])
  ultimately show ?thesis by blast
qed

lemma codec_okD:
  assumes "codec_ok z c codec" and "length v < 2 ^ 30"
  shows "\<exists>frame. (case c of Some c \<Rightarrow> compress z c v | None \<Rightarrow> Ok None) = Ok frame \<and>
    (\<forall>b. frame = Some b \<longrightarrow> length b < length v \<and> decode z b True codec = Ok v)"
  using assms by (cases c) (simp_all add: codec_ok_def)

lemma emit_frame_ok:
  assumes inv: "em_inv z xxh64 codec plan em frames" and pl: "plan_ok plan" and c: "codec_ok z c codec"
    and f: "frame_ok (deref buf f)" and len: "values_len frames < 2 ^ 64"
  shows "\<exists>em'. emit_frame z xxh64 plan c buf f em = Ok em' \<and>
    em_inv z xxh64 codec plan em' (frames @ [deref buf f])"
proof -
  let ?v = "bslice (fr_start f) (fr_len f) buf"
  have v: "length ?v < 2 ^ 30" and vfp: "fr_vfp f \<noteq> 0" using f by (simp_all add: deref_def)
  obtain frame where fr: "(case c of Some c \<Rightarrow> compress z c ?v | None \<Rightarrow> Ok None) = Ok frame"
    and dec: "\<And>b. frame = Some b \<Longrightarrow> length b < length ?v \<and> decode z b True codec = Ok ?v"
    using codec_okD [OF c v] by blast
  define stored where "stored = (case frame of Some b \<Rightarrow> b | None \<Rightarrow> ?v)"
  define compressed where "compressed = (frame \<noteq> None)"
  have st: "(case frame of Some b \<Rightarrow> (b, True) | None \<Rightarrow> (?v, False)) = (stored, compressed)"
    by (cases frame) (simp_all add: stored_def compressed_def)
  have "decode z stored compressed codec = Ok ?v" "length stored \<le> length ?v"
    using dec by (cases frame; fastforce simp: stored_def compressed_def)+
  note st_ok = emit_stored_ok [OF inv pl _ this(2) len vfp this(1) refl] this(2)
  have "emit_frame z xxh64 plan c buf f em = emit_stored xxh64 plan f stored compressed
      (em\<lparr>em_sketch_fps := (if pl_sketch plan then em_sketch_fps em @ [fr_fp f] else em_sketch_fps em),
        em_value_bytes_raw := em_value_bytes_raw em + word_of_nat (length ?v),
        em_value_bytes_stored := em_value_bytes_stored em + word_of_nat (length stored),
        em_n_compressed := em_n_compressed em + (if compressed then 1 else 0),
        em_n_raw := em_n_raw em + (if compressed then 0 else 1)\<rparr>)"
    unfolding emit_frame_def Let_def fr rbind.simps st prod.case
    by (cases em; cases "pl_sketch plan") simp_all
  moreover have "length stored < 2 ^ 30" using st_ok(2) v by linarith
  ultimately show ?thesis unfolding deref_def using st_ok(1) by metis
qed

lemma emit_frames_ok:
  assumes "em_inv z xxh64 codec plan em frames" and "plan_ok plan" and "codec_ok z c codec"
    and "\<forall>f \<in> set refs. frame_ok (deref buf f)" and "values_len (frames @ map (deref buf) refs) < 2 ^ 64"
  shows "\<exists>em'. foldR (emit_frame z xxh64 plan c buf) refs em = Ok em' \<and>
    em_inv z xxh64 codec plan em' (frames @ map (deref buf) refs)"
  using assms
proof (induction refs arbitrary: em frames)
  case Nil
  then show ?case by simp
next
  case (Cons f refs)
  obtain em1 where e: "emit_frame z xxh64 plan c buf f em = Ok em1"
    "em_inv z xxh64 codec plan em1 (frames @ [deref buf f])"
    using emit_frame_ok [OF Cons.prems(1-3), of buf f] Cons.prems(4,5) by auto
  from Cons.IH [OF e(2)] Cons.prems e(1) show ?case by simp
qed

definition sort_ok :: "(FrameRef list \<Rightarrow> FrameRef list) \<Rightarrow> bool" where
  "sort_ok sort_u \<longleftrightarrow> (\<forall>xs. mset (sort_u xs) = mset xs \<and> sorted (map fr_fp (sort_u xs)))"

definition sorted_perm :: "frame list \<Rightarrow> frame list \<Rightarrow> bool" where
  "sorted_perm xs ys \<longleftrightarrow> mset ys = mset xs \<and> sorted (map fst ys)"

lemma values_len_perm: "mset xs = mset ys \<Longrightarrow> values_len xs = values_len ys"
  by (metis mset_map sum_mset_sum_list)

lemma emit_bucket_ok:
  assumes inv: "em_inv z xxh64 codec plan em frames" and "plan_ok plan" and "codec_ok z c codec"
    and srt: "sort_ok sort_u" and bfile: "fs bucket = Some (frames_bytes F)" and F: "\<forall>f \<in> set F. frame_ok f"
    and len: "values_len (frames @ F) < 2 ^ 64"
  shows "\<exists>em' G. emit_bucket z xxh64 sort_u plan c arrival bucket em fs =
      (Ok em', if bucket \<noteq> arrival then fs(bucket := None) else fs) \<and>
    sorted_perm F G \<and> em_inv z xxh64 codec plan em' (frames @ G)"
proof -
  let ?buf = "frames_bytes F"
  obtain refs where refs: "parse_frames ?buf = Ok refs" "map (deref ?buf) refs = F"
    using parse_frames_bytes [OF F] by blast
  let ?G = "map (deref ?buf) (sort_u refs)"
  have m: "mset (sort_u refs) = mset refs" and s: "sorted (map fr_fp (sort_u refs))"
    using srt by (auto simp: sort_ok_def)
  have "mset ?G = mset F" using m refs(2) by (metis mset_map)
  moreover have "map fst ?G = map fr_fp (sort_u refs)" by (simp add: deref_def)
  ultimately have G: "sorted_perm F ?G" using s by (simp add: sorted_perm_def del: map_map)
  have "set (sort_u refs) = set refs" using m by (metis set_mset_mset)
  then have ok: "\<forall>f \<in> set (sort_u refs). frame_ok (deref ?buf f)"
    using F refs(2) by (metis imageI list.set_map)
  have "values_len ?G = values_len F" using \<open>mset ?G = mset F\<close> by (rule values_len_perm)
  then have len': "values_len (frames @ ?G) < 2 ^ 64" using len by simp
  obtain em' where em': "foldR (emit_frame z xxh64 plan c ?buf) (sort_u refs) em = Ok em'"
    "em_inv z xxh64 codec plan em' (frames @ ?G)"
    using emit_frames_ok [OF assms(1-3) ok len'] by blast
  have "emit_bucket z xxh64 sort_u plan c arrival bucket em fs =
      (Ok em', if bucket \<noteq> arrival then fs(bucket := None) else fs)"
    using refs(1) em'(1) bfile
    by (simp add: emit_bucket_def read_file_def file_open_def remove_file_def io_do_def io_return_def
        io_bind_def io_lift_def)
  with G em'(2) show ?thesis by blast
qed

lemma emit_buckets_ok:
  assumes "em_inv z xxh64 codec plan em frames" and pl: "plan_ok plan" and c: "codec_ok z c codec"
    and srt: "sort_ok sort_u" and "distinct ps"
    and "list_all2 (\<lambda>p F. fs p = Some (frames_bytes F) \<and> (\<forall>f \<in> set F. frame_ok f)) ps Fs"
    and "values_len (frames @ concat Fs) < 2 ^ 64"
  shows "\<exists>em' Gs fs'. io_foldM (emit_bucket z xxh64 sort_u plan c arrival) ps em fs = (Ok em', fs') \<and>
    list_all2 sorted_perm Fs Gs \<and> em_inv z xxh64 codec plan em' (frames @ concat Gs) \<and>
    (\<forall>q. q \<notin> set ps \<longrightarrow> fs' q = fs q)"
  using assms(1,5-)
proof (induction ps arbitrary: em frames fs Fs)
  case Nil
  then show ?case by (auto simp: io_return_def)
next
  case (Cons p ps)
  obtain F Fs' where Fs: "Fs = F # Fs'" "fs p = Some (frames_bytes F)" "\<forall>f \<in> set F. frame_ok f"
    and rest: "list_all2 (\<lambda>p F. fs p = Some (frames_bytes F) \<and> (\<forall>f \<in> set F. frame_ok f)) ps Fs'"
    using Cons.prems(3) by (auto simp: list_all2_Cons1)
  let ?fs = "if p \<noteq> arrival then fs(p := None) else fs"
  have "values_len (frames @ F) < 2 ^ 64" using Cons.prems(4) Fs(1) by simp
  from emit_bucket_ok [where fs = fs and bucket = p, OF Cons.prems(1) pl c srt Fs(2,3) this, of arrival] obtain em1 G where
    e: "emit_bucket z xxh64 sort_u plan c arrival p em fs = (Ok em1, ?fs)" and G: "sorted_perm F G"
    and inv: "em_inv z xxh64 codec plan em1 (frames @ G)" by blast
  have "list_all2 (\<lambda>p F. ?fs p = Some (frames_bytes F) \<and> (\<forall>f \<in> set F. frame_ok f)) ps Fs'"
  proof (rule list.rel_mono_strong [OF rest])
    fix q F'
    assume "q \<in> set ps" "fs q = Some (frames_bytes F') \<and> (\<forall>f \<in> set F'. frame_ok f)"
    with Cons.prems(2) show "?fs q = Some (frames_bytes F') \<and> (\<forall>f \<in> set F'. frame_ok f)" by auto
  qed
  moreover have "values_len G = values_len F" using G by (intro values_len_perm) (simp add: sorted_perm_def)
  then have "values_len ((frames @ G) @ concat Fs') < 2 ^ 64" using Cons.prems(4) Fs(1) by simp
  ultimately obtain em' Gs fs' where r: "io_foldM (emit_bucket z xxh64 sort_u plan c arrival) ps em1 ?fs = (Ok em', fs')"
    "list_all2 sorted_perm Fs' Gs" "em_inv z xxh64 codec plan em' ((frames @ G) @ concat Gs)"
    "\<forall>q. q \<notin> set ps \<longrightarrow> fs' q = ?fs q"
    using Cons.IH [OF inv _ , of ?fs Fs'] Cons.prems(2) by auto
  have "io_foldM (emit_bucket z xxh64 sort_u plan c arrival) (p # ps) em fs = (Ok em', fs')"
    using e r(1) by (simp add: io_bind_Ok)
  moreover have "list_all2 sorted_perm Fs (G # Gs)" using G r(2) Fs(1) by simp
  ultimately show ?case
    using r(3,4) by (intro exI [of _ em'] exI [of _ "G # Gs"] exI [of _ fs']) auto
qed

lemma sorted_perm_filter: "sorted_perm (filter P xs) ys \<Longrightarrow> x \<in> set ys \<Longrightarrow> P x"
  unfolding sorted_perm_def by (metis filter_is_subset mem_Collect_eq set_filter set_mset_mset)

lemma sorted_perm_buckets:
  assumes k: "k \<le> 64" and all: "list_all2 sorted_perm (map (bucket_frames (64 - k) F) [0..<2 ^ k]) Gs"
  shows "sorted_perm F (concat Gs)"
proof -
  let ?bk = "\<lambda>f :: frame. unat (drop_bit (64 - k) (fst f))"
  have len: "length Gs = 2 ^ k" using all by (auto dest: list_all2_lengthD)
  have sp: "sorted_perm (filter (\<lambda>f. ?bk f = b) F) (Gs ! b)" if "b < 2 ^ k" for b
    using list_all2_nthD [OF all, of b] that by (simp add: case_prod_beta')
  have bk: "?bk f = b" if "b < 2 ^ k" "f \<in> set (Gs ! b)" for b f
    using sorted_perm_filter [OF sp [OF that(1)] that(2)] .
  have Gs: "concat Gs = concat (map ((!) Gs) [0..<2 ^ k])"
    using len by (metis map_nth)
  have "sorted (map fst (concat (map ((!) Gs) [0..<2 ^ k])))"
  proof (rule sorted_concat_buckets [where bk = ?bk])
    fix x y :: frame
    assume "fst x \<le> fst y"
    then show "?bk x \<le> ?bk y"
      by (simp add: bucket_of_fp(1) [OF k] word_le_nat_alt div_le_mono)
  next
    fix b assume "b < (2::nat) ^ k"
    then show "sorted (map fst (Gs ! b))" using sp by (simp add: sorted_perm_def)
  qed (rule bk)
  moreover have "mset (concat (map ((!) Gs) [0..<2 ^ k])) = mset F"
    by (rule mset_concat_buckets [where bk = ?bk]) (use sp in \<open>auto simp: sorted_perm_def bucket_of_fp(2) [OF k]\<close>)
  ultimately show ?thesis unfolding sorted_perm_def Gs by simp
qed

end
