(* ===== verification/V5_Partition.thy ===== *)
theory V5_Partition
  imports V5_Emit
begin

text \<open>
  A V5 partition from its arrival log to an answered lookup: the radix pass on files, the build of
  a partition (\<open>build_partition_ok\<close>), opening what it wrote (\<open>open_partition_ok\<close>) and searching it
  (\<open>partition_get5_answers\<close>).
\<close>

section \<open>The radix pass on files\<close>

lemma io_mapM_do: "io_mapM (\<lambda>x. io_do (g x)) xs s = (Ok (map (\<lambda>_. ()) xs), fold g xs s)"
  by (induction xs arbitrary: s) (simp_all add: io_return_def io_bind_def io_do_def)

lemma fold_update_other: "q \<notin> set ps \<Longrightarrow> fold (\<lambda>(p, b) m. m(p \<mapsto> b)) (zip ps bs) m q = m q"
proof (induction ps arbitrary: bs m)
  case Nil
  then show ?case by simp
next
  case (Cons p ps)
  then show ?case by (cases bs) auto
qed

lemma fold_update_nth:
  assumes "distinct ps" and "i < length ps" and "length bs = length ps"
  shows "fold (\<lambda>(p, b) m. m(p \<mapsto> b)) (zip ps bs) m (ps ! i) = Some (bs ! i)"
  using assms
proof (induction ps arbitrary: bs m i)
  case Nil
  then show ?case by simp
next
  case (Cons p ps)
  obtain b bs' where bs: "bs = b # bs'" using Cons.prems(3) by (cases bs) auto
  show ?case
  proof (cases i)
    case 0
    have "fold (\<lambda>(p, b) m. m(p \<mapsto> b)) (zip ps bs') (m(p \<mapsto> b)) p = (m(p \<mapsto> b)) p"
      using Cons.prems(1) by (intro fold_update_other) simp
    with 0 bs show ?thesis by (simp only: zip_Cons_Cons fold_simps comp_apply prod.case nth_Cons_0 fun_upd_same)
  next
    case (Suc j)
    with Cons.IH [of j bs' "m(p \<mapsto> b)"] Cons.prems bs show ?thesis by simp
  qed
qed

lemma fold_create_other: "q \<notin> set ps \<Longrightarrow> fold (\<lambda>p m. m(p \<mapsto> x)) ps m q = m q"
  by (induction ps arbitrary: m) auto

lemma bucket_path_inject [simp]: "bucket_path dir b = bucket_path dir b' \<longleftrightarrow> b = b'"
  by (auto simp: bucket_path_def pad_zero_inject)

lemma bucket_path_not_arrival [simp]: "bucket_path dir b \<noteq> path_join dir ''arrival.bin''"
  by (simp add: bucket_path_def)

lemma scatter_to_buckets_ok:
  assumes arr: "fs (path_join dir ''arrival.bin'') = Some (frames_bytes F)" and F: "\<forall>f \<in> set F. frame_ok f"
    and k: "0 < k" "k \<le> 6"
  shows "\<exists>fs'. scatter_to_buckets dir (path_join dir ''arrival.bin'') (2 ^ k) fs =
      (Ok (map (bucket_path dir) [0..<2 ^ k]), fs') \<and>
    (\<forall>b < 2 ^ k. fs' (bucket_path dir b) = Some (frames_bytes (bucket_frames (64 - k) F b))) \<and>
    (\<forall>q. q \<notin> bucket_path dir ` {..<2 ^ k} \<longrightarrow> fs' q = fs q)"
proof -
  let ?ps = "map (bucket_path dir) [0..<2 ^ k]"
  let ?outs = "map (\<lambda>b. frames_bytes (bucket_frames (64 - k) F b)) [0..<2 ^ k]"
  let ?fs1 = "fold (\<lambda>p m. m(p \<mapsto> [])) ?ps fs"
  let ?fs2 = "fold (\<lambda>(p, b) m. m(p \<mapsto> b)) (zip ?ps ?outs) ?fs1"
  have tz: "64 - trailing_zeros (2 ^ k) = 64 - k" using k by (simp add: trailing_zeros_pow2)
  have "scatter_loop (64 - k) (frames_bytes F) (replicate (2 ^ k) []) =
      Ok (map (\<lambda>b. replicate (2 ^ k) [] ! b @ frames_bytes (bucket_frames (64 - k) F b)) [0..<length (replicate (2 ^ k) ([] :: bytes))])"
    using bucket_of_fp(2) [of k] k by (intro scatter_loop_frames [OF F]) auto
  also have "\<dots> = Ok ?outs" by simp
  finally have sl: "scatter_loop (64 - k) (frames_bytes F) (replicate (2 ^ k) []) = Ok ?outs" .
  have arr1: "?fs1 (path_join dir ''arrival.bin'') = Some (frames_bytes F)"
    using arr by (subst fold_create_other) (auto simp: bucket_path_def)
  have c: "file_create = (\<lambda>p. io_do (\<lambda>fs. fs(p \<mapsto> [])))" by (auto simp: file_create_def)
  have w: "(\<lambda>(p, out). write_data_file p out) = (\<lambda>x. io_do (\<lambda>fs. case x of (p, b) \<Rightarrow> fs(p \<mapsto> b)))"
    by (auto simp: write_data_file_def)
  have "scatter_to_buckets dir (path_join dir ''arrival.bin'') (2 ^ k) fs = (Ok ?ps, ?fs2)"
    unfolding scatter_to_buckets_def Let_def tz c w
    using arr1 sl
    by (simp add: io_mapM_do io_bind_def read_file_def file_open_def io_lift_def io_return_def case_prod_beta'
        del: upt_Suc)
  moreover have "?fs2 (bucket_path dir b) = Some (frames_bytes (bucket_frames (64 - k) F b))" if "b < 2 ^ k" for b
    using fold_update_nth [of ?ps b ?outs ?fs1] that by (simp add: distinct_map inj_on_def)
  moreover have "?fs2 q = fs q" if "q \<notin> bucket_path dir ` {..<2 ^ k}" for q
    using that by (subst fold_update_other, force) (subst fold_create_other, auto)
  ultimately show ?thesis by blast
qed

text \<open>The buckets a partition is built from: the log itself, or its radix buckets.\<close>

lemma buckets_emitted:
  assumes inv: "em_inv z xxh64 codec plan em []" and pl: "plan_ok plan" and c: "codec_ok z c codec"
    and srt: "sort_ok sort_u" and arr: "fs (path_join dir ''arrival.bin'') = Some (frames_bytes F)"
    and F: "\<forall>f \<in> set F. frame_ok f" and len: "values_len F < 2 ^ 64"
    and bk: "(if n = 1 then io_return [path_join dir ''arrival.bin'']
       else scatter_to_buckets dir (path_join dir ''arrival.bin'') n) fs = (Ok ps, fs1)"
    and n: "n = 2 ^ k" "k \<le> 6"
    and fs2: "\<And>q. q \<notin> out \<Longrightarrow> fs2 q = fs1 q" and out: "out \<inter> (set ps \<union> {path_join dir ''arrival.bin''}) = {}"
  shows "\<exists>em' G fs3. io_foldM (emit_bucket z xxh64 sort_u plan c (path_join dir ''arrival.bin'')) ps em fs2 = (Ok em', fs3) \<and>
    sorted_perm F G \<and> em_inv z xxh64 codec plan em' G \<and>
    (\<forall>q. q \<notin> set ps \<longrightarrow> fs3 q = fs2 q)"
proof (cases "n = 1")
  case True
  let ?a = "path_join dir ''arrival.bin''"
  have ps: "ps = [?a]" "fs1 = fs" using bk True by (auto simp: io_return_def)
  have a2: "fs2 ?a = Some (frames_bytes F)" using fs2 [of ?a] out ps arr by auto
  from emit_buckets_ok [OF inv pl c srt, of ps fs2 "[F]" ?a] a2 F len obtain em' Gs fs3 where
    "io_foldM (emit_bucket z xxh64 sort_u plan c ?a) ps em fs2 = (Ok em', fs3)"
    "list_all2 sorted_perm [F] Gs" "em_inv z xxh64 codec plan em' (concat Gs)"
    "\<forall>q. q \<notin> set ps \<longrightarrow> fs3 q = fs2 q"
    by (auto simp: ps)
  then show ?thesis by (auto simp: list_all2_Cons1)
next
  case False
  let ?a = "path_join dir ''arrival.bin''"
  let ?Fs = "map (bucket_frames (64 - k) F) [0..<2 ^ k]"
  have k0: "0 < k" using False n(1) by (cases k) simp_all
  from scatter_to_buckets_ok [where fs = fs and dir = dir and F = F, OF arr F k0 n(2)] bk False n(1)
  have ps: "ps = map (bucket_path dir) [0..<2 ^ k]"
    and fs1: "\<forall>b < 2 ^ k. fs1 (bucket_path dir b) = Some (frames_bytes (bucket_frames (64 - k) F b))"
    by auto
  have "fs2 (bucket_path dir b) = Some (frames_bytes (bucket_frames (64 - k) F b))" if "b < 2 ^ k" for b
  proof -
    have "bucket_path dir b \<in> set ps" using that by (auto simp: ps)
    with out have "bucket_path dir b \<notin> out" by blast
    with fs2 fs1 that show ?thesis by simp
  qed
  then have all: "list_all2 (\<lambda>p F. fs2 p = Some (frames_bytes F) \<and> (\<forall>f \<in> set F. frame_ok f)) ps ?Fs"
    using F by (auto simp: ps list_all2_conv_all_nth)
  have "mset (concat ?Fs) = mset F"
    by (rule mset_concat_buckets [where bk = "\<lambda>f :: frame. unat (drop_bit (64 - k) (fst f))"])
      (use n(2) bucket_of_fp(2) [of k] in \<open>auto simp: case_prod_beta'\<close>)
  then have "values_len ([] @ concat ?Fs) < 2 ^ 64" using len values_len_perm by (metis append_Nil)
  moreover have "distinct ps" by (simp add: ps distinct_map inj_on_def)
  ultimately obtain em' Gs fs3 where
    "io_foldM (emit_bucket z xxh64 sort_u plan c ?a) ps em fs2 = (Ok em', fs3)"
    "list_all2 sorted_perm ?Fs Gs" "em_inv z xxh64 codec plan em' ([] @ concat Gs)"
    "\<forall>q. q \<notin> set ps \<longrightarrow> fs3 q = fs2 q"
    using emit_buckets_ok [OF inv pl c srt _ all, of ?a] by auto
  with sorted_perm_buckets [of k F Gs] n(2) show ?thesis by auto
qed

section \<open>A finished partition\<close>

text \<open>
  What the code relies on of a binary fuse filter: it is built from any non-empty set of distinct
  keys, its parts have the published layout, and it has no false negatives.
\<close>

definition xorf_ok :: "xorf_lib \<Rightarrow> bool" where
  "xorf_ok xorf \<longleftrightarrow>
     (\<forall>fps. fps \<noteq> [] \<longrightarrow> distinct fps \<longrightarrow>
        (\<exists>d f. bf8_try_from xorf fps = Ok (d, f) \<and> sketch_parse (d @ f) = Ok (d, f) \<and>
           (\<forall>fp \<in> set fps. bf8_contains xorf d f fp)))"

definition sketch_file_ok ::
    "xorf_lib \<Rightarrow> hash \<Rightarrow> bool \<Rightarrow> files \<Rightarrow> path \<Rightarrow> PartitionBuildDone \<Rightarrow> frame list \<Rightarrow> bool" where
  "sketch_file_ok xorf xxh64 sketch fs dir d F \<longleftrightarrow>
     (if sketch \<and> F \<noteq> [] then
        \<exists>ds f. fs (path_join dir ''sketch.bin'') = Some (ds @ f) \<and> sketch_parse (ds @ f) = Ok (ds, f) \<and>
          (\<forall>fr \<in> set F. bf8_contains xorf ds f (fst fr)) \<and>
          pd_sketch_checksum d = Some (checksum32 xxh64 (ds @ f))
      else pd_sketch_checksum d = None)"

definition partition_ok ::
    "zstd_lib \<Rightarrow> xorf_lib \<Rightarrow> hash \<Rightarrow> Decompressor option \<Rightarrow> u32 \<Rightarrow> bool \<Rightarrow> files \<Rightarrow> path \<Rightarrow> PartitionBuildDone
       \<Rightarrow> frame list \<Rightarrow> bool" where
  "partition_ok z xorf xxh64 codec bs sketch fs dir d F \<longleftrightarrow>
     (\<exists>groups heap G. sorted_perm F G \<and> list_all2 (holds z xxh64 codec heap) G (concat groups) \<and>
        (\<forall>g \<in> set groups. group_ok (unat bs) g) \<and>
        fs (path_join dir ''blocks.bin'') = Some (concat (map (seal xxh64 (unat bs) \<circ> map snd) groups)) \<and>
        fs (path_join dir ''heap.bin'') = Some heap \<and>
        fs (path_join dir ''fences.bin'') = Some (concat (map u32_le (map block_fence groups))) \<and>
        pd_n_blocks d = word_of_nat (length groups)) \<and>
     sketch_file_ok xorf xxh64 sketch fs dir d F \<and> pd_n_keys d = word_of_nat (length F)"

abbreviation part_outputs :: "path \<Rightarrow> path set" where
  "part_outputs dir \<equiv> path_join dir ` {''blocks.bin'', ''heap.bin'', ''fences.bin'', ''sketch.bin''}"

lemma partition_ok_cong:
  assumes "\<And>p. p \<in> part_outputs dir \<Longrightarrow> fs' p = fs p"
  shows "partition_ok z xorf xxh64 codec bs sketch fs' dir d F \<longleftrightarrow>
    partition_ok z xorf xxh64 codec bs sketch fs dir d F"
  using assms by (simp add: partition_ok_def sketch_file_ok_def)

lemma partition_okI:
  assumes "sorted_perm F G" and "list_all2 (holds z xxh64 codec heap) G (concat groups)"
    and "\<forall>g \<in> set groups. group_ok (unat bs) g"
    and "fs (path_join dir ''blocks.bin'') = Some (concat (map (seal xxh64 (unat bs) \<circ> map snd) groups))"
    and "fs (path_join dir ''heap.bin'') = Some heap"
    and "fs (path_join dir ''fences.bin'') = Some (concat (map u32_le (map block_fence groups)))"
    and "pd_n_blocks d = word_of_nat (length groups)" and "pd_n_keys d = word_of_nat (length F)"
    and "sketch_file_ok xorf xxh64 sketch fs dir d F"
  shows "partition_ok z xorf xxh64 codec bs sketch fs dir d F"
  using assms unfolding partition_ok_def by blast

lemma sketch_file_okI:
  assumes "sketch" and "F \<noteq> []" and "fs (path_join dir ''sketch.bin'') = Some (ds @ f)"
    and "sketch_parse (ds @ f) = Ok (ds, f)" and "\<forall>fr \<in> set F. bf8_contains xorf ds f (fst fr)"
    and "pd_sketch_checksum d = Some (checksum32 xxh64 (ds @ f))"
  shows "sketch_file_ok xorf xxh64 sketch fs dir d F"
  using assms unfolding sketch_file_ok_def by auto

lemma distinct_remdups_adj_sorted: "sorted (xs :: 'a::linorder list) \<Longrightarrow> distinct (remdups_adj xs)"
proof (induction xs rule: remdups_adj.induct)
  case (3 x y xs)
  show ?case
  proof (cases "x = y")
    case False
    with 3(3) have "x < y" by auto
    moreover have "y \<le> w" if "w \<in> set (y # xs)" for w using that 3(3) by auto
    ultimately have "x \<notin> set (y # xs)" by fastforce
    then have "x \<notin> set (remdups_adj (y # xs))" by simp
    with False 3 show ?thesis by simp
  qed (use 3 in simp)
qed simp_all

lemma write_outputs_ok:
  assumes inv: "em_inv z xxh64 codec plan em G" and perm: "sorted_perm F G" and x: "pl_sketch plan \<Longrightarrow> xorf_ok xorf"
  shows "\<exists>d fs'. write_outputs xxh64 xorf dir plan arrival_bytes em fs = (Ok d, fs') \<and>
    partition_ok z xorf xxh64 codec (pl_block_size plan) (pl_sketch plan) fs' dir d F \<and>
    (\<forall>q. q \<notin> part_outputs dir \<longrightarrow> fs' q = fs q)"
proof -
  obtain groups cur where asm: "asm_inv xxh64 id [] (em_asm em) groups cur"
    and all: "list_all2 (holds z xxh64 codec (em_heap em)) G (concat groups @ cur)"
    and bs: "ba_block_size (em_asm em) = unat (pl_block_size plan)"
    using inv by (auto simp: em_inv_def)
  have "\<not> ba_failed (em_asm em)" using asm by (simp add: asm_inv_def)
  then obtain fences a' where fin: "assembler_finish xxh64 file_sink (em_asm em) = (Ok fences, a')"
    by (cases "ba_buf (em_asm em) = []") (auto simp: assembler_finish_def cut_def file_sink_def Let_def)
  from blocks_file.assembler_finish_ok [OF asm fin] bs obtain all_groups where
    g: "concat all_groups = concat groups @ cur" "\<forall>g \<in> set all_groups. group_ok (unat (pl_block_size plan)) g"
      "fences = map block_fence all_groups"
      "ba_sink a' = concat (map (seal xxh64 (unat (pl_block_size plan)) \<circ> map snd) all_groups)" by auto
  have nk: "em_n_keys em = word_of_nat (length F)"
    using inv perm by (metis em_inv_def size_mset sorted_perm_def)
  let ?fs = "fs(path_join dir ''blocks.bin'' \<mapsto> ba_sink a', path_join dir ''heap.bin'' \<mapsto> em_heap em,
      path_join dir ''fences.bin'' \<mapsto> concat (map u32_le fences))"
  let ?d = "\<lambda>n c. \<lparr>pd_n_keys = em_n_keys em, pd_data_bytes = arrival_bytes,
      pd_n_blocks = word_of_nat (length fences), pd_n_stubs = em_n_stubs em,
      pd_blocks_bytes = word_of_nat (length fences) * ucast (pl_block_size plan),
      pd_heap_bytes = em_heap_offset em, pd_sketch_bytes = n, pd_sketch_checksum = c,
      pd_value_bytes_raw = em_value_bytes_raw em, pd_value_bytes_stored = em_value_bytes_stored em,
      pd_n_compressed = em_n_compressed em, pd_n_raw = em_n_raw em\<rparr>"
  have all': "list_all2 (holds z xxh64 codec (em_heap em)) G (concat all_groups)" using all g(1) by simp
  note unfold = write_outputs_def fin io_lift_def io_bind_def write_data_file_def io_do_def io_return_def
    prod.case res.case Let_def
  have set: "set F = set G" using perm by (metis set_mset_mset sorted_perm_def)
  show ?thesis
  proof (cases "pl_sketch plan \<and> F \<noteq> []")
    case True
    let ?fps = "remdups_adj (em_sketch_fps em)"
    have fps: "em_sketch_fps em = map fst G" using inv True by (simp add: em_inv_def)
    moreover have "G \<noteq> []" using True set by auto
    ultimately have ne: "em_sketch_fps em \<noteq> []" by simp
    have "distinct ?fps" using perm by (intro distinct_remdups_adj_sorted) (simp add: fps sorted_perm_def)
    moreover have "?fps \<noteq> []" using ne by simp
    ultimately obtain ds f where sk: "bf8_try_from xorf ?fps = Ok (ds, f)" "sketch_parse (ds @ f) = Ok (ds, f)"
      "\<forall>fp \<in> set ?fps. bf8_contains xorf ds f fp"
      using x True unfolding xorf_ok_def by blast
    have mem: "\<forall>fr \<in> set F. bf8_contains xorf ds f (fst fr)" using sk(3) by (simp add: fps set)
    have eq: "write_outputs xxh64 xorf dir plan arrival_bytes em fs =
        (Ok (?d (word_of_nat (length (ds @ f))) (Some (checksum32 xxh64 (ds @ f)))),
         ?fs(path_join dir ''sketch.bin'' \<mapsto> ds @ f))"
      using True ne sk(1) by (simp add: unfold sketch_build_def)
    show ?thesis
      unfolding eq
      by (intro exI conjI, rule refl, rule partition_okI [OF perm all'])
        (auto simp: nk g intro!: sketch_file_okI [OF _ _ _ sk(2) mem] simp: True)
  next
    case False
    then have "\<not> (pl_sketch plan \<and> em_sketch_fps em \<noteq> [])" using inv set by (auto simp: em_inv_def)
    then have eq: "write_outputs xxh64 xorf dir plan arrival_bytes em fs = (Ok (?d 0 None), ?fs)"
      by (auto simp: unfold)
    show ?thesis
      unfolding eq
      by (intro exI conjI, rule refl, rule partition_okI [OF perm all'])
        (auto simp: nk g sketch_file_ok_def False)
  qed
qed

lemma tmp_path_join: "tmp_path (path_join dir name) = path_join dir (name @ ''.tmp'')"
  by (simp add: tmp_path_def path_join_def)

text \<open>In both modes the marker is published whole; the rename leaves no temporary file.\<close>

lemma write_marker_eq:
  "write_marker (path_join dir name) json mode fs =
     (Ok (), (if mode = Rename then fs(path_join dir (name @ ''.tmp'') := None) else fs)(path_join dir name \<mapsto> json))"
  by (cases mode) (auto simp: write_marker_def tmp_path_join rename_file_def file_create_def write_data_file_def
      io_bind_def io_do_def)

lemma block_size_aligned:
  assumes "plan_ok plan"
  shows "unat (pl_block_size plan) mod 8 = 0"
proof -
  obtain j where j: "unat (pl_block_size plan) = 2 ^ j"
    using is_power_of_two_unat assms by (auto simp: plan_ok_def)
  have "3 \<le> j"
  proof (rule ccontr)
    assume "\<not> 3 \<le> j"
    then have "(2 ^ j :: nat) \<le> 2 ^ 3" by (intro power_increasing) simp_all
    then show False using assms j by (simp add: plan_ok_def)
  qed
  then have "(2 ^ 3 :: nat) dvd 2 ^ j" by (rule le_imp_power_dvd)
  then show ?thesis by (simp add: j)
qed

lemma emit_new_inv:
  assumes "plan_ok plan"
  shows "\<exists>asm. BlockAssembler_new (unat (pl_block_size plan)) [] = Ok asm \<and> em_inv z xxh64 codec plan (emit_new asm) []"
  using block_size_aligned [OF assms] assms
  by (auto simp: BlockAssembler_new_def em_inv_def emit_new_def asm_inv_def plan_ok_def RECORD_ALIGN_def
      CHECKSUM_LEN_def encoded_len_def align8_def HEADER_LEN_def STUB_PAYLOAD_LEN_def
      intro!: exI [of _ "[] :: frec list list"] exI [of _ "[] :: frec list"])

text \<open>Bucket and temporary files of a directory, and names that are neither.\<close>

abbreviation transient :: "path \<Rightarrow> path \<Rightarrow> bool" where
  "transient dir p \<equiv> p \<noteq> [] \<and> butlast p = dir \<and> is_bucket_or_tmp (last p)"

lemma transient_join: "transient dir (path_join dir' name) \<longleftrightarrow> dir' = dir \<and> is_bucket_or_tmp name"
  by (simp add: path_join_def)

lemma transient_in_dir: "transient dir p \<Longrightarrow> p \<in> in_dir dir"
  unfolding in_dir_def path_join_def by (metis (mono_tags) append_butlast_last_id mem_Collect_eq)

lemma not_bucket_or_tmp [simp]:
  "\<not> is_bucket_or_tmp ''arrival.bin''" "\<not> is_bucket_or_tmp ''blocks.bin''" "\<not> is_bucket_or_tmp ''heap.bin''"
  "\<not> is_bucket_or_tmp ''fences.bin''" "\<not> is_bucket_or_tmp ''sketch.bin''" "\<not> is_bucket_or_tmp ''build.done''"
  by (simp_all add: is_bucket_or_tmp_def)

text \<open>The sweep before a build keeps the arrival log.\<close>

definition swept :: "path \<Rightarrow> files \<Rightarrow> files" where
  "swept dir fs p = (if p \<in> part_outputs dir \<or> transient dir p then None else fs p)"

lemma swept_arrival [simp]: "swept dir fs (path_join dir ''arrival.bin'') = fs (path_join dir ''arrival.bin'')"
  unfolding swept_def transient_join by auto

lemma swept_other: "q \<notin> in_dir dir \<Longrightarrow> swept dir fs q = fs q"
  using transient_in_dir [of q dir] by (auto simp: swept_def)

lemma sweep_outputs:
  "io_bind (io_mapM (\<lambda>f. remove_file (path_join dir f)) [''blocks.bin'', ''heap.bin'', ''fences.bin'', ''sketch.bin'']) (\<lambda>_.
     io_bind (remove_bucket_files dir) f) fs = f () (swept dir fs)"
proof -
  have "(\<lambda>p. if p \<noteq> [] \<and> butlast p = dir \<and> is_bucket_or_tmp (last p) then None
      else (fs(path_join dir ''blocks.bin'' := None, path_join dir ''heap.bin'' := None,
          path_join dir ''fences.bin'' := None, path_join dir ''sketch.bin'' := None)) p) = swept dir fs"
    by (auto simp: swept_def fun_eq_iff)
  then show ?thesis
    by (simp add: remove_file_def remove_bucket_files_def io_bind_def io_do_def io_return_def)
qed

lemma buckets_available:
  assumes arr: "fs (path_join dir ''arrival.bin'') = Some (frames_bytes F)" and F: "\<forall>f \<in> set F. frame_ok f"
    and k: "k \<le> 6"
  shows "\<exists>ps fs1. (if (2 :: nat) ^ k = 1 then io_return [path_join dir ''arrival.bin'']
       else scatter_to_buckets dir (path_join dir ''arrival.bin'') (2 ^ k)) fs = (Ok ps, fs1) \<and>
    set ps \<subseteq> insert (path_join dir ''arrival.bin'') (bucket_path dir ` UNIV) \<and>
    (\<forall>q. q \<notin> bucket_path dir ` UNIV \<longrightarrow> fs1 q = fs q)"
proof (cases "(2 :: nat) ^ k = 1")
  case False
  then have "0 < k" by (cases k) simp_all
  from scatter_to_buckets_ok [where fs = fs and dir = dir and F = F, OF arr F this k] obtain fs' where
    "scatter_to_buckets dir (path_join dir ''arrival.bin'') (2 ^ k) fs = (Ok (map (bucket_path dir) [0..<2 ^ k]), fs')"
    and "\<forall>q. q \<notin> bucket_path dir ` {..<2 ^ k} \<longrightarrow> fs' q = fs q" by blast
  with False show ?thesis by (intro exI [of _ "map (bucket_path dir) [0..<2 ^ k]"] exI [of _ fs']) auto
qed (auto simp: io_return_def)

lemma bucket_path_not_output: "bucket_path dir b \<notin> part_outputs dir"
  by (auto simp: bucket_path_def)

lemma build_fresh_ok:
  assumes pl: "plan_ok plan" and pc: "partition_compressor z plan dict = Ok c" and c: "codec_ok z c codec"
    and srt: "sort_ok sort_u" and x: "pl_sketch plan \<Longrightarrow> xorf_ok xorf"
    and arr: "fs (path_join dir ''arrival.bin'') = Some (frames_bytes F)"
    and F: "\<forall>f \<in> set F. frame_ok f" and len: "values_len F < 2 ^ 64"
  shows "\<exists>d fs'. build_fresh z xorf xxh64 sort_u dir plan dict target fs = (Ok d, fs') \<and>
    partition_ok z xorf xxh64 codec (pl_block_size plan) (pl_sketch plan) fs' dir d F \<and>
    (\<forall>q. q \<notin> in_dir dir \<longrightarrow> fs' q = fs q)"
proof -
  let ?a = "path_join dir ''arrival.bin''"
  let ?fs0 = "swept dir fs" and ?n = "radix_bucket_count (word_of_nat (length (frames_bytes F))) target"
  obtain k where k: "k \<le> 6" "?n = 2 ^ k" using radix_bucket_count_pow2 by blast
  have arr0: "?fs0 ?a = Some (frames_bytes F)" using arr by simp
  obtain ps fs1 where ps: "(if ?n = 1 then io_return [?a] else scatter_to_buckets dir ?a ?n) ?fs0 = (Ok ps, fs1)"
    and sub: "set ps \<subseteq> insert ?a (bucket_path dir ` UNIV)"
    and fs1: "\<forall>q. q \<notin> bucket_path dir ` UNIV \<longrightarrow> fs1 q = ?fs0 q"
    using buckets_available [where fs = ?fs0 and dir = dir and F = F, OF arr0 F k(1)] unfolding k(2) by blast
  let ?out = "path_join dir ` {''blocks.bin'', ''heap.bin''}"
  let ?fs2 = "fs1(path_join dir ''blocks.bin'' \<mapsto> [], path_join dir ''heap.bin'' \<mapsto> [])"
  have "?out \<inter> (set ps \<union> {?a}) = {}" using sub by (auto simp: bucket_path_def)
  moreover obtain asm where asm: "BlockAssembler_new (unat (pl_block_size plan)) [] = Ok asm"
    "em_inv z xxh64 codec plan (emit_new asm) []" using emit_new_inv [OF pl] by blast
  ultimately obtain em' G fs3 where em: "io_foldM (emit_bucket z xxh64 sort_u plan c ?a) ps (emit_new asm) ?fs2 = (Ok em', fs3)"
    "sorted_perm F G" "em_inv z xxh64 codec plan em' G" "\<forall>q. q \<notin> set ps \<longrightarrow> fs3 q = ?fs2 q"
    using buckets_emitted [where fs = ?fs0 and dir = dir and F = F and ?fs2.0 = ?fs2 and out = ?out,
        OF asm(2) pl c srt arr0 F len ps k(2,1)] by fastforce
  from write_outputs_ok [OF em(3,2) x] obtain d fs' where
    w: "write_outputs xxh64 xorf dir plan (word_of_nat (length (frames_bytes F))) em' fs3 = (Ok d, fs')"
    "partition_ok z xorf xxh64 codec (pl_block_size plan) (pl_sketch plan) fs' dir d F"
    "\<forall>q. q \<notin> part_outputs dir \<longrightarrow> fs' q = fs3 q" by blast
  have "build_fresh z xorf xxh64 sort_u dir plan dict target fs = (Ok d, fs')"
    unfolding build_fresh_def Let_def sweep_outputs
    using arr0 ps pc asm(1) em(1) w(1)
    by (simp add: io_bind_def read_file_def file_open_def io_lift_def file_create_def io_do_def)
  moreover have "fs' q = fs q" if "q \<notin> in_dir dir" for q
  proof -
    have "q \<notin> part_outputs dir" "q \<notin> bucket_path dir ` UNIV" "q \<noteq> ?a"
      using that by (auto simp: bucket_path_def)
    with sub have "q \<notin> set ps" "q \<notin> part_outputs dir" "q \<notin> bucket_path dir ` UNIV" by auto
    with w(3) em(4) fs1 swept_other [OF that] show ?thesis by auto
  qed
  ultimately show ?thesis using w(2) by blast
qed

lemma sweep_partition_eq:
  "sweep_partition_transients dir fs = (Ok (), \<lambda>p. if p \<noteq> [] \<and> butlast p = dir \<and> is_bucket_or_tmp (last p) then None
     else (fs(path_join dir ''arrival.bin'' := None, path_join dir ''arrival.stats'' := None)) p)"
  by (simp add: sweep_partition_transients_def remove_file_def remove_bucket_files_def io_bind_def io_do_def)

lemma sweep_keeps:
  assumes "sweep_partition_transients dir fs = (r, fs')"
  shows "\<And>q. q \<notin> in_dir dir \<Longrightarrow> fs' q = fs q" and "\<And>q. q \<in> part_outputs dir \<Longrightarrow> fs' q = fs q"
    and "fs' (path_join dir ''build.done'') = fs (path_join dir ''build.done'')"
proof -
  have fs': "fs' = (\<lambda>p. if p \<noteq> [] \<and> butlast p = dir \<and> is_bucket_or_tmp (last p) then None
     else (fs(path_join dir ''arrival.bin'' := None, path_join dir ''arrival.stats'' := None)) p)"
    using assms by (simp add: sweep_partition_eq)
  show "fs' q = fs q" if "q \<notin> in_dir dir" for q
  proof -
    have "\<not> transient dir q" using that transient_in_dir by blast
    moreover have "q \<noteq> path_join dir ''arrival.bin''" "q \<noteq> path_join dir ''arrival.stats''" using that by auto
    ultimately show ?thesis unfolding fs' by (simp only: if_False) simp
  qed
  have keep: "fs' (path_join dir n) = fs (path_join dir n)"
    if "\<not> is_bucket_or_tmp n" "n \<noteq> ''arrival.bin''" "n \<noteq> ''arrival.stats''" for n
    unfolding fs' transient_join using that by simp
  show "fs' q = fs q" if "q \<in> part_outputs dir" for q
    using that by (auto intro!: keep)
  show "fs' (path_join dir ''build.done'') = fs (path_join dir ''build.done'')"
    by (rule keep) simp_all
qed

lemma marker_written:
  obtains fs2 where "write_marker (path_join dir ''build.done'') json mode fs1 = (Ok (), fs2)"
    and "fs2 (path_join dir ''build.done'') = Some json"
    and "\<And>q. q \<notin> in_dir dir \<or> q \<in> part_outputs dir \<Longrightarrow> fs2 q = fs1 q"
proof -
  let ?fs = "(if mode = Rename then fs1(path_join dir (''build.done'' @ ''.tmp'') := None) else fs1)
    (path_join dir ''build.done'' \<mapsto> json)"
  have "?fs q = fs1 q" if "q \<notin> in_dir dir \<or> q \<in> part_outputs dir" for q
    using that by (cases mode) auto
  moreover have "?fs (path_join dir ''build.done'') = Some json" by simp
  ultimately show thesis using that [OF write_marker_eq] by blast
qed

lemma build_partition_ok:
  assumes "plan_ok plan" and "partition_compressor z plan dict = Ok c" and "codec_ok z c codec"
    and "sort_ok sort_u" and x: "pl_sketch plan \<Longrightarrow> xorf_ok xorf"
    and fresh: "fs (path_join dir ''build.done'') = None"
    and "fs (path_join dir ''arrival.bin'') = Some (frames_bytes F)"
    and "\<forall>f \<in> set F. frame_ok f" and "values_len F < 2 ^ 64"
  shows "\<exists>d fs'. build_partition z xorf xxh64 sort_u sj dir plan dict target mode fs = (Ok d, fs') \<and>
    partition_ok z xorf xxh64 codec (pl_block_size plan) (pl_sketch plan) fs' dir d F \<and>
    fs' (path_join dir ''build.done'') = Some (enc_pdone sj d) \<and>
    (\<forall>q. q \<notin> in_dir dir \<longrightarrow> fs' q = fs q)"
proof -
  obtain d fs1 where d: "build_fresh z xorf xxh64 sort_u dir plan dict target fs = (Ok d, fs1)"
    and ok: "partition_ok z xorf xxh64 codec (pl_block_size plan) (pl_sketch plan) fs1 dir d F"
    and out: "\<forall>q. q \<notin> in_dir dir \<longrightarrow> fs1 q = fs q"
    using build_fresh_ok [where fs = fs and dir = dir and F = F, OF assms(1-5) assms(7-9)] by blast
  obtain fs2 where fs2: "write_marker (path_join dir ''build.done'') (enc_pdone sj d) mode fs1 = (Ok (), fs2)"
    and done2: "fs2 (path_join dir ''build.done'') = Some (enc_pdone sj d)"
    and keep2: "\<And>q. q \<notin> in_dir dir \<or> q \<in> part_outputs dir \<Longrightarrow> fs2 q = fs1 q"
    using marker_written [of dir "enc_pdone sj d" mode fs1] by metis
  obtain fs3 where fs3: "sweep_partition_transients dir fs2 = (Ok (), fs3)" by (simp add: sweep_partition_eq)
  note keep3 = sweep_keeps [OF fs3]
  have "build_partition z xorf xxh64 sort_u sj dir plan dict target mode fs = (Ok d, fs3)"
    using fresh d fs2 fs3 by (simp add: build_partition_def io_bind_def path_exists_def io_return_def)
  moreover have "partition_ok z xorf xxh64 codec (pl_block_size plan) (pl_sketch plan) fs3 dir d F"
    using ok by (subst partition_ok_cong [of dir fs3 fs1]) (simp_all only: keep3(2) keep2 simp_thms)
  ultimately show ?thesis using done2 keep2 keep3(1,3) out by auto
qed

section \<open>Opening a finished partition\<close>

lemma length_concat_uniform: "\<forall>x \<in> set xs. length x = w \<Longrightarrow> length (concat xs) = length xs * w"
  by (induction xs) auto

lemma bslice_concat_uniform:
  assumes "\<forall>x \<in> set xs. length x = w" and "i < length xs"
  shows "bslice (i * w) w (concat xs) = xs ! i"
proof -
  have "concat xs = concat (take i xs) @ xs ! i @ concat (drop (Suc i) xs)"
    using id_take_nth_drop [OF assms(2)] by (metis concat.simps(2) concat_append)
  moreover have "length (concat (take i xs)) = i * w"
    using assms by (subst length_concat_uniform [where w = w]) (auto dest: in_set_takeD)
  moreover have "length (xs ! i) = w" using assms by simp
  ultimately show ?thesis by (simp add: bslice_middle)
qed

lemma fence_load_ok:
  assumes "fs p = Some (concat (map u32_le fences))" and "n = word_of_nat (length fences)"
  shows "fence_load fs p n i = Ok fences"
proof -
  let ?b = "concat (map u32_le fences)"
  have len: "length ?b = 4 * length fences" by (rule u32_codec.length_concat_enc)
  then have "(word_of_nat (length ?b) :: u64) = n * 4" by (simp add: assms(2))
  moreover have "map u32_of_le (chunks 4 (length ?b div 4) ?b) = fences"
    using u32_codec.decode_chunks [of fences "[]"] len by simp
  ultimately show ?thesis
    using assms(1) by (simp add: fence_load_def file_open_def Let_def)
qed

definition seals :: "hash \<Rightarrow> u32 \<Rightarrow> frec list list \<Rightarrow> bytes" where
  "seals xxh64 bs groups = concat (map (seal xxh64 (unat bs) \<circ> map snd) groups)"

text \<open>What an opened partition holds of the frames it was built from.\<close>

definition serves ::
    "zstd_lib \<Rightarrow> xorf_lib \<Rightarrow> hash \<Rightarrow> u32 \<Rightarrow> Decompressor option \<Rightarrow> Partition \<Rightarrow> frame list \<Rightarrow> bool" where
  "serves z xorf xxh64 bs codec part F \<longleftrightarrow>
     (\<exists>groups G. sorted_perm F G \<and> list_all2 (holds z xxh64 codec (pt_heap part)) G (concat groups) \<and>
        (\<forall>g \<in> set groups. group_ok (unat bs) g) \<and> pt_blocks part = seals xxh64 bs groups \<and>
        pt_fences part = map block_fence groups) \<and>
     (\<forall>s. pt_sketch part = Some s \<longrightarrow> (\<forall>f \<in> set F. sketch_contains xorf s (fst f)))"

lemma groups_le_frames:
  assumes "list_all2 P G (concat groups)" and "\<forall>g \<in> set groups. group_ok bs g" and "sorted_perm F G"
  shows "length groups \<le> length F" and "groups = [] \<longleftrightarrow> F = []"
proof -
  have ne: "\<forall>g \<in> set groups. g \<noteq> []" using assms(2) by (auto simp: group_ok_def)
  have "length F = length (concat groups)"
    using assms(1,3) by (metis list_all2_lengthD size_mset sorted_perm_def)
  moreover have "length groups \<le> length (concat groups)"
    using ne
  proof (induction groups)
    case (Cons g groups)
    then have "0 < length g" "length groups \<le> length (concat groups)" by simp_all
    then have "Suc (length groups) \<le> length g + length (concat groups)" by linarith
    then show ?case by simp
  qed simp
  ultimately show "length groups \<le> length F" by simp
  show "groups = [] \<longleftrightarrow> F = []"
    using \<open>length F = length (concat groups)\<close> ne by (cases groups) auto
qed

lemma blocks_len_bound:
  assumes "g \<le> n" and "n < 2 ^ 32" and "b < (2 :: nat) ^ 32"
  shows "g * b < 2 ^ 64"
proof -
  have "g * b \<le> n * b" using assms(1) by simp
  also have "\<dots> < 2 ^ 32 * 2 ^ 32" using assms(2,3) by (intro mult_strict_mono) simp_all
  finally show ?thesis by simp
qed

lemma open_partition_ok:
  assumes ok: "partition_ok z xorf xxh64 codec (m5_block_size meta) sketch fs dir d F"
    and dir: "dir = partition_dir root (n_partitions layout) i"
    and sk: "m5_sketch meta \<noteq> None \<longleftrightarrow> sketch" and F: "length F < 2 ^ 32" and bs: "4 \<le> unat (m5_block_size meta)"
  shows "\<exists>part. open_partition xxh64 fs root layout meta
      (i, \<lparr>n_blocks = pd_n_blocks d, sketch_checksum = pd_sketch_checksum d\<rparr>) = Ok part \<and>
    serves z xorf xxh64 (m5_block_size meta) codec part F"
proof -
  let ?bs = "m5_block_size meta"
  let ?pm = "\<lparr>n_blocks = pd_n_blocks d, sketch_checksum = pd_sketch_checksum d\<rparr>"
  obtain groups heap G where g: "sorted_perm F G" "list_all2 (holds z xxh64 codec heap) G (concat groups)"
      "\<forall>g \<in> set groups. group_ok (unat ?bs) g" "fs (path_join dir ''blocks.bin'') = Some (seals xxh64 ?bs groups)"
      "fs (path_join dir ''heap.bin'') = Some heap"
      "fs (path_join dir ''fences.bin'') = Some (concat (map u32_le (map block_fence groups)))"
      "pd_n_blocks d = word_of_nat (length groups)"
    and skf: "sketch_file_ok xorf xxh64 sketch fs dir d F"
    using ok unfolding partition_ok_def seals_def by blast
  note le = groups_le_frames [OF g(2,3,1)]
  have len: "length (seals xxh64 ?bs groups) = length groups * unat ?bs"
    using bs unfolding seals_def by (subst length_concat_uniform [where w = "unat ?bs"]) (auto simp: length_seal)
  have "(word_of_nat (length groups * unat ?bs) :: u64) = word_of_nat (length groups) * word_of_nat (unat ?bs)" by simp
  also have "word_of_nat (unat ?bs) = (ucast ?bs :: u64)" by simp
  finally have bl: "(word_of_nat (length (seals xxh64 ?bs groups)) :: u64) = pd_n_blocks d * ucast ?bs"
    by (simp only: len g(7))
  have "unat (pd_n_blocks d) = length groups"
    using F le(1) by (simp add: g(7) unat_word_of_nat_less)
  then have nz: "n_blocks ?pm > 0 \<longleftrightarrow> F \<noteq> []" using le(2) by (simp add: word_less_nat_alt)
  obtain s where s: "open_sketch xxh64 fs dir i meta ?pm = Ok s"
    "\<And>x. s = Some x \<Longrightarrow> \<forall>f \<in> set F. sketch_contains xorf x (fst f)"
  proof (cases "sketch \<and> F \<noteq> []")
    case True
    with skf obtain ds f where "fs (path_join dir ''sketch.bin'') = Some (ds @ f)" "sketch_parse (ds @ f) = Ok (ds, f)"
      "\<forall>fr \<in> set F. bf8_contains xorf ds f (fst fr)" "pd_sketch_checksum d = Some (checksum32 xxh64 (ds @ f))"
      unfolding sketch_file_ok_def by auto
    with True sk nz that [of "Some (ds, f)"] show thesis
      by (simp add: open_sketch_def verify_sketch_def sketch_contains_def Let_def)
  next
    case False
    with sk nz that [of None] show thesis by (auto simp: open_sketch_def)
  qed
  have "open_partition xxh64 fs root layout meta (i, ?pm) =
      Ok \<lparr>pt_fences = map block_fence groups, pt_blocks = seals xxh64 ?bs groups, pt_heap = heap, pt_sketch = s\<rparr>"
    using fence_load_ok [where fs = fs, OF g(6), of "pd_n_blocks d" i] g(4,5,7) bl s(1) dir
    by (simp add: open_partition_def file_open_def Let_def)
  with g(1-3) s(2) show ?thesis unfolding serves_def by fastforce
qed

section \<open>Looking up a key\<close>

lemma read_block:
  assumes "b < length groups" and "length groups < 2 ^ 32" and bs: "4 \<le> unat bs"
  shows "pread (seals xxh64 bs groups) (word_of_nat b * ucast bs) bs = Ok (seal xxh64 (unat bs) (map snd (groups ! b)))"
proof -
  let ?S = "map (seal xxh64 (unat bs) \<circ> map snd) groups"
  have u: "\<forall>x \<in> set ?S. length x = unat bs" using bs by (auto simp: length_seal)
  have B: "b * unat bs < 2 ^ 64"
    using assms(1,2) unat_u32_less [of bs] by (intro blocks_len_bound [of b "length groups"]) simp_all
  have "unat (ucast bs :: u64) = unat bs" by (rule unat_ucast_up) simp
  moreover have "unat (word_of_nat b :: u64) = b" using assms by (intro unat_word_of_nat_less) simp
  ultimately have off: "unat (word_of_nat b * ucast bs :: u64) = b * unat bs"
    using B by (simp add: unat_word_ariths)
  have "(b + 1) * unat bs \<le> length groups * unat bs" using assms(1) by (intro mult_le_mono1) simp
  then have "b * unat bs + unat bs \<le> length (seals xxh64 bs groups)"
    using length_concat_uniform [OF u] by (simp add: seals_def)
  moreover have "bslice (b * unat bs) (unat bs) (seals xxh64 bs groups) = ?S ! b"
    using bslice_concat_uniform [OF u, of b] assms(1) by (simp add: seals_def)
  ultimately show ?thesis using assms(1) by (simp add: pread_def off)
qed

lemma find_map_snd: "List.find P (map snd xs) = map_option snd (List.find (\<lambda>x. P (snd x)) xs)"
  by (induction xs) auto

lemma find_append: "List.find P (xs @ ys) = (case List.find P xs of Some x \<Rightarrow> Some x | None \<Rightarrow> List.find P ys)"
  by (induction xs) auto

text \<open>Probing is a search through the records of the candidate blocks in order.\<close>

lemma probe_blocks_eq:
  assumes "pt_blocks part = seals xxh64 bs groups" and ok: "\<forall>g \<in> set groups. group_ok (unat bs) g"
    and "length groups < 2 ^ 32" and "4 \<le> unat bs" and "\<forall>b \<in> set cands. b < length groups"
  shows "probe_blocks z xxh64 bs codec part vfp cands io =
    (case List.find (\<lambda>fr. record_vfp (snd fr) = vfp) (concat (map ((!) groups) cands)) of
       Some fr \<Rightarrow> rmap Hit (resolve z xxh64 (pt_heap part) codec (snd fr))
     | None \<Rightarrow> Ok (Miss (io \<or> cands \<noteq> [])))"
  using assms(5)
proof (induction cands arbitrary: io)
  case Nil
  then show ?case by simp
next
  case (Cons b cands)
  have b: "b < length groups" using Cons.prems by simp
  then have g: "group_ok (unat bs) (groups ! b)" using ok by simp
  have "find_v5 xxh64 (seal xxh64 (unat bs) (map snd (groups ! b))) vfp =
      Ok (List.find (\<lambda>r. record_vfp r = vfp) (map snd (groups ! b)))"
    using g by (intro find_seal) (auto simp: group_ok_def)
  with read_block [OF b assms(3,4), of xxh64] Cons.IH [of True] Cons.prems show ?case
    by (simp add: assms(1) find_map_snd find_append split: option.splits)
qed

lemma list_all2_find:
  assumes "list_all2 (holds z xxh64 codec heap) G recs" and "List.find (\<lambda>fr. record_vfp (snd fr) = vfp) xs = Some fr"
    and "set xs \<subseteq> set recs"
  shows "\<exists>f \<in> set G. fst (snd f) = vfp \<and> (\<forall>ext. resolve z xxh64 (heap @ ext) codec (snd fr) = Ok (snd (snd f)))"
proof -
  have "fr \<in> set xs" "record_vfp (snd fr) = vfp" using assms(2) by (auto simp: find_Some_iff)
  moreover from this assms(3) obtain f where "f \<in> set G" "holds z xxh64 codec heap f fr"
    using list_all2_right [OF assms(1), of fr] by blast
  ultimately show ?thesis by (intro bexI [of _ f]) (simp_all add: holds_def)
qed

lemma partition_get5_answers:
  assumes srv: "serves z xorf xxh64 bs codec part F" and "length F < 2 ^ 32" and "4 \<le> unat bs"
  shows "\<exists>res. partition_get5 z xorf xxh64 bs codec part fp vfp = Ok res \<and>
    (case res of Hit v \<Rightarrow> \<exists>fp'. (fp', vfp, v) \<in> set F | Miss io \<Rightarrow> \<forall>v. (fp, vfp, v) \<notin> set F)"
proof (cases "\<exists>s. pt_sketch part = Some s \<and> \<not> sketch_contains xorf s fp")
  case True
  then have "\<forall>v. (fp, vfp, v) \<notin> set F" using srv by (force simp: serves_def)
  with True show ?thesis by (auto simp: partition_get5_def)
next
  case False
  obtain groups G where g: "sorted_perm F G" "list_all2 (holds z xxh64 codec (pt_heap part)) G (concat groups)"
    "\<forall>g \<in> set groups. group_ok (unat bs) g" "pt_blocks part = seals xxh64 bs groups"
    "pt_fences part = map block_fence groups"
    using srv by (auto simp: serves_def)
  have setFG: "set F = set G" using g(1) by (metis set_mset_mset sorted_perm_def)
  let ?C = "candidate_blocks (map block_fence groups) (fence_of fp)"
  let ?xs = "concat (map ((!) groups) ?C)"
  let ?find = "List.find (\<lambda>fr. record_vfp (snd fr) = vfp) ?xs"
  have C: "\<forall>b \<in> set ?C. b < length groups" using candidate_blocks_bound by fastforce
  have "length groups < 2 ^ 32" using groups_le_frames(1) [OF g(2,3,1)] assms(2) by simp
  from probe_blocks_eq [OF g(4,3) this assms(3) C]
  have eq: "partition_get5 z xorf xxh64 bs codec part fp vfp =
      (case ?find of Some fr \<Rightarrow> rmap Hit (resolve z xxh64 (pt_heap part) codec (snd fr)) | None \<Rightarrow> Ok (Miss (?C \<noteq> [])))"
    using False g(5) by (auto simp: partition_get5_def split: option.splits)
  show ?thesis
  proof (cases ?find)
    case (Some fr)
    have "set ?xs \<subseteq> set (concat groups)" using C nth_mem by fastforce
    from list_all2_find [OF g(2) Some this] obtain f where
      "f \<in> set G" "fst (snd f) = vfp" "\<forall>ext. resolve z xxh64 (pt_heap part @ ext) codec (snd fr) = Ok (snd (snd f))" by blast
    with this(3) [THEN spec, of "[]"] eq Some setFG show ?thesis
      by (intro exI [of _ "Hit (snd (snd f))"]) (auto intro: exI [of _ "fst f"])
  next
    case None
    have "(fp, vfp, v) \<notin> set F" for v
    proof
      assume "(fp, vfp, v) \<in> set F"
      then obtain fr where fr: "fr \<in> set (concat groups)" "holds z xxh64 codec (pt_heap part) (fp, vfp, v) fr"
        using list_all2_left [OF g(2)] setFG by blast
      have fst_eq: "map fst (concat groups) = map fst G"
        using g(2) by (induction rule: list_all2_induct) (auto simp: holds_def)
      obtain i where i: "i < length groups" "fr \<in> set (groups ! i)"
        using fr(1) by (metis UN_E in_set_conv_nth set_concat)
      have "(fp, snd fr) = fr" using fr(2) by (auto simp: holds_def)
      then have "(fp, snd fr) \<in> set (groups ! i)" using i by simp
      then have "i \<in> set ?C"
        using g(1,3) fst_eq i by (intro candidate_blocks_complete [where r = "snd fr"]) (auto simp: sorted_perm_def group_ok_def simp del: map_concat)
      with i have "fr \<in> set ?xs" by auto
      moreover have "record_vfp (snd fr) = vfp" using fr(2) by (simp add: holds_def)
      ultimately show False using None unfolding find_None_iff by blast
    qed
    with None eq show ?thesis by auto
  qed
qed

end
