(* ===== verification/V5_Roundtrip.thy ===== *)
theory V5_Roundtrip
  imports V5_Partition
begin

text \<open>
  The V5 builder as a whole: the derived block size, the plan with its dictionary, the build of
  every partition, the metadata it publishes (which passes its own validation) and the snapshot it
  opens as (\<open>built_snapshot_opens\<close>).
\<close>

section \<open>Block size\<close>

lemma auto_tune_values:
  assumes "auto_tune_block_size hist = Ok bs"
  shows "\<exists>k. 12 \<le> k \<and> k \<le> 16 \<and> bs = 2 ^ k"
proof -
  have clamp: "\<exists>k. 12 \<le> k \<and> k \<le> 16 \<and> min (max (ucast ((2 :: u64) ^ min j 31)) MIN_BLOCK_SIZE) MAX_AUTO_BLOCK_SIZE = (2 ^ k :: u32)" for j
  proof -
    let ?m = "min j 31"
    have "unat (ucast ((2 :: u64) ^ ?m) :: u32) = 2 ^ ?m"
      by (simp add: unsigned_ucast_eq unat_pow2 take_bit_nat_eq_self)
    then have w: "(ucast ((2 :: u64) ^ ?m) :: u32) = 2 ^ ?m"
      by (simp add: word_unat_eq_iff unat_pow2)
    consider "?m \<le> 12" | "?m = 13" | "?m = 14" | "?m = 15" | "16 \<le> ?m" by linarith
    then show ?thesis
    proof cases
      case 1
      then have "(2 :: nat) ^ ?m \<le> 2 ^ 12" by (intro power_increasing) simp_all
      then have "(2 ^ ?m :: u32) \<le> 2 ^ 12" by (simp add: word_le_nat_alt unat_pow2)
      then show ?thesis by (intro exI [of _ 12]) (simp add: w MIN_BLOCK_SIZE_def MAX_AUTO_BLOCK_SIZE_def max_absorb2)
    next
      case 5
      then have "(2 :: nat) ^ 16 \<le> 2 ^ ?m" by (intro power_increasing) simp_all
      then have "(2 ^ 16 :: u32) \<le> 2 ^ ?m" by (simp add: word_le_nat_alt unat_pow2)
      then show ?thesis
        by (intro exI [of _ 16]) (simp add: w MIN_BLOCK_SIZE_def MAX_AUTO_BLOCK_SIZE_def min_absorb2 le_max_iff_disj)
    qed (simp_all only: w, auto simp: MIN_BLOCK_SIZE_def MAX_AUTO_BLOCK_SIZE_def intro: exI [of _ 13] exI [of _ 14] exI [of _ 15])
  qed
  show ?thesis
  proof (cases "sum_list hist = 0")
    case True
    then show ?thesis using assms by (intro exI [of _ 12]) (simp add: auto_tune_block_size_def MIN_BLOCK_SIZE_def)
  next
    case False
    with assms obtain m where "bs = min (max (ucast ((2 :: u64) ^ min (m + 1) 31)) MIN_BLOCK_SIZE) MAX_AUTO_BLOCK_SIZE"
      unfolding auto_tune_block_size_def Let_def by (auto split: option.splits simp del: power_Suc)
    with clamp [of "m + 1"] show ?thesis by simp
  qed
qed

text \<open>The median exists: the running sum over the whole histogram reaches its total.\<close>

lemma median_position_Some:
  assumes "half \<le> cumulative + sum_list hist" and "hist \<noteq> []"
  shows "median_position half hist cumulative \<noteq> None"
  using assms
proof (induction hist arbitrary: cumulative)
  case Nil
  then show ?case by simp
next
  case (Cons c hist)
  then show ?case by (cases "hist = []") (auto simp: add.assoc)
qed

lemma auto_tune_total: "\<exists>bs. auto_tune_block_size hist = Ok bs"
proof (cases "sum_list hist = 0")
  case False
  let ?t = "sum_list hist"
  have "unat (?t div 2 + ?t mod 2) = unat ?t div 2 + unat ?t mod 2"
    using unat_u64_less [of ?t] by (simp add: unat_word_ariths unat_div unat_mod)
  then have "?t div 2 + ?t mod 2 \<le> ?t" by (simp add: word_le_nat_alt)
  moreover have "hist \<noteq> []" using False by auto
  ultimately have "median_position (?t div 2 + ?t mod 2) hist 0 \<noteq> None" by (intro median_position_Some) simp_all
  with False show ?thesis by (auto simp: auto_tune_block_size_def Let_def)
qed (simp add: auto_tune_block_size_def)

lemma pow2_block_size: "12 \<le> k \<Longrightarrow> k < 32 \<Longrightarrow> bs = (2 ^ k :: u32) \<Longrightarrow> is_power_of_two bs \<and> 4096 \<le> unat bs"
proof -
  assume k: "12 \<le> k" "k < 32" "bs = 2 ^ k"
  then have "(2 :: nat) ^ 12 \<le> 2 ^ k" by (intro power_increasing) simp_all
  with k show ?thesis by (auto simp: is_power_of_two_iff unat_pow2)
qed

lemma validate_block_size_iff: "validate_block_size bs = Ok () \<longleftrightarrow> is_power_of_two bs \<and> 4096 \<le> unat bs"
  by (auto simp: validate_block_size_def MIN_BLOCK_SIZE_def word_less_nat_alt not_less)

section \<open>Compression\<close>

text \<open>
  What the code relies on of zstd: contexts are created, a value is compressed to a frame that pins
  its content size and decompresses to it under the same dictionary, and training does not panic.
\<close>

definition zstd_ok :: "zstd_lib \<Rightarrow> bool" where
  "zstd_ok z \<longleftrightarrow>
     (\<forall>dict. z_cctx z DEFAULT_LEVEL dict = Ok () \<and> z_dctx z dict = Ok ()) \<and>
     (\<forall>dict v. length v < 2 ^ 30 \<longrightarrow>
        (\<exists>fr. z_compress z DEFAULT_LEVEL dict v = Ok fr \<and> frame_content_size fr = Ok (word_of_nat (length v)) \<and>
           z_decompress z dict fr (length v) = Ok v)) \<and>
     (\<forall>samples n. z_train z samples n \<noteq> Panic)"

lemma Compressor_new_ok:
  "zstd_ok z \<Longrightarrow> Compressor_new z DEFAULT_LEVEL dict n =
     Ok \<lparr>c_level = DEFAULT_LEVEL, c_dict = dict, c_min_compress_len = n\<rparr>"
  by (simp add: Compressor_new_def zstd_ok_def)

lemma codec_ok_zstd:
  assumes z: "zstd_ok z"
  shows "codec_ok z (Some \<lparr>c_level = DEFAULT_LEVEL, c_dict = dict, c_min_compress_len = n\<rparr>) (Some dict)"
  unfolding codec_ok_def
proof (intro allI impI)
  fix c v
  assume c: "Some \<lparr>c_level = DEFAULT_LEVEL, c_dict = dict, c_min_compress_len = n\<rparr> = Some c"
    and v: "length (v :: bytes) < 2 ^ 30"
  obtain fr where fr: "z_compress z DEFAULT_LEVEL dict v = Ok fr" "frame_content_size fr = Ok (word_of_nat (length v))"
    "z_decompress z dict fr (length v) = Ok v"
    using z v unfolding zstd_ok_def by blast
  have len: "unat (word_of_nat (length v) :: u64) = length v" using v by (intro unat_word_of_nat_less) simp
  have "\<not> (word_of_nat (length v) :: u64) > ucast MAX_VALUE_LEN"
    using v by (simp add: word_less_nat_alt len unat_MAX_VALUE_LEN_u64)
  with fr len have "decompress z dict fr = Ok v" by (simp add: decompress_def)
  then show "\<exists>frame. compress z c v = Ok frame \<and>
      (\<forall>b. frame = Some b \<longrightarrow> length b < length v \<and> decode z b True (Some dict) = Ok v)"
    using c fr(1) by (auto simp: compress_def)
qed

text \<open>The compressor of a plan and the codec a reader opens for it.\<close>

definition plan_codec :: "Plan \<Rightarrow> bytes option \<Rightarrow> Decompressor option" where
  "plan_codec plan dict = (if pl_compression plan = NoCompression then None else Some dict)"

lemma plan_compressor_ok:
  assumes "pl_compression plan \<noteq> NoCompression \<Longrightarrow> zstd_ok z"
  shows "\<exists>c. partition_compressor z plan dict = Ok c \<and> codec_ok z c (plan_codec plan dict)"
proof (cases "pl_compression plan = NoCompression")
  case True
  then show ?thesis by (simp add: partition_compressor_def codec_ok_def)
next
  case False
  with assms have z: "zstd_ok z" by simp
  from False codec_ok_zstd [OF z] Compressor_new_ok [OF z] show ?thesis
    by (auto simp: partition_compressor_def plan_codec_def)
qed

section \<open>Sampling\<close>

lemma sample_loop_len: "s \<in> set (sample_loop buf pos) \<Longrightarrow> length s \<le> length buf"
proof (induction buf pos rule: sample_loop.induct)
  case (1 buf pos)
  let ?len = "unat (u32_of_le (bslice (pos + 16) 4 buf))"
  from 1(2) have "pos + FRAME_HEADER \<le> length buf" "pos + FRAME_HEADER + ?len \<le> length buf"
    "s \<in> set (if ?len > 0 then [bslice (pos + FRAME_HEADER) ?len buf] else []) \<or>
     s \<in> set (sample_loop buf (pos + FRAME_HEADER + ?len))"
    by (auto simp: sample_loop.simps [of buf pos] Let_def split: if_splits)
  with 1(1) show ?case by (auto simp: not_less split: if_splits)
qed

lemma sample_arrival_ok:
  assumes "fs p = Some file1"
  shows "\<exists>ss. sample_arrival_prefix p SAMPLE_PREFIX_BYTES fs = (Ok ss, fs) \<and> (\<forall>s \<in> set ss. length s < 2 ^ 30)"
proof -
  have "length s < 2 ^ 30" if "s \<in> set (sample_loop (take SAMPLE_PREFIX_BYTES file1) 0)" for s
  proof -
    have "length s \<le> length (take SAMPLE_PREFIX_BYTES file1)" using that by (rule sample_loop_len)
    also have "\<dots> \<le> SAMPLE_PREFIX_BYTES" by simp
    also have "\<dots> < 2 ^ 30" by (simp add: SAMPLE_PREFIX_BYTES_def)
    finally show ?thesis .
  qed
  then show ?thesis
    using assms by (simp add: sample_arrival_prefix_def io_bind_def read_file_def file_open_def io_return_def)
qed

lemma first_samples_ok:
  assumes "\<forall>p \<in> set ps. fs (path_join (builder_dir b p) ''arrival.bin'') \<noteq> None"
  shows "\<exists>ss. first_samples b ps fs = (Ok ss, fs) \<and> (\<forall>s \<in> set ss. length s < 2 ^ 30)"
  using assms
proof (induction ps)
  case Nil
  then show ?case by (simp add: io_return_def)
next
  case (Cons p ps)
  then obtain file1 where "fs (path_join (builder_dir b p) ''arrival.bin'') = Some file1" by auto
  from sample_arrival_ok [where fs = fs, OF this] obtain ss where
    ss: "sample_arrival_prefix (path_join (builder_dir b p) ''arrival.bin'') SAMPLE_PREFIX_BYTES fs = (Ok ss, fs)"
    "\<forall>s \<in> set ss. length s < 2 ^ 30" by blast
  with Cons show ?case by (cases "ss = []") (simp_all add: io_bind_Ok io_return_def)
qed

lemma compress_total:
  assumes "zstd_ok z" and "length v < 2 ^ 30" and c: "c = \<lparr>c_level = DEFAULT_LEVEL, c_dict = dict, c_min_compress_len = n\<rparr>"
  shows "\<exists>frame. compress z c v = Ok frame \<and> (case frame of Some f \<Rightarrow> length f | None \<Rightarrow> length v) < 2 ^ 30"
proof -
  obtain fr where "z_compress z DEFAULT_LEVEL dict v = Ok fr" using assms(1,2) unfolding zstd_ok_def by blast
  with assms(2) c show ?thesis by (auto simp: compress_def)
qed

text \<open>Fields that planning leaves alone or sets together.\<close>

definition plan_like :: "Plan \<Rightarrow> Plan \<Rightarrow> bool" where
  "plan_like p q \<longleftrightarrow> pl_sketch q = pl_sketch p \<and> pl_compression q = pl_compression p \<and>
     pl_dict_checksum q = pl_dict_checksum p \<and> pl_min_compress_len q = pl_min_compress_len p \<and>
     pl_n_samples q = pl_n_samples p"

lemma measure_samples_ok:
  assumes z: "zstd_ok z" and c: "c = \<lparr>c_level = DEFAULT_LEVEL, c_dict = dict, c_min_compress_len = n\<rparr>"
    and "\<forall>s \<in> set ss. length s < 2 ^ 30" and "length hist = HIST_BUCKETS"
  shows "\<exists>plan' hist'. foldR (measure_sample z c) ss (plan, hist) = Ok (plan', hist') \<and>
    length hist' = HIST_BUCKETS \<and> plan_like plan plan'"
  using assms(3,4)
proof (induction ss arbitrary: plan hist)
  case Nil
  then show ?case by (simp add: plan_like_def)
next
  case (Cons s ss)
  obtain frame where fr: "compress z c s = Ok frame" "(case frame of Some f \<Rightarrow> length f | None \<Rightarrow> length s) < 2 ^ 30"
    using compress_total [OF z _ c, of s] Cons.prems by auto
  obtain h where h: "hist_bump (case frame of Some f \<Rightarrow> length f | None \<Rightarrow> length s) hist = Ok h" "length h = HIST_BUCKETS"
    using hist_bump_total [OF fr(2) Cons.prems(2)] by blast
  obtain plan1 where m: "measure_sample z c s (plan, hist) = Ok (plan1, h)" "plan_like plan plan1"
    using fr(1) h(1) by (auto simp: measure_sample_def Let_def plan_like_def)
  with Cons.IH [of h plan1] Cons.prems h(2) show ?case by (auto simp: plan_like_def)
qed

section \<open>Planning\<close>

definition builder_ok :: "V5Builder \<Rightarrow> bool" where
  "builder_ok b \<longleftrightarrow> Layout_new (n_partitions (vb_layout b)) = Ok (vb_layout b) \<and>
     (\<forall>bs. vb_block_size_override b = Some bs \<longrightarrow> validate_block_size bs = Ok ())"

lemma V5Builder_new_ok: "V5Builder_new config = Ok (b, c) \<Longrightarrow> builder_ok b \<and> c_plan c = None \<and> c_done c = None"
  by (auto simp: V5Builder_new_def builder_ok_def res_simps Layout_new_Ok_iff split: option.splits)

text \<open>A scattered partition: its log, its statistics, and no build record yet.\<close>

definition scattered :: "serde_lib \<Rightarrow> V5Builder \<Rightarrow> files \<Rightarrow> (nat \<Rightarrow> frame list) \<Rightarrow> bool" where
  "scattered sj b fs Fs \<longleftrightarrow>
     (\<forall>p < unat (n_partitions (vb_layout b)).
        fs (path_join (builder_dir b p) ''arrival.bin'') = Some (frames_bytes (Fs p)) \<and>
        (\<exists>st. fs (path_join (builder_dir b p) ''arrival.stats'') = Some (enc_stats sj st)) \<and>
        fs (path_join (builder_dir b p) ''build.done'') = None \<and>
        (\<forall>f \<in> set (Fs p). frame_ok f) \<and> length (Fs p) < 2 ^ 32)"

definition serde_ok :: "serde_lib \<Rightarrow> bool" where
  "serde_ok sj \<longleftrightarrow> (\<forall>x. dec_stats sj (enc_stats sj x) = Ok x) \<and> (\<forall>x. dec_plan sj (enc_plan sj x) = Ok x) \<and>
     (\<forall>x. dec_pdone sj (enc_pdone sj x) = Ok x) \<and> (\<forall>x. dec_idone sj (enc_idone sj x) = Ok x) \<and>
     (\<forall>x. dec_meta5 sj (enc_meta5 sj x) = Ok x)"

lemma merged_hist_ok:
  assumes "serde_ok sj" and "scattered sj b fs Fs"
  shows "\<exists>hist. merged_hist sj b fs = (Ok hist, fs)"
proof -
  have "\<exists>h. io_foldM (\<lambda>p hist.
       io_bind (read_json (dec_stats sj) (path_join (builder_dir b p) ''arrival.stats'')) (\<lambda>st.
       io_return (hist_merge hist (as_hist st)))) ps hist fs = (Ok h, fs)"
    if "set ps \<subseteq> {0..<unat (n_partitions (vb_layout b))}" for ps hist
    using that
  proof (induction ps arbitrary: hist)
    case Nil
    then show ?case by (simp add: io_return_def)
  next
    case (Cons p ps)
    then obtain st where "fs (path_join (builder_dir b p) ''arrival.stats'') = Some (enc_stats sj st)"
      using assms(2) by (auto simp: scattered_def)
    with assms(1) Cons show ?case
      by (simp add: io_bind_def read_json_def read_file_def file_open_def io_lift_def io_return_def serde_ok_def)
  qed
  from this [of "builder_parts b"] show ?thesis by (auto simp: merged_hist_def)
qed

definition dict_ok :: "hash \<Rightarrow> path \<Rightarrow> files \<Rightarrow> Plan \<Rightarrow> bytes option \<Rightarrow> bool" where
  "dict_ok xxh64 root fs plan dict \<longleftrightarrow>
     pl_dict_checksum plan = map_option (checksum32 xxh64) dict \<and>
     (\<forall>bs. dict = Some bs \<longrightarrow> fs (path_join root ''dict.bin'') = Some bs \<and> pl_compression plan \<noteq> NoCompression)"

definition planned :: "hash \<Rightarrow> V5Builder \<Rightarrow> files \<Rightarrow> Plan \<Rightarrow> bytes option \<Rightarrow> bool" where
  "planned xxh64 b fs plan dict \<longleftrightarrow>
     plan_ok plan \<and> pl_sketch plan = vb_sketch b \<and> dict_ok xxh64 (vb_root b) fs plan dict \<and>
     (pl_compression plan = NoCompression \<longleftrightarrow> vb_compression b = NoCompression)"

lemma train_step_ok:
  assumes z: "zstd_ok z" and "pl_dict_checksum plan = None" and "pl_compression plan \<noteq> NoCompression"
  shows "\<exists>plan' dict fs'. train_step z xxh64 root ss plan fs = (Ok (plan', dict), fs') \<and>
    dict_ok xxh64 root fs' plan' dict \<and> pl_sketch plan' = pl_sketch plan \<and> pl_compression plan' \<noteq> NoCompression \<and>
    (\<forall>q. q \<noteq> path_join root ''dict.bin'' \<longrightarrow> fs' q = fs q)"
proof -
  let ?t = "if ss = [] then Err (DictTrain (IoError OtherKind ''no samples'')) else train_dict z ss DEFAULT_DICT_LEN"
  have "?t \<noteq> Panic"
    using z by (auto simp: zstd_ok_def train_dict_def) (metis map_err.simps res.exhaust res.distinct(3,5))
  then show ?thesis
    using assms(2,3)
    by (cases ?t) (auto simp: train_step_def dict_ok_def io_bind_def write_data_file_def io_do_def io_return_def)
qed

lemma plan_compression_ok:
  assumes z: "zstd_ok z" and "pl_dict_checksum plan = None" and mode: "pl_compression plan \<noteq> NoCompression"
    and arr: "\<forall>p \<in> set (builder_parts b). fs (path_join (builder_dir b p) ''arrival.bin'') \<noteq> None"
  shows "\<exists>plan' hist fs' dict. plan_compression z xxh64 b plan fs = (Ok (plan', hist), fs') \<and>
    dict_ok xxh64 (vb_root b) fs' plan' dict \<and> pl_sketch plan' = pl_sketch plan \<and>
    pl_compression plan' \<noteq> NoCompression \<and>
    (\<forall>q. q \<noteq> path_join (vb_root b) ''dict.bin'' \<longrightarrow> fs' q = fs q)"
proof -
  obtain ss where ss: "first_samples b (builder_parts b) fs = (Ok ss, fs)" "\<forall>s \<in> set ss. length s < 2 ^ 30"
    using first_samples_ok [where fs = fs, OF arr] by blast
  let ?plan = "plan\<lparr>pl_n_samples := word_of_nat (length ss)\<rparr>"
  obtain plan1 dict fs1 where t: "(if vb_compression b = ZstdDict_Mode then train_step z xxh64 (vb_root b) ss ?plan
      else io_return (?plan, None)) fs = (Ok (plan1, dict), fs1)"
    and d: "dict_ok xxh64 (vb_root b) fs1 plan1 dict" "pl_sketch plan1 = pl_sketch plan" "pl_compression plan1 \<noteq> NoCompression"
      "\<forall>q. q \<noteq> path_join (vb_root b) ''dict.bin'' \<longrightarrow> fs1 q = fs q"
  proof (cases "vb_compression b = ZstdDict_Mode")
    case True
    with train_step_ok [OF z, of ?plan xxh64 "vb_root b" ss fs] assms(2,3) that show thesis by auto
  next
    case False
    with assms(2,3) that [of ?plan None fs] show thesis by (simp add: io_return_def dict_ok_def)
  qed
  obtain plan2 hist where m: "foldR (measure_sample z \<lparr>c_level = DEFAULT_LEVEL, c_dict = dict,
      c_min_compress_len = unat (pl_min_compress_len plan1)\<rparr>) ss (plan1, replicate HIST_BUCKETS 0) = Ok (plan2, hist)"
    "plan_like plan1 plan2"
    using measure_samples_ok [OF z refl ss(2), of "replicate HIST_BUCKETS 0"] by (metis length_replicate)
  have "plan_compression z xxh64 b plan fs = (Ok (plan2, hist), fs1)"
    unfolding plan_compression_def Let_def
    using ss(1) t m(1) Compressor_new_ok [OF z] by (simp add: io_bind_def io_lift_def)
  with d m(2) show ?thesis by (auto simp: plan_like_def dict_ok_def)
qed

abbreviation plan_files :: "path \<Rightarrow> path set" where
  "plan_files root \<equiv> path_join root ` {''dict.bin'', ''v5.plan'', ''v5.plan.tmp''}"

lemma derive_plan_ok:
  assumes b: "builder_ok b" and sj: "serde_ok sj" and sc: "scattered sj b fs Fs"
    and z: "vb_compression b \<noteq> NoCompression \<Longrightarrow> zstd_ok z"
  shows "\<exists>plan dict fs'. derive_plan z xxh64 sj b fs = (Ok plan, fs') \<and> planned xxh64 b fs' plan dict \<and>
    (\<forall>q. q \<notin> plan_files (vb_root b) \<longrightarrow> fs' q = fs q)"
proof -
  let ?root = "vb_root b"
  obtain hist where h: "merged_hist sj b fs = (Ok hist, fs)" using merged_hist_ok [OF sj sc] by blast
  let ?fs1 = "fs(path_join ?root ''dict.bin'' := None)"
  let ?step = "if vb_compression b \<noteq> NoCompression
      then io_bind (plan_compression z xxh64 b (initial_plan z b)) (\<lambda>(plan, stored_hist).
           io_return (plan, if pl_n_samples plan > 0 then stored_hist else hist))
      else io_return (initial_plan z b, hist)"
  obtain plan1 hist1 dict fs2 where p: "?step ?fs1 = (Ok (plan1, hist1), fs2)"
    and d: "dict_ok xxh64 ?root fs2 plan1 dict" "pl_sketch plan1 = vb_sketch b"
      "pl_compression plan1 = NoCompression \<longleftrightarrow> vb_compression b = NoCompression"
      "\<forall>q. q \<noteq> path_join ?root ''dict.bin'' \<longrightarrow> fs2 q = ?fs1 q"
  proof (cases "vb_compression b = NoCompression")
    case True
    then show thesis
      using that [of "initial_plan z b" hist ?fs1 None] by (simp add: io_return_def dict_ok_def initial_plan_def)
  next
    case False
    have "\<forall>p \<in> set (builder_parts b). ?fs1 (path_join (builder_dir b p) ''arrival.bin'') \<noteq> None"
      using sc by (auto simp: scattered_def)
    from plan_compression_ok [where fs = ?fs1, OF z [OF False] _ _ this, of "initial_plan z b" xxh64] False
    obtain plan' hist' fs' dict where
      "plan_compression z xxh64 b (initial_plan z b) ?fs1 = (Ok (plan', hist'), fs')"
      "dict_ok xxh64 ?root fs' plan' dict" "pl_sketch plan' = vb_sketch b" "pl_compression plan' \<noteq> NoCompression"
      "\<forall>q. q \<noteq> path_join ?root ''dict.bin'' \<longrightarrow> fs' q = ?fs1 q"
      by (auto simp: initial_plan_def)
    with False show thesis
      by (intro that [of plan' "if pl_n_samples plan' > 0 then hist' else hist" fs' dict])
        (simp_all add: io_bind_def io_return_def)
  qed
  obtain bs where bs: "(case vb_block_size_override b of Some bs \<Rightarrow> io_return bs | None \<Rightarrow> io_lift (auto_tune_block_size hist1)) fs2
      = (Ok bs, fs2)" "is_power_of_two bs \<and> 4096 \<le> unat bs"
  proof (cases "vb_block_size_override b")
    case None
    obtain bs where t: "auto_tune_block_size hist1 = Ok bs" using auto_tune_total by blast
    with auto_tune_values [OF t] pow2_block_size None show thesis by (intro that [of bs]) (auto simp: io_lift_def)
  next
    case (Some bs)
    with b show thesis by (intro that [of bs]) (auto simp: builder_ok_def validate_block_size_iff io_return_def)
  qed
  let ?plan = "plan1\<lparr>pl_block_size := bs, pl_inline_threshold := bs div 2\<rparr>"
  let ?fs3 = "(if vb_marker_mode b = Rename then fs2(path_join ?root (''v5.plan'' @ ''.tmp'') := None) else fs2)
    (path_join ?root ''v5.plan'' \<mapsto> enc_plan sj ?plan)"
  have "derive_plan z xxh64 sj b fs = (Ok ?plan, ?fs3)"
    unfolding derive_plan_def Let_def
    using h p bs(1) by (simp add: io_bind_def remove_file_def io_do_def io_return_def write_marker_eq)
  moreover have "planned xxh64 b ?fs3 ?plan dict"
    using d bs(2) by (auto simp: planned_def plan_ok_def dict_ok_def)
  moreover have "?fs3 q = fs q" if "q \<notin> plan_files ?root" for q
    using that d(4) by auto
  ultimately show ?thesis by blast
qed

lemma ensure_plan_ok:
  assumes "builder_ok b" and "serde_ok sj" and "scattered sj b fs Fs"
    and "vb_compression b \<noteq> NoCompression \<Longrightarrow> zstd_ok z"
    and "c_plan c = None" and "fs (path_join (vb_root b) ''v5.plan'') = None"
  shows "\<exists>plan dict fs'. ensure_plan z xxh64 sj b (c, fs) = (Ok plan, (c\<lparr>c_plan := Some plan\<rparr>, fs')) \<and>
    planned xxh64 b fs' plan dict \<and> (\<forall>q. q \<notin> plan_files (vb_root b) \<longrightarrow> fs' q = fs q)"
proof -
  obtain plan dict fs' where "derive_plan z xxh64 sj b fs = (Ok plan, fs')" "planned xxh64 b fs' plan dict"
    "\<forall>q. q \<notin> plan_files (vb_root b) \<longrightarrow> fs' q = fs q"
    using derive_plan_ok [OF assms(1-4)] by blast
  with assms(5,6) show ?thesis
    by (intro exI [of _ plan] exI [of _ dict] exI [of _ fs'])
      (simp add: ensure_plan_def io_bind_def on_files_def path_exists_def io_do_def io_return_def)
qed

section \<open>Building every partition\<close>

lemma builder_dirs_disjoint: "p \<noteq> q \<Longrightarrow> in_dir (builder_dir b p) \<inter> in_dir (builder_dir b q) = {}"
  by (auto simp: in_dir_def partition_dir_inject)

lemma root_not_in_part: "path_join root name \<notin> in_dir (partition_dir root n p)"
proof
  assume "path_join root name \<in> in_dir (partition_dir root n p)"
  then have "root = partition_dir root n p" by simp
  then have "length root = length (partition_dir root n p)" by simp
  then show False by (simp add: partition_dir_def data_dir_def path_join_def Let_def)
qed

lemma frames_values_len:
  assumes "\<forall>f \<in> set F. frame_ok f" and "length F < 2 ^ 32"
  shows "values_len F < 2 ^ 64"
proof -
  have "values_len F \<le> length F * 2 ^ 30"
    using assms(1)
  proof (induction F)
    case (Cons f F)
    obtain fp vfp v where "f = (fp, vfp, v)" by (cases f)
    with Cons show ?case by simp
  qed simp
  also have "\<dots> < 2 ^ 32 * 2 ^ 30" using assms(2) by simp
  also have "\<dots> < 2 ^ 64" by simp
  finally show ?thesis .
qed

lemma collect_partitions_ok:
  assumes pl: "planned xxh64 b fs0 plan dict" and z: "vb_compression b \<noteq> NoCompression \<Longrightarrow> zstd_ok z"
    and srt: "sort_ok sort_u" and x: "vb_sketch b \<Longrightarrow> xorf_ok xorf"
    and "distinct ps"
    and "\<forall>p \<in> set ps. fs (path_join (builder_dir b p) ''arrival.bin'') = Some (frames_bytes (Fs p)) \<and>
        fs (path_join (builder_dir b p) ''build.done'') = None \<and>
        (\<forall>f \<in> set (Fs p). frame_ok f) \<and> length (Fs p) < 2 ^ 32"
  shows "\<exists>ds fs'. io_collect (\<lambda>p. build_partition z xorf xxh64 sort_u sj (builder_dir b p) plan dict
         (vb_bucket_bytes b) (vb_marker_mode b)) ps fs = (map Ok ds, fs') \<and>
    list_all2 (\<lambda>p d. partition_ok z xorf xxh64 (plan_codec plan dict) (pl_block_size plan) (vb_sketch b) fs'
         (builder_dir b p) d (Fs p)) ps ds \<and>
    (\<forall>q. (\<forall>p \<in> set ps. q \<notin> in_dir (builder_dir b p)) \<longrightarrow> fs' q = fs q)"
  using assms(5-)
proof (induction ps arbitrary: fs)
  case Nil
  then show ?case by simp
next
  case (Cons p ps)
  let ?dir = "builder_dir b" and ?F = "Fs p"
  let ?build = "\<lambda>p. build_partition z xorf xxh64 sort_u sj (?dir p) plan dict (vb_bucket_bytes b) (vb_marker_mode b)"
  let ?ok = "\<lambda>fs p d. partition_ok z xorf xxh64 (plan_codec plan dict) (pl_block_size plan) (vb_sketch b) fs (?dir p) d (Fs p)"
  have pok: "plan_ok plan" "pl_sketch plan = vb_sketch b" using pl by (simp_all add: planned_def)
  obtain c where c: "partition_compressor z plan dict = Ok c" "codec_ok z c (plan_codec plan dict)"
    using plan_compressor_ok [of plan z dict] z pl by (auto simp: planned_def)
  have pre: "fs (path_join (?dir p) ''build.done'') = None"
    "fs (path_join (?dir p) ''arrival.bin'') = Some (frames_bytes ?F)" "\<forall>f \<in> set ?F. frame_ok f" "length ?F < 2 ^ 32"
    using Cons.prems(2) by simp_all
  have "\<exists>d fs'. build_partition z xorf xxh64 sort_u sj (?dir p) plan dict (vb_bucket_bytes b) (vb_marker_mode b) fs
      = (Ok d, fs') \<and> partition_ok z xorf xxh64 (plan_codec plan dict) (pl_block_size plan) (pl_sketch plan) fs' (?dir p) d ?F \<and>
    fs' (path_join (?dir p) ''build.done'') = Some (enc_pdone sj d) \<and> (\<forall>q. q \<notin> in_dir (?dir p) \<longrightarrow> fs' q = fs q)"
    by (rule build_partition_ok [where fs = fs and dir = "?dir p" and F = ?F,
        OF pok(1) c srt _ pre(1-3) frames_values_len [OF pre(3,4)]]) (use x pok(2) in simp)
  then obtain d fs1 where d: "?build p fs = (Ok d, fs1)" "?ok fs1 p d" "\<forall>q. q \<notin> in_dir (?dir p) \<longrightarrow> fs1 q = fs q"
    using pok(2) by auto
  have keep: "fs1 (path_join (?dir q) n) = fs (path_join (?dir q) n)" if "q \<in> set ps" for q n
  proof -
    have "path_join (?dir q) n \<notin> in_dir (?dir p)"
      using that Cons.prems(1) by (auto simp: partition_dir_inject)
    with d(3) show ?thesis by blast
  qed
  obtain ds fs' where r: "io_collect ?build ps fs1 = (map Ok ds, fs')" "list_all2 (?ok fs') ps ds"
    "\<forall>q. (\<forall>p \<in> set ps. q \<notin> in_dir (?dir p)) \<longrightarrow> fs' q = fs1 q"
    using Cons.IH [of fs1] Cons.prems keep by auto
  have "?ok fs' p d"
    using d(2)
  proof (subst partition_ok_cong [of "?dir p" fs' fs1])
    fix q assume "q \<in> part_outputs (?dir p)"
    then have "q \<in> in_dir (?dir p)" by auto
    moreover have "in_dir (?dir p) \<inter> in_dir (?dir p') = {}" if "p' \<in> set ps" for p'
      using that Cons.prems(1) by (intro builder_dirs_disjoint) auto
    ultimately have "\<forall>p' \<in> set ps. q \<notin> in_dir (?dir p')" by blast
    with r(3) show "fs' q = fs1 q" by blast
  qed
  with d(1,3) r show ?case by (intro exI [of _ "d # ds"] exI [of _ fs']) auto
qed

section \<open>Build, finalize and open\<close>

definition v5_meta_ok ::
    "zstd_lib \<Rightarrow> xorf_lib \<Rightarrow> hash \<Rightarrow> V5Builder \<Rightarrow> files \<Rightarrow> Plan \<Rightarrow> bytes option \<Rightarrow> (nat \<Rightarrow> frame list)
       \<Rightarrow> PartitionBuildDone list \<Rightarrow> bool" where
  "v5_meta_ok z xorf xxh64 b fs plan dict Fs ds \<longleftrightarrow>
     planned xxh64 b fs plan dict \<and>
     list_all2 (\<lambda>p d. partition_ok z xorf xxh64 (plan_codec plan dict) (pl_block_size plan) (vb_sketch b) fs
         (builder_dir b p) d (Fs p)) (builder_parts b) ds"

lemma mapR_map_Ok [simp]: "mapR id (map Ok xs) = Ok xs"
  by (induction xs) auto

lemma build_dict_ok: "dict_ok xxh64 (vb_root b) fs plan dict \<Longrightarrow> build_dict xxh64 b plan fs = (Ok dict, fs)"
  by (cases dict) (auto simp: build_dict_def dict_ok_def read_dict_def file_open_def verify_dict_def io_bind_def
      io_lift_def io_return_def Let_def)

lemma v5_meta_ok_cong:
  assumes "v5_meta_ok z xorf xxh64 b fs plan dict Fs ds"
    and "\<And>q p. q \<in> in_dir (builder_dir b p) \<Longrightarrow> fs' q = fs q" and "fs' (path_join (vb_root b) ''dict.bin'') = fs (path_join (vb_root b) ''dict.bin'')"
  shows "v5_meta_ok z xorf xxh64 b fs' plan dict Fs ds"
proof -
  have "partition_ok z xorf xxh64 codec bs sk fs' (builder_dir b p) d F =
      partition_ok z xorf xxh64 codec bs sk fs (builder_dir b p) d F" for codec bs sk p d F
    by (rule partition_ok_cong) (use assms(2) in auto)
  with assms(1,3) show ?thesis by (auto simp: v5_meta_ok_def planned_def dict_ok_def)
qed

lemma V5Builder_build_ok:
  assumes pl: "planned xxh64 b fs plan dict" and z: "vb_compression b \<noteq> NoCompression \<Longrightarrow> zstd_ok z"
    and srt: "sort_ok sort_u" and x: "vb_sketch b \<Longrightarrow> xorf_ok xorf" and sc: "scattered sj b fs Fs"
    and c: "c_plan c = Some plan" and fresh: "fs (path_join (vb_root b) ''index.done'') = None"
  shows "\<exists>ds fs'. V5Builder_build z xorf xxh64 sort_u sj secs b (c, fs) =
      (Ok (id_n_keys (index_done_of secs plan ds)), (c\<lparr>c_done := Some (index_done_of secs plan ds)\<rparr>, fs')) \<and>
    v5_meta_ok z xorf xxh64 b fs' plan dict Fs ds"
proof -
  let ?root = "vb_root b"
  have d: "build_dict xxh64 b plan fs = (Ok dict, fs)" using pl by (intro build_dict_ok) (simp add: planned_def)
  have "\<exists>ds fs'. io_collect (\<lambda>p. build_partition z xorf xxh64 sort_u sj (builder_dir b p) plan dict
         (vb_bucket_bytes b) (vb_marker_mode b)) (builder_parts b) fs = (map Ok ds, fs') \<and>
    list_all2 (\<lambda>p d. partition_ok z xorf xxh64 (plan_codec plan dict) (pl_block_size plan) (vb_sketch b) fs'
         (builder_dir b p) d (Fs p)) (builder_parts b) ds \<and>
    (\<forall>q. (\<forall>p \<in> set (builder_parts b). q \<notin> in_dir (builder_dir b p)) \<longrightarrow> fs' q = fs q)"
    by (rule collect_partitions_ok [OF pl z srt x]) (use sc in \<open>auto simp: scattered_def\<close>)
  then obtain ds fs1 where ds: "build_partitions z xorf xxh64 sort_u sj b plan dict fs = (Ok ds, fs1)"
    "list_all2 (\<lambda>p d. partition_ok z xorf xxh64 (plan_codec plan dict) (pl_block_size plan) (vb_sketch b) fs1
         (builder_dir b p) d (Fs p)) (builder_parts b) ds"
    "\<forall>q. (\<forall>p \<in> set (builder_parts b). q \<notin> in_dir (builder_dir b p)) \<longrightarrow> fs1 q = fs q"
    by (auto simp: build_partitions_def)
  have keep: "fs1 (path_join ?root n) = fs (path_join ?root n)" for n
    using ds(3) root_not_in_part by blast
  then have ok1: "v5_meta_ok z xorf xxh64 b fs1 plan dict Fs ds"
    using pl ds(2) by (auto simp: v5_meta_ok_def planned_def dict_ok_def)
  let ?d = "index_done_of secs plan ds"
  let ?fs2 = "((if vb_marker_mode b = Rename then fs1(path_join ?root (''index.done'' @ ''.tmp'') := None) else fs1)
     (path_join ?root ''index.done'' \<mapsto> enc_idone sj ?d))(path_join ?root ''v5.plan'' := None)"
  have "V5Builder_build z xorf xxh64 sort_u sj secs b (c, fs) = (Ok (id_n_keys ?d), (c\<lparr>c_done := Some ?d\<rparr>, ?fs2))"
    using fresh c d ds(1)
    by (simp add: V5Builder_build_def ensure_plan_def on_files_def io_bind_def path_exists_def io_return_def Let_def
        write_marker_eq remove_file_def io_do_def set_done_def)
  moreover have "v5_meta_ok z xorf xxh64 b ?fs2 plan dict Fs ds"
  proof (rule v5_meta_ok_cong [OF ok1])
    fix q p assume "q \<in> in_dir (builder_dir b p)"
    then have "q \<noteq> path_join ?root n" for n using root_not_in_part by blast
    then show "?fs2 q = fs1 q" by simp
  qed simp
  ultimately show ?thesis by blast
qed

lemma foldR_unit: "(\<And>x. x \<in> set xs \<Longrightarrow> f x () = Ok ()) \<Longrightarrow> foldR f xs () = Ok ()"
  by (induction xs) auto

lemma partition_ok_blocks:
  assumes "partition_ok z xorf xxh64 codec bs sketch fs dir d F" and "length F < 2 ^ 32"
  shows "n_blocks \<lparr>n_blocks = pd_n_blocks d, sketch_checksum = pd_sketch_checksum d\<rparr> > 0 \<longleftrightarrow> F \<noteq> []"
    and "unat (pd_n_blocks d) * unat bs < 2 ^ 64" and "pd_sketch_checksum d \<noteq> None \<longleftrightarrow> sketch \<and> F \<noteq> []"
proof -
  obtain groups heap G where g: "sorted_perm F G" "list_all2 (holds z xxh64 codec heap) G (concat groups)"
    "\<forall>g \<in> set groups. group_ok (unat bs) g" "pd_n_blocks d = word_of_nat (length groups)"
    using assms(1) unfolding partition_ok_def by blast
  note le = groups_le_frames [OF g(2,3,1)]
  have n: "unat (pd_n_blocks d) = length groups"
    using assms(2) le(1) by (simp add: g(4) unat_word_of_nat_less)
  then show "n_blocks \<lparr>n_blocks = pd_n_blocks d, sketch_checksum = pd_sketch_checksum d\<rparr> > 0 \<longleftrightarrow> F \<noteq> []"
    using le(2) by (simp add: word_less_nat_alt)
  show "unat (pd_n_blocks d) * unat bs < 2 ^ 64"
    unfolding n using le(1) assms(2) unat_u32_less [of bs] by (rule blocks_len_bound)
  show "pd_sketch_checksum d \<noteq> None \<longleftrightarrow> sketch \<and> F \<noteq> []"
    using assms(1) by (auto simp: partition_ok_def sketch_file_ok_def split: if_splits)
qed

lemma validate_planned: "planned xxh64 b fs plan dict \<Longrightarrow> validate_block_size (pl_block_size plan) = Ok ()"
  by (simp add: planned_def plan_ok_def validate_block_size_iff)

text \<open>The metadata a build publishes passes its own validation.\<close>

lemma built_meta_layout:
  assumes ok: "v5_meta_ok z xorf xxh64 b fs plan dict Fs ds" and b: "builder_ok b"
    and len: "\<forall>p < unat (n_partitions (vb_layout b)). length (Fs p) < 2 ^ 32"
  shows "MetaV5_layout (meta_of_done b (index_done_of secs plan ds) st enc) = Ok (vb_layout b)"
proof -
  let ?m = "meta_of_done b (index_done_of secs plan ds) st enc"
  have pl: "planned xxh64 b fs plan dict" and all: "list_all2 (\<lambda>p d. partition_ok z xorf xxh64 (plan_codec plan dict)
      (pl_block_size plan) (vb_sketch b) fs (builder_dir b p) d (Fs p)) (builder_parts b) ds"
    using ok by (simp_all add: v5_meta_ok_def)
  have sk: "m5_sketch ?m \<noteq> None \<longleftrightarrow> vb_sketch b"
    using pl by (simp add: meta_of_done_def index_done_of_def planned_def)
  have mem: "\<exists>p. length (Fs p) < 2 ^ 32 \<and> partition_ok z xorf xxh64 (plan_codec plan dict)
      (pl_block_size plan) (vb_sketch b) fs (builder_dir b p) d (Fs p)" if "d \<in> set ds" for d
    using list_all2_right [OF all that] len by auto
  have parts: "\<exists>d \<in> set ds. pm = \<lparr>n_blocks = pd_n_blocks d, sketch_checksum = pd_sketch_checksum d\<rparr>"
    if "pm \<in> set (m5_partitions ?m)" for pm
    using that by (auto simp: meta_of_done_def index_done_of_def)
  have anchor: "check_sketch_anchor ?m pm = Ok ()" and count: "check_block_count ?m pm = Ok ()"
    if pm: "pm \<in> set (m5_partitions ?m)" for pm
  proof -
    obtain d p where d: "pm = \<lparr>n_blocks = pd_n_blocks d, sketch_checksum = pd_sketch_checksum d\<rparr>"
      and F: "length (Fs p) < 2 ^ 32" and po: "partition_ok z xorf xxh64 (plan_codec plan dict) (pl_block_size plan)
        (vb_sketch b) fs (builder_dir b p) d (Fs p)"
      using parts [OF pm] mem by blast
    note pb = partition_ok_blocks [OF po F]
    show "check_sketch_anchor ?m pm = Ok ()"
      using pb(1,3) sk unfolding d check_sketch_anchor_def by auto
    have "m5_block_size ?m = pl_block_size plan" by (simp add: meta_of_done_def index_done_of_def)
    with pb(2) show "check_block_count ?m pm = Ok ()" unfolding d check_block_count_def by simp
  qed
  have "length (m5_partitions ?m) = unat (n_partitions (vb_layout b))"
    using list_all2_lengthD [OF all] by (simp add: meta_of_done_def index_done_of_def)
  moreover have "check_compression ?m = Ok ()" "check_sketch_kind ?m = Ok ()"
    by (auto simp: check_compression_def check_sketch_kind_def meta_of_done_def split: option.splits)
  moreover have "validate_block_size (m5_block_size ?m) = Ok ()"
    using validate_planned [OF pl] by (simp add: meta_of_done_def index_done_of_def)
  moreover have "m5_hash_algorithm ?m = HASH_ALGORITHM" by (simp add: meta_of_done_def)
  ultimately show ?thesis
    using b anchor count by (simp add: MetaV5_layout_def foldR_unit builder_ok_def)
qed

lemma built_codec:
  assumes pl: "planned xxh64 b fs plan dict" and z: "vb_compression b \<noteq> NoCompression \<Longrightarrow> zstd_ok z"
  shows "open_codec z xxh64 fs (vb_root b) (m5_compression (meta_of_done b (index_done_of secs plan ds) st enc)) =
    Ok (plan_codec plan dict)"
proof (cases "pl_compression plan = NoCompression")
  case True
  then show ?thesis by (simp add: open_codec_def meta_of_done_def index_done_of_def plan_codec_def)
next
  case False
  with pl z have "zstd_ok z" by (simp add: planned_def)
  then have "Decompressor_new z d = Ok d" for d by (simp add: Decompressor_new_def zstd_ok_def)
  with False pl show ?thesis
    by (cases dict) (auto simp: open_codec_def meta_of_done_def index_done_of_def plan_codec_def planned_def dict_ok_def
        verify_dict_def Let_def)
qed

lemma mapR_enumerate_ok:
  assumes "list_all2 (\<lambda>p d. \<exists>part. f (p, g d) = Ok part \<and> P p part) [n..<n + length ds] ds"
  shows "\<exists>parts. mapR f (enumerate n (map g ds)) = Ok parts \<and> length parts = length ds \<and>
    (\<forall>i < length ds. P (n + i) (parts ! i))"
  using assms
proof (induction ds arbitrary: n rule: list.induct)
  case Nil
  then show ?case by simp
next
  case (Cons x xs)
  have up: "[n..<n + length (x # xs)] = n # [Suc n..<Suc n + length xs]"
    by (simp add: upt_conv_Cons del: upt_Suc)
  note prem = Cons.prems [unfolded up, simplified list_all2_Cons]
  obtain part where part: "f (n, g x) = Ok part" "P n part" using prem by blast
  obtain parts where parts: "mapR f (enumerate (Suc n) (map g xs)) = Ok parts" "length parts = length xs"
    "\<forall>i < length xs. P (Suc n + i) (parts ! i)"
    using Cons.IH [of "Suc n"] prem by blast
  have "\<forall>i < length (x # xs). P (n + i) ((part # parts) ! i)"
    using part(2) parts(3) by (auto simp: nth_Cons split: nat.splits)
  with part(1) parts(1,2) show ?case by (intro exI [of _ "part # parts"]) simp
qed

text \<open>A built snapshot opens, and every lookup returns an answer from the frames of its partition.\<close>

lemma built_snapshot_opens:
  assumes ok: "v5_meta_ok z xorf xxh64 b fs plan dict Fs ds" and b: "builder_ok b"
    and z: "vb_compression b \<noteq> NoCompression \<Longrightarrow> zstd_ok z"
    and len: "\<forall>p < unat (n_partitions (vb_layout b)). length (Fs p) < 2 ^ 32"
  shows "\<exists>r. SnapshotReaderV5_open z xxh64 fs (vb_root b) (meta_of_done b (index_done_of secs plan ds) st enc) = Ok r \<and>
    (\<forall>key. \<exists>res. SnapshotReaderV5_get z xorf xxh64 r key = Ok res \<and>
      (let fp = fingerprint xxh64 key; vfp = v5_verify_fingerprint xxh64 key (vb_verify_seed b);
           F = Fs (partition_of (vb_layout b) fp)
       in case res of Hit v \<Rightarrow> \<exists>fp'. (fp', vfp, v) \<in> set F | Miss io \<Rightarrow> \<forall>v. (fp, vfp, v) \<notin> set F))"
proof -
  let ?m = "meta_of_done b (index_done_of secs plan ds) st enc" and ?l = "vb_layout b"
  let ?g = "\<lambda>d. \<lparr>n_blocks = pd_n_blocks d, sketch_checksum = pd_sketch_checksum d\<rparr>"
  let ?codec = "plan_codec plan dict" and ?n = "unat (n_partitions (vb_layout b))"
  have pl: "planned xxh64 b fs plan dict" and all: "list_all2 (\<lambda>p d. partition_ok z xorf xxh64 ?codec
      (pl_block_size plan) (vb_sketch b) fs (builder_dir b p) d (Fs p)) (builder_parts b) ds"
    using ok by (simp_all add: v5_meta_ok_def)
  have m: "m5_block_size ?m = pl_block_size plan" "m5_partitions ?m = map ?g ds" "m5_verify_seed ?m = vb_verify_seed b"
    "m5_sketch ?m \<noteq> None \<longleftrightarrow> vb_sketch b"
    using pl by (auto simp: meta_of_done_def index_done_of_def planned_def)
  have bs: "4 \<le> unat (pl_block_size plan)" using pl by (simp add: planned_def plan_ok_def)
  have n: "length ds = ?n" using list_all2_lengthD [OF all] by simp
  have "list_all2 (\<lambda>p d. \<exists>part. open_partition xxh64 fs (vb_root b) ?l ?m (p, ?g d) = Ok part \<and>
      serves z xorf xxh64 (pl_block_size plan) ?codec part (Fs p)) (builder_parts b) ds"
    using all
  proof (rule list.rel_mono_strong)
    fix p d
    assume p: "p \<in> set (builder_parts b)" and po: "partition_ok z xorf xxh64 ?codec (pl_block_size plan) (vb_sketch b) fs (builder_dir b p) d (Fs p)"
    have "length (Fs p) < 2 ^ 32" using p len by simp
    from open_partition_ok [of z xorf xxh64 ?codec ?m "vb_sketch b", unfolded m(1), OF po refl m(4) this bs]
    show "\<exists>part. open_partition xxh64 fs (vb_root b) ?l ?m (p, ?g d) = Ok part \<and>
      serves z xorf xxh64 (pl_block_size plan) ?codec part (Fs p)" .
  qed
  with n obtain parts where parts: "mapR (open_partition xxh64 fs (vb_root b) ?l ?m) (enumerate 0 (map ?g ds)) = Ok parts"
    "length parts = ?n" "\<forall>i < ?n. serves z xorf xxh64 (pl_block_size plan) ?codec (parts ! i) (Fs i)"
    using mapR_enumerate_ok [of "open_partition xxh64 fs (vb_root b) ?l ?m" ?g
        "\<lambda>p part. serves z xorf xxh64 (pl_block_size plan) ?codec part (Fs p)" 0 ds] by auto
  let ?r = "\<lparr>r5_partitions = parts, r5_layout = ?l, r5_verify_seed = vb_verify_seed b,
      r5_block_size = pl_block_size plan, r5_codec = ?codec\<rparr>"
  have "SnapshotReaderV5_open z xxh64 fs (vb_root b) ?m = Ok ?r"
    unfolding SnapshotReaderV5_open_def built_meta_layout [OF ok b len] rbind.simps
    using parts(1) built_codec [OF pl z, of secs ds st enc] by (simp add: m)
  moreover have "\<exists>res. SnapshotReaderV5_get z xorf xxh64 ?r key = Ok res \<and>
      (let fp = fingerprint xxh64 key; vfp = v5_verify_fingerprint xxh64 key (vb_verify_seed b);
           F = Fs (partition_of ?l fp)
       in case res of Hit v \<Rightarrow> \<exists>fp'. (fp', vfp, v) \<in> set F | Miss io \<Rightarrow> \<forall>v. (fp, vfp, v) \<notin> set F)" for key
  proof -
    let ?p = "partition_of ?l (fingerprint xxh64 key)"
    have p: "?p < ?n" using partition_of_bound b by (auto simp: builder_ok_def)
    from partition_get5_answers [OF parts(3) [rule_format, OF p] _ bs, of "fingerprint xxh64 key"
        "v5_verify_fingerprint xxh64 key (vb_verify_seed b)"] len p parts(2)
    show ?thesis by (simp add: SnapshotReaderV5_get_def Let_def)
  qed
  ultimately show ?thesis by blast
qed

end
