(* ===== verification/Loader_Scatter.thy ===== *)
theory Loader_Scatter
  imports Loader V4_Properties V5_Roundtrip
begin

text \<open>
  The concurrent scatter of \<open>mcfreeze-loader/src/scatter.rs\<close>: the invariant of the interleaved
  tasks (nothing is lost, duplicated or sent to a foreign partition), progress and termination of
  every schedule, and the cumulative size buckets of the statistics.
\<close>

section \<open>Value-size buckets\<close>

lemma consume_le_eq:
  assumes "sorted (map fst recs)"
  shows "consume_le le recs c =
    (filter (\<lambda>(v, n). \<not> v \<le> le) recs, c + sum_list (map snd (filter (\<lambda>(v, n). v \<le> le) recs)))"
  using assms
proof (induction recs arbitrary: c)
  case Nil
  then show ?case by simp
next
  case (Cons r recs)
  obtain v n where r: "r = (v, n)" by (cases r)
  show ?case
  proof (cases "v \<le> le")
    case True
    with Cons r show ?thesis by (simp add: add.assoc)
  next
    case False
    have "\<forall>x \<in> set recs. \<not> fst x \<le> le" using Cons.prems False r by fastforce
    then have "filter (\<lambda>(v, n). v \<le> le) recs = []" "filter (\<lambda>(v, n). \<not> v \<le> le) recs = recs"
      by (auto simp: filter_empty_conv filter_id_conv)
    with False r show ?thesis by simp
  qed
qed

lemma size_buckets_cumulative:
  assumes "sorted (map fst recs)" and "sorted les"
  shows "size_buckets les recs c =
    map (\<lambda>le. \<lparr>sb_le = le, sb_count = c + sum_list (map snd (filter (\<lambda>(v, n). v \<le> le) recs))\<rparr>) les"
  using assms
proof (induction les arbitrary: recs c)
  case Nil
  then show ?case by simp
next
  case (Cons le les)
  let ?lo = "filter (\<lambda>(v, n). v \<le> le) recs" and ?hi = "filter (\<lambda>(v, n). \<not> v \<le> le) recs"
  have "sorted (map fst ?hi)" using Cons.prems(1) by (rule sorted_filter)
  moreover have "sum_list (map snd (filter (\<lambda>(v, n). v \<le> l) recs)) =
      sum_list (map snd ?lo) + sum_list (map snd (filter (\<lambda>(v, n). v \<le> l) ?hi))" if "l \<in> set les" for l
  proof -
    have "le \<le> l" using Cons.prems(2) that by simp
    then show ?thesis by (induction recs) (auto simp: add_ac)
  qed
  ultimately show ?case
    using Cons.IH [of ?hi] Cons.prems by (simp add: consume_le_eq add.assoc)
qed

section \<open>Fan-out\<close>

definition sent :: "nat \<Rightarrow> (nat \<times> PartitionBatch) list \<Rightarrow> PartitionBatch" where
  "sent p sends = concat (map snd (filter (\<lambda>(i, b). i = p) sends))"

definition fanout_ok :: "Layout \<Rightarrow> nat \<Rightarrow> Fanout \<Rightarrow> bool" where
  "fanout_ok l m f \<longleftrightarrow> fo_layout f = l \<and> fo_max_value_bytes f = m \<and>
     fo_sub_batches f = replicate (unat (n_partitions l)) []"

lemma routed_Nil [simp]: "routed xxh64 l [] p = []"
  by (simp add: routed_def)

lemma routed_append: "routed xxh64 l (xs @ ys) p = routed xxh64 l xs p @ routed xxh64 l ys p"
  by (simp add: routed_def)

lemma routed_single:
  "routed xxh64 l [(k, v)] p =
     (if partition_of l (fingerprint xxh64 k) = p then [(k, fingerprint xxh64 k, v)] else [])"
  by (simp add: routed_def)

lemma fanout_batch:
  assumes l: "Layout_new (n_partitions l) = Ok l" and "fo_layout f = l" and "fo_max_value_bytes f = m"
    and "length (fo_sub_batches f) = unat (n_partitions l)"
    and "\<forall>p < unat (n_partitions l). fo_sub_batches f ! p = routed xxh64 l pre p"
    and "\<forall>(k, v) \<in> set batch. length v \<le> m"
  shows "\<exists>f'. foldR (fanout_kv xxh64) batch (None, f) = Ok (None, f') \<and> fo_layout f' = l \<and>
    fo_max_value_bytes f' = m \<and> length (fo_sub_batches f') = unat (n_partitions l) \<and>
    (\<forall>p < unat (n_partitions l). fo_sub_batches f' ! p = routed xxh64 l (pre @ batch) p) \<and>
    fo_n_keys f' = fo_n_keys f + word_of_nat (length batch) \<and>
    fo_data_bytes f' = fo_data_bytes f + word_of_nat (sum_list (map (\<lambda>(k, v). length v) batch))"
  using assms(2-)
proof (induction batch arbitrary: f pre)
  case Nil
  then show ?case by simp
next
  case (Cons kv batch)
  obtain k v where kv: "kv = (k, v)" by (cases kv)
  let ?fp = "fingerprint xxh64 k"
  let ?i = "partition_of l ?fp"
  have i: "?i < unat (n_partitions l)" using l by (rule partition_of_bound)
  let ?f = "f\<lparr>fo_sub_batches := (fo_sub_batches f)[?i := fo_sub_batches f ! ?i @ [(k, ?fp, v)]],
    fo_n_keys := fo_n_keys f + 1, fo_data_bytes := fo_data_bytes f + word_of_nat (length v)\<rparr>"
  have step: "fanout_kv xxh64 kv (None, f) = Ok (None, ?f)"
    using Cons.prems i by (auto simp: fanout_kv_def kv Let_def)
  have "\<forall>p < unat (n_partitions l). fo_sub_batches ?f ! p = routed xxh64 l (pre @ [kv]) p"
    using Cons.prems(3,4) i by (auto simp: routed_append routed_single kv nth_list_update)
  from Cons.IH [of ?f "pre @ [kv]"] this Cons.prems step kv show ?case
    by (simp add: add_ac)
qed

lemma sent_enumerate:
  "sent p (filter (\<lambda>(i, b). b \<noteq> []) (enumerate n bs)) = (if n \<le> p \<and> p < n + length bs then bs ! (p - n) else [])"
proof (induction bs arbitrary: n)
  case Nil
  then show ?case by (auto simp: sent_def)
next
  case (Cons b bs)
  have "sent p (filter (\<lambda>(i, b). b \<noteq> []) (enumerate n (b # bs))) =
      (if n = p then b else []) @ sent p (filter (\<lambda>(i, b). b \<noteq> []) (enumerate (Suc n) bs))"
    by (auto simp: sent_def)
  moreover have "p - n = Suc (p - Suc n)" if "Suc n \<le> p" using that by simp
  ultimately show ?case
    using Cons.IH [of "Suc n"] by (cases "p = n") auto
qed

lemma sends_enumerate:
  "length (filter (\<lambda>(i, b). i = p) (filter (\<lambda>(i, b). b \<noteq> []) (enumerate n bs))) =
     (if n \<le> p \<and> p < n + length bs \<and> bs ! (p - n) \<noteq> [] then 1 else 0)"
proof (induction bs arbitrary: n)
  case (Cons b bs)
  have "p - n = Suc (p - Suc n)" if "Suc n \<le> p" using that by simp
  then show ?case using Cons.IH [of "Suc n"] by (cases "p = n") auto
qed simp

text \<open>A batch that scatters has no value above the limit.\<close>

lemma scatter_batch_good:
  assumes "scatter_batch xxh64 batch f = Ok (f', sends)" and "fanout_ok l m f"
  shows "\<forall>(k, v) \<in> set batch. length v \<le> m"
proof -
  have stay: "foldR (fanout_kv xxh64) kvs (Some e, g) = Ok (Some e, g)" for kvs e g
    by (induction kvs) (simp_all add: fanout_kv_def)
  have "\<forall>(k, v) \<in> set kvs. length v \<le> fo_max_value_bytes g"
    if "foldR (fanout_kv xxh64) kvs (None, g) = Ok (None, g')" for kvs g g'
    using that
  proof (induction kvs arbitrary: g)
    case (Cons kv kvs)
    obtain k v where kv: "kv = (k, v)" by (cases kv)
    show ?case
    proof (cases "length v \<le> fo_max_value_bytes g")
      case True
      then consider "fanout_kv xxh64 kv (None, g) = Panic"
        | g1 where "fanout_kv xxh64 kv (None, g) = Ok (None, g1)" "fo_max_value_bytes g1 = fo_max_value_bytes g"
        by (cases "fanout_kv xxh64 kv (None, g)") (auto simp: fanout_kv_def kv Let_def split: if_splits)
      then show ?thesis using Cons.prems Cons.IH True kv by cases fastforce+
    next
      case False
      then have "fanout_kv xxh64 kv (None, g) = Ok (Some (LoaderValueTooLarge k (length v) (fo_max_value_bytes g)), g)"
        by (simp add: fanout_kv_def kv)
      with Cons.prems stay show ?thesis by simp
    qed
  qed simp
  moreover obtain g' where "foldR (fanout_kv xxh64) batch (None, f) = Ok (None, g')"
    using assms(1) by (auto simp: scatter_batch_def res_simps split: option.splits)
  ultimately have "\<forall>(k, v) \<in> set batch. length v \<le> fo_max_value_bytes f" by blast
  with assms(2) show ?thesis by (simp add: fanout_ok_def)
qed

lemma scatter_batch_ok:
  assumes l: "Layout_new (n_partitions l) = Ok l" and f: "fanout_ok l m f" and "\<forall>(k, v) \<in> set batch. length v \<le> m"
  shows "\<exists>f' sends. scatter_batch xxh64 batch f = Ok (f', sends) \<and> fanout_ok l m f' \<and>
    (\<forall>p < unat (n_partitions l). sent p sends = routed xxh64 l batch p) \<and>
    (\<forall>p < unat (n_partitions l). length (filter (\<lambda>(i, b). i = p) sends) = (if routed xxh64 l batch p = [] then 0 else 1)) \<and>
    length sends \<le> unat (n_partitions l) \<and> (\<forall>(i, b) \<in> set sends. i < unat (n_partitions l)) \<and>
    fo_n_keys f' = fo_n_keys f + word_of_nat (length batch) \<and>
    fo_data_bytes f' = fo_data_bytes f + word_of_nat (sum_list (map (\<lambda>(k, v). length v) batch))"
proof -
  let ?n = "unat (n_partitions l)"
  obtain f1 where f1: "foldR (fanout_kv xxh64) batch (None, f) = Ok (None, f1)" "fo_layout f1 = l"
    "fo_max_value_bytes f1 = m" "length (fo_sub_batches f1) = ?n"
    "\<forall>p < ?n. fo_sub_batches f1 ! p = routed xxh64 l batch p"
    "fo_n_keys f1 = fo_n_keys f + word_of_nat (length batch)"
    "fo_data_bytes f1 = fo_data_bytes f + word_of_nat (sum_list (map (\<lambda>(k, v). length v) batch))"
    using fanout_batch [OF l, of f m xxh64 "[]" batch] f assms(3) by (auto simp: fanout_ok_def)
  let ?sends = "filter (\<lambda>(idx, b). b \<noteq> []) (enumerate 0 (fo_sub_batches f1))"
  have "scatter_batch xxh64 batch f = Ok (f1\<lparr>fo_sub_batches := map (\<lambda>_. []) (fo_sub_batches f1)\<rparr>, ?sends)"
    by (simp add: scatter_batch_def f1(1))
  moreover have "length ?sends \<le> ?n" using length_filter_le [of _ "enumerate 0 (fo_sub_batches f1)"] f1(4) by (metis length_enumerate)
  moreover have "\<forall>(i, b) \<in> set ?sends. i < ?n" using f1(4) by (auto simp: in_set_enumerate_eq)
  ultimately show ?thesis
    using f1 by (auto simp: fanout_ok_def sent_enumerate sends_enumerate map_replicate_const simp del: filter_filter)
qed


section \<open>The concurrent scatter\<close>

abbreviation good_batch :: "nat \<Rightarrow> (string, (bytes \<times> bytes) list) res \<Rightarrow> bool" where
  "good_batch m r \<equiv> (\<exists>batch. r = Ok batch \<and> (\<forall>(k, v) \<in> set batch. length v \<le> m))"

text \<open>The pairs a source still holds, and the records a task still owes partition \<open>p\<close>.\<close>

definition pairs_of :: "source \<Rightarrow> (bytes \<times> bytes) list" where
  "pairs_of src = concat (map (\<lambda>r. case r of Ok b \<Rightarrow> b | _ \<Rightarrow> []) src)"

lemma pairs_of_simps [simp]: "pairs_of [] = []" "pairs_of (Ok b # src) = b @ pairs_of src"
  by (simp_all add: pairs_of_def)

definition owed :: "hash \<Rightarrow> Layout \<Rightarrow> nat \<Rightarrow> Task \<Rightarrow> PartitionBatch" where
  "owed xxh64 l p t = sent p (tk_sending t) @ routed xxh64 l (pairs_of (tk_source t)) p"

definition task_ok :: "Layout \<Rightarrow> nat \<Rightarrow> Task \<Rightarrow> bool" where
  "task_ok l m t \<longleftrightarrow> fanout_ok l m (tk_fanout t) \<and> (\<forall>(i, b) \<in> set (tk_sending t). i < unat (n_partitions l))"

definition delivered :: "hash \<Rightarrow> Layout \<Rightarrow> nat \<Rightarrow> ScatterState \<Rightarrow> (bytes \<times> u64 \<times> bytes) multiset" where
  "delivered xxh64 l p s =
     mset (concat (ss_queues s ! p)) + sum_list (map (mset \<circ> owed xxh64 l p) (ss_tasks s))"

definition scatter_inv :: "hash \<Rightarrow> Layout \<Rightarrow> nat \<Rightarrow> source list \<Rightarrow> ScatterState \<Rightarrow> bool" where
  "scatter_inv xxh64 l m srcs s \<longleftrightarrow>
     length (ss_queues s) = unat (n_partitions l) \<and> length (ss_tasks s) = length srcs \<and>
     (\<forall>t \<in> set (ss_tasks s). task_ok l m t) \<and>
     (\<forall>p < unat (n_partitions l).
        delivered xxh64 l p s = mset (routed xxh64 l (concat (map pairs_of srcs)) p))"

lemma sum_list_update_group:
  fixes f :: "'a \<Rightarrow> 'b multiset"
  shows "i < length xs \<Longrightarrow> sum_list (map f (xs[i := y])) + f (xs ! i) = sum_list (map f xs) + f y"
proof (induction xs arbitrary: i)
  case (Cons x xs)
  then show ?case by (cases i) (auto simp: ac_simps)
qed simp

lemma routed_concat: "mset (routed xxh64 l (concat xss) p) = sum_list (map (\<lambda>xs. mset (routed xxh64 l xs p)) xss)"
  by (induction xss) (simp_all add: routed_append)

lemma scatter_inv_start: "scatter_inv xxh64 l m srcs (scatter_start l m srcs)"
proof -
  have "delivered xxh64 l p (scatter_start l m srcs) = mset (routed xxh64 l (concat (map pairs_of srcs)) p)"
    if "p < unat (n_partitions l)" for p
    using that by (simp add: delivered_def scatter_start_def owed_def sent_def routed_concat comp_def)
  then show ?thesis
    by (auto simp: scatter_inv_def scatter_start_def task_ok_def fanout_def fanout_ok_def)
qed

lemma sent_Cons: "sent p ((i, b) # sends) = (if i = p then b else []) @ sent p sends"
  by (simp add: sent_def)

lemma scatter_inv_step:
  assumes "scatter_step xxh64 s s'" and l: "Layout_new (n_partitions l) = Ok l" and "scatter_inv xxh64 l m srcs s"
  shows "scatter_inv xxh64 l m srcs s'"
  using assms
proof (induction rule: scatter_step.induct)
  case (fetch i s batch rest f sends)
  let ?t = "ss_tasks s ! i" and ?t' = "\<lparr>tk_fanout = f, tk_source = rest, tk_sending = sends\<rparr>"
  have t: "task_ok l m ?t" using fetch by (auto simp: scatter_inv_def)
  then have "\<forall>(k, v) \<in> set batch. length v \<le> m" unfolding task_ok_def by (intro scatter_batch_good [OF fetch(4)]) (erule conjunct1)
  from scatter_batch_ok [OF l _ this, of "tk_fanout ?t" xxh64] t fetch(4)
  have f: "fanout_ok l m f" "\<forall>p < unat (n_partitions l). sent p sends = routed xxh64 l batch p"
    "\<forall>(i, b) \<in> set sends. i < unat (n_partitions l)"
    by (auto simp: task_ok_def)
  have "task_ok l m ?t'" using f t fetch(3) by (auto simp: task_ok_def)
  moreover have "delivered xxh64 l p (s\<lparr>ss_tasks := (ss_tasks s)[i := ?t']\<rparr>) = delivered xxh64 l p s"
    if "p < unat (n_partitions l)" for p
  proof -
    have "mset (owed xxh64 l p ?t') = mset (owed xxh64 l p ?t)"
      using f(2) that fetch(2,3) by (simp add: owed_def sent_def routed_append)
    with sum_list_update_group [OF fetch(1), of "mset \<circ> owed xxh64 l p" ?t'] show ?thesis
      by (simp add: delivered_def)
  qed
  ultimately show ?case using fetch
    by (auto simp: scatter_inv_def dest!: subsetD [OF set_update_subset_insert])
next
  case (send i s p b sends)
  let ?t = "ss_tasks s ! i" and ?t' = "(ss_tasks s ! i)\<lparr>tk_sending := sends\<rparr>"
  have t: "task_ok l m ?t" using send by (auto simp: scatter_inv_def)
  then have "task_ok l m ?t'" using send(2) by (auto simp: task_ok_def)
  moreover have "delivered xxh64 l q (s\<lparr>ss_tasks := (ss_tasks s)[i := ?t'],
      ss_queues := (ss_queues s)[p := ss_queues s ! p @ [b]]\<rparr>) = delivered xxh64 l q s"
    if "q < unat (n_partitions l)" for q
  proof -
    have o: "mset (owed xxh64 l q ?t) = (if p = q then mset b else {#}) + mset (owed xxh64 l q ?t')"
      using send(2) by (simp add: owed_def sent_Cons)
    have "sum_list (map (mset \<circ> owed xxh64 l q) ((ss_tasks s)[i := ?t'])) + (if p = q then mset b else {#}) =
        sum_list (map (mset \<circ> owed xxh64 l q) (ss_tasks s))"
      using sum_list_update_group [OF send(1), of "mset \<circ> owed xxh64 l q" ?t'] by (simp add: o add.assoc [symmetric])
    then have tasks: "sum_list (map (mset \<circ> owed xxh64 l q) (ss_tasks s)) =
        (if p = q then mset b else {#}) + sum_list (map (mset \<circ> owed xxh64 l q) ((ss_tasks s)[i := ?t']))"
      by (metis add.commute)
    have "mset (concat ((ss_queues s)[p := ss_queues s ! p @ [b]] ! q)) =
        mset (concat (ss_queues s ! q)) + (if p = q then mset b else {#})"
      using send(3) by (cases "p = q") auto
    then show ?thesis unfolding delivered_def by (simp add: tasks)
  qed
  ultimately show ?case using send
    by (auto simp: scatter_inv_def dest!: subsetD [OF set_update_subset_insert])
qed

lemma scatter_inv_reachable:
  assumes "(scatter_step xxh64)\<^sup>*\<^sup>* (scatter_start l m srcs) s" and l: "Layout_new (n_partitions l) = Ok l"
  shows "scatter_inv xxh64 l m srcs s"
  using assms(1)
proof (induction rule: rtranclp_induct)
  case base
  show ?case by (rule scatter_inv_start)
next
  case (step s1 s2)
  then show ?case using scatter_inv_step [OF _ l] by blast
qed

text \<open>No record over the limit is sent, whatever the sources hold.\<close>

definition batch_limit :: "nat \<Rightarrow> PartitionBatch \<Rightarrow> bool" where
  "batch_limit m b \<longleftrightarrow> (\<forall>(k, fp, v) \<in> set b. length v \<le> m)"

definition size_inv :: "nat \<Rightarrow> ScatterState \<Rightarrow> bool" where
  "size_inv m s \<longleftrightarrow> (\<forall>q \<in> set (ss_queues s). \<forall>b \<in> set q. batch_limit m b) \<and>
     (\<forall>t \<in> set (ss_tasks s). \<forall>pb \<in> set (tk_sending t). batch_limit m (snd pb))"

lemma batch_limit_subset: "batch_limit m b \<Longrightarrow> set b' \<subseteq> set b \<Longrightarrow> batch_limit m b'"
  by (auto simp: batch_limit_def)

lemma routed_limit: "\<forall>(k, v) \<in> set batch. length v \<le> m \<Longrightarrow> batch_limit m (routed xxh64 l batch p)"
  by (auto simp: routed_def batch_limit_def)

lemma size_inv_step:
  assumes "scatter_step xxh64 s s'" and l: "Layout_new (n_partitions l) = Ok l" and "scatter_inv xxh64 l m srcs s" and "size_inv m s"
  shows "size_inv m s'"
  using assms
proof (induction rule: scatter_step.induct)
  case (fetch i s batch rest f sends)
  have t: "fanout_ok l m (tk_fanout (ss_tasks s ! i))" using fetch by (auto simp: scatter_inv_def task_ok_def)
  note good = scatter_batch_good [OF fetch(4) t]
  have routed: "sent p sends = routed xxh64 l batch p" if "(p, b) \<in> set sends" for p b
    using scatter_batch_ok [OF l t good, of xxh64] fetch(4) that by auto
  have "batch_limit m (snd pb)" if pb: "pb \<in> set sends" for pb
  proof (rule batch_limit_subset)
    show "batch_limit m (sent (fst pb) sends)" using routed [of "fst pb" "snd pb"] pb routed_limit [OF good] by simp
    show "set (snd pb) \<subseteq> set (sent (fst pb) sends)" using pb by (force simp: sent_def)
  qed
  then show ?case using fetch(7) by (auto simp: size_inv_def dest!: subsetD [OF set_update_subset_insert])
next
  case (send i s p b sends)
  have t: "ss_tasks s ! i \<in> set (ss_tasks s)" "ss_queues s ! p \<in> set (ss_queues s)" using send(1,3) by simp_all
  with send(2,6) have s: "batch_limit m b" "\<forall>pb \<in> set sends. batch_limit m (snd pb)"
    "\<forall>b \<in> set (ss_queues s ! p). batch_limit m b"
    by (fastforce simp: size_inv_def)+
  with s send(6) show ?case
    by (auto simp: size_inv_def dest!: subsetD [OF set_update_subset_insert])
qed

lemma size_inv_reachable:
  assumes "(scatter_step xxh64)\<^sup>*\<^sup>* (scatter_start l m srcs) s" and l: "Layout_new (n_partitions l) = Ok l"
  shows "size_inv m s"
  using assms(1)
proof (induction rule: rtranclp_induct)
  case base
  show ?case by (simp add: size_inv_def scatter_start_def)
next
  case (step s1 s2)
  from size_inv_step [OF step(2) l scatter_inv_reachable [OF step(1) l] step(3)] show ?case .
qed

lemma scatter_finished_delivers:
  assumes "scatter_inv xxh64 l m srcs s" and "scatter_finished s" and "p < unat (n_partitions l)"
  shows "mset (concat (ss_queues s ! p)) = mset (routed xxh64 l (concat (map pairs_of srcs)) p)"
proof -
  have "sum_list (map (mset \<circ> owed xxh64 l p) ts) = {#}" if "\<forall>t \<in> set ts. tk_source t = [] \<and> tk_sending t = []" for ts
    using that by (induction ts) (simp_all add: owed_def sent_def)
  then have "sum_list (map (mset \<circ> owed xxh64 l p) (ss_tasks s)) = {#}"
    using assms(2) by (simp add: scatter_finished_def)
  with assms(1,3) show ?thesis unfolding scatter_inv_def delivered_def by (metis add.right_neutral)
qed

text \<open>What the sources still hold is good when they were.\<close>

definition sources_left_ok :: "nat \<Rightarrow> ScatterState \<Rightarrow> bool" where
  "sources_left_ok m s \<longleftrightarrow> (\<forall>t \<in> set (ss_tasks s). \<forall>r \<in> set (tk_source t). good_batch m r)"

lemma sources_left_ok_step: "scatter_step xxh64 s s' \<Longrightarrow> sources_left_ok m s \<Longrightarrow> sources_left_ok m s'"
proof (induction rule: scatter_step.induct)
  case (fetch i s batch rest f sends)
  then have "\<forall>r \<in> set rest. good_batch m r" by (fastforce simp: sources_left_ok_def dest: nth_mem)
  then show ?case using fetch(5) by (auto simp: sources_left_ok_def dest!: subsetD [OF set_update_subset_insert])
next
  case (send i s p b sends)
  then have "\<forall>r \<in> set (tk_source (ss_tasks s ! i)). good_batch m r" unfolding sources_left_ok_def by (meson nth_mem)
  then show ?case using send(4) by (auto simp: sources_left_ok_def dest!: subsetD [OF set_update_subset_insert])
qed

lemma sources_left_ok_start:
  "\<forall>src \<in> set srcs. \<forall>r \<in> set src. good_batch m r \<Longrightarrow> sources_left_ok m (scatter_start l m srcs)"
  by (simp add: sources_left_ok_def scatter_start_def)

text \<open>A state that is not finished can step, and every step decreases the work left.\<close>

definition task_work :: "Layout \<Rightarrow> Task \<Rightarrow> nat" where
  "task_work l t = length (tk_source t) * Suc (unat (n_partitions l)) + length (tk_sending t)"

definition scatter_work :: "Layout \<Rightarrow> ScatterState \<Rightarrow> nat" where
  "scatter_work l s = sum_list (map (task_work l) (ss_tasks s))"

lemma scatter_progress:
  assumes inv: "scatter_inv xxh64 l m srcs s" and l: "Layout_new (n_partitions l) = Ok l" and "\<not> scatter_finished s"
    and left: "sources_left_ok m s"
  shows "\<exists>s'. scatter_step xxh64 s s'"
proof -
  obtain i where i: "i < length (ss_tasks s)" "tk_source (ss_tasks s ! i) \<noteq> [] \<or> tk_sending (ss_tasks s ! i) \<noteq> []"
    using assms(3) by (auto simp: scatter_finished_def in_set_conv_nth)
  let ?t = "ss_tasks s ! i"
  have t: "task_ok l m ?t" using inv i(1) by (auto simp: scatter_inv_def)
  show ?thesis
  proof (cases "tk_sending ?t")
    case Nil
    have good: "\<forall>r \<in> set (tk_source ?t). good_batch m r" using left i(1) unfolding sources_left_ok_def by (meson nth_mem)
    with Nil i(2) obtain batch rest where src: "tk_source ?t = Ok batch # rest" "\<forall>(k, v) \<in> set batch. length v \<le> m"
      by (cases "tk_source ?t") auto
    from scatter_batch_ok [OF l _ src(2), of "tk_fanout ?t" xxh64] t obtain f sends where
      "scatter_batch xxh64 batch (tk_fanout ?t) = Ok (f, sends)" by (auto simp: task_ok_def)
    from scatter_step.fetch [OF i(1) Nil src(1) this] show ?thesis by blast
  next
    case (Cons pb sends)
    obtain p b where pb: "pb = (p, b)" by (cases pb)
    with Cons t inv have "p < length (ss_queues s)" by (auto simp: task_ok_def scatter_inv_def)
    from scatter_step.send [OF i(1) Cons [unfolded pb] this] show ?thesis by blast
  qed
qed

lemma sum_list_update_decreases:
  fixes f :: "'a \<Rightarrow> nat"
  assumes "i < length xs" and "f y < f (xs ! i)"
  shows "sum_list (map f (xs[i := y])) < sum_list (map f xs)"
  using assms
proof (induction xs arbitrary: i)
  case (Cons x xs)
  then show ?case by (cases i) auto
qed simp

lemma scatter_work_decreases:
  assumes "scatter_step xxh64 s s'" and "scatter_inv xxh64 l m srcs s" and l: "Layout_new (n_partitions l) = Ok l"
  shows "scatter_work l s' < scatter_work l s"
  using assms
proof (induction rule: scatter_step.induct)
  case (fetch i s batch rest f sends)
  let ?t = "ss_tasks s ! i"
  have t: "task_ok l m ?t" using fetch by (auto simp: scatter_inv_def)
  then have "\<forall>(k, v) \<in> set batch. length v \<le> m" unfolding task_ok_def by (intro scatter_batch_good [OF fetch(4)]) (erule conjunct1)
  from scatter_batch_ok [OF l _ this, of "tk_fanout ?t" xxh64] t fetch(4)
  have "length sends \<le> unat (n_partitions l)" by (auto simp: task_ok_def)
  then show ?case using fetch(1-3) by (auto simp: scatter_work_def task_work_def intro!: sum_list_update_decreases)
next
  case (send i s p b sends)
  then show ?case by (auto simp: scatter_work_def task_work_def intro!: sum_list_update_decreases)
qed

lemma scatter_completes:
  assumes "scatter_inv xxh64 l m srcs s" and l: "Layout_new (n_partitions l) = Ok l" and "sources_left_ok m s"
  shows "\<exists>s'. (scatter_step xxh64)\<^sup>*\<^sup>* s s' \<and> scatter_finished s'"
  using assms(1,3)
proof (induction "scatter_work l s" arbitrary: s rule: less_induct)
  case less
  show ?case
  proof (cases "scatter_finished s")
    case False
    obtain s1 where s1: "scatter_step xxh64 s s1" using scatter_progress [OF less(2) l False less(3)] ..
    from less(1) [OF scatter_work_decreases [OF s1 less(2) l] scatter_inv_step [OF s1 l less(2)] sources_left_ok_step [OF s1 less(3)]] s1
    show ?thesis by (meson converse_rtranclp_into_rtranclp)
  qed blast
qed

end
