(* ===== verification/Loader_Format.thy ===== *)
theory Loader_Format
  imports Loader_Scatter
begin

text \<open>
  The interfaces between the loader and a format (\<open>mcfreeze-format/src/builder.rs\<close>), as locales:
  \<open>partition_appender\<close> is what a partition writer relies on of an appender, \<open>scatter_format\<close> what
  the scatter phase relies on of a builder.  Both are interpreted on the formats.
\<close>

type_synonym records = "(bytes \<times> u64 \<times> bytes) list"

section \<open>Appenders\<close>

text \<open>
  What a partition writer relies on of \<open>PartitionAppender::append\<close>: while there is room, a record
  is accepted and the appender holds it after the earlier ones.
\<close>

locale partition_appender =
  fixes append :: "'a \<Rightarrow> bytes \<Rightarrow> u64 \<Rightarrow> bytes \<Rightarrow> 'a fres"
    and opened :: "'a \<Rightarrow> records \<Rightarrow> bool"
    and room :: "records \<Rightarrow> bool"
  assumes append_ok: "opened a recs \<Longrightarrow> room (recs @ [(k, fp, v)]) \<Longrightarrow>
      \<exists>a'. append a k fp v = Ok a' \<and> opened a' (recs @ [(k, fp, v)])"
    and room_prefix: "room (xs @ ys) \<Longrightarrow> room xs"
begin

lemma record_all:
  assumes "fb_append fb = append" and "opened a recs" and "room (recs @ xs)"
  shows "\<exists>a' ps'. foldR (writer_record fb hl) xs (a, ps) = Ok (a', ps') \<and> opened a' (recs @ xs) \<and>
    ps_n_keys ps' = ps_n_keys ps + word_of_nat (length xs)"
  using assms(2-)
proof (induction xs arbitrary: a ps recs)
  case Nil
  then show ?case by simp
next
  case (Cons x xs)
  obtain k fp v where x: "x = (k, fp, v)" by (cases x)
  have r: "room ((recs @ [x]) @ xs)" using Cons.prems(2) by simp
  obtain a1 where a1: "append a k fp v = Ok a1" "opened a1 (recs @ [x])"
    using append_ok [OF Cons.prems(1), of k fp v] room_prefix [OF r] x by auto
  obtain ps1 where st: "writer_record fb hl x (a, ps) = Ok (a1, ps1)" "ps_n_keys ps1 = ps_n_keys ps + 1"
    using a1(1) by (simp add: writer_record_def x Let_def assms(1))
  from Cons.IH [OF a1(2) r, of ps1] st show ?case by (auto simp: add.assoc)
qed

end

section \<open>Formats\<close>

text \<open>
  What the scatter phase relies on of a format: an appender opens empty, finishing it stores its
  records on the partition, and both leave the other partitions (\<open>within\<close>) and everything outside
  the partitions (\<open>outside\<close>) alone.
\<close>

locale scatter_format =
  fixes fb :: "('c, 'a) FormatBuilder" and n :: nat
    and opened :: "nat \<Rightarrow> 'a \<Rightarrow> records \<Rightarrow> bool" and room :: "records \<Rightarrow> bool"
    and stored :: "nat \<Rightarrow> records \<Rightarrow> 'c \<times> files \<Rightarrow> bool"
    and valid :: "'c \<times> files \<Rightarrow> bool"
    and within :: "nat \<Rightarrow> 'c \<times> files \<Rightarrow> 'c \<times> files \<Rightarrow> bool"
    and outside :: "'c \<times> files \<Rightarrow> 'c \<times> files \<Rightarrow> bool"
  assumes appends: "p < n \<Longrightarrow> partition_appender (fb_append fb) (opened p) room"
    and open_ok: "valid s \<Longrightarrow> p < n \<Longrightarrow>
      \<exists>a s'. fb_appender fb p s = (Ok a, s') \<and> opened p a [] \<and> valid s' \<and> within p s s'"
    and finish_ok: "valid s \<Longrightarrow> p < n \<Longrightarrow> opened p a recs \<Longrightarrow> room recs \<Longrightarrow>
      \<exists>s'. fb_finish fb a s = (Ok (), s') \<and> stored p recs s' \<and> valid s' \<and> within p s s'"
    and within_stored: "within p s s' \<Longrightarrow> q \<noteq> p \<Longrightarrow> stored q recs s \<Longrightarrow> stored q recs s'"
    and within_outside: "within p s s' \<Longrightarrow> outside s s'"
    and outside_refl: "outside s s"
    and outside_trans: "outside s s' \<Longrightarrow> outside s' s'' \<Longrightarrow> outside s s''"
begin

lemma open_all:
  assumes "valid s" and "k + m \<le> n"
  shows "\<exists>as s'. io_mapM (fb_appender fb) [k..<k + m] s = (Ok as, s') \<and> length as = m \<and>
    (\<forall>i < m. opened (k + i) (as ! i) []) \<and> valid s' \<and> outside s s'"
  using assms
proof (induction m arbitrary: k s)
  case 0
  then show ?case by (simp add: io_return_def outside_refl)
next
  case (Suc m)
  obtain a s1 where a: "fb_appender fb k s = (Ok a, s1)" "opened k a []" "valid s1" "within k s s1"
    using open_ok [of s k] Suc.prems by auto
  obtain as s' where as: "io_mapM (fb_appender fb) [Suc k..<Suc k + m] s1 = (Ok as, s')" "length as = m"
    "\<forall>i < m. opened (Suc k + i) (as ! i) []" "valid s'" "outside s1 s'"
    using Suc.IH [OF a(3), of "Suc k"] Suc.prems(2) by auto
  have up: "[k..<k + Suc m] = k # [Suc k..<Suc k + m]" by (simp add: upt_conv_Cons del: upt_Suc)
  have "\<forall>i < Suc m. opened (k + i) ((a # as) ! i) []"
    using a(2) as(3) by (auto simp: nth_Cons split: nat.splits)
  moreover have "outside s s'" using within_outside [OF a(4)] as(5) by (rule outside_trans)
  ultimately show ?case
    using a(1) as(1,2,4) unfolding up
    by (intro exI [of _ "a # as"] exI [of _ s']) (simp add: io_bind_def io_return_def del: upt_Suc)
qed

lemma writer_ok:
  assumes "valid s" and p: "p < n" and a: "opened p a []" and r: "room (concat batches)"
  shows "\<exists>ps s'. partition_writer fb hl (a, batches) s = (Ok ps, s') \<and> stored p (concat batches) s' \<and>
    valid s' \<and> within p s s' \<and> ps_n_keys ps = word_of_nat (length (concat batches))"
proof -
  obtain a1 ps1 where w: "foldR (writer_record fb hl) (concat batches)
      (a, \<lparr>ps_n_keys = 0, ps_sum_bytes = 0, ps_histogram = hdr_new hl\<rparr>) = Ok (a1, ps1)"
    "opened p a1 (concat batches)" "ps_n_keys ps1 = word_of_nat (length (concat batches))"
    using partition_appender.record_all [OF appends [OF p] refl a, of "concat batches" hl
        "\<lparr>ps_n_keys = 0, ps_sum_bytes = 0, ps_histogram = hdr_new hl\<rparr>"] r by auto
  obtain s' where "fb_finish fb a1 s = (Ok (), s')" "stored p (concat batches) s'" "valid s'" "within p s s'"
    using finish_ok [OF assms(1) p w(2) r] by blast
  with w show ?thesis
    by (intro exI [of _ ps1] exI [of _ s'])
      (simp add: partition_writer_def io_map_err_def io_bind_def io_lift_def io_return_def)
qed

lemma writers_ok:
  assumes "valid s" and "k + length ws \<le> n"
    and "\<forall>i < length ws. opened (k + i) (fst (ws ! i)) [] \<and> room (concat (snd (ws ! i)))"
  shows "\<exists>stats s'. io_collect (partition_writer fb hl) ws s = (map Ok stats, s') \<and> valid s' \<and> outside s s' \<and>
    map ps_n_keys stats = map (\<lambda>w. word_of_nat (length (concat (snd w)))) ws \<and>
    (\<forall>i < length ws. stored (k + i) (concat (snd (ws ! i))) s') \<and>
    (\<forall>q recs. q < k \<longrightarrow> stored q recs s \<longrightarrow> stored q recs s')"
  using assms
proof (induction ws arbitrary: k s)
  case Nil
  then show ?case by (simp add: outside_refl)
next
  case (Cons w ws)
  obtain a batches where w: "w = (a, batches)" by (cases w)
  have "opened k a []" "room (concat batches)" "k < n" using Cons.prems w by (auto dest: spec [of _ 0])
  then obtain ps s1 where s1: "partition_writer fb hl w s = (Ok ps, s1)" "stored k (concat batches) s1" "valid s1"
    "within k s s1" "ps_n_keys ps = word_of_nat (length (concat batches))"
    using writer_ok [OF Cons.prems(1)] w by blast
  have "\<forall>i < length ws. opened (Suc k + i) (fst (ws ! i)) [] \<and> room (concat (snd (ws ! i)))"
    using Cons.prems(3) by (auto dest: spec [of _ "Suc _"])
  then obtain stats s' where s': "io_collect (partition_writer fb hl) ws s1 = (map Ok stats, s')" "valid s'"
    "outside s1 s'" "map ps_n_keys stats = map (\<lambda>w. word_of_nat (length (concat (snd w)))) ws"
    "\<forall>i < length ws. stored (Suc k + i) (concat (snd (ws ! i))) s'"
    "\<forall>q recs. q < Suc k \<longrightarrow> stored q recs s1 \<longrightarrow> stored q recs s'"
    using Cons.IH [OF s1(3), of "Suc k"] Cons.prems(2) by auto
  have "stored (k + i) (concat (snd ((w # ws) ! i))) s'" if "i < length (w # ws)" for i
    using that s'(5,6) s1(2) w by (cases i) auto
  moreover have "outside s s'" using within_outside [OF s1(4)] s'(3) by (rule outside_trans)
  moreover have "stored q recs s'" if "q < k" "stored q recs s" for q recs
    using s'(6) within_stored [OF s1(4) _ that(2)] that(1) by auto
  ultimately show ?case
    using s1(1,5) s'(1,2,4) w by (intro exI [of _ "ps # stats"] exI [of _ s']) auto
qed

lemma appenders_ok:
  assumes "valid s" and "n = unat (n_partitions layout)" and "length queues = n"
    and "\<forall>p < n. room (concat (queues ! p))"
  shows "\<exists>as s1 stats s2. create_appenders fb layout s = (Ok as, s1) \<and> length as = n \<and>
    io_collect (partition_writer fb hl) (zip as queues) s1 = (map Ok stats, s2) \<and> valid s2 \<and> outside s s2 \<and>
    map ps_n_keys stats = map (\<lambda>q. word_of_nat (length (concat q))) queues \<and>
    (\<forall>p < n. stored p (concat (queues ! p)) s2)"
proof -
  obtain as s1 where as: "io_mapM (fb_appender fb) [0..<n] s = (Ok as, s1)" "length as = n"
    "\<forall>i < n. opened i (as ! i) []" "valid s1" "outside s s1"
    using open_all [OF assms(1), of 0 n] by auto
  have "\<forall>i < length (zip as queues). opened (0 + i) (fst (zip as queues ! i)) [] \<and> room (concat (snd (zip as queues ! i)))"
    using as(2,3) assms(3,4) by simp
  moreover have "0 + length (zip as queues) \<le> n" using as(2) assms(3) by simp
  ultimately obtain stats s2 where w: "io_collect (partition_writer fb hl) (zip as queues) s1 = (map Ok stats, s2)"
    "valid s2" "outside s1 s2" "map ps_n_keys stats = map (\<lambda>w. word_of_nat (length (concat (snd w)))) (zip as queues)"
    "\<forall>i < length (zip as queues). stored (0 + i) (concat (snd (zip as queues ! i))) s2"
    using writers_ok [OF as(4), of 0 "zip as queues" hl] by blast
  have "map (\<lambda>w. word_of_nat (length (concat (snd w))) :: u64) (zip as queues) =
      map (\<lambda>q. word_of_nat (length (concat q))) (map snd (zip as queues))" by (simp add: comp_def)
  also have "map snd (zip as queues) = queues" using as(2) assms(3) by simp
  finally have "map ps_n_keys stats = map (\<lambda>q. word_of_nat (length (concat q))) queues" using w(4) by simp
  moreover have "create_appenders fb layout s = (Ok as, s1)"
    using as(1) by (simp add: create_appenders_def io_map_err_def assms(2))
  moreover have "\<forall>p < n. stored p (concat (queues ! p)) s2" using w(5) as(2) assms(3) by simp
  moreover have "outside s s2" using as(5) w(3) by (rule outside_trans)
  ultimately show ?thesis using as(2) w(1,2) by blast
qed

end

section \<open>The formats\<close>

text \<open>The V5 log of a partition.\<close>

definition v5_opened :: "hash \<Rightarrow> V5Builder \<Rightarrow> nat \<Rightarrow> V5Appender \<Rightarrow> records \<Rightarrow> bool" where
  "v5_opened xxh64 b p a recs \<longleftrightarrow> app_inv a (map (key_frame xxh64 (vb_verify_seed b)) recs) \<and>
     va_dir a = builder_dir b p \<and> va_verify_seed a = vb_verify_seed b \<and> va_marker_mode a = vb_marker_mode b"

definition v5_room :: "records \<Rightarrow> bool" where
  "v5_room recs \<longleftrightarrow> (\<forall>(k, fp, v) \<in> set recs. length v < 2 ^ 30)"

definition v5_stored :: "serde_lib \<Rightarrow> hash \<Rightarrow> V5Builder \<Rightarrow> nat \<Rightarrow> records \<Rightarrow> Cells \<times> files \<Rightarrow> bool" where
  "v5_stored sj xxh64 b p recs s \<longleftrightarrow>
     (let F = map (key_frame xxh64 (vb_verify_seed b)) recs
      in snd s (path_join (builder_dir b p) ''arrival.bin'') = Some (frames_bytes F) \<and> (\<forall>f \<in> set F. frame_ok f) \<and>
         (\<exists>st. snd s (path_join (builder_dir b p) ''arrival.stats'') = Some (enc_stats sj st) \<and>
               as_n_keys st = word_of_nat (length recs)))"

definition v5_log_files :: "V5Builder \<Rightarrow> nat \<Rightarrow> path set" where
  "v5_log_files b p = path_join (builder_dir b p) ` {''arrival.bin'', ''arrival.stats'', ''arrival.stats.tmp''}"

definition v5_within :: "V5Builder \<Rightarrow> nat \<Rightarrow> Cells \<times> files \<Rightarrow> Cells \<times> files \<Rightarrow> bool" where
  "v5_within b p s s' \<longleftrightarrow> fst s' = fst s \<and> (\<forall>q. q \<notin> v5_log_files b p \<longrightarrow> snd s' q = snd s q)"

definition v5_outside :: "V5Builder \<Rightarrow> Cells \<times> files \<Rightarrow> Cells \<times> files \<Rightarrow> bool" where
  "v5_outside b s s' \<longleftrightarrow> fst s' = fst s \<and> (\<forall>q. q \<notin> (\<Union>p. v5_log_files b p) \<longrightarrow> snd s' q = snd s q)"

lemma v5_partition_appender: "partition_appender (V5Appender_append xxh64) (v5_opened xxh64 b p) v5_room"
proof
  fix a recs k fp v
  assume "v5_opened xxh64 b p a recs" "v5_room (recs @ [(k, fp, v)])"
  then show "\<exists>a'. V5Appender_append xxh64 a k fp v = Ok a' \<and> v5_opened xxh64 b p a' (recs @ [(k, fp, v)])"
    using append_inv [of a _ v xxh64 k fp] by (fastforce simp: v5_opened_def v5_room_def)
next
  fix xs ys
  assume "v5_room (xs @ ys)"
  then show "v5_room xs" by (simp add: v5_room_def)
qed

interpretation v5_appends: partition_appender "V5Appender_append xxh64" "v5_opened xxh64 b p" v5_room for xxh64 b p
  by (rule v5_partition_appender)

lemma v5_open_ok:
  "\<exists>a s'. on_files (V5Builder_appender b p) s = (Ok a, s') \<and> v5_opened xxh64 b p a [] \<and> v5_within b p s s'"
  by (cases s) (auto simp: on_files_def V5Builder_appender_def Let_def io_bind_def remove_file_def file_create_def io_do_def
      io_return_def v5_opened_def app_inv_def v5_within_def v5_log_files_def)

lemma v5_finish_ok:
  assumes "v5_opened xxh64 b p a recs"
  shows "\<exists>s'. on_files (V5Appender_finish sj a) s = (Ok (), s') \<and> v5_stored sj xxh64 b p recs s' \<and> v5_within b p s s'"
proof -
  obtain c fs where s: "s = (c, fs)" by (cases s)
  let ?dir = "builder_dir b p"
  let ?st = "\<lparr>as_n_keys = va_n_keys a, as_data_bytes = va_data_bytes a, as_hist = va_hist a\<rparr>"
  let ?fs1 = "fs(path_join ?dir ''arrival.bin'' \<mapsto> va_out a)"
  let ?fs2 = "(if vb_marker_mode b = Rename then ?fs1(path_join ?dir (''arrival.stats'' @ ''.tmp'') := None) else ?fs1)
    (path_join ?dir ''arrival.stats'' \<mapsto> enc_stats sj ?st)"
  have fin: "on_files (V5Appender_finish sj a) s = (Ok (), (c, ?fs2))"
    using assms by (simp add: on_files_def V5Appender_finish_def v5_opened_def io_bind_def write_data_file_def io_do_def
        write_marker_eq s)
  moreover have "v5_stored sj xxh64 b p recs (c, ?fs2)"
    unfolding v5_stored_def Let_def
    using assms by (auto simp: v5_opened_def app_inv_def intro!: exI [of _ ?st])
  moreover have "v5_within b p s (c, ?fs2)"
    by (auto simp: v5_within_def v5_log_files_def s)
  ultimately show ?thesis by blast
qed

lemma v5_log_files_disjoint: "p \<noteq> q \<Longrightarrow> v5_log_files b p \<inter> v5_log_files b q = {}"
  by (auto simp: v5_log_files_def partition_dir_inject)

lemma v5_within_stored: "v5_within b p s s' \<Longrightarrow> q \<noteq> p \<Longrightarrow> v5_stored sj xxh64 b q recs s \<Longrightarrow> v5_stored sj xxh64 b q recs s'"
proof -
  assume w: "v5_within b p s s'" and q: "q \<noteq> p" and st: "v5_stored sj xxh64 b q recs s"
  have "path_join (builder_dir b q) x \<notin> v5_log_files b p" for x
    using q by (auto simp: v5_log_files_def partition_dir_inject)
  with w have "snd s' (path_join (builder_dir b q) x) = snd s (path_join (builder_dir b q) x)" for x
    by (simp add: v5_within_def)
  with st show ?thesis by (simp add: v5_stored_def)
qed

interpretation v5_scatter: scatter_format "v5_format_builder z xorf xxh64 sort_u sj secs b" n "v5_opened xxh64 b" v5_room
    "v5_stored sj xxh64 b" "\<lambda>_. True" "v5_within b" "v5_outside b" for z xorf xxh64 sort_u sj secs b n
proof (rule scatter_format.intro, goal_cases)
  case (1 p)
  then show ?case using v5_partition_appender by (simp add: v5_format_builder_def)
next
  case (2 s p)
  then show ?case using v5_open_ok [of b p s xxh64] by (simp add: v5_format_builder_def)
next
  case (3 s p a recs)
  then show ?case using v5_finish_ok by (auto simp: v5_format_builder_def)
next
  case (4 p s s' q recs)
  then show ?case by (rule v5_within_stored)
qed (auto simp: v5_within_def v5_outside_def)

end
