(* ===== verification/Loader_Load.thy ===== *)
theory Loader_Load
  imports Loader_Format
begin

text \<open>
  A whole V5 load (\<open>mcfreeze-loader/src/lib.rs\<close>): a finished scatter leaves every partition
  scattered, the build and the publication succeed, and the snapshot opens and answers every lookup
  from the pairs of the sources.  A scatter that fails leaves the partitions marked complete, and
  the next load builds from what was delivered.  Then the row limit that sources share.
\<close>

section \<open>A directory no load has touched\<close>

definition fresh_root :: "path \<Rightarrow> files \<Rightarrow> bool" where
  "fresh_root root fs \<longleftrightarrow> (\<forall>rel. fs (root @ rel) = None)"

lemma fresh_root_join: "fresh_root root fs \<Longrightarrow> fs (path_join root x) = None"
  by (simp add: fresh_root_def path_join_def)

lemma fresh_root_part: "fresh_root root fs \<Longrightarrow> fs (path_join (partition_dir root n p) x) = None"
  by (simp add: fresh_root_def path_join_def partition_dir_def data_dir_def Let_def)

section \<open>A finished scatter\<close>

lemma finished_tasks:
  assumes "scatter_finished ss"
  shows "mapR (joined \<circ> task_result xxh64) (ss_tasks ss) = Ok (map tk_fanout (ss_tasks ss))"
proof -
  have "mapR (joined \<circ> task_result xxh64) ts = Ok (map tk_fanout ts)" if "\<forall>t \<in> set ts. tk_source t = []" for ts
    using that by (induction ts) (simp_all add: task_result_def)
  with assms show ?thesis by (simp add: scatter_finished_def)
qed

lemma mapR_joined_Ok: "mapR joined (map Ok xs) = Ok xs"
  by (induction xs) simp_all

lemma phase_finish_ok:
  assumes "io_collect (partition_writer fb hl) (zip as (ss_queues ss)) s = (map Ok pst, (c, fs))"
  shows "\<exists>json st. phase_finish fb hl lj root layout mode secs rate as ss s =
      (Ok st, (c, (if mode = Rename then fs(path_join root (''scatter.done'' @ ''.tmp'') := None) else fs)
        (path_join root ''scatter.done'' \<mapsto> json))) \<and> sst_n_keys st = sum_list (map ps_n_keys pst) \<and>
    (\<exists>d. json = enc_sdone lj d \<and> sdn_format d = fb_format fb)"
proof -
  have "\<exists>st. io_bind (write_sentinel (path_join root ''scatter.done'') json mode) (\<lambda>_. io_return st0) (c, fs) =
      (Ok st, (c, (if mode = Rename then fs(path_join root (''scatter.done'' @ ''.tmp'') := None) else fs)
        (path_join root ''scatter.done'' \<mapsto> json))) \<and> st = st0" for json and st0 :: ScatterStats
    by (simp add: write_sentinel_def io_map_err_def on_files_def write_marker_eq io_bind_def io_return_def)
  then show ?thesis
    unfolding phase_finish_def Let_def assms prod.case mapR_joined_Ok io_bind_lift_Ok
    by (fastforce simp: comp_def)
qed

abbreviation v5_frames :: "hash \<Rightarrow> V5Builder \<Rightarrow> ScatterState \<Rightarrow> nat \<Rightarrow> frame list" where
  "v5_frames xxh64 b ss p \<equiv> map (key_frame xxh64 (vb_verify_seed b)) (concat (ss_queues ss ! p))"

lemma v5_stored_all:
  assumes "\<forall>p < unat (n_partitions (vb_layout b)). v5_stored sj xxh64 b p (concat (ss_queues ss ! p)) s"
    and "\<forall>p. snd s (path_join (builder_dir b p) ''build.done'') = None"
    and "\<forall>p < unat (n_partitions (vb_layout b)). length (concat (ss_queues ss ! p)) < 2 ^ 32"
  shows "scattered sj b (snd s) (v5_frames xxh64 b ss)"
  using assms unfolding scattered_def v5_stored_def Let_def by fastforce

text \<open>The root's files other than the sentinel, and the partition files other than the logs, stay.\<close>

definition scatter_frame :: "V5Builder \<Rightarrow> Cells \<times> files \<Rightarrow> Cells \<times> files \<Rightarrow> bool" where
  "scatter_frame b s s' \<longleftrightarrow> fst s' = fst s \<and>
     (\<forall>x. x \<noteq> ''scatter.done'' \<longrightarrow> x \<noteq> ''scatter.done.tmp'' \<longrightarrow>
        snd s' (path_join (vb_root b) x) = snd s (path_join (vb_root b) x)) \<and>
     (\<forall>p. snd s' (path_join (builder_dir b p) ''build.done'') = snd s (path_join (builder_dir b p) ''build.done''))"

lemma root_not_log: "path_join (vb_root b) x \<notin> (\<Union>p. v5_log_files b p)"
proof
  assume "path_join (vb_root b) x \<in> (\<Union>p. v5_log_files b p)"
  then obtain p where "path_join (vb_root b) x \<in> v5_log_files b p" by blast
  then have "path_join (vb_root b) x \<in> in_dir (builder_dir b p)" by (auto simp: v5_log_files_def in_dir_def)
  with root_not_in_part show False by blast
qed

lemma v5_run_scatter_ok:
  fixes hl :: "'h hdr_lib"
  assumes fin: "scatter_finished ss" and len: "length (ss_queues ss) = unat (n_partitions (vb_layout b))"
    and room: "\<forall>p < unat (n_partitions (vb_layout b)). v5_room (concat (ss_queues ss ! p))"
  shows "\<exists>st s'. run_scatter_sources xxh64 (v5_format_builder z xorf xxh64 sort_u sj secs b) hl lj (vb_root b)
      (vb_layout b) mode secs' rate drains ss s = (Ok st, s') \<and> scatter_frame b s s' \<and>
    (\<forall>p < unat (n_partitions (vb_layout b)). v5_stored sj xxh64 b p (concat (ss_queues ss ! p)) s') \<and>
    sst_n_keys st = sum_list (map (\<lambda>q. word_of_nat (length (concat q))) (ss_queues ss)) \<and>
    (\<exists>d. snd s' (path_join (vb_root b) ''scatter.done'') = Some (enc_sdone lj d) \<and> sdn_format d = V5)"
proof -
  let ?fb = "v5_format_builder z xorf xxh64 sort_u sj secs b" and ?n = "unat (n_partitions (vb_layout b))"
  obtain as s1 stats s2 where w: "create_appenders ?fb (vb_layout b) s = (Ok as, s1)"
    "io_collect (partition_writer ?fb hl) (zip as (ss_queues ss)) s1 = (map Ok stats, s2)" "v5_outside b s s2"
    "map ps_n_keys stats = map (\<lambda>q. word_of_nat (length (concat q))) (ss_queues ss)"
    "\<forall>p < ?n. v5_stored sj xxh64 b p (concat (ss_queues ss ! p)) s2"
    using v5_scatter.appenders_ok [OF _ refl len room, where hl = hl] by blast
  obtain c fs where s2: "s2 = (c, fs)" by (cases s2)
  let ?root = "vb_root b"
  define fs' where "fs' = (\<lambda>json. (if mode = Rename then fs(path_join ?root (''scatter.done'' @ ''.tmp'') := None) else fs)
    (path_join ?root ''scatter.done'' \<mapsto> json))"
  obtain st json where r: "run_scatter_sources xxh64 ?fb hl lj ?root (vb_layout b) mode secs' rate drains ss s =
      (Ok st, (c, fs' json))" "sst_n_keys st = sum_list (map ps_n_keys stats)" "\<exists>d. json = enc_sdone lj d \<and> sdn_format d = fb_format ?fb"
    using phase_finish_ok [where hl = hl and ss = ss and s = s1 and as = as, OF w(2) [unfolded s2], of lj ?root "vb_layout b" mode secs' rate]
    unfolding run_scatter_sources_def io_bind_Ok [where m = "create_appenders ?fb (vb_layout b)" and s = s, OF w(1)]
      finished_tasks [OF fin] Let_def res.case fs'_def by blast
  have bd: "path_join (builder_dir b p) ''build.done'' \<notin> (\<Union>p. v5_log_files b p)" for p
    by (auto simp: v5_log_files_def)
  have part: "builder_dir b p \<noteq> ?root" for p
    using root_not_in_part [of ?root _ "n_partitions (vb_layout b)" p] by auto
  have stay: "fs' json (path_join (builder_dir b p) y) = fs (path_join (builder_dir b p) y)" for p y
    using part by (simp add: fs'_def)
  have "scatter_frame b s (c, fs' json)"
    unfolding scatter_frame_def fst_conv snd_conv stay
  proof (intro conjI allI impI)
    show "c = fst s" using w(3) by (simp add: v5_outside_def s2)
  next
    fix x
    assume "x \<noteq> ''scatter.done''" "x \<noteq> ''scatter.done.tmp''"
    then show "fs' json (path_join ?root x) = snd s (path_join ?root x)"
      using w(3) root_not_log [of b] by (auto simp: v5_outside_def s2 fs'_def)
  next
    fix p
    show "fs (path_join (builder_dir b p) ''build.done'') = snd s (path_join (builder_dir b p) ''build.done'')"
      using w(3) bd by (simp add: v5_outside_def s2)
  qed
  moreover have "\<forall>p < ?n. v5_stored sj xxh64 b p (concat (ss_queues ss ! p)) (c, fs' json)"
    using w(5) by (simp add: v5_stored_def s2 stay)
  moreover have "\<exists>d. fs' json (path_join ?root ''scatter.done'') = Some (enc_sdone lj d) \<and> sdn_format d = V5"
    using r(3) by (auto simp: fs'_def v5_format_builder_def)
  ultimately show ?thesis using r w(4) by auto
qed

lemma map_list_all2: "list_all2 (\<lambda>x y. g y = f x) xs ys \<Longrightarrow> map g ys = map f xs"
  by (induction rule: list_all2_induct) auto

section \<open>Finalization\<close>

definition desc5_ok :: "serde_lib \<Rightarrow> desc_serde \<Rightarrow> bool" where
  "desc5_ok sj dj \<longleftrightarrow> (\<forall>m. dec_version dj (enc_meta5 sj m) = Ok (m5_format_version m) \<and> dec_desc5 dj (enc_meta5 sj m) = Ok m)"

text \<open>What a lookup in the snapshot of the frames \<open>Fs\<close> answers.\<close>

definition v5_answers :: "hash \<Rightarrow> V5Builder \<Rightarrow> (nat \<Rightarrow> frame list) \<Rightarrow> bytes \<Rightarrow> GetOutcome \<Rightarrow> bool" where
  "v5_answers xxh64 b Fs key res \<longleftrightarrow>
     (let fp = fingerprint xxh64 key; vfp = v5_verify_fingerprint xxh64 key (vb_verify_seed b);
          F = Fs (partition_of (vb_layout b) fp)
      in case res of Hit v \<Rightarrow> \<exists>fp'. (fp', vfp, v) \<in> set F | Miss io \<Rightarrow> \<forall>v. (fp, vfp, v) \<notin> set F)"

lemma v5_finalize_ok:
  assumes b: "builder_ok b" and sj: "serde_ok sj" and dj: "desc5_ok sj dj" and sc: "scattered sj b fs Fs"
    and z: "vb_compression b \<noteq> NoCompression \<Longrightarrow> zstd_ok z" and x: "vb_sketch b \<Longrightarrow> xorf_ok xorf" and srt: "sort_ok sort_u"
    and c: "c_plan c = None" and fresh: "fs (path_join (vb_root b) ''v5.plan'') = None" "fs (path_join (vb_root b) ''index.done'') = None"
  shows "\<exists>k c' fs' r. loader_finalize (v5_format_builder z xorf xxh64 sort_u sj secs b) lj (vb_root b) now (c, fs) =
      Some (Ok k, (c', fs')) \<and>
    k = sum_list (map (\<lambda>p. word_of_nat (length (Fs p))) (builder_parts b)) \<and>
    Snapshot_open_path populate dj z xxh64 fs' (vb_root b) = Ok r \<and>
    (\<forall>key. \<exists>res. Snapshot_get arch z xorf xxh64 r key = Ok res \<and> v5_answers xxh64 b Fs key res)"
proof -
  let ?fb = "v5_format_builder z xorf xxh64 sort_u sj secs b" and ?root = "vb_root b"
  obtain plan dict fs1 where plan: "ensure_plan z xxh64 sj b (c, fs) = (Ok plan, (c\<lparr>c_plan := Some plan\<rparr>, fs1))"
    "planned xxh64 b fs1 plan dict" "\<forall>q. q \<notin> plan_files ?root \<longrightarrow> fs1 q = fs q"
    using ensure_plan_ok [OF b sj sc z c fresh(1)] by blast
  let ?c1 = "c\<lparr>c_plan := Some plan\<rparr>"
  have p1: "fb_plan ?fb (c, fs) = (Ok (), (?c1, fs1))"
    using plan(1) fresh(2) by (simp add: v5_format_builder_def V5Builder_plan_def on_files_def path_exists_def io_bind_def io_return_def)
  have "path_join (builder_dir b p) y \<notin> plan_files ?root" for p y
    using root_not_in_part [of ?root _ "n_partitions (vb_layout b)" p] by auto
  with plan(3) have "fs1 (path_join (builder_dir b p) y) = fs (path_join (builder_dir b p) y)" for p y by blast
  then have sc1: "scattered sj b fs1 Fs" using sc by (simp add: scattered_def)
  have "fs1 (path_join ?root ''index.done'') = None" using plan(3) fresh(2) by auto
  then obtain ds fs2 where bld: "V5Builder_build z xorf xxh64 sort_u sj secs b (?c1, fs1) =
      (Ok (id_n_keys (index_done_of secs plan ds)), (?c1\<lparr>c_done := Some (index_done_of secs plan ds)\<rparr>, fs2))"
    "v5_meta_ok z xorf xxh64 b fs2 plan dict Fs ds"
    using V5Builder_build_ok [OF plan(2) z srt x sc1, of ?c1 secs] by auto
  let ?k = "id_n_keys (index_done_of secs plan ds)"
  define st where "st = \<lparr>st_n_keys = ?k, st_created_at = now,
      st_scatter = load_json lj fs2 (path_join ?root ''scatter.done''),
      st_index = map_option strip_control (load_json lj fs2 (path_join ?root ''index.done''))\<rparr>"
  let ?m = "meta_of_done b (index_done_of secs plan ds) st None"
  define fs3 where "fs3 = (((if vb_marker_mode b = Rename then fs2(path_join ?root (''meta.json'' @ ''.tmp'') := None) else fs2)
    (path_join ?root ''meta.json'' \<mapsto> enc_meta5 sj ?m))(path_join ?root ''scatter.done'' := None))(path_join ?root ''index.done'' := None)"
  have fin: "loader_finalize ?fb lj ?root now (c, fs) =
      Some (Ok ?k, (?c1\<lparr>c_done := Some (index_done_of secs plan ds)\<rparr>, fs3))"
    using p1 bld(1) unfolding loader_finalize_def
    by (simp add: v5_format_builder_def publish_snapshot_def V5Builder_finalize_def on_files_def write_marker_eq
        io_map_err_def io_bind_def io_return_def remove_file_def io_do_def Let_def st_def [symmetric] fs3_def)
  have ok3: "v5_meta_ok z xorf xxh64 b fs3 plan dict Fs ds"
  proof (rule v5_meta_ok_cong [OF bld(2)])
    fix q p assume "q \<in> in_dir (builder_dir b p)"
    then have "q \<noteq> path_join ?root y" for y using root_not_in_part by blast
    then show "fs3 q = fs2 q" by (simp add: fs3_def)
  qed (simp add: fs3_def)
  have lens: "\<forall>p < unat (n_partitions (vb_layout b)). length (Fs p) < 2 ^ 32" using sc by (simp add: scattered_def)
  obtain r where r: "SnapshotReaderV5_open z xxh64 fs3 ?root ?m = Ok r"
    "\<forall>key. \<exists>res. SnapshotReaderV5_get z xorf xxh64 r key = Ok res \<and> v5_answers xxh64 b Fs key res"
    using built_snapshot_opens [OF ok3 b z lens] unfolding v5_answers_def by blast
  have ver: "m5_format_version ?m = FORMAT_VERSION_V5" by (simp add: meta_of_done_def)
  have "SnapshotDesc_load dj fs3 ?root = Ok \<lparr>sd_root = ?root, sd_meta = MetaOfV5 ?m\<rparr>"
    using dj built_meta_layout [OF ok3 b lens, of secs st None]
    by (simp add: SnapshotDesc_load_def file_open_def fs3_def desc5_ok_def ver FORMAT_VERSION_V4_def FORMAT_VERSION_V5_def)
  then have o: "Snapshot_open_path populate dj z xxh64 fs3 ?root =
      Ok \<lparr>sn_desc = \<lparr>sd_root = ?root, sd_meta = MetaOfV5 ?m\<rparr>, sn_inner = InnerV5 r\<rparr>"
    using r(1) by (simp add: Snapshot_open_path_def Snapshot_open_def)
  have "list_all2 (\<lambda>p d. pd_n_keys d = word_of_nat (length (Fs p))) (builder_parts b) ds"
    using bld(2) unfolding v5_meta_ok_def by (elim conjE list.rel_mono_strong) (simp add: partition_ok_def)
  then have "map pd_n_keys ds = map (\<lambda>p. word_of_nat (length (Fs p))) (builder_parts b)"
    by (rule map_list_all2)
  then have "?k = sum_list (map (\<lambda>p. word_of_nat (length (Fs p))) (builder_parts b))"
    by (simp add: index_done_of_def)
  moreover have "\<forall>key. \<exists>res. Snapshot_get arch z xorf xxh64
      \<lparr>sn_desc = \<lparr>sd_root = ?root, sd_meta = MetaOfV5 ?m\<rparr>, sn_inner = InnerV5 r\<rparr> key = Ok res \<and> v5_answers xxh64 b Fs key res"
    using r(2) by (simp add: Snapshot_get_def)
  ultimately show ?thesis using fin o by blast
qed

section \<open>The whole V5 load\<close>

lemma v5_probe_fresh:
  assumes "fresh_root (vb_root b) fs" and "Layout_new n = Ok (vb_layout b)"
  shows "check_scatter_done (v5_format_builder z xorf xxh64 sort_u sj secs b) lj (vb_root b) (vb_layout b) mode (c, fs) =
    (Ok None, (c, fs))"
proof -
  have "n_partitions (vb_layout b) \<noteq> 0" using assms(2) by (auto simp: Layout_new_Ok_iff is_power_of_two_iff)
  then have "[0..<unat (n_partitions (vb_layout b))] = 0 # [1..<unat (n_partitions (vb_layout b))]"
    by (simp add: upt_conv_Cons unat_gt_0)
  then show ?thesis
    using fresh_root_join [OF assms(1)] fresh_root_part [OF assms(1)]
    by (simp add: check_scatter_done_def derive_scatter_done_def v5_format_builder_def V5Builder_scatter_probe_def
        on_files_def io_map_err_def io_bind_def path_exists_def io_return_def Let_def)
qed

lemma length_routed_perm:
  "mset xs = mset (routed xxh64 l kvs p) \<Longrightarrow> length xs \<le> length kvs"
  using length_routed_le [of xxh64 l kvs p] by (metis size_mset)


text \<open>The sources of a run: every batch arrives and no value is over the limit.\<close>

definition sources_ok :: "nat \<Rightarrow> source list \<Rightarrow> bool" where
  "sources_ok m srcs \<longleftrightarrow> (\<forall>src \<in> set srcs. \<forall>r \<in> set src. good_batch m r)"

abbreviation all_pairs :: "source list \<Rightarrow> (bytes \<times> bytes) list" where
  "all_pairs srcs \<equiv> concat (map pairs_of srcs)"

lemma sources_ok_pairs: "sources_ok m srcs \<Longrightarrow> (k, v) \<in> set (all_pairs srcs) \<Longrightarrow> length v \<le> m"
  by (fastforce simp: sources_ok_def pairs_of_def)

lemma routed_room:
  assumes "sources_ok m srcs" and "m < 2 ^ 30" and "mset xs = mset (routed xxh64 l (all_pairs srcs) p)"
  shows "v5_room xs"
proof -
  have "set xs = set (routed xxh64 l (all_pairs srcs) p)" using assms(3) by (metis set_mset_mset)
  then show ?thesis
    using sources_ok_pairs [OF assms(1)] assms(2) by (fastforce simp: v5_room_def routed_def)
qed

lemma length_routed_sum:
  assumes "Layout_new (n_partitions l) = Ok l"
  shows "sum_list (map (\<lambda>p. length (routed xxh64 l kvs p)) [0..<unat (n_partitions l)]) = length kvs"
proof (induction kvs)
  case (Cons kv kvs)
  obtain k v where kv: "kv = (k, v)" by (cases kv)
  let ?q = "partition_of l (fingerprint xxh64 k)" and ?n = "unat (n_partitions l)"
  have q: "?q < ?n" using assms by (rule partition_of_bound)
  have "length (routed xxh64 l (kv # kvs) p) = (if p = ?q then 1 else 0) + length (routed xxh64 l kvs p)" for p
    by (auto simp: routed_def kv)
  then have "sum_list (map (\<lambda>p. length (routed xxh64 l (kv # kvs) p)) [0..<?n]) =
      sum_list (map (\<lambda>p. if p = ?q then 1 else 0) [0..<?n]) + length kvs"
    by (simp add: sum_list_addf Cons)
  moreover have "sum_list (map (\<lambda>p. if p = ?q then 1 else 0) [0..<?n]) = (1 :: nat)"
    using q by (simp add: interv_sum_list_conv_sum_set_nat sum.delta)
  ultimately show ?case by simp
qed simp

lemma word_of_nat_sum_list: "sum_list (map (\<lambda>x. word_of_nat (f x) :: 'a :: len word) xs) = word_of_nat (sum_list (map f xs))"
  by (induction xs) simp_all

text \<open>What a snapshot of the pairs \<open>kvs\<close> answers.\<close>

definition load_answers :: "hash \<Rightarrow> Layout \<Rightarrow> (bytes \<times> bytes) list \<Rightarrow> bytes \<Rightarrow> GetOutcome \<Rightarrow> bool" where
  "load_answers xxh64 l kvs key res \<longleftrightarrow>
     (case res of
        Hit v \<Rightarrow> \<exists>k. (k, v) \<in> set kvs \<and>
          partition_of l (fingerprint xxh64 k) = partition_of l (fingerprint xxh64 key) \<and>
          v5_verify_fingerprint xxh64 k DEFAULT_VERIFY_SEED = v5_verify_fingerprint xxh64 key DEFAULT_VERIFY_SEED
      | Miss io \<Rightarrow> \<forall>k v. (k, v) \<in> set kvs \<longrightarrow>
          \<not> (fingerprint xxh64 k = fingerprint xxh64 key \<and>
             v5_verify_fingerprint xxh64 k DEFAULT_VERIFY_SEED = v5_verify_fingerprint xxh64 key DEFAULT_VERIFY_SEED))"

lemma v5_frame_iff:
  assumes "p < unat (n_partitions l)" and "\<forall>p < unat (n_partitions l). mset (concat (ss_queues ss ! p)) = mset (routed xxh64 l kvs p)"
    and seed: "vb_verify_seed b = DEFAULT_VERIFY_SEED"
  shows "(fp, vfp, v) \<in> set (v5_frames xxh64 b ss p) \<longleftrightarrow>
      (\<exists>k. (k, v) \<in> set kvs \<and> partition_of l (fingerprint xxh64 k) = p \<and> fingerprint xxh64 k = fp \<and>
        v5_verify_fingerprint xxh64 k DEFAULT_VERIFY_SEED = vfp)"
proof -
  have "set (concat (ss_queues ss ! p)) = set (routed xxh64 l kvs p)" using assms(1,2) by (metis set_mset_mset)
  then have "set (v5_frames xxh64 b ss p) = key_frame xxh64 DEFAULT_VERIFY_SEED ` set (routed xxh64 l kvs p)"
    by (simp only: set_map seed)
  then show ?thesis by (auto simp: routed_def image_iff)
qed

lemma v5_answers_load:
  assumes "v5_answers xxh64 b (v5_frames xxh64 b ss) key res" and l: "Layout_new (n_partitions (vb_layout b)) = Ok (vb_layout b)"
    and seed: "vb_verify_seed b = DEFAULT_VERIFY_SEED"
    and del: "\<forall>p < unat (n_partitions (vb_layout b)).
      mset (concat (ss_queues ss ! p)) = mset (routed xxh64 (vb_layout b) kvs p)"
  shows "load_answers xxh64 (vb_layout b) kvs key res"
proof -
  let ?p = "partition_of (vb_layout b) (fingerprint xxh64 key)"
  have "?p < unat (n_partitions (vb_layout b))" using l by (rule partition_of_bound)
  note F = v5_frame_iff [OF this del seed]
  show ?thesis
    using assms(1) [unfolded v5_answers_def Let_def F] unfolding load_answers_def seed
    by (auto split: GetOutcome.splits)
qed

lemma V5Builder_new_fields:
  "V5Builder_new (loader_builder_config root cfg) = Ok (b, c) \<Longrightarrow>
     vb_root b = root \<and> vb_verify_seed b = DEFAULT_VERIFY_SEED \<and> n_partitions (vb_layout b) = lc_n_partitions cfg \<and>
     Layout_new (lc_n_partitions cfg) = Ok (vb_layout b) \<and> vb_sketch b = vo_sketch (lc_v5 cfg) \<and>
     vb_compression b = vo_compression (lc_v5 cfg)"
  by (auto simp: V5Builder_new_def loader_builder_config_def res_simps Layout_new_Ok_iff split: option.splits)

text \<open>A whole scatter into a fresh directory.\<close>

lemma v5_scatter_phase:
  fixes hl :: "'h hdr_lib"
  assumes new: "V5Builder_new (loader_builder_config root cfg) = Ok (b, c)" and fresh: "fresh_root root fs"
    and srcs: "sources_ok (lc_max_value_bytes cfg) srcs" and max: "lc_max_value_bytes cfg < 2 ^ 30"
    and small: "length (all_pairs srcs) < 2 ^ 32"
    and run: "(scatter_step xxh64)\<^sup>*\<^sup>* (scatter_start (vb_layout b) (lc_max_value_bytes cfg) srcs) ss"
    and fin: "scatter_finished ss"
  shows "\<exists>st fs1. scatter_parallel xxh64 (v5_format_builder z xorf xxh64 sort_u sj secs b) hl lj root
      (lc_n_partitions cfg) (vo_marker_mode (lc_v5 cfg)) secs' rate drains ss (c, fs) = (Ok st, (c, fs1)) \<and>
    scattered sj b fs1 (v5_frames xxh64 b ss) \<and>
    (\<forall>y. y \<noteq> ''scatter.done'' \<longrightarrow> y \<noteq> ''scatter.done.tmp'' \<longrightarrow> fs1 (path_join root y) = None) \<and>
    (\<exists>d. fs1 (path_join root ''scatter.done'') = Some (enc_sdone lj d) \<and> sdn_format d = V5) \<and>
    (\<forall>p < unat (n_partitions (vb_layout b)).
      mset (concat (ss_queues ss ! p)) = mset (routed xxh64 (vb_layout b) (all_pairs srcs) p))"
proof -
  let ?fb = "v5_format_builder z xorf xxh64 sort_u sj secs b" and ?l = "vb_layout b" and ?Fs = "v5_frames xxh64 b ss"
  let ?mode = "vo_marker_mode (lc_v5 cfg)"
  note b = V5Builder_new_ok [OF new] and f = V5Builder_new_fields [OF new]
  have l: "Layout_new (n_partitions ?l) = Ok ?l" using f by simp
  have inv: "scatter_inv xxh64 ?l (lc_max_value_bytes cfg) srcs ss"
    by (rule scatter_inv_reachable [OF run l])
  have del: "\<forall>p < unat (n_partitions ?l). mset (concat (ss_queues ss ! p)) = mset (routed xxh64 ?l (all_pairs srcs) p)"
    using scatter_finished_delivers [OF inv fin] by blast
  have room: "\<forall>p < unat (n_partitions ?l). v5_room (concat (ss_queues ss ! p))"
    using routed_room [OF srcs max] del by blast
  have lens: "\<forall>p < unat (n_partitions ?l). length (concat (ss_queues ss ! p)) < 2 ^ 32"
    using length_routed_perm del small by (meson le_less_trans)
  have len: "length (ss_queues ss) = unat (n_partitions ?l)" using inv by (simp add: scatter_inv_def)
  obtain st s1 where sc: "run_scatter_sources xxh64 ?fb hl lj root ?l ?mode secs' rate drains ss (c, fs) = (Ok st, s1)"
    "scatter_frame b (c, fs) s1" "\<forall>p < unat (n_partitions ?l). v5_stored sj xxh64 b p (concat (ss_queues ss ! p)) s1"
    "\<exists>d. snd s1 (path_join root ''scatter.done'') = Some (enc_sdone lj d) \<and> sdn_format d = V5"
    using v5_run_scatter_ok [OF fin len room, where hl = hl] f by metis
  obtain fs1 where s1: "s1 = (c, fs1)" using sc(2) by (cases s1) (simp add: scatter_frame_def)
  have frame: "fs1 (path_join root y) = None" if "y \<noteq> ''scatter.done''" "y \<noteq> ''scatter.done.tmp''" for y
    using sc(2) that fresh_root_join [OF fresh] f by (simp add: scatter_frame_def s1)
  have "scattered sj b fs1 ?Fs"
    using v5_stored_all [OF sc(3)] sc(2) fresh_root_part [OF fresh] f lens by (simp add: scatter_frame_def s1)
  moreover have "check_scatter_done ?fb lj root ?l ?mode (c, fs) = (Ok None, (c, fs))"
    using v5_probe_fresh [of b fs "lc_n_partitions cfg"] fresh f by simp
  then have "scatter_parallel xxh64 ?fb hl lj root (lc_n_partitions cfg) ?mode secs' rate drains ss (c, fs) = (Ok st, (c, fs1))"
    using f sc(1) by (simp add: scatter_parallel_def io_bind_def io_lift_def s1)
  ultimately show ?thesis using frame sc(4) del by (auto simp: s1)
qed

lemma v5_load_ok:
  fixes hl :: "'h hdr_lib"
  assumes new: "V5Builder_new (loader_builder_config root cfg) = Ok (b, c)" and fresh: "fresh_root root fs"
    and srcs: "sources_ok (lc_max_value_bytes cfg) srcs" and max: "lc_max_value_bytes cfg < 2 ^ 30"
    and small: "length (all_pairs srcs) < 2 ^ 32"
    and run: "(scatter_step xxh64)\<^sup>*\<^sup>* (scatter_start (vb_layout b) (lc_max_value_bytes cfg) srcs) ss"
    and fin: "scatter_finished ss"
    and sj: "serde_ok sj" and dj: "desc5_ok sj dj" and srt: "sort_ok sort_u"
    and z: "vo_compression (lc_v5 cfg) = NoCompression \<or> zstd_ok z" and x: "vo_sketch (lc_v5 cfg) \<longrightarrow> xorf_ok xorf"
  shows "\<exists>n c' fs' r. load_parallel xxh64 (v5_format_builder z xorf xxh64 sort_u sj secs b) hl lj root
      (lc_n_partitions cfg) (vo_marker_mode (lc_v5 cfg)) secs' rate drains ss now (c, fs) =
      Some (Ok (word_of_nat (length (all_pairs srcs)), n), (c', fs')) \<and>
    Snapshot_open_path populate dj z xxh64 fs' root = Ok r \<and>
    (\<forall>key. \<exists>res. Snapshot_get arch z xorf xxh64 r key = Ok res \<and>
      load_answers xxh64 (vb_layout b) (all_pairs srcs) key res)"
proof -
  let ?fb = "v5_format_builder z xorf xxh64 sort_u sj secs b" and ?l = "vb_layout b" and ?Fs = "v5_frames xxh64 b ss"
  let ?mode = "vo_marker_mode (lc_v5 cfg)"
  note b = V5Builder_new_ok [OF new] and f = V5Builder_new_fields [OF new]
  have l: "Layout_new (n_partitions ?l) = Ok ?l" using f by simp
  obtain st fs1 where sc: "scatter_parallel xxh64 ?fb hl lj root (lc_n_partitions cfg) ?mode secs' rate drains ss (c, fs) = (Ok st, (c, fs1))"
    and sca: "scattered sj b fs1 ?Fs"
    and frame: "\<forall>y. y \<noteq> ''scatter.done'' \<longrightarrow> y \<noteq> ''scatter.done.tmp'' \<longrightarrow> fs1 (path_join root y) = None"
    and del: "\<forall>p < unat (n_partitions ?l). mset (concat (ss_queues ss ! p)) = mset (routed xxh64 ?l (all_pairs srcs) p)"
    using v5_scatter_phase [OF new fresh srcs max small run fin, where hl = hl and z = z and xorf = xorf and sort_u = sort_u and
        sj = sj and secs = secs and lj = lj and secs' = secs' and rate = rate and drains = drains] by blast
  from v5_finalize_ok [OF conjunct1 [OF b] sj dj sca, of z xorf sort_u c xxh64 secs lj now populate arch] z x srt b f frame
  obtain k c' fs' r where e: "loader_finalize ?fb lj root now (c, fs1) = Some (Ok k, (c', fs'))"
    "k = sum_list (map (\<lambda>p. word_of_nat (length (?Fs p))) (builder_parts b))"
    "Snapshot_open_path populate dj z xxh64 fs' root = Ok r"
    "\<forall>key. \<exists>res. Snapshot_get arch z xorf xxh64 r key = Ok res \<and> v5_answers xxh64 b ?Fs key res"
    by auto
  have "length (?Fs p) = length (routed xxh64 ?l (all_pairs srcs) p)" if "p < unat (n_partitions ?l)" for p
    using del that by (metis length_map size_mset)
  then have "map (\<lambda>p. length (?Fs p)) (builder_parts b) = map (\<lambda>p. length (routed xxh64 ?l (all_pairs srcs) p)) (builder_parts b)"
    by simp
  then have "k = word_of_nat (length (all_pairs srcs))"
    unfolding e(2) word_of_nat_sum_list using length_routed_sum [OF l] by metis
  then have "load_parallel xxh64 ?fb hl lj root (lc_n_partitions cfg) ?mode secs' rate drains ss now (c, fs) =
      Some (Ok (word_of_nat (length (all_pairs srcs)), sst_data_bytes st), (c', fs'))"
    using e(1) sc by (simp add: load_parallel_def)
  moreover have "\<forall>key. \<exists>res. Snapshot_get arch z xorf xxh64 r key = Ok res \<and> load_answers xxh64 ?l (all_pairs srcs) key res"
    using e(4) v5_answers_load [OF _ l _ del] f by blast
  ultimately show ?thesis using e(3) by blast
qed

section \<open>A failed scatter\<close>

lemma v5_probe_stored:
  assumes sj: "serde_ok sj" and "v5_stored sj xxh64 b p recs s"
  shows "\<exists>probe. fb_scatter_probe (v5_format_builder z xorf xxh64 sort_u sj secs b) p s = (Ok (Some probe), s) \<and>
    sp_n_keys probe = word_of_nat (length recs)"
proof -
  obtain st where "snd s (path_join (builder_dir b p) ''arrival.stats'') = Some (enc_stats sj st)"
    "as_n_keys st = word_of_nat (length recs)"
    using assms(2) by (auto simp: v5_stored_def Let_def)
  with sj show ?thesis
    by (cases s) (simp add: v5_format_builder_def V5Builder_scatter_probe_def on_files_def io_bind_def path_exists_def
        read_json_def read_file_def file_open_def io_lift_def io_return_def serde_ok_def Let_def)
qed

lemma probe_all_ok:
  assumes "\<And>p. p \<in> set ps \<Longrightarrow> \<exists>probe. fb_scatter_probe fb p s = (Ok (Some probe), s) \<and> sp_n_keys probe = f p"
  shows "\<exists>probes. probe_all fb ps s = (Ok (Some probes), s) \<and> map sp_n_keys probes = map f ps"
  using assms
proof (induction ps)
  case Nil
  then show ?case by (simp add: io_return_def)
next
  case (Cons p ps)
  obtain probe where "fb_scatter_probe fb p s = (Ok (Some probe), s)" "sp_n_keys probe = f p"
    using Cons.prems [of p] by auto
  moreover obtain probes where "probe_all fb ps s = (Ok (Some probes), s)" "map sp_n_keys probes = map f ps"
    using Cons by auto
  ultimately show ?case
    by (intro exI [of _ "probe # probes"]) (simp add: io_bind_def io_map_err_def io_return_def)
qed

lemma derive_scatter_done_ok:
  assumes "\<And>p. p < unat (n_partitions layout) \<Longrightarrow>
      \<exists>probe. fb_scatter_probe fb p (c, fs) = (Ok (Some probe), (c, fs)) \<and> sp_n_keys probe = f p"
  shows "\<exists>json. derive_scatter_done fb lj root layout mode (c, fs) =
     (Ok (Some (sum_list (map f [0..<unat (n_partitions layout)]))),
      (c, (if mode = Rename then fs(path_join root (''scatter.done'' @ ''.tmp'') := None) else fs)
        (path_join root ''scatter.done'' \<mapsto> json)))"
proof -
  obtain probes where "probe_all fb [0..<unat (n_partitions layout)] (c, fs) = (Ok (Some probes), (c, fs))"
    "map sp_n_keys probes = map f [0..<unat (n_partitions layout)]"
    using probe_all_ok [of "[0..<unat (n_partitions layout)]" fb "(c, fs)" f] assms by auto
  then show ?thesis
    by (simp add: derive_scatter_done_def io_bind_def write_sentinel_def io_map_err_def on_files_def write_marker_eq
        io_return_def Let_def del: map_map) blast
qed

lemma snd_enumerate_all: "map snd (filter ((\<lambda>_. True) \<circ> fst) (enumerate 0 xs)) = xs"
  by (simp add: comp_def)

text \<open>
  A source that fails drops the phase; the writers that drain publish the completion marker of
  their partition all the same, and the next load takes the scatter for complete.
\<close>

lemma v5_failed_scatter_stores:
  fixes hl :: "'h hdr_lib"
  assumes err: "mapR (joined \<circ> task_result xxh64) (ss_tasks ss) = Err e"
    and len: "length (ss_queues ss) = unat (n_partitions (vb_layout b))"
    and room: "\<forall>p < unat (n_partitions (vb_layout b)). v5_room (concat (ss_queues ss ! p))"
  shows "\<exists>s'. run_scatter_sources xxh64 (v5_format_builder z xorf xxh64 sort_u sj secs b) hl lj (vb_root b)
      (vb_layout b) mode secs' rate (\<lambda>_. True) ss s = (Err e, s') \<and> v5_outside b s s' \<and>
    (\<forall>p < unat (n_partitions (vb_layout b)). v5_stored sj xxh64 b p (concat (ss_queues ss ! p)) s')"
proof -
  let ?fb = "v5_format_builder z xorf xxh64 sort_u sj secs b" and ?n = "unat (n_partitions (vb_layout b))"
  obtain as s1 stats s2 where w: "create_appenders ?fb (vb_layout b) s = (Ok as, s1)"
    "io_collect (partition_writer ?fb hl) (zip as (ss_queues ss)) s1 = (map Ok stats, s2)" "v5_outside b s s2"
    "\<forall>p < ?n. v5_stored sj xxh64 b p (concat (ss_queues ss ! p)) s2"
    using v5_scatter.appenders_ok [OF _ refl len room, where hl = hl] by blast
  have "run_scatter_sources xxh64 ?fb hl lj (vb_root b) (vb_layout b) mode secs' rate (\<lambda>_. True) ss s = (Err e, s2)"
    unfolding run_scatter_sources_def io_bind_Ok [where m = "create_appenders ?fb (vb_layout b)" and s = s, OF w(1)]
      err Let_def res.case snd_enumerate_all w(2) by simp
  with w(3,4) show ?thesis by blast
qed

text \<open>The directory a failed load leaves: every partition stored, nothing at the root, nothing built.\<close>

definition left_by_failure :: "serde_lib \<Rightarrow> hash \<Rightarrow> V5Builder \<Rightarrow> ScatterState \<Rightarrow> Cells \<Rightarrow> files \<Rightarrow> bool" where
  "left_by_failure sj xxh64 b ss c fs \<longleftrightarrow>
     (\<forall>p < unat (n_partitions (vb_layout b)). v5_stored sj xxh64 b p (concat (ss_queues ss ! p)) (c, fs)) \<and>
     (\<forall>y. fs (path_join (vb_root b) y) = None) \<and> (\<forall>p. fs (path_join (builder_dir b p) ''build.done'') = None)"

lemma v5_failed_load:
  fixes hl :: "'h hdr_lib"
  assumes new: "V5Builder_new (loader_builder_config root cfg) = Ok (b, c)" and fresh: "fresh_root root fs"
    and err: "mapR (joined \<circ> task_result xxh64) (ss_tasks ss) = Err e"
    and len: "length (ss_queues ss) = unat (lc_n_partitions cfg)"
    and room: "\<forall>p < unat (lc_n_partitions cfg). v5_room (concat (ss_queues ss ! p))"
    and fb: "fb = v5_format_builder z xorf xxh64 sort_u sj secs b"
  shows "\<exists>fs1. load_parallel xxh64 fb hl lj root (lc_n_partitions cfg) (vo_marker_mode (lc_v5 cfg)) secs' rate (\<lambda>_. True) ss now
      (c, fs) = Some (Err e, (c, fs1)) \<and> left_by_failure sj xxh64 b ss c fs1"
proof -
  let ?l = "vb_layout b" and ?mode = "vo_marker_mode (lc_v5 cfg)"
  note f = V5Builder_new_fields [OF new]
  have n: "unat (lc_n_partitions cfg) = unat (n_partitions ?l)" using f by simp
  obtain s1 where s1: "run_scatter_sources xxh64 fb hl lj root ?l ?mode secs' rate (\<lambda>_. True) ss (c, fs) = (Err e, s1)"
    "v5_outside b (c, fs) s1" "\<forall>p < unat (n_partitions ?l). v5_stored sj xxh64 b p (concat (ss_queues ss ! p)) s1"
    using v5_failed_scatter_stores [OF err len [unfolded n], where hl = hl] room f unfolding fb by metis
  obtain fs1 where p1: "s1 = (c, fs1)" using s1(2) by (cases s1) (simp add: v5_outside_def)
  have "load_parallel xxh64 fb hl lj root (lc_n_partitions cfg) ?mode secs' rate (\<lambda>_. True) ss now (c, fs) = Some (Err e, (c, fs1))"
    using v5_probe_fresh [of b fs "lc_n_partitions cfg"] fresh f s1(1)
    by (simp add: load_parallel_def scatter_parallel_def io_bind_def io_lift_def p1 fb)
  moreover have "fs1 (path_join root y) = None" for y
    using s1(2) root_not_log [of b] fresh_root_join [OF fresh] f by (simp add: v5_outside_def p1)
  moreover have "path_join (builder_dir b p) ''build.done'' \<notin> (\<Union>p. v5_log_files b p)" for p
    by (auto simp: v5_log_files_def)
  then have "fs1 (path_join (builder_dir b p) ''build.done'') = None" for p
    using s1(2) fresh_root_part [OF fresh] f by (simp add: v5_outside_def p1)
  ultimately show ?thesis using s1(3) f by (auto simp: left_by_failure_def p1)
qed

lemma v5_resumes_failed:
  fixes hl :: "'h hdr_lib"
  assumes new: "V5Builder_new (loader_builder_config root cfg) = Ok (b, c)" and left: "left_by_failure sj xxh64 b ss c fs1"
    and len: "\<forall>p < unat (lc_n_partitions cfg). length (concat (ss_queues ss ! p)) < 2 ^ 32"
    and sj: "serde_ok sj" and dj: "desc5_ok sj dj" and srt: "sort_ok sort_u"
    and z: "vo_compression (lc_v5 cfg) = NoCompression \<or> zstd_ok z" and x: "vo_sketch (lc_v5 cfg) \<longrightarrow> xorf_ok xorf"
    and fb: "fb = v5_format_builder z xorf xxh64 sort_u sj secs b"
  shows "\<exists>c2 fs2 r. (\<forall>ss'. load_parallel xxh64 fb hl lj root (lc_n_partitions cfg) (vo_marker_mode (lc_v5 cfg)) secs' rate
      (\<lambda>_. True) ss' now (c, fs1) = Some (Ok (sum_list (map (\<lambda>p. word_of_nat (length (concat (ss_queues ss ! p)))) (builder_parts b)), 0), (c2, fs2))) \<and>
    Snapshot_open_path populate dj z xxh64 fs2 root = Ok r \<and>
    (\<forall>key. \<exists>res. Snapshot_get arch z xorf xxh64 r key = Ok res \<and> v5_answers xxh64 b (v5_frames xxh64 b ss) key res)"
proof -
  let ?l = "vb_layout b" and ?mode = "vo_marker_mode (lc_v5 cfg)" and ?Fs = "v5_frames xxh64 b ss"
  note b = V5Builder_new_ok [OF new] and f = V5Builder_new_fields [OF new]
  let ?k = "sum_list (map (\<lambda>p. word_of_nat (length (concat (ss_queues ss ! p)))) (builder_parts b)) :: u64"
  have stored: "v5_stored sj xxh64 b p (concat (ss_queues ss ! p)) (c, fs1)" if "p < unat (n_partitions ?l)" for p
    using left that by (simp add: left_by_failure_def)
  have root1: "fs1 (path_join root y) = None" for y using left f by (simp add: left_by_failure_def)
  obtain json where chk: "check_scatter_done fb lj root ?l ?mode (c, fs1) = (Ok (Some ?k),
      (c, (if ?mode = Rename then fs1(path_join root (''scatter.done'' @ ''.tmp'') := None) else fs1)
        (path_join root ''scatter.done'' \<mapsto> json)))" (is "_ = (_, (c, ?fs2))")
    using derive_scatter_done_ok [of ?l fb c fs1 "\<lambda>p. word_of_nat (length (concat (ss_queues ss ! p)))" lj root ?mode]
      v5_probe_stored [OF sj stored] root1
    by (auto simp: check_scatter_done_def fb)
  have part: "?fs2 (path_join (builder_dir b p) y) = fs1 (path_join (builder_dir b p) y)" for p y
    using root_not_in_part [of root _ "n_partitions ?l" p] f by auto
  have sc: "scattered sj b ?fs2 ?Fs"
    using v5_stored_all [where s = "(c, ?fs2)" and ss = ss and b = b and sj = sj and ?xxh64.0 = xxh64] left len f
    unfolding left_by_failure_def v5_stored_def snd_conv part by simp
  have root: "vb_root b = root" and z': "vb_compression b \<noteq> NoCompression \<Longrightarrow> zstd_ok z"
    and x': "vb_sketch b \<Longrightarrow> xorf_ok xorf" and c': "c_plan c = None"
    using z x f b by simp_all
  have two: "?fs2 (path_join (vb_root b) ''v5.plan'') = None" "?fs2 (path_join (vb_root b) ''index.done'') = None"
    using root1 root by simp_all
  obtain k c' fs' r where e: "loader_finalize fb lj root now (c, ?fs2) = Some (Ok k, (c', fs'))"
    "k = sum_list (map (\<lambda>p. word_of_nat (length (?Fs p))) (builder_parts b))"
    "Snapshot_open_path populate dj z xxh64 fs' root = Ok r"
    "\<forall>key. \<exists>res. Snapshot_get arch z xorf xxh64 r key = Ok res \<and> v5_answers xxh64 b ?Fs key res"
    using v5_finalize_ok [where fs = ?fs2 and secs = secs and lj = lj and now = now and populate = populate and arch = arch
        and z = z and xorf = xorf and sort_u = sort_u and ?xxh64.0 = xxh64, OF conjunct1 [OF b] sj dj sc z' x' srt c' two]
    unfolding fb root by blast
  have "k = ?k" unfolding e(2) length_map ..
  then have "load_parallel xxh64 fb hl lj root (lc_n_partitions cfg) ?mode secs' rate (\<lambda>_. True) ss' now (c, fs1) = Some (Ok (?k, 0), (c', fs'))" for ss'
    using chk e(1) f by (simp add: load_parallel_def scatter_parallel_def io_bind_def io_lift_def io_return_def)
  with e(3,4) show ?thesis by blast
qed

text \<open>The pairs that had reached their partitions.\<close>

definition delivered_pairs :: "ScatterState \<Rightarrow> (bytes \<times> bytes) list" where
  "delivered_pairs ss = map (\<lambda>(k, fp, v). (k, v)) (concat (map concat (ss_queues ss)))"

lemma queue_routed:
  assumes "scatter_inv xxh64 l m srcs ss" and "p < unat (n_partitions l)"
  shows "set (concat (ss_queues ss ! p)) \<subseteq> set (routed xxh64 l (all_pairs srcs) p)"
    and "length (concat (ss_queues ss ! p)) \<le> length (all_pairs srcs)"
proof -
  have "delivered xxh64 l p ss = mset (routed xxh64 l (all_pairs srcs) p)" using assms by (simp add: scatter_inv_def)
  then have q: "mset (concat (ss_queues ss ! p)) \<subseteq># mset (routed xxh64 l (all_pairs srcs) p)"
    unfolding delivered_def by (metis mset_subset_eq_add_left)
  from set_mset_mono [OF this] show "set (concat (ss_queues ss ! p)) \<subseteq> set (routed xxh64 l (all_pairs srcs) p)" by simp
  from size_mset_mono [OF q] length_routed_le [of xxh64 l "all_pairs srcs" p]
  show "length (concat (ss_queues ss ! p)) \<le> length (all_pairs srcs)" by simp
qed

lemma routed_queues:
  assumes "\<forall>i < length qs. set (qs ! i) \<subseteq> set (routed xxh64 l kvs (j + i))" and "j \<le> p" and "p < j + length qs"
  shows "routed xxh64 l (map (\<lambda>(k, fp, v). (k, v)) (concat qs)) p = qs ! (p - j)"
proof -
  have own: "routed xxh64 l (map (\<lambda>(k, fp, v). (k, v)) q) p = (if i = p then q else [])"
    if "set q \<subseteq> set (routed xxh64 l kvs i)" for q i
    using that by (induction q) (auto simp: routed_def)
  have none: "routed xxh64 l (map (\<lambda>(k, fp, v). (k, v)) (concat qs)) p = []"
    if "\<forall>i < length qs. set (qs ! i) \<subseteq> set (routed xxh64 l kvs (j + i))" "p < j" for qs j
    using that
  proof (induction qs arbitrary: j)
    case (Cons q qs)
    have "\<forall>i < length qs. set (qs ! i) \<subseteq> set (routed xxh64 l kvs (Suc j + i))" using Cons.prems(1) by fastforce
    with Cons.IH [of "Suc j"] Cons.prems own [of q j] show ?case by (fastforce simp: routed_append)
  qed simp
  show ?thesis
    using assms
  proof (induction qs arbitrary: j)
    case (Cons q qs)
    have r: "\<forall>i < length qs. set (qs ! i) \<subseteq> set (routed xxh64 l kvs (Suc j + i))" using Cons.prems(1) by fastforce
    have q: "set q \<subseteq> set (routed xxh64 l kvs j)" using Cons.prems(1) by fastforce
    show ?case
    proof (cases "j = p")
      case True
      with none [OF r] own [OF q] show ?thesis by (simp add: routed_append)
    next
      case False
      with Cons.IH [OF r] Cons.prems(2,3) own [OF q] show ?thesis by (simp add: routed_append nth_Cons' Suc_diff_Suc)
    qed
  qed simp
qed

lemma delivered_routed:
  assumes "scatter_inv xxh64 l m srcs ss" and "p < unat (n_partitions l)"
  shows "routed xxh64 l (delivered_pairs ss) p = concat (ss_queues ss ! p)"
  using routed_queues [of "map concat (ss_queues ss)" xxh64 l "all_pairs srcs" 0 p] queue_routed(1) [OF assms(1)] assms
  by (simp add: delivered_pairs_def scatter_inv_def)

lemma limit_room:
  assumes "size_inv m ss" and "m < 2 ^ 30" and "q \<in> set (ss_queues ss)"
  shows "v5_room (concat q)"
proof -
  have "length v < 2 ^ 30" if "bt \<in> set q" "(k, fp, v) \<in> set bt" for bt k fp v
  proof -
    have "batch_limit m bt" using assms(1,3) that(1) by (simp add: size_inv_def)
    with that(2) have "length v \<le> m" by (auto simp: batch_limit_def)
    with assms(2) show ?thesis by simp
  qed
  then show ?thesis by (auto simp: v5_room_def)
qed

lemma delivered_from_sources:
  assumes "scatter_inv xxh64 l m srcs ss"
  shows "set (delivered_pairs ss) \<subseteq> set (all_pairs srcs)"
proof
  fix kv assume "kv \<in> set (delivered_pairs ss)"
  then obtain p r where "p < length (ss_queues ss)" "r \<in> set (concat (ss_queues ss ! p))" "kv = (\<lambda>(k, fp, v). (k, v)) r"
    by (fastforce simp: delivered_pairs_def in_set_conv_nth)
  with queue_routed(1) [OF assms, of p] assms show "kv \<in> set (all_pairs srcs)"
    by (fastforce simp: scatter_inv_def routed_def)
qed

lemma v5_failed_load_resumes:
  fixes hl :: "'h hdr_lib"
  assumes new: "V5Builder_new (loader_builder_config root cfg) = Ok (b, c)" and fresh: "fresh_root root fs"
    and max: "lc_max_value_bytes cfg < 2 ^ 30" and small: "length (all_pairs srcs) < 2 ^ 32"
    and run: "(scatter_step xxh64)\<^sup>*\<^sup>* (scatter_start (vb_layout b) (lc_max_value_bytes cfg) srcs) ss"
    and err: "mapR (joined \<circ> task_result xxh64) (ss_tasks ss) = Err e"
    and sj: "serde_ok sj" and dj: "desc5_ok sj dj" and srt: "sort_ok sort_u"
    and z: "vo_compression (lc_v5 cfg) = NoCompression \<or> zstd_ok z" and x: "vo_sketch (lc_v5 cfg) \<longrightarrow> xorf_ok xorf"
    and load: "load = (\<lambda>ss s. load_parallel xxh64 (v5_format_builder z xorf xxh64 sort_u sj secs b) hl lj root (lc_n_partitions cfg)
      (vo_marker_mode (lc_v5 cfg)) secs' rate (\<lambda>_. True) ss now s)"
  shows "\<exists>fs1 c2 fs2 r. load ss (c, fs) = Some (Err e, (c, fs1)) \<and>
    (\<forall>p < unat (lc_n_partitions cfg). \<exists>probe. V5Builder_scatter_probe sj b p fs1 = (Ok (Some probe), fs1) \<and>
      sp_n_keys probe = word_of_nat (length (concat (ss_queues ss ! p)))) \<and>
    (\<forall>ss'. load ss' (c, fs1) = Some (Ok (word_of_nat (length (delivered_pairs ss)), 0), (c2, fs2))) \<and>
    Snapshot_open_path populate dj z xxh64 fs2 root = Ok r \<and>
    (\<forall>key. \<exists>res. Snapshot_get arch z xorf xxh64 r key = Ok res \<and>
      load_answers xxh64 (vb_layout b) (delivered_pairs ss) key res) \<and>
    set (delivered_pairs ss) \<subseteq> set (all_pairs srcs)"
proof -
  let ?l = "vb_layout b" and ?fb = "v5_format_builder z xorf xxh64 sort_u sj secs b"
  note f = V5Builder_new_fields [OF new]
  have l: "Layout_new (n_partitions ?l) = Ok ?l" and n: "unat (lc_n_partitions cfg) = unat (n_partitions ?l)" using f by simp_all
  note inv = scatter_inv_reachable [OF run l]
  have len: "length (ss_queues ss) = unat (lc_n_partitions cfg)" using inv n by (simp add: scatter_inv_def)
  have room: "\<forall>p < unat (lc_n_partitions cfg). v5_room (concat (ss_queues ss ! p))"
    using limit_room [OF size_inv_reachable [OF run l] max] len by simp
  have short: "\<forall>p < unat (lc_n_partitions cfg). length (concat (ss_queues ss ! p)) < 2 ^ 32"
    using order_le_less_trans [OF queue_routed(2) [OF inv] small] n by simp
  obtain fs1 where one: "load ss (c, fs) = Some (Err e, (c, fs1))" "left_by_failure sj xxh64 b ss c fs1"
    using v5_failed_load [OF new fresh err len room refl, where hl = hl and z = z and xorf = xorf and sort_u = sort_u and sj = sj
        and secs = secs and lj = lj and secs' = secs' and rate = rate and now = now] by (elim exE conjE, intro that) (simp_all add: load)
  obtain c2 fs2 r where two: "\<forall>ss'. load ss' (c, fs1) = Some (Ok (sum_list (map (\<lambda>p. word_of_nat (length (concat (ss_queues ss ! p)))) (builder_parts b)), 0), (c2, fs2))"
    "Snapshot_open_path populate dj z xxh64 fs2 root = Ok r"
    "\<forall>key. \<exists>res. Snapshot_get arch z xorf xxh64 r key = Ok res \<and> v5_answers xxh64 b (v5_frames xxh64 b ss) key res"
    using v5_resumes_failed [OF new one(2) short sj dj srt z x refl, where hl = hl and secs = secs and lj = lj and secs' = secs' and rate = rate
        and now = now and populate = populate and arch = arch] by (elim exE conjE, intro that) (simp_all add: load)
  have "\<exists>probe. V5Builder_scatter_probe sj b p fs1 = (Ok (Some probe), fs1) \<and>
      sp_n_keys probe = word_of_nat (length (concat (ss_queues ss ! p)))" if "p < unat (lc_n_partitions cfg)" for p
    using v5_probe_stored [OF sj, of xxh64 b p "concat (ss_queues ss ! p)" "(c, fs1)"] one(2) that n
    by (auto simp: left_by_failure_def v5_format_builder_def on_files_def split: prod.splits)
  moreover have del: "\<forall>p < unat (n_partitions ?l). mset (concat (ss_queues ss ! p)) = mset (routed xxh64 ?l (delivered_pairs ss) p)"
    using delivered_routed [OF inv] by simp
  have "map (\<lambda>p. length (concat (ss_queues ss ! p))) (builder_parts b) = map (\<lambda>p. length (routed xxh64 ?l (delivered_pairs ss) p)) (builder_parts b)"
    using delivered_routed [OF inv] by simp
  then have "sum_list (map (\<lambda>p. word_of_nat (length (concat (ss_queues ss ! p)))) (builder_parts b)) = (word_of_nat (length (delivered_pairs ss)) :: u64)"
    unfolding word_of_nat_sum_list using length_routed_sum [OF l] by metis
  moreover have "\<forall>key. \<exists>res. Snapshot_get arch z xorf xxh64 r key = Ok res \<and> load_answers xxh64 ?l (delivered_pairs ss) key res"
    using two(3) v5_answers_load [OF _ l _ del] f by blast
  ultimately show ?thesis using one(1) two(1,2) delivered_from_sources [OF inv] by auto
qed

section \<open>A resumed load with fewer partitions\<close>

lemma partition_dir_width:
  "length (show_nat (unat (m - 1))) = length (show_nat (unat (n - 1))) \<Longrightarrow> partition_dir root m p = partition_dir root n p"
  by (simp add: partition_dir_def)

lemma scattered_fewer:
  assumes "scattered sj b fs Fs" and "\<And>p. builder_dir b2 p = builder_dir b p"
    and "unat (n_partitions (vb_layout b2)) \<le> unat (n_partitions (vb_layout b))"
  shows "scattered sj b2 fs Fs"
  using assms(1,3) unfolding scattered_def assms(2) by (meson order_less_le_trans)

lemma v5_resume_fewer:
  fixes hl :: "'h hdr_lib"
  assumes new: "V5Builder_new (loader_builder_config root cfg) = Ok (b, c)" and fresh: "fresh_root root fs"
    and srcs: "sources_ok (lc_max_value_bytes cfg) srcs" and max: "lc_max_value_bytes cfg < 2 ^ 30"
    and small: "length (all_pairs srcs) < 2 ^ 32"
    and run: "(scatter_step xxh64)\<^sup>*\<^sup>* (scatter_start (vb_layout b) (lc_max_value_bytes cfg) srcs) ss"
    and fin: "scatter_finished ss"
    and new2: "V5Builder_new (loader_builder_config root (cfg\<lparr>lc_n_partitions := m\<rparr>)) = Ok (b2, c2)"
    and fewer: "m < lc_n_partitions cfg" "length (show_nat (unat (m - 1))) = length (show_nat (unat (lc_n_partitions cfg - 1)))"
    and sj: "serde_ok sj" and dj: "desc5_ok sj dj" and srt: "sort_ok sort_u" and lj: "\<forall>d. dec_sdone lj (enc_sdone lj d) = Ok d"
    and z: "vo_compression (lc_v5 cfg) = NoCompression \<or> zstd_ok z" and x: "vo_sketch (lc_v5 cfg) \<longrightarrow> xorf_ok xorf"
  shows "\<exists>st fs1 k c' fs' r. scatter_parallel xxh64 (v5_format_builder z xorf xxh64 sort_u sj secs b) hl lj root
      (lc_n_partitions cfg) (vo_marker_mode (lc_v5 cfg)) secs' rate drains ss (c, fs) = (Ok st, (c, fs1)) \<and>
    (\<forall>ss'. load_parallel xxh64 (v5_format_builder z xorf xxh64 sort_u sj secs b2) hl lj root m
      (vo_marker_mode (lc_v5 cfg)) secs' rate drains ss' now (c2, fs1) = Some (Ok (k, 0), (c', fs'))) \<and>
    Snapshot_open_path populate dj z xxh64 fs' root = Ok r \<and>
    (\<forall>key. unat m \<le> partition_of (vb_layout b) (fingerprint xxh64 key) \<longrightarrow>
      (\<forall>k \<in> fst ` set (all_pairs srcs). v5_verify_fingerprint xxh64 k DEFAULT_VERIFY_SEED =
        v5_verify_fingerprint xxh64 key DEFAULT_VERIFY_SEED \<longrightarrow> k = key) \<longrightarrow>
      (\<exists>io. Snapshot_get arch z xorf xxh64 r key = Ok (Miss io)))"
proof -
  let ?fb = "v5_format_builder z xorf xxh64 sort_u sj secs b" and ?l = "vb_layout b" and ?Fs = "v5_frames xxh64 b ss"
  let ?fb2 = "v5_format_builder z xorf xxh64 sort_u sj secs b2" and ?mode = "vo_marker_mode (lc_v5 cfg)"
  note f = V5Builder_new_fields [OF new] and b2 = V5Builder_new_ok [OF new2] and f2 = V5Builder_new_fields [OF new2, simplified]
  obtain st fs1 d where sc: "scatter_parallel xxh64 ?fb hl lj root (lc_n_partitions cfg) ?mode secs' rate drains ss (c, fs) = (Ok st, (c, fs1))"
    and sca: "scattered sj b fs1 ?Fs"
    and frame: "\<forall>y. y \<noteq> ''scatter.done'' \<longrightarrow> y \<noteq> ''scatter.done.tmp'' \<longrightarrow> fs1 (path_join root y) = None"
    and d: "fs1 (path_join root ''scatter.done'') = Some (enc_sdone lj d)" "sdn_format d = V5"
    and del: "\<forall>p < unat (n_partitions ?l). mset (concat (ss_queues ss ! p)) = mset (routed xxh64 ?l (all_pairs srcs) p)"
    using v5_scatter_phase [OF new fresh srcs max small run fin, where hl = hl and z = z and xorf = xorf and sort_u = sort_u and
        sj = sj and secs = secs and lj = lj and secs' = secs' and rate = rate and drains = drains] by (elim exE conjE) (rule that)
  have dirs: "builder_dir b2 p = builder_dir b p" for p
    using partition_dir_width [OF fewer(2), of root p] f f2 by metis
  have lt: "unat m < unat (n_partitions ?l)" using fewer(1) f by (simp add: word_less_nat_alt)
  have "unat (n_partitions (vb_layout b2)) = unat m" using f2 by simp
  with lt have sc2: "scattered sj b2 fs1 ?Fs" by (intro scattered_fewer [OF sca dirs]) simp
  from v5_finalize_ok [OF conjunct1 [OF b2] sj dj sc2, of z xorf sort_u c2 xxh64 secs lj now populate arch] z x srt b2 f2 frame
  obtain k c' fs' r where e: "loader_finalize ?fb2 lj root now (c2, fs1) = Some (Ok k, (c', fs'))"
    "Snapshot_open_path populate dj z xxh64 fs' root = Ok r"
    "\<forall>key. \<exists>res. Snapshot_get arch z xorf xxh64 r key = Ok res \<and> v5_answers xxh64 b2 ?Fs key res"
    by auto
  have "check_scatter_done ?fb2 lj root (vb_layout b2) ?mode (c2, fs1) = (Ok (Some (sdn_n_keys d)), (c2, fs1))"
    using d lj by (simp add: check_scatter_done_def v5_format_builder_def)
  then have second: "load_parallel xxh64 ?fb2 hl lj root m ?mode secs' rate drains ss' now (c2, fs1) = Some (Ok (k, 0), (c', fs'))" for ss'
    using e(1) f2 by (simp add: load_parallel_def scatter_parallel_def io_bind_def io_lift_def io_return_def)
  have "\<exists>io. Snapshot_get arch z xorf xxh64 r key = Ok (Miss io)"
    if part: "unat m \<le> partition_of ?l (fingerprint xxh64 key)"
      and inj: "\<forall>k \<in> fst ` set (all_pairs srcs). v5_verify_fingerprint xxh64 k DEFAULT_VERIFY_SEED =
        v5_verify_fingerprint xxh64 key DEFAULT_VERIFY_SEED \<longrightarrow> k = key" for key
  proof -
    let ?p = "partition_of (vb_layout b2) (fingerprint xxh64 key)"
    obtain res where res: "Snapshot_get arch z xorf xxh64 r key = Ok res" "v5_answers xxh64 b2 ?Fs key res" using e(3) by blast
    have p: "?p < unat m" using f2 partition_of_bound by metis
    then have F: "(fp, vfp, v) \<in> set (?Fs ?p) \<longleftrightarrow> (\<exists>k. (k, v) \<in> set (all_pairs srcs) \<and> partition_of ?l (fingerprint xxh64 k) = ?p \<and>
        fingerprint xxh64 k = fp \<and> v5_verify_fingerprint xxh64 k DEFAULT_VERIFY_SEED = vfp)" for fp vfp v
      using lt f by (intro v5_frame_iff [OF _ del]) simp_all
    have "res \<noteq> Hit v" for v
    proof
      assume "res = Hit v"
      with res(2) F f2 obtain k where k: "(k, v) \<in> set (all_pairs srcs)" "partition_of ?l (fingerprint xxh64 k) = ?p"
        "v5_verify_fingerprint xxh64 k DEFAULT_VERIFY_SEED = v5_verify_fingerprint xxh64 key DEFAULT_VERIFY_SEED"
        by (auto simp: v5_answers_def Let_def)
      with inj have "k = key" by force
      with k(2) p part show False by simp
    qed
    with res(1) show ?thesis by (cases res) auto
  qed
  with sc second e(2) show ?thesis by blast
qed

end
