(* ===== verification/Loader_V4.thy ===== *)
theory Loader_V4
  imports Loader_Load
begin

text \<open>
  The V4 format behind the loader: the interface \<open>scatter_format\<close> interpreted on the V4 builder, a
  whole V4 load, and the directories on which the completion check reports a finished scatter of no
  keys (a completed snapshot, or spills that a crashed writer flushed but did not finish).
\<close>

section \<open>V4 appenders\<close>

definition padded_len :: "records \<Rightarrow> nat" where
  "padded_len recs = sum_list (map (\<lambda>(k, fp, v). ceil64 (12 + length v)) recs)"

definition v4_opened :: "hash \<Rightarrow> V4Builder \<Rightarrow> nat \<Rightarrow> V4Appender \<Rightarrow> records \<Rightarrow> bool" where
  "v4_opened xxh64 b p a recs \<longleftrightarrow> (\<exists>es. pw_inv xxh64 (v4_verify_seed b) (v4a_writer a) recs es) \<and>
     pw_dir (v4a_writer a) = v4_dir b p \<and> v4a_slot a = p \<and> length (aw_inner (pw_data (v4a_writer a))) = padded_len recs"

definition v4_room :: "records \<Rightarrow> bool" where
  "v4_room recs \<longleftrightarrow> (\<forall>(k, fp, v) \<in> set recs. fits v) \<and> padded_len recs \<le> 2 ^ 37"

definition v4_stored :: "hash \<Rightarrow> V4Builder \<Rightarrow> nat \<Rightarrow> records \<Rightarrow> V4Cells \<times> files \<Rightarrow> bool" where
  "v4_stored xxh64 b p recs s \<longleftrightarrow>
     (\<exists>w es. pw_inv xxh64 (v4_verify_seed b) w recs es \<and>
        snd s (path_join (v4_dir b p) ''data.bin'') = Some (aw_inner (pw_data w)) \<and>
        snd s (path_join (v4_dir b p) ''spill.bin'') = Some (fst (spill_finish (pw_spill w))))"

definition v4_valid :: "V4Builder \<Rightarrow> V4Cells \<times> files \<Rightarrow> bool" where
  "v4_valid b s \<longleftrightarrow> v4_verify_seed b \<noteq> 0 \<and> length (v4_ready (fst s)) = unat (n_partitions (v4_layout b)) \<and>
     (\<forall>p < unat (n_partitions (v4_layout b)). v4_ready (fst s) ! p \<in> {None, Some (v4_dir b p)})"

definition v4_part_files :: "V4Builder \<Rightarrow> nat \<Rightarrow> path set" where
  "v4_part_files b p = path_join (v4_dir b p) ` {''data.bin'', ''spill.bin''}"

definition v4_within :: "V4Builder \<Rightarrow> nat \<Rightarrow> V4Cells \<times> files \<Rightarrow> V4Cells \<times> files \<Rightarrow> bool" where
  "v4_within b p s s' \<longleftrightarrow> v4_index_info (fst s') = v4_index_info (fst s) \<and>
     (\<forall>q. q \<notin> v4_part_files b p \<longrightarrow> snd s' q = snd s q)"

definition v4_outside :: "V4Builder \<Rightarrow> V4Cells \<times> files \<Rightarrow> V4Cells \<times> files \<Rightarrow> bool" where
  "v4_outside b s s' \<longleftrightarrow> v4_index_info (fst s') = v4_index_info (fst s) \<and>
     (\<forall>q. q \<notin> (\<Union>p. v4_part_files b p) \<longrightarrow> snd s' q = snd s q)"

lemma v4_partition_appender: "partition_appender (V4Appender_append xxh64) (v4_opened xxh64 b p) v4_room"
proof
  fix a recs k fp v
  assume o: "v4_opened xxh64 b p a recs" and r: "v4_room (recs @ [(k, fp, v)])"
  then obtain es where es: "pw_inv xxh64 (v4_verify_seed b) (v4a_writer a) recs es" by (auto simp: v4_opened_def)
  have v: "fits v" using r by (simp add: v4_room_def)
  have "length (aw_inner (pw_data (v4a_writer a))) \<le> 2 ^ 37" using o r by (simp add: v4_opened_def v4_room_def padded_len_def)
  then obtain w' where w': "partition_write xxh64 (v4a_writer a) k fp v = Ok w'"
    "length (aw_inner (pw_data w')) = length (aw_inner (pw_data (v4a_writer a))) + ceil64 (12 + length v)"
    using partition_write_total [OF es v] by blast
  from partition_write_inv [OF es v w'(1)] w' o
  show "\<exists>a'. V4Appender_append xxh64 a k fp v = Ok a' \<and> v4_opened xxh64 b p a' (recs @ [(k, fp, v)])"
    by (auto simp: V4Appender_append_def v4_opened_def padded_len_def)
next
  fix xs ys
  assume "v4_room (xs @ ys)"
  then show "v4_room xs" by (simp add: v4_room_def padded_len_def)
qed

interpretation v4_appends: partition_appender "V4Appender_append xxh64" "v4_opened xxh64 b p" v4_room for xxh64 b p
  by (rule v4_partition_appender)

lemma v4_open_ok:
  assumes "v4_valid b s" and p: "p < unat (n_partitions (v4_layout b))"
  shows "\<exists>a s'. V4Builder_appender b p s = (Ok a, s') \<and> v4_opened xxh64 b p a [] \<and> v4_valid b s' \<and> v4_within b p s s'"
proof -
  obtain w fs where w: "PartitionWriter_new (v4_dir b p) (v4_verify_seed b) (snd s) = Ok (w, fs)"
    "aw_inner (pw_data w) = []" "fs = (snd s)(path_join (v4_dir b p) ''data.bin'' \<mapsto> [], path_join (v4_dir b p) ''spill.bin'' \<mapsto> [])"
    using assms(1) by (auto simp: PartitionWriter_new_def AlignedWriter_new_def v4_valid_def)
  from PartitionWriter_new_inv [OF w(1), of xxh64] w assms show ?thesis
    by (auto simp: V4Builder_appender_def v4_valid_def v4_opened_def padded_len_def v4_within_def v4_part_files_def)
qed

lemma v4_finish_ok:
  assumes "v4_valid b s" and p: "p < unat (n_partitions (v4_layout b))" and "v4_opened xxh64 b p a recs"
  shows "\<exists>s'. V4Appender_finish a s = (Ok (), s') \<and> v4_stored xxh64 b p recs s' \<and> v4_valid b s' \<and> v4_within b p s s'"
proof -
  obtain es where es: "pw_inv xxh64 (v4_verify_seed b) (v4a_writer a) recs es"
    and a: "pw_dir (v4a_writer a) = v4_dir b p" "v4a_slot a = p"
    using assms(3) by (auto simp: v4_opened_def)
  let ?s = "((fst s)\<lparr>v4_ready := (v4_ready (fst s))[p := Some (v4_dir b p)]\<rparr>,
    (snd s)(path_join (v4_dir b p) ''data.bin'' \<mapsto> aw_inner (pw_data (v4a_writer a)),
            path_join (v4_dir b p) ''spill.bin'' \<mapsto> fst (spill_finish (pw_spill (v4a_writer a)))))"
  have "V4Appender_finish a s = (Ok (), ?s)"
    using a by (simp add: V4Appender_finish_def finish_data_def aligned_finish_def)
  moreover have "v4_stored xxh64 b p recs ?s" using es by (auto simp: v4_stored_def)
  moreover have "v4_valid b ?s" using assms(1) p by (auto simp: v4_valid_def nth_list_update)
  moreover have "v4_within b p s ?s" by (auto simp: v4_within_def v4_part_files_def)
  ultimately show ?thesis by blast
qed

lemma v4_within_stored:
  assumes w: "v4_within b p s s'" and q: "q \<noteq> p" and st: "v4_stored xxh64 b q recs s"
  shows "v4_stored xxh64 b q recs s'"
proof -
  have "path_join (v4_dir b q) x \<notin> v4_part_files b p" for x
    using q by (auto simp: v4_part_files_def partition_dir_inject)
  with w have "snd s' (path_join (v4_dir b q) x) = snd s (path_join (v4_dir b q) x)" for x
    by (simp add: v4_within_def)
  with st show ?thesis by (simp add: v4_stored_def)
qed

interpretation v4_scatter: scatter_format "v4_format_builder xxh64 sj secs b" "unat (n_partitions (v4_layout b))"
    "v4_opened xxh64 b" v4_room "v4_stored xxh64 b" "v4_valid b" "v4_within b" "v4_outside b" for xxh64 sj secs b
proof (rule scatter_format.intro, goal_cases)
  case (1 p)
  then show ?case using v4_partition_appender by (simp add: v4_format_builder_def)
next
  case (2 s p)
  then show ?case using v4_open_ok [of b s p xxh64] by (simp add: v4_format_builder_def)
next
  case (3 s p a recs)
  then show ?case using v4_finish_ok by (auto simp: v4_format_builder_def)
next
  case (4 p s s' q recs)
  then show ?case by (rule v4_within_stored)
qed (auto simp: v4_within_def v4_outside_def)

section \<open>Build and publication\<close>

lemma take_ready_valid:
  assumes "v4_valid b (c, fs)"
  shows "fst (take_ready b c) = map (v4_dir b) (v4_parts b)"
proof (rule nth_equalityI)
  fix p
  assume "p < length (fst (take_ready b c))"
  then have p: "p < unat (n_partitions (v4_layout b))" using assms by (simp add: take_ready_def v4_valid_def)
  with assms have "v4_ready c ! p \<in> {None, Some (v4_dir b p)}" "length (v4_ready c) = unat (n_partitions (v4_layout b))"
    by (auto simp: v4_valid_def)
  with p show "fst (take_ready b c) ! p = map (v4_dir b) (v4_parts b) ! p"
    by (auto simp: take_ready_def nth_enumerate_eq)
qed (use assms in \<open>simp add: take_ready_def v4_valid_def\<close>)

lemma those_map_Some: "(\<And>x. x \<in> set xs \<Longrightarrow> f x = Some (g x)) \<Longrightarrow> those (map f xs) = Some (map g xs)"
  by (induction xs) auto

definition desc4_ok :: "serde4_lib \<Rightarrow> desc_serde \<Rightarrow> bool" where
  "desc4_ok sj dj \<longleftrightarrow> (\<forall>m. dec_version dj (enc_meta4 sj m) = Ok (format_version m) \<and> dec_desc4 dj (enc_meta4 sj m) = Ok m)"

text \<open>A directory a V4 load has completed: data and index are there, spills and sentinels are gone.\<close>

definition v4_complete :: "V4Builder \<Rightarrow> files \<Rightarrow> bool" where
  "v4_complete b fs \<longleftrightarrow> fs (index_path (sf_root (v4_finalizer b))) \<noteq> None \<and>
     fs (path_join (sf_root (v4_finalizer b)) ''scatter.done'') = None \<and>
     fs (path_join (sf_root (v4_finalizer b)) ''index.done'') = None \<and>
     (\<forall>p < unat (n_partitions (v4_layout b)).
        fs (path_join (v4_dir b p) ''data.bin'') \<noteq> None \<and> fs (path_join (v4_dir b p) ''spill.bin'') = None)"

definition v4_builder_ok :: "V4Builder \<Rightarrow> bool" where
  "v4_builder_ok b \<longleftrightarrow> Layout_new (n_partitions (v4_layout b)) = Ok (v4_layout b) \<and>
     v4_finalizer b = \<lparr>sf_root = sf_root (v4_finalizer b), sf_layout = v4_layout b, sf_verify_seed = v4_verify_seed b\<rparr>"

lemma remove_spills_eq:
  "fold remove_spill dirs fs q = (if q \<in> (\<lambda>d. path_join d ''spill.bin'') ` set dirs then None else fs q)"
  by (induction dirs arbitrary: fs) (auto simp: remove_spill_def)

lemma v4_finalize_ok:
  assumes b: "v4_builder_ok b" and c: "v4_valid b (c, fs)" and dj: "desc4_ok sj dj"
    and fresh: "fs (path_join (sf_root (v4_finalizer b)) ''index.done'') = None"
    and built: "\<And>p. p < unat (n_partitions (v4_layout b)) \<Longrightarrow> build_index fs (v4_dir b p) = Some (Ok (T p, st p))"
    and small: "\<And>p. p < unat (n_partitions (v4_layout b)) \<Longrightarrow> length (T p) \<le> 269"
    and data: "\<And>p. p < unat (n_partitions (v4_layout b)) \<Longrightarrow> fs (path_join (v4_dir b p) ''data.bin'') = Some (D p)"
    and pop: "populate_result populate = Ok ()"
  shows "\<exists>c' fs' r. loader_finalize (v4_format_builder xxh64 sj secs b) lj (sf_root (v4_finalizer b)) now (c, fs) =
      Some (Ok (sum_list (map (\<lambda>p. pis_n_keys (st p)) (v4_parts b))), (c', fs')) \<and> v4_complete b fs' \<and>
    Snapshot_open_path populate dj z xxh64 fs' (sf_root (v4_finalizer b)) = Ok r \<and>
    (\<forall>key. let fp = fingerprint xxh64 key; p = partition_of (v4_layout b) fp in
       Snapshot_get arch z xorf xxh64 r key =
         partition_get arch xxh64 \<lparr>pr_buckets = T p, pr_data = D p, pr_verify_seed = v4_verify_seed b\<rparr> key fp)"
proof -
  let ?fb = "v4_format_builder xxh64 sj secs b" and ?root = "sf_root (v4_finalizer b)" and ?n = "n_partitions (v4_layout b)"
  let ?l = "v4_layout b" and ?dirs = "map (v4_dir b) (v4_parts b)" and ?built = "map (\<lambda>p. (T p, st p)) (v4_parts b)"
  have lay: "Layout_new ?n = Ok ?l" and fz: "v4_finalizer b = \<lparr>sf_root = ?root, sf_layout = ?l, sf_verify_seed = v4_verify_seed b\<rparr>"
    using b by (simp_all add: v4_builder_ok_def)
  have tr: "take_ready b c = (?dirs, c\<lparr>v4_ready := map (\<lambda>_. None) (v4_ready c)\<rparr>)"
    using take_ready_valid [OF c] by (simp add: take_ready_def)
  have those: "those (map (build_index fs) ?dirs) = Some (map Ok ?built)"
    unfolding map_map by (rule those_map_Some) (simp add: built)
  have tabs: "map fst ?built = map T (v4_parts b)" by (simp add: comp_def)
  obtain index info where wui: "write_unified_index (map T (v4_parts b)) = (index, info)" by fastforce
  have dirs: "v4_dir b p \<noteq> ?root" for p
    using root_not_in_part [of ?root _ ?n p] by auto
  let ?fs1 = "fs(index_path ?root \<mapsto> index)"
  let ?parts = "map (\<lambda>(_, st). partition_index_done st) ?built"
  define d where "d = index_done4_of secs (length index) ?parts info"
  define fs2 where "fs2 = fold remove_spill ?dirs (?fs1(path_join ?root ''index.done'' \<mapsto> enc_idone4 sj d))"
  let ?c2 = "c\<lparr>v4_ready := map (\<lambda>_. None) (v4_ready c), v4_index_info := Some info\<rparr>"
  have bld: "fb_build ?fb (c, fs) = Some (Ok (i4_n_keys d), (?c2, fs2))"
    by (simp add: v4_format_builder_def V4Builder_build_def fresh tr those publish_index_def tabs wui write_index_def
        d_def fs2_def Let_def del: map_map)
  define stt where "stt = \<lparr>st_n_keys = i4_n_keys d, st_created_at = now,
      st_scatter = load_json lj fs2 (path_join ?root ''scatter.done''),
      st_index = map_option strip_control (load_json lj fs2 (path_join ?root ''index.done''))\<rparr>"
  let ?m = "meta_of (v4_finalizer b) info (Some stt) None"
  define fs3 where "fs3 = fs2(path_join ?root ''meta.json'' \<mapsto> enc_meta4 sj ?m, path_join ?root ''scatter.done'' := None,
      path_join ?root ''index.done'' := None)"
  have fin: "loader_finalize ?fb lj ?root now (c, fs) = Some (Ok (i4_n_keys d), (?c2, fs3))"
    unfolding loader_finalize_def
    using bld by (simp add: v4_format_builder_def V4Builder_plan_def V4Builder_finalize_def publish_snapshot_def on_files_def
        io_map_err_def io_bind_def io_return_def remove_file_def io_do_def write_meta_def Let_def stt_def [symmetric] fs3_def)
  have part: "fs3 (path_join (v4_dir b p) ''data.bin'') = fs (path_join (v4_dir b p) ''data.bin'')" for p
    using dirs by (simp add: fs3_def fs2_def remove_spills_eq image_iff index_path_def)
  have spill: "fs3 (path_join (v4_dir b p) ''spill.bin'') = None" if "p < unat ?n" for p
    using dirs that by (auto simp: fs3_def fs2_def remove_spills_eq)
  have ix: "fs3 (index_path ?root) = Some index"
    by (auto simp: fs3_def fs2_def remove_spills_eq index_path_def)
  have comp: "v4_complete b fs3"
    using ix part spill data by (simp add: v4_complete_def) (simp add: fs3_def)
  have "\<forall>t \<in> set (map T (v4_parts b)). length t \<le> 269" using small by auto
  then have "index_bound (map T (v4_parts b)) \<le> 2 ^ 62" using unat_u32_less [of ?n] by (intro index_bound_small) simp_all
  then have size: "length index \<le> 2 ^ 63"
    using write_tables_bound [OF wui [unfolded write_unified_index_def]] by simp
  obtain r where r: "SnapshotReader_open populate fs3 ?root ?m = Ok r"
    "\<forall>key. let fp = fingerprint xxh64 key; p = partition_of ?l fp in
       SnapshotReader_get arch xxh64 r key =
         partition_get arch xxh64 \<lparr>pr_buckets = map T (v4_parts b) ! p, pr_data = D p, pr_verify_seed = v4_verify_seed b\<rparr> key fp"
    using v4_files_open [where fs = fs3 and D = D and root = ?root and root' = ?root and seed = "v4_verify_seed b" and
        st = "Some stt" and enc = None and arch = arch and populate = populate,
        OF lay _ wui size ix _ pop] part data unfolding fz [symmetric] by (metis length_map length_upt minus_nat.diff_0)
  have ml: "\<exists>l'. Meta_layout ?m = Ok l'" using r(1) by (auto simp: SnapshotReader_open_def res_simps)
  have "format_version ?m = FORMAT_VERSION_V4" by (simp add: meta_of_def)
  moreover have "fs3 (path_join ?root ''meta.json'') = Some (enc_meta4 sj ?m)" by (simp add: fs3_def)
  ultimately have o: "Snapshot_open_path populate dj z xxh64 fs3 ?root =
      Ok \<lparr>sn_desc = \<lparr>sd_root = ?root, sd_meta = MetaOfV4 ?m\<rparr>, sn_inner = InnerV4 r\<rparr>"
    using dj ml r(1) by (auto simp: Snapshot_open_path_def SnapshotDesc_load_def file_open_def desc4_ok_def Snapshot_open_def)
  have "Snapshot_get arch z xorf xxh64 \<lparr>sn_desc = \<lparr>sd_root = ?root, sd_meta = MetaOfV4 ?m\<rparr>, sn_inner = InnerV4 r\<rparr> key =
      partition_get arch xxh64 \<lparr>pr_buckets = T (partition_of ?l (fingerprint xxh64 key)),
        pr_data = D (partition_of ?l (fingerprint xxh64 key)), pr_verify_seed = v4_verify_seed b\<rparr> key (fingerprint xxh64 key)" for key
    using r(2) [rule_format, of key] partition_of_bound [OF lay, of "fingerprint xxh64 key"]
    by (simp add: Snapshot_get_def Let_def)
  moreover have "i4_n_keys d = sum_list (map (\<lambda>p. pis_n_keys (st p)) (v4_parts b))"
    by (simp add: d_def index_done4_of_def partition_index_done_def comp_def)
  ultimately show ?thesis using fin comp o unfolding Let_def by metis
qed


section \<open>The whole V4 load\<close>

lemma V4Builder_new_fields:
  "V4Builder_new (loader_builder_config root cfg) = Ok (b, c) \<Longrightarrow>
     v4_builder_ok b \<and> sf_root (v4_finalizer b) = root \<and> v4_verify_seed b = DEFAULT_VERIFY_SEED \<and>
     Layout_new (lc_n_partitions cfg) = Ok (v4_layout b) \<and> n_partitions (v4_layout b) = lc_n_partitions cfg \<and> v4_valid b (c, fs)"
  by (auto simp: V4Builder_new_def loader_builder_config_def res_simps Layout_new_Ok_iff v4_builder_ok_def v4_valid_def
      DEFAULT_VERIFY_SEED_def)

lemma v4_probe_fresh:
  assumes "fresh_root (sf_root (v4_finalizer b)) fs" and "Layout_new n = Ok (v4_layout b)"
  shows "check_scatter_done (v4_format_builder xxh64 sj secs b) lj (sf_root (v4_finalizer b)) (v4_layout b) mode (c, fs) =
    (Ok None, (c, fs))"
proof -
  have "n_partitions (v4_layout b) \<noteq> 0" using assms(2) by (auto simp: Layout_new_Ok_iff is_power_of_two_iff)
  then have "[0..<unat (n_partitions (v4_layout b))] = 0 # [1..<unat (n_partitions (v4_layout b))]"
    by (simp add: upt_conv_Cons unat_gt_0)
  then show ?thesis
    using fresh_root_join [OF assms(1)] fresh_root_part [OF assms(1)]
    by (simp add: check_scatter_done_def derive_scatter_done_def v4_format_builder_def V4Builder_scatter_probe_def
        on_files_def io_map_err_def io_bind_def path_exists_def io_return_def Let_def)
qed

lemma v4_run_scatter_ok:
  fixes hl :: "'h hdr_lib"
  assumes c: "v4_valid b (c, fs)" and fin: "scatter_finished ss" and len: "length (ss_queues ss) = unat (n_partitions (v4_layout b))"
    and room: "\<forall>p < unat (n_partitions (v4_layout b)). v4_room (concat (ss_queues ss ! p))"
    and root: "sf_root (v4_finalizer b) = root"
  shows "\<exists>st c' fs'. run_scatter_sources xxh64 (v4_format_builder xxh64 sj secs b) hl lj root
      (v4_layout b) mode secs' rate drains ss (c, fs) = (Ok st, (c', fs')) \<and> v4_valid b (c', fs') \<and>
    fs' (path_join root ''index.done'') = fs (path_join root ''index.done'') \<and>
    (\<forall>p < unat (n_partitions (v4_layout b)). v4_stored xxh64 b p (concat (ss_queues ss ! p)) (c', fs'))"
proof -
  let ?fb = "v4_format_builder xxh64 sj secs b" and ?n = "unat (n_partitions (v4_layout b))"
  obtain as s1 stats s2 where w: "create_appenders ?fb (v4_layout b) (c, fs) = (Ok as, s1)"
    "io_collect (partition_writer ?fb hl) (zip as (ss_queues ss)) s1 = (map Ok stats, s2)" "v4_valid b s2" "v4_outside b (c, fs) s2"
    "\<forall>p < ?n. v4_stored xxh64 b p (concat (ss_queues ss ! p)) s2"
    using v4_scatter.appenders_ok [OF c refl len room, where hl = hl] by blast
  obtain c2 fs2 where s2: "s2 = (c2, fs2)" by (cases s2)
  obtain st json where r: "run_scatter_sources xxh64 ?fb hl lj root (v4_layout b) mode secs' rate drains ss (c, fs) =
      (Ok st, (c2, (if mode = Rename then fs2(path_join root (''scatter.done'' @ ''.tmp'') := None) else fs2)
        (path_join root ''scatter.done'' \<mapsto> json)))" (is "_ = (_, (_, ?fs3))")
    using phase_finish_ok [where hl = hl and ss = ss and s = s1 and as = as, OF w(2) [unfolded s2], of lj root "v4_layout b" mode secs' rate]
    unfolding run_scatter_sources_def io_bind_Ok [where m = "create_appenders ?fb (v4_layout b)" and s = "(c, fs)", OF w(1)]
      finished_tasks [OF fin] Let_def res.case by blast
  have dirs: "v4_dir b p \<noteq> root" for p
    using root_not_in_part [of root _ "n_partitions (v4_layout b)" p] root by auto
  have "\<forall>p < ?n. v4_stored xxh64 b p (concat (ss_queues ss ! p)) (c2, ?fs3)"
    using w(5) dirs by (simp add: v4_stored_def s2)
  moreover have "path_join root x \<notin> (\<Union>p. v4_part_files b p)" for x
    using dirs by (auto simp: v4_part_files_def)
  then have "?fs3 (path_join root ''index.done'') = fs (path_join root ''index.done'')"
    using w(4) by (simp add: v4_outside_def s2)
  moreover have "v4_valid b (c2, ?fs3)" using w(3) by (simp add: v4_valid_def s2)
  ultimately show ?thesis using r by blast
qed

definition unroute :: "records \<Rightarrow> (bytes \<times> bytes) list" where
  "unroute recs = map (\<lambda>(k, fp, v). (k, v)) recs"

lemma routed_unroute:
  assumes "set recs = set (routed xxh64 l kvs p)"
  shows "routed xxh64 l (unroute recs) p = recs"
proof -
  have "\<forall>(k, fp, v) \<in> set recs. fp = fingerprint xxh64 k \<and> partition_of l fp = p"
    using assms by (auto simp: routed_def)
  then show ?thesis by (induction recs) (auto simp: routed_def unroute_def)
qed

lemma answers_unroute:
  assumes "set recs = set (routed xxh64 l kvs (partition_of l (fingerprint xxh64 key)))"
    and "answers xxh64 l seed (unroute recs) key res"
  shows "answers xxh64 l seed kvs key res"
proof -
  have mem: "(k, v) \<in> set (unroute recs) \<longleftrightarrow> (k, v) \<in> set kvs"
    if "partition_of l (fingerprint xxh64 k) = partition_of l (fingerprint xxh64 key)" for k v
    using assms(1) that by (force simp: unroute_def routed_def)
  have S: "same_slot xxh64 l k key \<Longrightarrow> (k, v) \<in> set (unroute recs) \<longleftrightarrow> (k, v) \<in> set kvs" for k v
    using mem by (simp add: same_slot_def)
  show ?thesis
  proof (cases res)
    case (Hit v)
    with assms(2) obtain k where "(k, v) \<in> set (unroute recs)" "same_print xxh64 l seed k key" by (auto simp: answers_def)
    with S have "(k, v) \<in> set kvs" by (simp add: same_print_def)
    with Hit \<open>same_print xxh64 l seed k key\<close> show ?thesis by (auto simp: answers_def)
  next
    case (Miss io)
    with assms(2) have m: "\<not> same_print xxh64 l seed k key" if "(k, v) \<in> set (unroute recs)" for k v
      using that by (auto simp: answers_def)
    have "\<not> same_print xxh64 l seed k key" if "(k, v) \<in> set kvs" for k v
      using m S that by (auto simp: same_print_def)
    moreover have "io \<longleftrightarrow> (\<exists>k v. (k, v) \<in> set (unroute recs) \<and> same_slot xxh64 l k key)"
      using Miss assms(2) by (auto simp: answers_def)
    moreover have "(\<exists>k v. (k, v) \<in> set (unroute recs) \<and> same_slot xxh64 l k key) \<longleftrightarrow>
        (\<exists>k v. (k, v) \<in> set kvs \<and> same_slot xxh64 l k key)"
      using S by blast
    ultimately have "\<forall>(k, v) \<in> set kvs. \<not> same_print xxh64 l seed k key"
      "io \<longleftrightarrow> (\<exists>(k, v) \<in> set kvs. same_slot xxh64 l k key)"
      by auto
    with Miss show ?thesis by (simp add: answers_def)
  qed
qed

lemma padded_len_routed:
  assumes "mset recs = mset (routed xxh64 l kvs p)"
  shows "padded_len recs \<le> padded_total kvs"
proof -
  have "padded_len recs = padded_len (routed xxh64 l kvs p)"
    unfolding padded_len_def using assms by (simp flip: sum_mset_sum_list)
  also have "\<dots> \<le> padded_total kvs"
    unfolding padded_len_def padded_total_def routed_def by (induction kvs) auto
  finally show ?thesis .
qed

lemma v4_load_ok:
  fixes hl :: "'h hdr_lib"
  assumes new: "V4Builder_new (loader_builder_config root cfg) = Ok (b, c)" and fresh: "fresh_root root fs"
    and srcs: "sources_ok (lc_max_value_bytes cfg) srcs" and fit: "\<forall>(k, v) \<in> set (all_pairs srcs). fits v"
    and pad: "padded_total (all_pairs srcs) \<le> 2 ^ 37"
    and small: "\<forall>p < unat (lc_n_partitions cfg). length (routed xxh64 (v4_layout b) (all_pairs srcs) p) \<le> 255"
    and run: "(scatter_step xxh64)\<^sup>*\<^sup>* (scatter_start (v4_layout b) (lc_max_value_bytes cfg) srcs) ss"
    and fin: "scatter_finished ss" and dj: "desc4_ok sj dj" and pop: "populate_result populate = Ok ()"
  shows "\<exists>n c' fs' r. load_parallel xxh64 (v4_format_builder xxh64 sj secs b) hl lj root
      (lc_n_partitions cfg) (vo_marker_mode (lc_v5 cfg)) secs' rate drains ss now (c, fs) =
      Some (Ok (word_of_nat (length (all_pairs srcs)), n), (c', fs')) \<and> v4_complete b fs' \<and>
    Snapshot_open_path populate dj z xxh64 fs' root = Ok r \<and>
    (\<forall>key. \<exists>res. Snapshot_get arch z xorf xxh64 r key = Ok res \<and>
      answers xxh64 (v4_layout b) DEFAULT_VERIFY_SEED (all_pairs srcs) key res)"
proof -
  let ?fb = "v4_format_builder xxh64 sj secs b" and ?l = "v4_layout b" and ?kvs = "all_pairs srcs"
  let ?mode = "vo_marker_mode (lc_v5 cfg)" and ?n = "unat (lc_n_partitions cfg)" and ?q = "\<lambda>p. concat (ss_queues ss ! p)"
  note f = V4Builder_new_fields [OF new, of fs]
  have l: "Layout_new (n_partitions ?l) = Ok ?l" and root: "sf_root (v4_finalizer b) = root"
    and seed: "v4_verify_seed b = DEFAULT_VERIFY_SEED" and np: "n_partitions ?l = lc_n_partitions cfg"
    using f by simp_all
  have inv: "scatter_inv xxh64 ?l (lc_max_value_bytes cfg) srcs ss"
    by (rule scatter_inv_reachable [OF run l])
  have del: "mset (?q p) = mset (routed xxh64 ?l ?kvs p)" if "p < ?n" for p
    using scatter_finished_delivers [OF inv fin] that np by simp
  then have dels: "set (?q p) = set (routed xxh64 ?l ?kvs p)" if "p < ?n" for p using that by (metis set_mset_mset)
  have lq: "length (?q p) = length (routed xxh64 ?l ?kvs p)" if "p < ?n" for p using del [OF that] by (metis size_mset)
  have room: "\<forall>p < unat (n_partitions ?l). v4_room (?q p)"
  proof (intro allI impI)
    fix p assume p: "p < unat (n_partitions ?l)"
    have "\<forall>(k, fp, v) \<in> set (routed xxh64 ?l ?kvs p). fits v" using fit by (auto simp: routed_def)
    with p padded_len_routed [OF del, of p] pad dels [of p] np show "v4_room (?q p)" by (simp add: v4_room_def)
  qed
  have len: "length (ss_queues ss) = unat (n_partitions ?l)" using inv by (simp add: scatter_inv_def)
  obtain st c1 fs1 where sc: "run_scatter_sources xxh64 ?fb hl lj root ?l ?mode secs' rate drains ss (c, fs) = (Ok st, (c1, fs1))"
    "v4_valid b (c1, fs1)" "fs1 (path_join root ''index.done'') = None"
    "\<forall>p < ?n. v4_stored xxh64 b p (?q p) (c1, fs1)"
    using v4_run_scatter_ok [where hl = hl, OF _ fin len room root, of c fs xxh64 sj secs lj ?mode secs' rate drains] f
      fresh_root_join [OF fresh] np by auto
  have "\<exists>w es t pst. pw_inv xxh64 DEFAULT_VERIFY_SEED w (?q p) es \<and> build_index fs1 (v4_dir b p) = Some (Ok (t, pst)) \<and>
      fs1 (path_join (v4_dir b p) ''data.bin'') = Some (aw_inner (pw_data w)) \<and> length t \<le> 269 \<and>
      (\<exists>k. build es = Some (Ok (t, k))) \<and> pis_n_keys pst = word_of_nat (length (?q p))" if p: "p < ?n" for p
  proof -
    obtain w es where w: "pw_inv xxh64 DEFAULT_VERIFY_SEED w (?q p) es"
      "fs1 (path_join (v4_dir b p) ''data.bin'') = Some (aw_inner (pw_data w))"
      "fs1 (path_join (v4_dir b p) ''spill.bin'') = Some (fst (spill_finish (pw_spill w)))"
      using sc(4) p seed by (auto simp: v4_stored_def)
    have le: "length (?q p) \<le> 255" using lq [OF p] small p by simp
    obtain t pst where t: "build_index fs1 (v4_dir b p) = Some (Ok (t, pst))"
      using build_index_small [where fs = fs1, OF w(1) w(3) le] by fastforce
    obtain k where k: "build es = Some (Ok (t, k))" "unat (pis_n_keys pst) = length (?q p)"
      using pw_inv_build_index [where fs = fs1, OF w(1) w(3) t] by blast
    have "length es \<le> 255" using w(1) le by (auto simp: pw_inv_def dest!: list_all2_lengthD)
    then have "length t \<le> 269" using build_small_length [OF k(1) pw_inv_valid(1) [OF w(1)]] by simp
    moreover have "pis_n_keys pst = word_of_nat (length (?q p))" by (simp flip: k(2))
    ultimately show ?thesis using w(1,2) t k(1) by blast
  qed
  then obtain w es T pst where P: "\<And>p. p < ?n \<Longrightarrow> pw_inv xxh64 DEFAULT_VERIFY_SEED (w p) (?q p) (es p) \<and>
      build_index fs1 (v4_dir b p) = Some (Ok (T p, pst p)) \<and>
      fs1 (path_join (v4_dir b p) ''data.bin'') = Some (aw_inner (pw_data (w p))) \<and> length (T p) \<le> 269 \<and>
      (\<exists>k. build (es p) = Some (Ok (T p, k))) \<and> pis_n_keys (pst p) = word_of_nat (length (?q p))"
    by metis
  obtain c' fs' r where e: "loader_finalize ?fb lj root now (c1, fs1) =
      Some (Ok (sum_list (map (\<lambda>p. pis_n_keys (pst p)) (v4_parts b))), (c', fs'))" "v4_complete b fs'"
    "Snapshot_open_path populate dj z xxh64 fs' root = Ok r"
    "\<And>key. Snapshot_get arch z xorf xxh64 r key = partition_get arch xxh64
       \<lparr>pr_buckets = T (partition_of ?l (fingerprint xxh64 key)),
        pr_data = aw_inner (pw_data (w (partition_of ?l (fingerprint xxh64 key)))),
        pr_verify_seed = DEFAULT_VERIFY_SEED\<rparr> key (fingerprint xxh64 key)"
    using v4_finalize_ok [where fs = fs1 and c = c1 and T = T and st = pst and D = "\<lambda>p. aw_inner (pw_data (w p))" and populate = populate,
        OF _ sc(2) dj, of xxh64 secs lj now z arch xorf] f P pop sc(3) np seed root unfolding Let_def by auto
  have "map (\<lambda>p. pis_n_keys (pst p)) (v4_parts b) = map (\<lambda>p. word_of_nat (length (routed xxh64 ?l ?kvs p))) (v4_parts b)"
    using P lq np by simp
  then have k: "sum_list (map (\<lambda>p. pis_n_keys (pst p)) (v4_parts b)) = word_of_nat (length ?kvs)"
    using length_routed_sum [OF l, of xxh64 ?kvs] by (simp only: word_of_nat_sum_list)
  have "check_scatter_done ?fb lj root ?l ?mode (c, fs) = (Ok None, (c, fs))"
    using v4_probe_fresh [of b fs "lc_n_partitions cfg"] fresh f root by simp
  then have "load_parallel xxh64 ?fb hl lj root (lc_n_partitions cfg) ?mode secs' rate drains ss now (c, fs) =
      Some (Ok (word_of_nat (length ?kvs), sst_data_bytes st), (c', fs'))"
    using f e(1) sc(1) k by (simp add: load_parallel_def scatter_parallel_def io_bind_def io_lift_def)
  moreover have "\<exists>res. Snapshot_get arch z xorf xxh64 r key = Ok res \<and> answers xxh64 ?l DEFAULT_VERIFY_SEED ?kvs key res" for key
  proof -
    let ?p = "partition_of ?l (fingerprint xxh64 key)"
    have p: "?p < ?n" using partition_of_bound [OF l] np by simp
    obtain kk where "build (es ?p) = Some (Ok (T ?p, kk))" using P [OF p] by blast
    from partition_lookup_answers [OF _ this, of xxh64 DEFAULT_VERIFY_SEED "w ?p" ?l "unroute (?q ?p)" key arch]
    obtain res where "Snapshot_get arch z xorf xxh64 r key = Ok res" "answers xxh64 ?l DEFAULT_VERIFY_SEED (unroute (?q ?p)) key res"
      using P [OF p] routed_unroute [OF dels [OF p]] unfolding e(4) by auto
    with answers_unroute [OF dels [OF p]] show ?thesis by blast
  qed
  ultimately show ?thesis using e(2,3) by blast
qed

section \<open>Loading into a used directory\<close>

text \<open>
  A directory the completion check takes for scattered with no keys: every partition has its data,
  and either a completed index and no spill, or the spill of a writer that was flushed but never
  finished (its count is still the placeholder).
\<close>

definition unfinished_spill :: "bytes \<Rightarrow> bool" where
  "unfinished_spill f \<longleftrightarrow> (\<exists>w es m. spill_inv w es \<and> 16 \<le> m \<and> f = take m (sw_written w))"

definition v4_stale :: "V4Builder \<Rightarrow> files \<Rightarrow> bool" where
  "v4_stale b fs \<longleftrightarrow>
     fs (path_join (sf_root (v4_finalizer b)) ''scatter.done'') = None \<and>
     fs (path_join (sf_root (v4_finalizer b)) ''index.done'') = None \<and>
     (\<forall>p < unat (n_partitions (v4_layout b)).
        fs (path_join (v4_dir b p) ''data.bin'') \<noteq> None \<and>
        (case fs (path_join (v4_dir b p) ''spill.bin'') of
           None \<Rightarrow> fs (index_path (sf_root (v4_finalizer b))) \<noteq> None
         | Some f \<Rightarrow> unfinished_spill f))"

lemma v4_complete_stale: "v4_complete b fs \<Longrightarrow> v4_stale b fs"
  by (simp add: v4_complete_def v4_stale_def)

lemma unfinished_spill_empty:
  assumes "unfinished_spill f"
  shows "\<exists>rest. SpillReader_open f = Ok \<lparr>sr_rest = rest, sr_count = 0\<rparr>"
proof -
  obtain w es m where w: "spill_inv w es" "16 \<le> m" "f = take m (sw_written w)" using assms by (auto simp: unfinished_spill_def)
  have "length (SPILL_MAGIC @ u64_le 0) = 16" by (simp add: SPILL_MAGIC_def)
  then have "take m ((SPILL_MAGIC @ u64_le 0) @ X) = (SPILL_MAGIC @ u64_le 0) @ take (m - 16) X" for X
    using w(2) by (simp only: take_append) simp
  with w have "f = SPILL_MAGIC @ u64_le 0 @ take (m - 16) (concat (map bucket_bytes es))"
    by (simp add: spill_inv_def)
  moreover have "length SPILL_MAGIC = 8" by (simp add: SPILL_MAGIC_def)
  ultimately show ?thesis by (simp add: SpillReader_open_def SPILL_HEADER_SIZE_def bslice_def)
qed

lemma check_empty: "check_no_pathological_duplicates [] = Ok ()"
  using check_no_pathological_duplicates_iff(1) [of "[]"] by simp

lemma build_empty: "build [] = Some (Ok ([], 0))"
  by (simp add: build_def bucket_count_def build_from.simps fill_def)

lemma v4_stale_load:
  fixes hl :: "'h hdr_lib"
  assumes new: "V4Builder_new (loader_builder_config root cfg) = Ok (b, c)" and stale: "v4_stale b fs"
    and dj: "desc4_ok sj dj" and pop: "populate_result populate = Ok ()"
  shows "\<exists>c' fs' r. (\<forall>ss. load_parallel xxh64 (v4_format_builder xxh64 sj secs b) hl lj root
      (lc_n_partitions cfg) (vo_marker_mode (lc_v5 cfg)) secs' rate drains ss now (c, fs) = Some (Ok (0, 0), (c', fs'))) \<and>
    Snapshot_open_path populate dj z xxh64 fs' root = Ok r \<and>
    (\<forall>key. Snapshot_get arch z xorf xxh64 r key = Ok (Miss False))"
proof -
  let ?fb = "v4_format_builder xxh64 sj secs b" and ?l = "v4_layout b" and ?mode = "vo_marker_mode (lc_v5 cfg)"
  note f = V4Builder_new_fields [OF new, of fs]
  have root: "sf_root (v4_finalizer b) = root" and np: "n_partitions ?l = lc_n_partitions cfg" using f by simp_all
  have "\<exists>probe. fb_scatter_probe ?fb p (c, fs) = (Ok (Some probe), (c, fs)) \<and> sp_n_keys probe = 0"
    if "p < unat (n_partitions ?l)" for p
  proof (cases "fs (path_join (v4_dir b p) ''spill.bin'')")
    case None
    with stale that show ?thesis
      by (auto simp: v4_stale_def v4_format_builder_def V4Builder_scatter_probe_def on_files_def Let_def)
  next
    case (Some f)
    with stale that have "unfinished_spill f" by (auto simp: v4_stale_def dest!: spec [of _ p])
    with unfinished_spill_empty obtain rest where "SpillReader_open f = Ok \<lparr>sr_rest = rest, sr_count = 0\<rparr>" by blast
    with Some stale that show ?thesis
      by (auto simp: v4_stale_def v4_format_builder_def V4Builder_scatter_probe_def on_files_def Let_def)
  qed
  from derive_scatter_done_ok [of ?l ?fb c fs "\<lambda>_. 0" lj root ?mode, OF this]
  obtain json where chk: "check_scatter_done ?fb lj root ?l ?mode (c, fs) = (Ok (Some 0),
      (c, (if ?mode = Rename then fs(path_join root (''scatter.done'' @ ''.tmp'') := None) else fs)
        (path_join root ''scatter.done'' \<mapsto> json)))" (is "_ = (_, (c, ?fs1))")
    using stale root by (auto simp: check_scatter_done_def v4_stale_def)
  have dirs: "v4_dir b p \<noteq> root" for p
    using root_not_in_part [of root _ "n_partitions ?l" p] root by auto
  define D where "D p = the (fs (path_join (v4_dir b p) ''data.bin''))" for p
  have data: "?fs1 (path_join (v4_dir b p) ''data.bin'') = Some (D p)" if "p < unat (n_partitions ?l)" for p
    using stale that dirs by (auto simp: v4_stale_def D_def)
  let ?st = "\<lparr>pis_n_keys = 0, pis_n_buckets = 0, pis_fill_rate = (0, 1), pis_retries = 0\<rparr>"
  have bi: "build_index ?fs1 (v4_dir b p) = Some (Ok ([], ?st))" if "p < unat (n_partitions ?l)" for p
  proof (cases "fs (path_join (v4_dir b p) ''spill.bin'')")
    case None
    with dirs show ?thesis by (simp add: build_index_def)
  next
    case (Some f)
    with stale that have "unfinished_spill f" by (auto simp: v4_stale_def dest!: spec [of _ p])
    with unfinished_spill_empty obtain rest where "SpillReader_open f = Ok \<lparr>sr_rest = rest, sr_count = 0\<rparr>" by blast
    with Some dirs show ?thesis
      by (simp add: build_index_def records_def build_empty check_empty)
  qed
  have idx: "?fs1 (path_join (sf_root (v4_finalizer b)) ''index.done'') = None"
    using stale root by (auto simp: v4_stale_def)
  have val: "v4_valid b (c, ?fs1)" using V4Builder_new_fields [OF new] by blast
  obtain c' fs' r where e: "loader_finalize ?fb lj root now (c, ?fs1) =
      Some (Ok (sum_list (map (\<lambda>p. pis_n_keys ?st) (v4_parts b))), (c', fs'))"
    "Snapshot_open_path populate dj z xxh64 fs' root = Ok r"
    "\<And>key. Snapshot_get arch z xorf xxh64 r key = partition_get arch xxh64 \<lparr>pr_buckets = [],
        pr_data = D (partition_of ?l (fingerprint xxh64 key)), pr_verify_seed = v4_verify_seed b\<rparr> key (fingerprint xxh64 key)"
    using v4_finalize_ok [where fs = ?fs1 and c = c and T = "\<lambda>_. []" and st = "\<lambda>_. ?st" and D = D and populate = populate
        and lj = lj and now = now and secs = secs and z = z and arch = arch and xorf = xorf and ?xxh64.0 = xxh64,
        OF conjunct1 [OF f] val dj idx bi _ data pop] unfolding Let_def root by auto
  have "load_parallel xxh64 ?fb hl lj root (lc_n_partitions cfg) ?mode secs' rate drains ss now (c, fs) =
      Some (Ok (0, 0), (c', fs'))" for ss
    using chk e(1) f by (simp add: load_parallel_def scatter_parallel_def io_bind_def io_lift_def io_return_def)
  moreover have "Snapshot_get arch z xorf xxh64 r key = Ok (Miss False)" for key
    unfolding e(3) by (simp add: partition_get_def)
  ultimately show ?thesis using e(2) by blast
qed

end
