(* ===== verification/Library_Instances.thy ===== *)
theory Library_Instances
  imports Loader_V4 "HOL-Library.Countable"
begin

text \<open>
  Concrete functions for the libraries the model is a function of (\<open>serde_json\<close>, \<open>xorf\<close>,
  \<open>zstd\<close>, \<open>hdrhistogram\<close>, the unstable sort): each satisfies the contract the theorems assume of
  it, and the witnesses run on them.
\<close>


section \<open>Serialization\<close>

instance Mode :: countable by countable_datatype
instance json :: countable by countable_datatype

text \<open>Records are countable through their fields.\<close>

instance ArrivalStats_ext :: (countable) countable
  by (rule countable_classI [of "\<lambda>x. to_nat (as_n_keys x, as_data_bytes x, as_hist x, ArrivalStats.more x)"]) auto

instance Plan_ext :: (countable) countable
  by (rule countable_classI [of "\<lambda>x. to_nat ((pl_block_size x, pl_inline_threshold x, pl_sketch x, pl_compression x,
      pl_min_compress_len x, pl_dict_checksum x), (pl_n_samples x, pl_dict_len x, pl_dict_fallback x,
      pl_sample_bytes_raw x, pl_sample_bytes_stored x, pl_zstd_version x), Plan.more x)"]) auto

instance PartitionBuildDone_ext :: (countable) countable
  by (rule countable_classI [of "\<lambda>x. to_nat ((pd_n_keys x, pd_data_bytes x, pd_n_blocks x, pd_n_stubs x, pd_blocks_bytes x,
      pd_heap_bytes x), (pd_sketch_bytes x, pd_sketch_checksum x, pd_value_bytes_raw x, pd_value_bytes_stored x,
      pd_n_compressed x, pd_n_raw x), PartitionBuildDone.more x)"]) auto


instance IndexDone_ext :: (countable) countable
  by (rule countable_classI [of "\<lambda>x. to_nat ((id_n_keys x, id_n_blocks x, id_n_stubs x, id_block_size x, id_inline_threshold x,
      id_blocks_bytes x, id_heap_bytes x, id_fences_bytes x), (id_sketch x, id_sketch_bytes x, id_compression x,
      id_min_compress_len x, id_dict_checksum x, id_n_samples x, id_dict_len x, id_dict_fallback x),
      (id_sample_bytes_raw x, id_sample_bytes_stored x, id_value_bytes_raw x, id_value_bytes_stored x, id_n_compressed x,
      id_n_raw x, id_zstd_version x, id_wall_secs x), id_partitions x, IndexDone.more x)"]) auto

instance SketchMeta_ext :: (countable) countable
  by (rule countable_classI [of "\<lambda>x. to_nat (sk_kind x, SketchMeta.more x)"]) auto

instance CompressionMeta_ext :: (countable) countable
  by (rule countable_classI [of "\<lambda>x. to_nat (cm_codec x, cm_dict x, cm_dict_checksum x, cm_min_compress_len x,
      cm_zstd_version x, CompressionMeta.more x)"]) auto

instance PartitionMetaV5_ext :: (countable) countable
  by (rule countable_classI [of "\<lambda>x. to_nat (n_blocks x, sketch_checksum x, PartitionMetaV5.more x)"]) auto

instance Stats_ext :: (countable) countable
  by (rule countable_classI [of "\<lambda>x. to_nat (st_n_keys x, st_created_at x, st_scatter x, st_index x, Stats.more x)"]) auto

instance MetaV5_ext :: (countable) countable
  by (rule countable_classI [of "\<lambda>x. to_nat ((m5_format_version x, m5_hash_algorithm x, m5_verify_seed x, m5_block_size x,
      m5_inline_threshold x), (m5_sketch x, m5_compression x, m5_partitions x, m5_stats x, m5_encoding x), MetaV5.more x)"]) auto

instance PartitionMeta_ext :: (countable) countable
  by (rule countable_classI [of "\<lambda>x. to_nat (index_offset x, index_n_buckets x, PartitionMeta.more x)"]) auto

instance Meta_ext :: (countable) countable
  by (rule countable_classI [of "\<lambda>x. to_nat (format_version x, hash_algorithm x, verify_seed x, partitions x, stats x,
      encoding x, Meta.more x)"]) auto

instance FormatId :: countable by countable_datatype

instance SizeBucket_ext :: (countable) countable
  by (rule countable_classI [of "\<lambda>x. to_nat (sb_le x, sb_count x, SizeBucket.more x)"]) auto

instance ValueSizeHistogram_ext :: (countable) countable
  by (rule countable_classI [of "\<lambda>x. to_nat (vs_count x, vs_sum x, vs_min x, vs_max x, vs_mean x, vs_sample_keys x,
      vs_buckets x, ValueSizeHistogram.more x)"]) auto

instance PartitionDone_ext :: (countable) countable
  by (rule countable_classI [of "\<lambda>x. to_nat (pdn_n_keys x, pdn_value_sizes x, PartitionDone.more x)"]) auto

instance ScatterDone_ext :: (countable) countable
  by (rule countable_classI [of "\<lambda>x. to_nat ((sdn_format x, sdn_n_keys x, sdn_n_partitions x, sdn_data_bytes x),
      sdn_wall_secs x, sdn_bytes_per_sec x, sdn_value_sizes x, sdn_partitions x, ScatterDone.more x)"]) auto

text \<open>A text with as many bytes as the number of the value.\<close>

definition numbered :: "'a :: countable \<Rightarrow> bytes" where
  "numbered x = replicate (to_nat x) 0"

definition unnumbered :: "bytes \<Rightarrow> 'a :: countable" where
  "unnumbered bs = from_nat (length bs)"

lemma unnumbered_numbered [simp]: "unnumbered (numbered x) = x"
  by (simp add: numbered_def unnumbered_def)

definition demo_serde :: serde_lib where
  "demo_serde =
     \<lparr>enc_stats = numbered, dec_stats = Ok \<circ> unnumbered, enc_plan = numbered, dec_plan = Ok \<circ> unnumbered,
      enc_pdone = numbered, dec_pdone = Ok \<circ> unnumbered, enc_idone = numbered, dec_idone = Ok \<circ> unnumbered,
      enc_meta5 = numbered, dec_meta5 = Ok \<circ> unnumbered\<rparr>"

lemma demo_serde_ok: "serde_ok demo_serde"
  by (simp add: serde_ok_def demo_serde_def)

text \<open>The description of a V5 or of a V4 directory.\<close>

definition demo_desc5 :: desc_serde where
  "demo_desc5 =
     \<lparr>dec_version = (\<lambda>bs. Ok (m5_format_version (unnumbered bs :: MetaV5))), dec_desc4 = (\<lambda>bs. Err Json),
      dec_desc5 = Ok \<circ> unnumbered\<rparr>"

lemma demo_desc5_ok: "desc5_ok demo_serde demo_desc5"
  by (simp add: desc5_ok_def demo_serde_def demo_desc5_def)

definition demo_serde4 :: serde4_lib where
  "demo_serde4 =
     \<lparr>enc_idone4 = (\<lambda>_. []), dec_idone4 = (\<lambda>_. Err Json), enc_meta4 = numbered, dec_meta4 = Ok \<circ> unnumbered\<rparr>"

definition demo_desc4 :: desc_serde where
  "demo_desc4 =
     \<lparr>dec_version = (\<lambda>bs. Ok (format_version (unnumbered bs :: Meta))), dec_desc4 = Ok \<circ> unnumbered,
      dec_desc5 = (\<lambda>bs. Err Json)\<rparr>"

lemma demo_desc4_ok: "desc4_ok demo_serde4 demo_desc4"
  by (simp add: desc4_ok_def demo_serde4_def demo_desc4_def)

section \<open>Sorting, filters and compression\<close>

lemma sort_key_ok: "sort_ok (sort_key fr_fp)"
  by (simp add: sort_ok_def)

text \<open>A filter that lets everything pass: one segment, no false negatives.\<close>

definition demo_xorf :: xorf_lib where
  "demo_xorf =
     \<lparr>bf8_try_from = (\<lambda>fps. Ok (replicate 8 0 @ u32_le 1 @ u32_le 0 @ u32_le 0, [0, 0])), bf8_contains = (\<lambda>d f fp. True)\<rparr>"

lemma demo_xorf_ok: "xorf_ok demo_xorf"
proof -
  let ?d = "replicate 8 0 @ u32_le 1 @ u32_le 0 @ u32_le 0 :: bytes"
  have "bslice 8 4 (?d @ [0, 0]) = u32_le 1" "bslice 12 4 (?d @ [0, 0]) = u32_le 0" "bslice 16 4 (?d @ [0, 0]) = u32_le 0"
    by (simp_all add: bslice_def)
  moreover have "length ?d = 20" by simp
  ultimately have "sketch_parse (?d @ [0, 0]) = Ok (?d, [0, 0])"
    by (simp add: sketch_parse_def DESCRIPTOR_LEN_def Let_def demo_pow2)
  then show ?thesis by (simp add: xorf_ok_def demo_xorf_def)
qed

text \<open>Frames that pin their content size in eight bytes and store a run of one byte as that byte.\<close>

definition demo_frame :: "bytes \<Rightarrow> bytes" where
  "demo_frame v =
     [0xE0] @ u64_le (word_of_nat (length v)) @
     (case v of x # xs \<Rightarrow> if xs = replicate (length xs) x then [1, x] else 0 # v | [] \<Rightarrow> [0])"

definition demo_unframe :: "bytes \<Rightarrow> nat \<Rightarrow> bytes" where
  "demo_unframe fr n = (case drop 9 fr of m # rest \<Rightarrow> if m = 1 then replicate n (hd rest) else rest | [] \<Rightarrow> [])"

definition demo_zstd :: zstd_lib where
  "demo_zstd =
     \<lparr>z_dctx = (\<lambda>_. Ok ()), z_decompress = (\<lambda>dict fr n. Ok (demo_unframe fr n)), z_cctx = (\<lambda>_ _. Ok ()),
      z_compress = (\<lambda>level dict v. Ok (demo_frame v)), z_train = (\<lambda>samples n. Ok (take n (concat samples))),
      z_version_number = 10507\<rparr>"

lemma demo_frame_size: "frame_content_size (demo_frame v) = Ok (word_of_nat (length v))"
proof -
  have "bslice 1 8 (0xE0 # u64_le (word_of_nat (length v)) @ rest) = u64_le (word_of_nat (length v))" for rest :: bytes
    by (simp add: bslice_def)
  then show ?thesis
    by (simp add: demo_frame_def frame_content_size_def Let_def)
qed

lemma demo_unframe_frame: "demo_unframe (demo_frame v) (length v) = v"
proof (cases v)
  case (Cons x xs)
  have r: "xs = replicate (length xs) x \<Longrightarrow> replicate (Suc (length xs)) x = x # xs" by simp
  show ?thesis
    using Cons r by (auto simp: demo_frame_def demo_unframe_def)
qed (simp add: demo_frame_def demo_unframe_def)

lemma demo_zstd_ok: "zstd_ok demo_zstd"
  by (simp add: zstd_ok_def demo_zstd_def demo_frame_size demo_unframe_frame)

section \<open>Loader\<close>

definition demo_hdr :: "u64 list hdr_lib" where
  "demo_hdr =
     \<lparr>hdr_new = [], hdr_record = (#), hdr_add = (@), hdr_recorded = (\<lambda>h. map (\<lambda>v. (v, 1)) (sort h)),
      hdr_len = (\<lambda>h. word_of_nat (length h)), hdr_min = hd \<circ> sort, hdr_max = last \<circ> sort, hdr_mean = (\<lambda>_. ''0'')\<rparr>"

definition demo_lserde :: loader_serde where
  "demo_lserde = \<lparr>enc_sdone = (\<lambda>_. []), dec_sdone = (\<lambda>_. Err Json), parse_json = (\<lambda>_. None)\<rparr>"

definition demo_lserde2 :: loader_serde where
  "demo_lserde2 = \<lparr>enc_sdone = numbered, dec_sdone = Ok \<circ> unnumbered, parse_json = (\<lambda>_. None)\<rparr>"

lemma demo_lserde2_ok: "\<forall>d. dec_sdone demo_lserde2 (enc_sdone demo_lserde2 d) = Ok d"
  by (simp add: demo_lserde2_def)

definition demo_v5_config :: LoaderConfig where
  "demo_v5_config = LoaderConfig_default\<lparr>lc_format := V5, lc_n_partitions := 1,
     lc_v5 := V5Options_default\<lparr>vo_compression := ZstdDict_Mode\<rparr>\<rparr>"

definition demo_v4_config :: LoaderConfig where
  "demo_v4_config = LoaderConfig_default\<lparr>lc_n_partitions := 1\<rparr>"

end
