(* ===== verification/Loader_Channels.thy ===== *)
theory Loader_Channels
  imports Loader_Scatter
begin

text \<open>
  The scatter with its bounded channels and its writer threads (\<open>channel_step\<close> of \<open>Loader\<close>): it refines
  the scatter without them, its channels stay within their capacity, every run ends, and it ends with
  everything delivered when every writer has a thread.  A writer without a thread blocks the sources
  for good once its channel is full.
\<close>

section \<open>Refinement\<close>

lemma channel_step_refines:
  assumes "channel_step xxh64 cap threads c c'"
  shows "scatter_step xxh64 (ch_scatter c) (ch_scatter c') \<or> ch_scatter c' = ch_scatter c"
  using assms
proof cases
  case (fetched s i batch rest f sends)
  then show ?thesis using scatter_step.fetch [of i s batch rest xxh64 f sends] by simp
next
  case (queued s i p b sends)
  then show ?thesis using scatter_step.send [of i s p b sends xxh64] by simp
qed simp

lemma channel_run_refines:
  assumes "(channel_step xxh64 cap threads)\<^sup>*\<^sup>* c c'"
  shows "(scatter_step xxh64)\<^sup>*\<^sup>* (ch_scatter c) (ch_scatter c')"
  using assms
proof (induction rule: rtranclp_induct)
  case (step c1 c2)
  then show ?case using channel_step_refines [OF step(2)] by (auto intro: rtranclp.rtrancl_into_rtrancl)
qed simp

section \<open>Capacity\<close>

text \<open>What the writers took was sent, the channels are within bounds, and only writers with a thread take.\<close>

definition channel_inv :: "nat \<Rightarrow> nat \<Rightarrow> Layout \<Rightarrow> ChannelState \<Rightarrow> bool" where
  "channel_inv cap threads l c \<longleftrightarrow>
     length (ch_taken c) = unat (n_partitions l) \<and> length (ss_queues (ch_scatter c)) = unat (n_partitions l) \<and>
     (\<forall>p < unat (n_partitions l). ch_taken c ! p \<le> length (ss_queues (ch_scatter c) ! p) \<and>
        in_channel c p \<le> max cap 1 \<and> (threads \<le> p \<longrightarrow> ch_taken c ! p = 0))"

lemma channel_inv_start: "channel_inv cap threads l (channel_start l m srcs)"
  by (simp add: channel_inv_def channel_start_def scatter_start_def in_channel_def)

lemma in_channel_queued:
  assumes "p < length (ss_queues (ch_scatter c))" and "ch_taken c ! p \<le> length (ss_queues (ch_scatter c) ! p)"
    and "c' = c\<lparr>ch_scatter := (ch_scatter c)\<lparr>ss_tasks := ts, ss_queues := (ss_queues (ch_scatter c))[p := ss_queues (ch_scatter c) ! p @ [b]]\<rparr>\<rparr>"
  shows "in_channel c' q = in_channel c q + (if q = p then 1 else 0)"
  using assms by (auto simp: in_channel_def nth_list_update)

lemma in_channel_taken:
  assumes "p < length (ch_taken c)" and "0 < in_channel c p" and "c' = c\<lparr>ch_taken := (ch_taken c)[p := Suc (ch_taken c ! p)]\<rparr>"
  shows "in_channel c' q = in_channel c q - (if q = p then 1 else 0)"
  using assms by (auto simp: in_channel_def nth_list_update)

lemma channel_inv_step:
  assumes "channel_step xxh64 cap threads c c'" and "channel_inv cap threads l c"
  shows "channel_inv cap threads l c'"
  using assms(1)
proof cases
  case (fetched s i batch rest f sends)
  then show ?thesis using assms(2) by (auto simp: channel_inv_def in_channel_def)
next
  case (queued s i p b sends)
  then have "p < unat (n_partitions l)" using assms(2) by (simp add: channel_inv_def)
  with queued assms(2) show ?thesis
    by (auto simp: channel_inv_def in_channel_def nth_list_update)
next
  case (taken p)
  then show ?thesis using assms(2) by (auto simp: channel_inv_def in_channel_def nth_list_update)
qed

section \<open>Every run ends\<close>

definition channel_work :: "Layout \<Rightarrow> ChannelState \<Rightarrow> nat" where
  "channel_work l c = 2 * scatter_work l (ch_scatter c) + sum (in_channel c) {..<unat (n_partitions l)}"

lemma channel_work_decreases:
  assumes "channel_step xxh64 cap threads c c'" and inv: "channel_inv cap threads l c"
    and "scatter_inv xxh64 l m srcs (ch_scatter c)" and l: "Layout_new (n_partitions l) = Ok l"
  shows "channel_work l c' < channel_work l c"
  using assms(1)
proof cases
  case (fetched s i batch rest f sends)
  then have "scatter_work l (ch_scatter c') < scatter_work l (ch_scatter c)"
    using scatter_work_decreases [OF scatter_step.fetch assms(3) l, of i batch rest f sends] by simp
  moreover have "in_channel c' = in_channel c" using fetched by (simp add: in_channel_def fun_eq_iff)
  ultimately show ?thesis by (simp add: channel_work_def)
next
  case (queued s i p b sends)
  then have w: "scatter_work l (ch_scatter c') < scatter_work l (ch_scatter c)"
    using scatter_work_decreases [OF scatter_step.send assms(3) l, of i p b sends] by simp
  have p: "p < unat (n_partitions l)" "ch_taken c ! p \<le> length (ss_queues (ch_scatter c) ! p)"
    using queued inv by (auto simp: channel_inv_def)
  have "in_channel c' q = in_channel c q + (if q = p then 1 else 0)" for q
    using in_channel_queued [of p c c' b "(ss_tasks s)[i := (ss_tasks s ! i)\<lparr>tk_sending := sends\<rparr>]" q] queued p by simp
  then have "sum (in_channel c') {..<unat (n_partitions l)} = sum (in_channel c) {..<unat (n_partitions l)} + 1"
    using p(1) by (simp add: sum.distrib)
  with w show ?thesis by (simp add: channel_work_def)
next
  case (taken p)
  then have p: "p < unat (n_partitions l)" using inv by (simp add: channel_inv_def)
  have "in_channel c q = in_channel c' q + (if q = p then 1 else 0)" for q
    using in_channel_taken [OF taken(3,4) taken(1), of q] taken(4) by auto
  then have "sum (in_channel c) {..<unat (n_partitions l)} = sum (in_channel c') {..<unat (n_partitions l)} + 1"
    using p by (simp add: sum.distrib)
  with taken show ?thesis by (simp add: channel_work_def)
qed

section \<open>Progress\<close>

text \<open>When every writer has a thread, a full channel is drained, so nobody waits for ever.\<close>

lemma channel_progress:
  assumes inv: "channel_inv cap threads l c" and si: "scatter_inv xxh64 l m srcs (ch_scatter c)"
    and l: "Layout_new (n_partitions l) = Ok l" and left: "sources_left_ok m (ch_scatter c)"
    and threads: "unat (n_partitions l) \<le> threads" and "\<not> channel_finished c"
  shows "\<exists>c'. channel_step xxh64 cap threads c c'"
proof (cases "\<exists>p < unat (n_partitions l). 0 < in_channel c p")
  case True
  then obtain p where "p < unat (n_partitions l)" "0 < in_channel c p" by blast
  with inv threads have "channel_step xxh64 cap threads c (c\<lparr>ch_taken := (ch_taken c)[p := Suc (ch_taken c ! p)]\<rparr>)"
    by (intro channel_step.taken) (simp_all add: channel_inv_def)
  then show ?thesis by blast
next
  case False
  then have empty: "in_channel c p = 0" if "p < unat (n_partitions l)" for p using that by auto
  with assms(6) inv have "\<not> scatter_finished (ch_scatter c)" by (auto simp: channel_finished_def channel_inv_def)
  from scatter_progress [OF si l this left] obtain s' where "scatter_step xxh64 (ch_scatter c) s'" by blast
  then show ?thesis
  proof cases
    case (fetch i batch rest f sends)
    from channel_step.fetched [OF refl this(2-5)] show ?thesis by blast
  next
    case (send i p b sends)
    then have "in_channel c p < max cap 1" using empty [of p] inv by (simp add: channel_inv_def)
    from channel_step.queued [OF refl send(2-4) this] show ?thesis by blast
  qed
qed

section \<open>A writer without a thread\<close>

text \<open>How many batches of the sources have a record for a partition, and how many of them a task still owes.\<close>

definition batches_for :: "hash \<Rightarrow> Layout \<Rightarrow> nat \<Rightarrow> source \<Rightarrow> nat" where
  "batches_for xxh64 l p src = length (filter (\<lambda>r. case r of Ok b \<Rightarrow> routed xxh64 l b p \<noteq> [] | _ \<Rightarrow> False) src)"

definition batches_owed :: "hash \<Rightarrow> Layout \<Rightarrow> nat \<Rightarrow> Task \<Rightarrow> nat" where
  "batches_owed xxh64 l p t = length (filter (\<lambda>(i, b). i = p) (tk_sending t)) + batches_for xxh64 l p (tk_source t)"

definition batches_inv :: "hash \<Rightarrow> Layout \<Rightarrow> source list \<Rightarrow> ScatterState \<Rightarrow> bool" where
  "batches_inv xxh64 l srcs s \<longleftrightarrow>
     (\<forall>p < unat (n_partitions l). length (ss_queues s ! p) + sum_list (map (batches_owed xxh64 l p) (ss_tasks s)) =
        sum_list (map (batches_for xxh64 l p) srcs))"

lemma batches_inv_start: "batches_inv xxh64 l srcs (scatter_start l m srcs)"
  by (simp add: batches_inv_def scatter_start_def batches_owed_def comp_def)

lemma sum_list_update_add:
  fixes f :: "'a \<Rightarrow> nat"
  shows "i < length xs \<Longrightarrow> sum_list (map f (xs[i := y])) + f (xs ! i) = sum_list (map f xs) + f y"
proof (induction xs arbitrary: i)
  case (Cons x xs)
  then show ?case by (cases i) auto
qed simp

lemma batches_inv_step:
  assumes "scatter_step xxh64 s s'" and l: "Layout_new (n_partitions l) = Ok l" and "scatter_inv xxh64 l m srcs s"
    and "batches_inv xxh64 l srcs s"
  shows "batches_inv xxh64 l srcs s'"
  using assms(1)
proof cases
  case (fetch i batch rest f sends)
  let ?t = "ss_tasks s ! i" and ?t' = "\<lparr>tk_fanout = f, tk_source = rest, tk_sending = sends\<rparr>"
  have t: "fanout_ok l m (tk_fanout ?t)" using assms(3) fetch(2) by (auto simp: scatter_inv_def task_ok_def)
  have "\<forall>p < unat (n_partitions l). length (filter (\<lambda>(i, b). i = p) sends) = (if routed xxh64 l batch p = [] then 0 else 1)"
    using scatter_batch_ok [OF l t scatter_batch_good [OF fetch(5) t], of xxh64] fetch(5) by auto
  then have "batches_owed xxh64 l p ?t' = batches_owed xxh64 l p ?t" if "p < unat (n_partitions l)" for p
    using that fetch(3,4) by (simp add: batches_owed_def batches_for_def)
  then have "sum_list (map (batches_owed xxh64 l p) ((ss_tasks s)[i := ?t'])) = sum_list (map (batches_owed xxh64 l p) (ss_tasks s))"
    if "p < unat (n_partitions l)" for p
    using that sum_list_update_add [OF fetch(2), of "batches_owed xxh64 l p" ?t'] by simp
  then show ?thesis using assms(4) fetch(1) by (simp add: batches_inv_def)
next
  case (send i q b sends)
  let ?t = "ss_tasks s ! i" and ?t' = "(ss_tasks s ! i)\<lparr>tk_sending := sends\<rparr>"
  have o: "batches_owed xxh64 l p ?t = batches_owed xxh64 l p ?t' + (if q = p then 1 else 0)" for p
    using send(3) by (simp add: batches_owed_def)
  have a: "sum_list (map (batches_owed xxh64 l p) ((ss_tasks s)[i := ?t'])) + (if q = p then 1 else 0) =
      sum_list (map (batches_owed xxh64 l p) (ss_tasks s))" for p
    using sum_list_update_add [OF send(2), of "batches_owed xxh64 l p" ?t'] o [of p] by linarith
  have d: "length ((ss_queues s)[q := ss_queues s ! q @ [b]] ! p) = length (ss_queues s ! p) + (if q = p then 1 else 0)" for p
    using send(4) by (simp add: nth_list_update)
  have "length ((ss_queues s)[q := ss_queues s ! q @ [b]] ! p) + sum_list (map (batches_owed xxh64 l p) ((ss_tasks s)[i := ?t'])) =
      length (ss_queues s ! p) + sum_list (map (batches_owed xxh64 l p) (ss_tasks s))" for p
    using a [of p] d [of p] by linarith
  then show ?thesis using assms(4) send(1) by (simp add: batches_inv_def)
qed

lemma blocked_partition:
  assumes inv: "channel_inv cap threads l c" and b: "batches_inv xxh64 l srcs (ch_scatter c)"
    and p: "threads \<le> p" "p < unat (n_partitions l)" and many: "max cap 1 < sum_list (map (batches_for xxh64 l p) srcs)"
  shows "\<not> scatter_finished (ch_scatter c)"
proof
  assume "scatter_finished (ch_scatter c)"
  then have "batches_owed xxh64 l p t = 0" if "t \<in> set (ss_tasks (ch_scatter c))" for t
    using that by (simp add: scatter_finished_def batches_owed_def batches_for_def)
  then have "sum_list (map (batches_owed xxh64 l p) (ss_tasks (ch_scatter c))) = 0" by simp
  moreover have "length (ss_queues (ch_scatter c) ! p) + sum_list (map (batches_owed xxh64 l p) (ss_tasks (ch_scatter c))) =
      sum_list (map (batches_for xxh64 l p) srcs)"
    using b p(2) unfolding batches_inv_def by blast
  ultimately have "max cap 1 < length (ss_queues (ch_scatter c) ! p)" using many by linarith
  moreover have "length (ss_queues (ch_scatter c) ! p) \<le> max cap 1"
    using inv p unfolding channel_inv_def in_channel_def by (metis diff_zero)
  ultimately show False by linarith
qed

section \<open>All of it, along a run\<close>

lemma channel_run:
  assumes "(channel_step xxh64 cap threads ^^ k) (channel_start l m srcs) c" and l: "Layout_new (n_partitions l) = Ok l"
    and src: "\<forall>src \<in> set srcs. \<forall>r \<in> set src. good_batch m r"
  shows "channel_inv cap threads l c \<and> scatter_inv xxh64 l m srcs (ch_scatter c) \<and> sources_left_ok m (ch_scatter c) \<and>
    batches_inv xxh64 l srcs (ch_scatter c) \<and> k + channel_work l c \<le> 2 * (sum_list (map length srcs) * Suc (unat (n_partitions l)))"
  using assms(1)
proof (induction k arbitrary: c)
  case 0
  have "channel_work l (channel_start l m srcs) = 2 * (sum_list (map length srcs) * Suc (unat (n_partitions l)))"
    by (simp add: channel_work_def channel_start_def scatter_start_def in_channel_def scatter_work_def task_work_def comp_def
        sum_list_mult_const del: mult_Suc_right)
  moreover have "ch_scatter (channel_start l m srcs) = scatter_start l m srcs" by (simp add: channel_start_def)
  ultimately show ?case
    using 0 channel_inv_start scatter_inv_start [of xxh64 l m srcs] batches_inv_start sources_left_ok_start [OF src] by auto
next
  case (Suc k)
  then obtain c1 where c1: "(channel_step xxh64 cap threads ^^ k) (channel_start l m srcs) c1" "channel_step xxh64 cap threads c1 c" by auto
  note i = Suc.IH [OF c1(1)]
  have "scatter_inv xxh64 l m srcs (ch_scatter c) \<and> sources_left_ok m (ch_scatter c) \<and> batches_inv xxh64 l srcs (ch_scatter c)"
    using channel_step_refines [OF c1(2)] scatter_inv_step [OF _ l] sources_left_ok_step batches_inv_step [OF _ l] i by metis
  moreover have "channel_work l c < channel_work l c1" using channel_work_decreases [OF c1(2) _ _ l] i by blast
  ultimately show ?case using channel_inv_step [OF c1(2)] i by auto
qed

end
