(* ===== verification/Loader_Properties.thy ===== *)
theory Loader_Properties
  imports Library_Instances Loader_Channels
begin

text \<open>
  The properties of the loader: whole loads in both formats, the concurrent scatter, the
  directories a resumed load misreads.
\<close>


section \<open>Demonstration runs\<close>

abbreviation demo_sources :: "source list" where
  "demo_sources \<equiv> [[Ok demo_kvs], []]"

lemma demo_sources_ok: "sources_ok DEFAULT_MAX_VALUE_BYTES demo_sources"
  by (auto simp: sources_ok_def demo_kvs_def DEFAULT_MAX_VALUE_BYTES_def)

lemma demo_pairs: "all_pairs demo_sources = demo_kvs"
  by simp

lemma empty_is_fresh: "fresh_root root Map.empty"
  by (simp add: fresh_root_def)

lemma scatter_run_exists:
  assumes "Layout_new (n_partitions l) = Ok l" and "sources_ok m srcs"
  shows "\<exists>ss. (scatter_step xxh64)\<^sup>*\<^sup>* (scatter_start l m srcs) ss \<and> scatter_finished ss"
  using scatter_completes [OF scatter_inv_start assms(1) sources_left_ok_start, of srcs m xxh64] assms(2) by (simp add: sources_ok_def)

abbreviation layout1 :: Layout where
  "layout1 \<equiv> \<lparr>n_partitions = 1, partition_mask = 0\<rparr>"

definition demo_v5_builder :: V5Builder where
  "demo_v5_builder =
     \<lparr>vb_root = [''snap''], vb_layout = layout1, vb_verify_seed = DEFAULT_VERIFY_SEED,
      vb_data_buf_bytes = 8 * 1024 * 1024, vb_block_size_override = None, vb_bucket_bytes = DEFAULT_BUCKET_BYTES,
      vb_sketch = True, vb_compression = ZstdDict_Mode,
      vb_min_compress_len = word_of_nat DEFAULT_MIN_COMPRESS_LEN, vb_marker_mode = Rename\<rparr>"

definition demo_v4_builder :: V4Builder where
  "demo_v4_builder =
     \<lparr>v4_finalizer = \<lparr>sf_root = [''snap''], sf_layout = layout1, sf_verify_seed = DEFAULT_VERIFY_SEED\<rparr>,
      v4_layout = layout1, v4_verify_seed = DEFAULT_VERIFY_SEED, v4_data_buf_bytes = 8 * 1024 * 1024,
      v4_spill_buf_bytes = 256 * 1024\<rparr>"

lemma demo_v5_new:
  "V5Builder_new (loader_builder_config [''snap''] demo_v5_config) = Ok (demo_v5_builder, \<lparr>c_plan = None, c_done = None\<rparr>)"
  by (simp add: V5Builder_new_def loader_builder_config_def demo_v5_config_def LoaderConfig_default_def V5Options_default_def
      demo_layout demo_v5_builder_def)

lemma demo_v4_new:
  "V4Builder_new (loader_builder_config [''snap''] demo_v4_config) =
     Ok (demo_v4_builder, \<lparr>v4_ready = [None], v4_index_info = None\<rparr>)"
  by (simp add: V4Builder_new_def loader_builder_config_def demo_v4_config_def LoaderConfig_default_def
      demo_layout demo_v4_builder_def)

lemma demo_config:
  "lc_max_value_bytes demo_v5_config = DEFAULT_MAX_VALUE_BYTES" "lc_max_value_bytes demo_v4_config = DEFAULT_MAX_VALUE_BYTES"
  "lc_n_partitions demo_v5_config = 1" "lc_n_partitions demo_v4_config = 1" "vo_marker_mode (lc_v5 demo_v5_config) = Rename"
  "vo_marker_mode (lc_v5 demo_v4_config) = Rename"
  by (simp_all add: demo_v5_config_def demo_v4_config_def LoaderConfig_default_def V5Options_default_def)

lemma load_answers_map_of:
  assumes "load_answers xxh64 l kvs key res" and "distinct (map fst kvs)"
    and "\<forall>k \<in> fst ` set kvs. v5_verify_fingerprint xxh64 k DEFAULT_VERIFY_SEED =
        v5_verify_fingerprint xxh64 key DEFAULT_VERIFY_SEED \<longrightarrow> k = key"
  shows "case map_of kvs key of Some v \<Rightarrow> res = Hit v | None \<Rightarrow> \<exists>io. res = Miss io"
proof (cases res)
  case (Hit v)
  with assms(1) obtain k where k: "(k, v) \<in> set kvs" "v5_verify_fingerprint xxh64 k DEFAULT_VERIFY_SEED =
        v5_verify_fingerprint xxh64 key DEFAULT_VERIFY_SEED"
    by (auto simp: load_answers_def)
  with assms(3) have "k = key" by force
  with k(1) assms(2) Hit show ?thesis by (simp add: map_of_is_SomeI)
next
  case (Miss io)
  with assms(1) have "(key, v) \<notin> set kvs" for v by (auto simp: load_answers_def)
  then have "map_of kvs key = None" by (meson map_of_SomeD not_None_eq)
  with Miss show ?thesis by simp
qed

section \<open>Loads\<close>

text \<open>
  C2. A V5 load into a fresh directory: whatever the interleaving of the concurrent sources, once
  the scatter has finished, planning (with dictionary training), building and publishing succeed,
  the load reports the number of pairs, the published snapshot opens through its own metadata, and
  every lookup returns an answer that comes from the pairs: a hit is the value of a pair with the
  key's partition and verify fingerprint, a miss means no pair has the key's fingerprints.
\<close>

theorem v5_load_roundtrip:
  fixes hl :: "'h hdr_lib"
  assumes "V5Builder_new (loader_builder_config root cfg) = Ok (b, c)" and "fresh_root root fs"
    and "sources_ok (lc_max_value_bytes cfg) srcs" and "lc_max_value_bytes cfg < 2 ^ 30"
    and "length (all_pairs srcs) < 2 ^ 32"
    and "(scatter_step xxh64)\<^sup>*\<^sup>* (scatter_start (vb_layout b) (lc_max_value_bytes cfg) srcs) ss"
    and "scatter_finished ss"
    and "serde_ok sj" and "desc5_ok sj dj" and "sort_ok sort_u" 
    and "vo_compression (lc_v5 cfg) = NoCompression \<or> zstd_ok z" and "vo_sketch (lc_v5 cfg) \<longrightarrow> xorf_ok xorf"
  shows "\<exists>n c' fs' r. load_parallel xxh64 (v5_format_builder z xorf xxh64 sort_u sj secs b) hl lj root
      (lc_n_partitions cfg) (vo_marker_mode (lc_v5 cfg)) secs' rate drains ss now (c, fs) =
      Some (Ok (word_of_nat (length (all_pairs srcs)), n), (c', fs')) \<and>
    Snapshot_open_path populate dj z xxh64 fs' root = Ok r \<and>
    (\<forall>key. \<exists>res. Snapshot_get arch z xorf xxh64 r key = Ok res \<and>
      load_answers xxh64 (vb_layout b) (all_pairs srcs) key res)"
  using v5_load_ok [OF assms] .

theorem v5_load_roundtrip_witness:
  "\<exists>ss. (scatter_step demo_hash)\<^sup>*\<^sup>* (scatter_start layout1 DEFAULT_MAX_VALUE_BYTES demo_sources) ss \<and> scatter_finished ss \<and>
     (\<exists>n c' fs' r. load_parallel demo_hash
        (v5_format_builder demo_zstd demo_xorf demo_hash (sort_key fr_fp) demo_serde [] demo_v5_builder)
        demo_hdr demo_lserde [''snap''] 1 Rename [] 0 (\<lambda>_. True) ss [] (\<lparr>c_plan = None, c_done = None\<rparr>, Map.empty) =
        Some (Ok (word_of_nat (length demo_kvs), n), (c', fs')) \<and>
      Snapshot_open_path None demo_desc5 demo_zstd demo_hash fs' [''snap''] = Ok r \<and>
      (\<forall>key. \<exists>res. Snapshot_get OtherArch demo_zstd demo_xorf demo_hash r key = Ok res \<and>
        load_answers demo_hash layout1 demo_kvs key res))"
proof -
  have lay: "vb_layout demo_v5_builder = layout1" by (simp add: demo_v5_builder_def)
  obtain ss where ss: "(scatter_step demo_hash)\<^sup>*\<^sup>* (scatter_start layout1 DEFAULT_MAX_VALUE_BYTES demo_sources) ss" "scatter_finished ss"
    using scatter_run_exists [OF _ demo_sources_ok, of layout1] demo_layout by auto
  have len: "length (all_pairs demo_sources) < 2 ^ 32" by (simp add: demo_kvs_def)
  have m: "lc_max_value_bytes demo_v5_config < 2 ^ 30" by (simp add: demo_config DEFAULT_MAX_VALUE_BYTES_def)
  note w = v5_load_roundtrip [OF demo_v5_new empty_is_fresh, unfolded demo_config lay, OF demo_sources_ok
      m [unfolded demo_config] len ss demo_serde_ok demo_desc5_ok sort_key_ok
      disjI2 [OF demo_zstd_ok] impI [OF demo_xorf_ok],
      of "[]" demo_hdr demo_lserde "[]" 0 "\<lambda>_. True" "[]" None OtherArch, unfolded demo_pairs]
  from ss w show ?thesis by blast
qed


text \<open>
  C4. When the loaded keys are distinct and no loaded key shares the looked-up key's 64-bit verify
  fingerprint, a V5 snapshot refines the map of its pairs: the lookup hits with the value of the key
  exactly when the key was loaded.
\<close>

theorem v5_load_exact:
  fixes hl :: "'h hdr_lib"
  assumes "V5Builder_new (loader_builder_config root cfg) = Ok (b, c)" and "fresh_root root fs"
    and "sources_ok (lc_max_value_bytes cfg) srcs" and "lc_max_value_bytes cfg < 2 ^ 30"
    and "length (all_pairs srcs) < 2 ^ 32"
    and "(scatter_step xxh64)\<^sup>*\<^sup>* (scatter_start (vb_layout b) (lc_max_value_bytes cfg) srcs) ss"
    and "scatter_finished ss"
    and "serde_ok sj" and "desc5_ok sj dj" and "sort_ok sort_u"
    and "vo_compression (lc_v5 cfg) = NoCompression \<or> zstd_ok z" and "vo_sketch (lc_v5 cfg) \<longrightarrow> xorf_ok xorf"
    and dist: "distinct (map fst (all_pairs srcs))"
    and inj: "\<forall>k \<in> fst ` set (all_pairs srcs). v5_verify_fingerprint xxh64 k DEFAULT_VERIFY_SEED =
        v5_verify_fingerprint xxh64 key DEFAULT_VERIFY_SEED \<longrightarrow> k = key"
  shows "\<exists>k n c' fs' r res. load_parallel xxh64 (v5_format_builder z xorf xxh64 sort_u sj secs b) hl lj root
      (lc_n_partitions cfg) (vo_marker_mode (lc_v5 cfg)) secs' rate drains ss now (c, fs) = Some (Ok (k, n), (c', fs')) \<and>
    Snapshot_open_path populate dj z xxh64 fs' root = Ok r \<and> Snapshot_get arch z xorf xxh64 r key = Ok res \<and>
    (case map_of (all_pairs srcs) key of Some v \<Rightarrow> res = Hit v | None \<Rightarrow> \<exists>io. res = Miss io)"
proof -
  obtain k n c' fs' r res where "load_parallel xxh64 (v5_format_builder z xorf xxh64 sort_u sj secs b) hl lj root
      (lc_n_partitions cfg) (vo_marker_mode (lc_v5 cfg)) secs' rate drains ss now (c, fs) = Some (Ok (k, n), (c', fs'))"
    "Snapshot_open_path populate dj z xxh64 fs' root = Ok r" "Snapshot_get arch z xorf xxh64 r key = Ok res"
    "load_answers xxh64 (vb_layout b) (all_pairs srcs) key res"
    using v5_load_ok [OF assms(1-12), where hl = hl and secs = secs and lj = lj and secs' = secs' and rate = rate and
        drains = drains and now = now and populate = populate and arch = arch] by blast
  with load_answers_map_of [OF _ dist inj] show ?thesis by blast
qed

theorem v5_load_exact_witness:
  "\<exists>ss k n c' fs' r res. load_parallel demo_hash
        (v5_format_builder demo_zstd demo_xorf demo_hash (sort_key fr_fp) demo_serde [] demo_v5_builder)
        demo_hdr demo_lserde [''snap''] 1 Rename [] 0 (\<lambda>_. True) ss [] (\<lparr>c_plan = None, c_done = None\<rparr>, Map.empty) =
        Some (Ok (k, n), (c', fs')) \<and>
      Snapshot_open_path None demo_desc5 demo_zstd demo_hash fs' [''snap''] = Ok r \<and>
      Snapshot_get OtherArch demo_zstd demo_xorf demo_hash r [7] = Ok res \<and> res = Hit [1, 2, 3]"
proof -
  have lay: "vb_layout demo_v5_builder = layout1" by (simp add: demo_v5_builder_def)
  obtain ss where ss: "(scatter_step demo_hash)\<^sup>*\<^sup>* (scatter_start layout1 DEFAULT_MAX_VALUE_BYTES demo_sources) ss" "scatter_finished ss"
    using scatter_run_exists [OF _ demo_sources_ok, of layout1] demo_layout by auto
  have len: "length (all_pairs demo_sources) < 2 ^ 32" by (simp add: demo_kvs_def)
  have m: "lc_max_value_bytes demo_v5_config < 2 ^ 30" by (simp add: demo_config DEFAULT_MAX_VALUE_BYTES_def)
  have d: "distinct (map fst (all_pairs demo_sources))" by (simp add: demo_kvs_def)
  have i: "\<forall>k \<in> fst ` set (all_pairs demo_sources). v5_verify_fingerprint demo_hash k DEFAULT_VERIFY_SEED =
        v5_verify_fingerprint demo_hash [7] DEFAULT_VERIFY_SEED \<longrightarrow> k = [7]"
    by (simp add: demo_kvs_def v5_verify_fingerprint_def demo_hash_def DEFAULT_VERIFY_SEED_def Let_def)
  note w = v5_load_exact [OF demo_v5_new empty_is_fresh, unfolded demo_config lay, OF demo_sources_ok
      m [unfolded demo_config] len ss demo_serde_ok demo_desc5_ok sort_key_ok
      disjI2 [OF demo_zstd_ok] impI [OF demo_xorf_ok] d i,
      of "[]" demo_hdr demo_lserde "[]" 0 "\<lambda>_. True" "[]" None OtherArch, unfolded demo_pairs]
  moreover have "map_of demo_kvs [7] = Some [1, 2, 3]" by (simp add: demo_kvs_def)
  ultimately show ?thesis by simp blast
qed


text \<open>
  C8. A V4 load into a fresh directory, with at most 255 pairs in a partition and 128 GiB of padded
  values: whatever the interleaving of the sources, the load succeeds, reports the number of pairs,
  the snapshot opens through its metadata and every lookup answers from the pairs (a hit is the
  value of a pair with the key's prints, a miss means there is none).
\<close>

theorem v4_load_roundtrip:
  fixes hl :: "'h hdr_lib"
  assumes "V4Builder_new (loader_builder_config root cfg) = Ok (b, c)" and "fresh_root root fs"
    and "sources_ok (lc_max_value_bytes cfg) srcs" and "\<forall>(k, v) \<in> set (all_pairs srcs). fits v"
    and "padded_total (all_pairs srcs) \<le> 2 ^ 37"
    and "\<forall>p < unat (lc_n_partitions cfg). length (routed xxh64 (v4_layout b) (all_pairs srcs) p) \<le> 255"
    and "(scatter_step xxh64)\<^sup>*\<^sup>* (scatter_start (v4_layout b) (lc_max_value_bytes cfg) srcs) ss"
    and "scatter_finished ss" and "desc4_ok sj dj" and "populate_result populate = Ok ()"
  shows "\<exists>n c' fs' r. load_parallel xxh64 (v4_format_builder xxh64 sj secs b) hl lj root
      (lc_n_partitions cfg) (vo_marker_mode (lc_v5 cfg)) secs' rate drains ss now (c, fs) =
      Some (Ok (word_of_nat (length (all_pairs srcs)), n), (c', fs')) \<and>
    Snapshot_open_path populate dj z xxh64 fs' root = Ok r \<and>
    (\<forall>key. \<exists>res. Snapshot_get arch z xorf xxh64 r key = Ok res \<and>
      answers xxh64 (v4_layout b) DEFAULT_VERIFY_SEED (all_pairs srcs) key res)"
  using v4_load_ok [OF assms, where hl = hl and secs = secs and lj = lj and secs' = secs' and rate = rate and
        drains = drains and now = now and z = z and xorf = xorf and arch = arch] by blast

lemma demo_v4_run:
  "\<exists>ss. (scatter_step demo_hash)\<^sup>*\<^sup>* (scatter_start (v4_layout demo_v4_builder) (lc_max_value_bytes demo_v4_config) demo_sources) ss \<and>
     scatter_finished ss"
proof -
  have "v4_layout demo_v4_builder = layout1" by (simp add: demo_v4_builder_def)
  then show ?thesis
    using scatter_run_exists [OF _ demo_sources_ok, of layout1] demo_layout by (simp add: demo_config)
qed

lemma demo_v4_small:
  "sources_ok (lc_max_value_bytes demo_v4_config) demo_sources" "\<forall>(k, v) \<in> set (all_pairs demo_sources). fits v"
  "padded_total (all_pairs demo_sources) \<le> 2 ^ 37"
  "\<forall>p < unat (lc_n_partitions demo_v4_config). length (routed demo_hash (v4_layout demo_v4_builder) (all_pairs demo_sources) p) \<le> 255"
  "populate_result None = Ok ()"
proof -
  show "\<forall>p < unat (lc_n_partitions demo_v4_config). length (routed demo_hash (v4_layout demo_v4_builder) (all_pairs demo_sources) p) \<le> 255"
    unfolding demo_pairs
  proof (intro allI impI)
    fix p
    have "length (routed demo_hash (v4_layout demo_v4_builder) demo_kvs p) \<le> length demo_kvs" by (rule length_routed_le)
    also have "\<dots> \<le> 255" by (simp add: demo_kvs_def)
    finally show "length (routed demo_hash (v4_layout demo_v4_builder) demo_kvs p) \<le> 255" .
  qed
qed (use demo_sources_ok demo_fits in \<open>simp_all add: demo_config padded_total_def demo_kvs_def ceil64_def populate_result_def\<close>)

theorem v4_load_roundtrip_witness:
  "\<exists>ss n c' fs' r. load_parallel demo_hash (v4_format_builder demo_hash demo_serde4 [] demo_v4_builder) demo_hdr demo_lserde
      [''snap''] (lc_n_partitions demo_v4_config) (vo_marker_mode (lc_v5 demo_v4_config)) [] 0 (\<lambda>_. True) ss []
      (\<lparr>v4_ready = [None], v4_index_info = None\<rparr>, Map.empty) =
      Some (Ok (word_of_nat (length (all_pairs demo_sources)), n), (c', fs')) \<and>
    Snapshot_open_path None demo_desc4 demo_zstd demo_hash fs' [''snap''] = Ok r \<and>
    (\<forall>key. \<exists>res. Snapshot_get OtherArch demo_zstd demo_xorf demo_hash r key = Ok res \<and>
      answers demo_hash (v4_layout demo_v4_builder) DEFAULT_VERIFY_SEED (all_pairs demo_sources) key res)"
proof -
  obtain ss where ss: "(scatter_step demo_hash)\<^sup>*\<^sup>* (scatter_start (v4_layout demo_v4_builder) (lc_max_value_bytes demo_v4_config) demo_sources) ss"
    "scatter_finished ss" using demo_v4_run by blast
  from v4_load_roundtrip [OF demo_v4_new empty_is_fresh demo_v4_small(1-4) ss demo_desc4_ok demo_v4_small(5),
      of "[]" demo_hdr demo_lserde "[]" 0 "\<lambda>_. True" "[]" demo_zstd OtherArch demo_xorf]
  show ?thesis by blast
qed

section \<open>Scatter\<close>

text \<open>
  C6. In every state the concurrent scatter can reach, the records delivered to a partition are
  among the pairs routed to it (none is duplicated, none reaches a foreign partition), and once
  every source is drained they are exactly those pairs.
\<close>

theorem scatter_exactly_once:
  assumes "Layout_new (n_partitions l) = Ok l" and "sources_ok m srcs"
    and "(scatter_step xxh64)\<^sup>*\<^sup>* (scatter_start l m srcs) s" and "p < unat (n_partitions l)"
  shows "mset (concat (ss_queues s ! p)) \<subseteq># mset (routed xxh64 l (all_pairs srcs) p) \<and>
    (scatter_finished s \<longrightarrow> mset (concat (ss_queues s ! p)) = mset (routed xxh64 l (all_pairs srcs) p))"
proof -
  have inv: "scatter_inv xxh64 l m srcs s"
    by (rule scatter_inv_reachable [OF assms(3,1)])
  then have "delivered xxh64 l p s = mset (routed xxh64 l (all_pairs srcs) p)"
    using assms(4) by (simp add: scatter_inv_def)
  then have "mset (concat (ss_queues s ! p)) \<subseteq># mset (routed xxh64 l (all_pairs srcs) p)"
    unfolding delivered_def by (metis mset_subset_eq_add_left)
  with scatter_finished_delivers [OF inv _ assms(4)] show ?thesis by blast
qed

theorem scatter_exactly_once_witness:
  "\<exists>s. (scatter_step demo_hash)\<^sup>*\<^sup>* (scatter_start layout1 3 [[Ok demo_kvs]]) s \<and> scatter_finished s \<and>
     mset (concat (ss_queues s ! 0)) = mset (routed demo_hash layout1 demo_kvs 0)"
proof -
  have ok: "sources_ok 3 [[Ok demo_kvs]]" by (auto simp: sources_ok_def demo_kvs_def)
  have l: "Layout_new (n_partitions layout1) = Ok layout1" using demo_layout by simp
  obtain s where "(scatter_step demo_hash)\<^sup>*\<^sup>* (scatter_start layout1 3 [[Ok demo_kvs]]) s" "scatter_finished s"
    using scatter_run_exists [OF l ok] by blast
  with scatter_exactly_once [OF l ok, of demo_hash s 0] show ?thesis by auto
qed

text \<open>
  C19. The concurrent scatter with its bounded channels and its writers on the blocking pool.  Every run
  takes at most two steps for every batch and partition and two for every batch; a channel never holds
  more than its capacity; what the tasks do is a run of the scatter without channels.  When the pool has a thread for every
  partition, a run that is not over can go on: no send waits for ever, so every load ends its scatter with
  all channels drained.  When it has not, a partition whose writer has no thread and for which the
  sources have more batches than its channel holds blocks the scatter for good: no run ends it.
\<close>

theorem scatter_terminates:
  assumes "Layout_new (n_partitions l) = Ok l" and "sources_ok m srcs"
    and "(channel_step xxh64 cap threads ^^ k) (channel_start l m srcs) c"
  shows "k \<le> 2 * (sum_list (map length srcs) * Suc (unat (n_partitions l))) \<and>
    (\<forall>p < unat (n_partitions l). in_channel c p \<le> max cap 1) \<and>
    (scatter_step xxh64)\<^sup>*\<^sup>* (scatter_start l m srcs) (ch_scatter c) \<and>
    (unat (n_partitions l) \<le> threads \<longrightarrow> channel_finished c \<or> (\<exists>c'. channel_step xxh64 cap threads c c')) \<and>
    (\<forall>p. threads \<le> p \<and> p < unat (n_partitions l) \<and> max cap 1 < sum_list (map (batches_for xxh64 l p) srcs) \<longrightarrow>
      \<not> scatter_finished (ch_scatter c))"
proof -
  note run = channel_run [OF assms(3,1) assms(2) [unfolded sources_ok_def]]
  have "(channel_step xxh64 cap threads)\<^sup>*\<^sup>* (channel_start l m srcs) c" using assms(3) by (rule relpowp_imp_rtranclp)
  then have "(scatter_step xxh64)\<^sup>*\<^sup>* (scatter_start l m srcs) (ch_scatter c)"
    using channel_run_refines by (fastforce simp: channel_start_def)
  moreover have "\<forall>p < unat (n_partitions l). in_channel c p \<le> max cap 1" using run by (simp add: channel_inv_def)
  moreover have "channel_finished c \<or> (\<exists>c'. channel_step xxh64 cap threads c c')" if "unat (n_partitions l) \<le> threads"
    using channel_progress [OF _ _ assms(1) _ that] run by blast
  ultimately show ?thesis using run blocked_partition by (meson le_add1 order_trans)
qed

text \<open>One partition and two sources of one batch: with a thread the scatter starts, without one it never ends.\<close>

theorem scatter_terminates_witness:
  "(\<exists>c'. channel_step demo_hash 8 512 (channel_start layout1 3 [[Ok demo_kvs], [Ok demo_kvs]]) c') \<and>
   \<not> (\<exists>k c. (channel_step demo_hash 1 0 ^^ k) (channel_start layout1 3 [[Ok demo_kvs], [Ok demo_kvs]]) c \<and>
       scatter_finished (ch_scatter c))"
proof -
  let ?srcs = "[[Ok demo_kvs], [Ok demo_kvs]]"
  have ok: "sources_ok 3 ?srcs" by (auto simp: sources_ok_def demo_kvs_def)
  have l: "Layout_new (n_partitions layout1) = Ok layout1" using demo_layout by simp
  have z: "(channel_step demo_hash 8 512 ^^ 0) (channel_start layout1 3 ?srcs) (channel_start layout1 3 ?srcs)" by simp
  have "\<not> channel_finished (channel_start layout1 3 ?srcs)"
    by (simp add: channel_finished_def scatter_finished_def channel_start_def scatter_start_def)
  with scatter_terminates [OF l ok z] have "\<exists>c'. channel_step demo_hash 8 512 (channel_start layout1 3 ?srcs) c'" by simp
  moreover have "max 1 1 < sum_list (map (batches_for demo_hash layout1 0) ?srcs)"
    by (simp add: batches_for_def routed_def demo_kvs_def partition_of_def)
  then have "\<not> scatter_finished (ch_scatter c)"
    if "(channel_step demo_hash 1 0 ^^ k) (channel_start layout1 3 ?srcs) c" for k c
    using scatter_terminates [OF l ok that] by auto
  ultimately show ?thesis by blast
qed

text \<open>
  C33. A V5 load one of whose sources fails, in any state the concurrent tasks can reach, while the
  writers live on: it returns the source's error, but every writer drains and leaves the completion
  marker of its partition, with the count of what it received.  The next load of the directory takes the scatter for
  complete and succeeds whatever its sources are; the snapshot it publishes opens and answers every
  lookup from the pairs that had been delivered before the failure, which are only some of the sources' pairs.
\<close>

theorem failed_scatter_taken_for_complete:
  fixes hl :: "'h hdr_lib"
  assumes "V5Builder_new (loader_builder_config root cfg) = Ok (b, c)" and "fresh_root root fs"
    and "lc_max_value_bytes cfg < 2 ^ 30" and "length (all_pairs srcs) < 2 ^ 32"
    and "(scatter_step xxh64)\<^sup>*\<^sup>* (scatter_start (vb_layout b) (lc_max_value_bytes cfg) srcs) ss"
    and "mapR (joined \<circ> task_result xxh64) (ss_tasks ss) = Err e"
    and "serde_ok sj" and "desc5_ok sj dj" and "sort_ok sort_u"
    and "vo_compression (lc_v5 cfg) = NoCompression \<or> zstd_ok z" and "vo_sketch (lc_v5 cfg) \<longrightarrow> xorf_ok xorf"
    and "load = (\<lambda>ss s. load_parallel xxh64 (v5_format_builder z xorf xxh64 sort_u sj secs b) hl lj root
      (lc_n_partitions cfg) (vo_marker_mode (lc_v5 cfg)) secs' rate (\<lambda>_. True) ss now s)"
  shows "\<exists>fs1 c2 fs2 r. load ss (c, fs) = Some (Err e, (c, fs1)) \<and>
    (\<forall>p < unat (lc_n_partitions cfg). \<exists>probe. V5Builder_scatter_probe sj b p fs1 = (Ok (Some probe), fs1) \<and>
      sp_n_keys probe = word_of_nat (length (concat (ss_queues ss ! p)))) \<and>
    (\<forall>ss'. load ss' (c, fs1) = Some (Ok (word_of_nat (length (delivered_pairs ss)), 0), (c2, fs2))) \<and>
    Snapshot_open_path populate dj z xxh64 fs2 root = Ok r \<and>
    (\<forall>key. \<exists>res. Snapshot_get arch z xorf xxh64 r key = Ok res \<and>
      load_answers xxh64 (vb_layout b) (delivered_pairs ss) key res) \<and>
    set (delivered_pairs ss) \<subseteq> set (all_pairs srcs)"
  using v5_failed_load_resumes [OF assms] .

text \<open>A source that delivers one batch and then fails, before the rest of its rows.\<close>

abbreviation demo_reset :: source where
  "demo_reset \<equiv> [Ok demo_kvs, Err ''stream reset'']"

definition demo_failed :: ScatterState where
  "demo_failed =
     \<lparr>ss_tasks = [\<lparr>tk_fanout = (fanout layout1 DEFAULT_MAX_VALUE_BYTES)\<lparr>fo_n_keys := 2, fo_data_bytes := 3\<rparr>,
        tk_source = [Err ''stream reset''], tk_sending = []\<rparr>],
      ss_queues = [[map (\<lambda>(k, v). (k, fingerprint demo_hash k, v)) demo_kvs]]\<rparr>"

lemma demo_failed_reached:
  "(scatter_step demo_hash)\<^sup>*\<^sup>* (scatter_start layout1 DEFAULT_MAX_VALUE_BYTES [demo_reset]) demo_failed"
proof -
  let ?s0 = "scatter_start layout1 DEFAULT_MAX_VALUE_BYTES [demo_reset]"
  let ?recs = "map (\<lambda>(k, v). (k, fingerprint demo_hash k, v)) demo_kvs"
  let ?f = "(fanout layout1 DEFAULT_MAX_VALUE_BYTES)\<lparr>fo_n_keys := 2, fo_data_bytes := 3\<rparr>"
  let ?s1 = "?s0\<lparr>ss_tasks := [\<lparr>tk_fanout = ?f, tk_source = [Err ''stream reset''], tk_sending = [(0, ?recs)]\<rparr>]\<rparr>"
  have "scatter_batch demo_hash demo_kvs (fanout layout1 DEFAULT_MAX_VALUE_BYTES) = Ok (?f, [(0, ?recs)])"
    by (simp add: scatter_batch_def fanout_kv_def fanout_def demo_kvs_def partition_of_def DEFAULT_MAX_VALUE_BYTES_def Let_def)
  then have "scatter_step demo_hash ?s0 ?s1"
    using scatter_step.fetch [of 0 ?s0 demo_kvs "[Err ''stream reset'']" demo_hash ?f "[(0, ?recs)]"] by (simp add: scatter_start_def)
  moreover have "scatter_step demo_hash ?s1 demo_failed"
    using scatter_step.send [of 0 ?s1 0 ?recs "[]" demo_hash] by (simp add: scatter_start_def demo_failed_def)
  ultimately show ?thesis by (meson converse_rtranclp_into_rtranclp r_into_rtranclp)
qed

theorem failed_scatter_taken_for_complete_witness:
  "\<exists>fs1 c2 fs2 r.
     load_parallel demo_hash (v5_format_builder demo_zstd demo_xorf demo_hash (sort_key fr_fp) demo_serde [] demo_v5_builder)
       demo_hdr demo_lserde [''snap''] (lc_n_partitions demo_v5_config) (vo_marker_mode (lc_v5 demo_v5_config)) [] 0 (\<lambda>_. True)
       demo_failed [] (\<lparr>c_plan = None, c_done = None\<rparr>, Map.empty) =
       Some (Err (SourceE ''stream reset''), (\<lparr>c_plan = None, c_done = None\<rparr>, fs1)) \<and>
     (\<forall>ss'. load_parallel demo_hash (v5_format_builder demo_zstd demo_xorf demo_hash (sort_key fr_fp) demo_serde [] demo_v5_builder)
       demo_hdr demo_lserde [''snap''] (lc_n_partitions demo_v5_config) (vo_marker_mode (lc_v5 demo_v5_config)) [] 0 (\<lambda>_. True)
       ss' [] (\<lparr>c_plan = None, c_done = None\<rparr>, fs1) = Some (Ok (2, 0), (c2, fs2))) \<and>
     Snapshot_open_path None demo_desc5 demo_zstd demo_hash fs2 [''snap''] = Ok r"
proof -
  have e: "mapR (joined \<circ> task_result demo_hash) (ss_tasks demo_failed) = Err (SourceE ''stream reset'')"
    by (simp add: demo_failed_def task_result_def)
  have k: "word_of_nat (length (delivered_pairs demo_failed)) = (2 :: u64)"
    by (simp add: delivered_pairs_def demo_failed_def demo_kvs_def)
  have r: "(scatter_step demo_hash)\<^sup>*\<^sup>* (scatter_start (vb_layout demo_v5_builder) (lc_max_value_bytes demo_v5_config) [demo_reset]) demo_failed"
    using demo_failed_reached by (simp add: demo_config demo_v5_builder_def)
  have m: "lc_max_value_bytes demo_v5_config < 2 ^ 30" by (simp add: demo_config DEFAULT_MAX_VALUE_BYTES_def)
  have s: "length (all_pairs [demo_reset]) < 2 ^ 32" by (simp add: pairs_of_def demo_kvs_def)
  show ?thesis
    using failed_scatter_taken_for_complete [OF demo_v5_new empty_is_fresh m s r e demo_serde_ok demo_desc5_ok sort_key_ok
        disjI2 [OF demo_zstd_ok] impI [OF demo_xorf_ok] refl, of "[]" demo_hdr demo_lserde "[]" 0 "[]", unfolded k] by blast
qed

section \<open>Loading into a used V4 directory\<close>

text \<open>
  C34. Loading into a directory that holds a completed V4 snapshot does not read its sources: the
  completion check finds data and an index but no spills, reports a finished scatter of no keys,
  and the build overwrites the index with empty tables. The load succeeds, the snapshot opens, and
  every lookup misses.
\<close>

theorem v4_reload_empties_snapshot:
  fixes hl :: "'h hdr_lib"
  assumes "V4Builder_new (loader_builder_config root cfg) = Ok (b, c)" and "v4_complete b fs"
    and "desc4_ok sj dj" and "populate_result populate = Ok ()"
  shows "\<exists>c' fs' r. (\<forall>ss. load_parallel xxh64 (v4_format_builder xxh64 sj secs b) hl lj root
      (lc_n_partitions cfg) (vo_marker_mode (lc_v5 cfg)) secs' rate drains ss now (c, fs) = Some (Ok (0, 0), (c', fs'))) \<and>
    Snapshot_open_path populate dj z xxh64 fs' root = Ok r \<and>
    (\<forall>key. Snapshot_get arch z xorf xxh64 r key = Ok (Miss False))"
  using v4_stale_load [OF assms(1) v4_complete_stale [OF assms(2)] assms(3,4)] .

theorem v4_reload_empties_snapshot_witness:
  "\<exists>ss n c1 fs1 r1 c2 fs2 r2.
     load_parallel demo_hash (v4_format_builder demo_hash demo_serde4 [] demo_v4_builder) demo_hdr demo_lserde
       [''snap''] (lc_n_partitions demo_v4_config) (vo_marker_mode (lc_v5 demo_v4_config)) [] 0 (\<lambda>_. True) ss []
       (\<lparr>v4_ready = [None], v4_index_info = None\<rparr>, Map.empty) = Some (Ok (2, n), (c1, fs1)) \<and>
     load_parallel demo_hash (v4_format_builder demo_hash demo_serde4 [] demo_v4_builder) demo_hdr demo_lserde
       [''snap''] (lc_n_partitions demo_v4_config) (vo_marker_mode (lc_v5 demo_v4_config)) [] 0 (\<lambda>_. True) ss []
       (\<lparr>v4_ready = [None], v4_index_info = None\<rparr>, fs1) = Some (Ok (0, 0), (c2, fs2)) \<and>
     Snapshot_open_path None demo_desc4 demo_zstd demo_hash fs2 [''snap''] = Ok r2 \<and>
     (\<forall>key. Snapshot_get OtherArch demo_zstd demo_xorf demo_hash r2 key = Ok (Miss False))"
proof -
  obtain ss where ss: "(scatter_step demo_hash)\<^sup>*\<^sup>* (scatter_start (v4_layout demo_v4_builder) (lc_max_value_bytes demo_v4_config) demo_sources) ss"
    "scatter_finished ss" using demo_v4_run by blast
  have two: "word_of_nat (length (all_pairs demo_sources)) = (2 :: u64)" by (simp add: demo_kvs_def)
  obtain n c1 fs1 where first: "load_parallel demo_hash (v4_format_builder demo_hash demo_serde4 [] demo_v4_builder) demo_hdr demo_lserde
       [''snap''] (lc_n_partitions demo_v4_config) (vo_marker_mode (lc_v5 demo_v4_config)) [] 0 (\<lambda>_. True) ss []
       (\<lparr>v4_ready = [None], v4_index_info = None\<rparr>, Map.empty) = Some (Ok (2, n), (c1, fs1))" "v4_complete demo_v4_builder fs1"
    using v4_load_ok [OF demo_v4_new empty_is_fresh demo_v4_small(1-4) ss demo_desc4_ok demo_v4_small(5),
      of "[]" demo_hdr demo_lserde "[]" 0 "\<lambda>_. True" "[]", unfolded two] by blast
  from v4_reload_empties_snapshot [OF demo_v4_new first(2) demo_desc4_ok demo_v4_small(5),
      of demo_hash "[]" demo_hdr demo_lserde "[]" 0 "\<lambda>_. True" "[]" demo_zstd OtherArch demo_xorf] first(1)
  show ?thesis by blast
qed

text \<open>
  C35. A V4 scatter that is killed after the buffered spill writers flushed at least their header,
  but before they were finished, leaves spills whose count is the placeholder 0. The next load
  accepts them as a complete scatter of no keys and publishes a snapshot that misses every key,
  whatever records the spills and data files hold.
\<close>

theorem v4_killed_scatter_taken_for_complete:
  fixes hl :: "'h hdr_lib"
  assumes "V4Builder_new (loader_builder_config root cfg) = Ok (b, c)"
    and "fs (path_join root ''scatter.done'') = None" and "fs (path_join root ''index.done'') = None"
    and "\<forall>p < unat (lc_n_partitions cfg). fs (path_join (v4_dir b p) ''data.bin'') \<noteq> None \<and>
      (\<exists>w es m. spill_inv w es \<and> 16 \<le> m \<and> fs (path_join (v4_dir b p) ''spill.bin'') = Some (take m (sw_written w)))"
    and "desc4_ok sj dj" and "populate_result populate = Ok ()"
  shows "\<exists>c' fs' r. (\<forall>ss. load_parallel xxh64 (v4_format_builder xxh64 sj secs b) hl lj root
      (lc_n_partitions cfg) (vo_marker_mode (lc_v5 cfg)) secs' rate drains ss now (c, fs) = Some (Ok (0, 0), (c', fs'))) \<and>
    Snapshot_open_path populate dj z xxh64 fs' root = Ok r \<and>
    (\<forall>key. Snapshot_get arch z xorf xxh64 r key = Ok (Miss False))"
proof -
  note f = V4Builder_new_fields [OF assms(1)]
  have "unfinished_spill f" if "spill_inv w es" "16 \<le> m" "f = take m (sw_written w)" for f w es m
    using that by (auto simp: unfinished_spill_def)
  then have "v4_stale b fs"
    using f assms(2-4) by (fastforce simp: v4_stale_def)
  from v4_stale_load [OF assms(1) this assms(5,6)] show ?thesis .
qed

definition demo_killed :: files where
  "demo_killed = [path_join (v4_dir demo_v4_builder 0) ''data.bin'' \<mapsto> [1, 2, 3],
     path_join (v4_dir demo_v4_builder 0) ''spill.bin'' \<mapsto> sw_written (spill_push SpillWriter_create Bucket_default)]"

theorem v4_killed_scatter_taken_for_complete_witness:
  "\<exists>c' fs' r. (\<forall>ss. load_parallel demo_hash (v4_format_builder demo_hash demo_serde4 [] demo_v4_builder) demo_hdr demo_lserde
      [''snap''] (lc_n_partitions demo_v4_config) (vo_marker_mode (lc_v5 demo_v4_config)) [] 0 (\<lambda>_. True) ss []
      (\<lparr>v4_ready = [None], v4_index_info = None\<rparr>, demo_killed) = Some (Ok (0, 0), (c', fs'))) \<and>
    Snapshot_open_path None demo_desc4 demo_zstd demo_hash fs' [''snap''] = Ok r \<and>
    (\<forall>key. Snapshot_get OtherArch demo_zstd demo_xorf demo_hash r key = Ok (Miss False))"
proof -
  let ?w = "spill_push SpillWriter_create Bucket_default" and ?root = "sf_root (v4_finalizer demo_v4_builder)"
  have root: "?root = [''snap'']" by (simp add: demo_v4_builder_def)
  have dirs: "v4_dir demo_v4_builder p \<noteq> [''snap'']" for p
    using root_not_in_part [of ?root _ "n_partitions (v4_layout demo_v4_builder)" p] root by auto
  have inv: "spill_inv ?w [Bucket_default]" using spill_inv_push [OF spill_inv_create, of Bucket_default] by simp
  have "length (sw_written ?w) = 24" by (simp add: spill_push_def SpillWriter_create_def SPILL_MAGIC_def bucket_codec.length_enc)
  then have "take 24 (sw_written ?w) = sw_written ?w" by simp
  then have d: "\<forall>p < unat (lc_n_partitions demo_v4_config). demo_killed (path_join (v4_dir demo_v4_builder p) ''data.bin'') \<noteq> None \<and>
      (\<exists>w es m. spill_inv w es \<and> 16 \<le> m \<and> demo_killed (path_join (v4_dir demo_v4_builder p) ''spill.bin'') = Some (take m (sw_written w)))"
    using inv by (auto simp: demo_config demo_killed_def intro!: exI [of _ ?w] exI [of _ "[Bucket_default]"] exI [of _ 24])
  have s: "demo_killed (path_join [''snap''] ''scatter.done'') = None" "demo_killed (path_join [''snap''] ''index.done'') = None"
    by (simp_all add: demo_killed_def)
  show ?thesis
    using v4_killed_scatter_taken_for_complete [OF demo_v4_new s d demo_desc4_ok demo_v4_small(5)] .
qed

text \<open>
  C36. A V5 load that is resumed after its scatter does not compare the number of partitions with the
  one \<open>scatter.done\<close> records.  With a smaller number whose partition names are as wide, the resumed
  load succeeds without reading its sources, builds only the first partitions and publishes a
  snapshot in which every key that was scattered to another partition is missing (keys with a
  colliding verify fingerprint aside).
\<close>

theorem resume_with_fewer_partitions_loses_keys:
  fixes hl :: "'h hdr_lib"
  assumes "V5Builder_new (loader_builder_config root cfg) = Ok (b, c)" and "fresh_root root fs"
    and "sources_ok (lc_max_value_bytes cfg) srcs" and "lc_max_value_bytes cfg < 2 ^ 30"
    and "length (all_pairs srcs) < 2 ^ 32"
    and "(scatter_step xxh64)\<^sup>*\<^sup>* (scatter_start (vb_layout b) (lc_max_value_bytes cfg) srcs) ss"
    and "scatter_finished ss"
    and "V5Builder_new (loader_builder_config root (cfg\<lparr>lc_n_partitions := m\<rparr>)) = Ok (b2, c2)"
    and "m < lc_n_partitions cfg" and "length (show_nat (unat (m - 1))) = length (show_nat (unat (lc_n_partitions cfg - 1)))"
    and "serde_ok sj" and "desc5_ok sj dj" and "sort_ok sort_u" and "\<forall>d. dec_sdone lj (enc_sdone lj d) = Ok d"
    and "vo_compression (lc_v5 cfg) = NoCompression \<or> zstd_ok z" and "vo_sketch (lc_v5 cfg) \<longrightarrow> xorf_ok xorf"
  shows "\<exists>st fs1 k c' fs' r. scatter_parallel xxh64 (v5_format_builder z xorf xxh64 sort_u sj secs b) hl lj root
      (lc_n_partitions cfg) (vo_marker_mode (lc_v5 cfg)) secs' rate drains ss (c, fs) = (Ok st, (c, fs1)) \<and>
    (\<forall>ss'. load_parallel xxh64 (v5_format_builder z xorf xxh64 sort_u sj secs b2) hl lj root m
      (vo_marker_mode (lc_v5 cfg)) secs' rate drains ss' now (c2, fs1) = Some (Ok (k, 0), (c', fs'))) \<and>
    Snapshot_open_path populate dj z xxh64 fs' root = Ok r \<and>
    (\<forall>key. unat m \<le> partition_of (vb_layout b) (fingerprint xxh64 key) \<longrightarrow>
      (\<forall>k \<in> fst ` set (all_pairs srcs). v5_verify_fingerprint xxh64 k DEFAULT_VERIFY_SEED =
        v5_verify_fingerprint xxh64 key DEFAULT_VERIFY_SEED \<longrightarrow> k = key) \<longrightarrow>
      (\<exists>io. Snapshot_get arch z xorf xxh64 r key = Ok (Miss io)))"
  using v5_resume_fewer [OF assms] .

abbreviation layout2 :: Layout where
  "layout2 \<equiv> \<lparr>n_partitions = 2, partition_mask = 1\<rparr>"

lemma demo_layout2: "Layout_new 2 = Ok layout2"
proof -
  have "is_power_of_two (2 :: u32)" unfolding is_power_of_two_iff by (rule exI [of _ 1]) simp
  then show ?thesis by (simp add: Layout_new_Ok_iff)
qed

lemma demo_v5_new2:
  "V5Builder_new (loader_builder_config [''snap''] (demo_v5_config\<lparr>lc_n_partitions := 2\<rparr>)) =
     Ok (demo_v5_builder\<lparr>vb_layout := layout2\<rparr>, \<lparr>c_plan = None, c_done = None\<rparr>)"
  by (simp add: V5Builder_new_def loader_builder_config_def demo_v5_config_def LoaderConfig_default_def V5Options_default_def
      demo_layout2 demo_v5_builder_def)

theorem resume_with_fewer_partitions_loses_keys_witness:
  "\<exists>ss. (scatter_step demo_hash)\<^sup>*\<^sup>* (scatter_start layout2 DEFAULT_MAX_VALUE_BYTES demo_sources) ss \<and> scatter_finished ss \<and>
     (\<exists>st fs1 k c' fs' r. scatter_parallel demo_hash
        (v5_format_builder demo_zstd demo_xorf demo_hash (sort_key fr_fp) demo_serde [] (demo_v5_builder\<lparr>vb_layout := layout2\<rparr>))
        demo_hdr demo_lserde2 [''snap''] 2 Rename [] 0 (\<lambda>_. True) ss (\<lparr>c_plan = None, c_done = None\<rparr>, Map.empty) =
        (Ok st, (\<lparr>c_plan = None, c_done = None\<rparr>, fs1)) \<and>
      (\<forall>ss'. load_parallel demo_hash
        (v5_format_builder demo_zstd demo_xorf demo_hash (sort_key fr_fp) demo_serde [] demo_v5_builder)
        demo_hdr demo_lserde2 [''snap''] 1 Rename [] 0 (\<lambda>_. True) ss' [] (\<lparr>c_plan = None, c_done = None\<rparr>, fs1) =
        Some (Ok (k, 0), (c', fs'))) \<and>
      Snapshot_open_path None demo_desc5 demo_zstd demo_hash fs' [''snap''] = Ok r)"
proof -
  let ?cfg = "demo_v5_config\<lparr>lc_n_partitions := 2\<rparr>" and ?b = "demo_v5_builder\<lparr>vb_layout := layout2\<rparr>"
  obtain ss where ss: "(scatter_step demo_hash)\<^sup>*\<^sup>* (scatter_start layout2 DEFAULT_MAX_VALUE_BYTES demo_sources) ss" "scatter_finished ss"
    using scatter_run_exists [OF _ demo_sources_ok, of layout2] demo_layout2 by auto
  have len: "length (all_pairs demo_sources) < 2 ^ 32" by (simp add: demo_kvs_def)
  have m: "DEFAULT_MAX_VALUE_BYTES < 2 ^ 30" by (simp add: DEFAULT_MAX_VALUE_BYTES_def)
  have c: "lc_max_value_bytes ?cfg = DEFAULT_MAX_VALUE_BYTES" "lc_n_partitions ?cfg = 2" "vo_marker_mode (lc_v5 ?cfg) = Rename"
    "?cfg\<lparr>lc_n_partitions := 1\<rparr> = demo_v5_config" "vb_layout ?b = layout2"
    by (simp_all add: demo_v5_config_def LoaderConfig_default_def V5Options_default_def)
  have w: "(1 :: u32) < 2" "length (show_nat (unat (1 - 1 :: u32))) = length (show_nat (unat (2 - 1 :: u32)))"
    by (simp_all add: show_nat_def digits.simps)
  note r = resume_with_fewer_partitions_loses_keys [where hl = demo_hdr and m = 1, OF demo_v5_new2 empty_is_fresh, unfolded c,
      OF demo_sources_ok m len ss demo_v5_new w demo_serde_ok demo_desc5_ok sort_key_ok demo_lserde2_ok
      disjI2 [OF demo_zstd_ok] impI [OF demo_xorf_ok], of "[]" "[]" 0 "\<lambda>_. True" "[]" None OtherArch]
  from r ss show ?thesis by blast
qed

end
