(* ===== verification/V5_Properties.thy ===== *)
theory V5_Properties
  imports Loader_Properties
begin

text \<open>
  The properties of the V5 components: blocks, lookups in untrusted files, the block size and the
  compression bound, resumed builds, the radix pass and snapshot descriptions.
\<close>


section \<open>Probing\<close>

lemma find_loop_None:
  "find_loop rs vfp = Ok None \<Longrightarrow> \<exists>recs. rs = map Ok recs \<and> (\<forall>r \<in> set recs. record_vfp r \<noteq> vfp)"
proof (induction rs)
  case (Cons r rs)
  then obtain rec where r: "r = Ok rec" "record_vfp rec \<noteq> vfp" "find_loop rs vfp = Ok None"
    by (auto simp: res_simps split: if_splits)
  with Cons.IH obtain recs where "rs = map Ok recs" "\<forall>r \<in> set recs. record_vfp r \<noteq> vfp" by blast
  with r show ?case by (intro exI [of _ "rec # recs"]) simp
qed simp

lemma find_loop_Some: "find_loop rs vfp = Ok (Some rec) \<Longrightarrow> Ok rec \<in> set rs \<and> record_vfp rec = vfp"
  by (induction rs) (auto simp: res_simps split: if_splits)

lemma probe_blocks_verified:
  assumes "probe_blocks z xxh64 bs codec part vfp cands io = Ok res"
  shows "case res of
      Hit v \<Rightarrow> \<exists>b \<in> set cands. \<exists>buf rec. pread (pt_blocks part) (word_of_nat b * ucast bs) bs = Ok buf \<and>
        verify xxh64 buf = Ok () \<and> Ok rec \<in> set (block_records buf) \<and> record_vfp rec = vfp \<and>
        resolve z xxh64 (pt_heap part) codec rec = Ok v
    | Miss io \<Rightarrow> \<forall>b \<in> set cands. \<exists>buf recs. pread (pt_blocks part) (word_of_nat b * ucast bs) bs = Ok buf \<and>
        verify xxh64 buf = Ok () \<and> block_records buf = map Ok recs \<and> (\<forall>r \<in> set recs. record_vfp r \<noteq> vfp)"
  using assms
proof (induction cands arbitrary: io)
  case Nil
  then show ?case by auto
next
  case (Cons b cands)
  obtain buf r where buf: "pread (pt_blocks part) (word_of_nat b * ucast bs) bs = Ok buf" "verify xxh64 buf = Ok ()"
    "find_loop (block_records buf) vfp = Ok r"
    and rest: "(case r of Some rec \<Rightarrow> rmap Hit (resolve z xxh64 (pt_heap part) codec rec)
       | None \<Rightarrow> probe_blocks z xxh64 bs codec part vfp cands True) = Ok res"
    using Cons.prems by (auto simp: res_simps find_v5_def)
  show ?case
  proof (cases r)
    case None
    with find_loop_None [of "block_records buf" vfp] buf(3) obtain recs where
      "block_records buf = map Ok recs" "\<forall>r \<in> set recs. record_vfp r \<noteq> vfp" by blast
    with Cons.IH [of True] rest None buf(1,2) show ?thesis by (cases res) auto
  next
    case (Some rec)
    then obtain v where "res = Hit v" "resolve z xxh64 (pt_heap part) codec rec = Ok v"
      using rest by (auto simp: res_simps)
    with find_loop_Some [of "block_records buf" vfp rec] buf Some show ?thesis by auto
  qed
qed

section \<open>Blocks\<close>

lemma push_records_total:
  assumes "asm_inv xxh64 id base a groups cur"
    and "\<forall>(fp, r) \<in> set frs. record_ok r \<and> encoded_len (length (record_payload r)) \<le> ba_block_size a - 4"
  shows "\<exists>a'. push_records xxh64 file_sink frs a = (Ok (), a')"
  using assms
proof (induction frs arbitrary: a groups cur)
  case Nil
  then show ?case by simp
next
  case (Cons fr frs)
  obtain fp r where fr: "fr = (fp, r)" by (cases fr)
  have r: "record_ok r" "encoded_len (length (record_payload r)) \<le> ba_block_size a - 4" "\<not> ba_failed a"
    using Cons.prems fr by (auto simp: asm_inv_def)
  obtain a1 where a1: "push_record xxh64 file_sink fp r a = (Ok (), a1)" using push_record_total [OF r(1,3,2)] by blast
  obtain groups1 cur1 where g: "ba_block_size a1 = ba_block_size a" "asm_inv xxh64 id base a1 groups1 cur1"
    using blocks_file.push_record_ok [OF Cons.prems(1) r(1) a1] by blast
  have "\<forall>(fp, r) \<in> set frs. record_ok r \<and> encoded_len (length (record_payload r)) \<le> ba_block_size a1 - 4"
    using Cons.prems(2) g(1) by simp
  from Cons.IH [OF g(2) this] a1 fr show ?case by simp
qed

lemma assembler_finish_total: "\<not> ba_failed a \<Longrightarrow> \<exists>fences a'. assembler_finish xxh64 file_sink a = (Ok fences, a')"
  by (cases "ba_buf a = []") (simp_all add: assembler_finish_def cut_def file_sink_def Let_def)

text \<open>
  C18. The block assembler against its reader: records that fit a block are all accepted, and the
  output is the concatenation of checksummed blocks of the block size, one per fence; every block
  verifies, the scan of each block returns exactly its records, and the blocks together hold the
  records in the order they were pushed.
\<close>

theorem assembled_blocks_scan_back:
  assumes "BlockAssembler_new bs [] = Ok a0"
    and ok: "\<forall>(fp, r) \<in> set frs. record_ok r \<and> encoded_len (length (record_payload r)) \<le> bs - 4"
  shows "\<exists>a1 fences a2 groups. push_records xxh64 file_sink frs a0 = (Ok (), a1) \<and>
    assembler_finish xxh64 file_sink a1 = (Ok fences, a2) \<and> concat groups = frs \<and> fences = map block_fence groups \<and>
    ba_sink a2 = concat (map (\<lambda>g. seal xxh64 bs (map snd g)) groups) \<and>
    (\<forall>g \<in> set groups. g \<noteq> [] \<and> length (seal xxh64 bs (map snd g)) = bs \<and> verify xxh64 (seal xxh64 bs (map snd g)) = Ok () \<and>
       block_records (seal xxh64 bs (map snd g)) = map (\<lambda>fr. Ok (snd fr)) g)"
proof -
  have bs: "4 \<le> bs" and a0: "a0 = \<lparr>ba_block_size = bs, ba_buf = [], ba_fences = [], ba_failed = False, ba_sink = []\<rparr>"
    using assms(1) by (auto simp: BlockAssembler_new_def CHECKSUM_LEN_def split: if_splits)
  have inv: "asm_inv xxh64 id [] a0 [] []" by (simp add: a0 asm_inv_def)
  obtain a1 where push: "push_records xxh64 file_sink frs a0 = (Ok (), a1)"
    using push_records_total [OF inv] ok by (auto simp: a0)
  from blocks_file.push_records_ok [OF inv _ push] ok obtain groups cur where
    g: "ba_block_size a1 = bs" "asm_inv xxh64 id [] a1 groups cur" "concat groups @ cur = frs"
    by (fastforce simp: a0)
  obtain fences a2 where fin: "assembler_finish xxh64 file_sink a1 = (Ok fences, a2)"
    using assembler_finish_total [of a1 xxh64] g(2) unfolding asm_inv_def by blast
  from blocks_file.assembler_finish_ok [OF g(2) fin] g(1,3) obtain gs where
    gs: "concat gs = frs" "\<forall>g \<in> set gs. group_ok bs g" "fences = map block_fence gs"
      "ba_sink a2 = concat (map (seal xxh64 bs \<circ> map snd) gs)"
    by auto
  have "block_records (seal xxh64 bs (map snd h)) = map (\<lambda>fr. Ok (snd fr)) h" if "h \<in> set gs" for h
  proof -
    have "\<forall>r \<in> set (map snd h). record_ok r" "length (frecs_bytes h) \<le> bs - 4"
      using gs(2) that by (fastforce simp: group_ok_def)+
    then show ?thesis using records_seal [of "map snd h" bs xxh64] by (simp add: length_concat comp_def)
  qed
  with gs bs have "\<forall>g \<in> set gs. g \<noteq> [] \<and> length (seal xxh64 bs (map snd g)) = bs \<and> verify xxh64 (seal xxh64 bs (map snd g)) = Ok () \<and>
       block_records (seal xxh64 bs (map snd g)) = map (\<lambda>fr. Ok (snd fr)) g"
    by (auto simp: group_ok_def length_seal verify_seal)
  with push fin gs show ?thesis by (auto simp: comp_def)
qed

definition demo_records :: "frec list" where
  "demo_records = [(5, Inline 1 [7, 8] False), (2 ^ 40, StubRec 2 \<lparr>heap_offset = 0, stored_len = 9, value_checksum = 3\<rparr> True)]"

lemma demo_records_ok:
  "\<forall>(fp, r) \<in> set demo_records. record_ok r \<and> encoded_len (length (record_payload r)) \<le> 4096 - 4"
  by (simp add: demo_records_def encoded_len_def align8_def HEADER_LEN_def RECORD_ALIGN_def)

definition demo_assembler :: "bytes BlockAssembler" where
  "demo_assembler = \<lparr>ba_block_size = 4096, ba_buf = [], ba_fences = [], ba_failed = False, ba_sink = []\<rparr>"

lemma demo_assembler_new: "BlockAssembler_new 4096 [] = Ok demo_assembler"
  by (simp add: BlockAssembler_new_def demo_assembler_def RECORD_ALIGN_def CHECKSUM_LEN_def encoded_len_def align8_def
      HEADER_LEN_def STUB_PAYLOAD_LEN_def)

theorem assembled_blocks_scan_back_witness:
  "\<exists>a1 fences a2 groups. push_records demo_hash file_sink demo_records demo_assembler = (Ok (), a1) \<and>
     assembler_finish demo_hash file_sink a1 = (Ok fences, a2) \<and> concat groups = demo_records \<and> fences = map block_fence groups"
  using assembled_blocks_scan_back [OF demo_assembler_new demo_records_ok, of demo_hash] by blast

text \<open>
  A failed write poisons the assembler: when cutting a block fails, the push reports the
  sink's error, and from then on every push and the finish report that the assembler is poisoned and
  change nothing, so a partition with a torn block is never published.
\<close>

theorem failed_cut_poisons:
  assumes "record_ok r" and "\<not> ba_failed a" and "encoded_len (length (record_payload r)) \<le> ba_block_size a - 4"
    and "length (ba_buf a) + encoded_len (length (record_payload r)) > ba_block_size a - 4"
    and "\<And>b. \<exists>w. sink b (ba_sink a) = (Err e, w)"
  shows "\<exists>a'. push_record xxh64 sink fp r a = (Err e, a') \<and>
    (\<forall>fp' r'. record_ok r' \<longrightarrow> push_record xxh64 sink fp' r' a' = (Err AssemblerPoisoned, a')) \<and>
    assembler_finish xxh64 sink a' = (Err AssemblerPoisoned, a')"
proof -
  have vfp: "record_vfp r \<noteq> 0" using assms(1) by (cases r) auto
  let ?buf = "resize (ba_block_size a - CHECKSUM_LEN) (ba_buf a)"
  obtain w where "sink (?buf @ u32_le (checksum32 xxh64 ?buf)) (ba_sink a) = (Err e, w)" using assms(5) by blast
  then obtain a' where c: "cut xxh64 sink a = (Err e, a')" "ba_failed a'" by (simp add: cut_def Let_def)
  have "push_record xxh64 sink fp r a = (Err e, a')"
    using assms(2-4) vfp c by (simp add: push_record_eq [OF assms(1)] push_header_def CHECKSUM_LEN_def Let_def)
  moreover have "push_record xxh64 sink fp' r' a' = (Err AssemblerPoisoned, a')" if "record_ok r'" for fp' r'
    using c(2) by (simp add: push_record_eq [OF that] push_header_def)
  moreover have "assembler_finish xxh64 sink a' = (Err AssemblerPoisoned, a')"
    using c(2) by (simp add: assembler_finish_def)
  ultimately show ?thesis by blast
qed

definition full_assembler :: "bytes BlockAssembler" where
  "full_assembler = demo_assembler\<lparr>ba_block_size := 64, ba_buf := replicate 56 1\<rparr>"

theorem failed_cut_poisons_witness:
  "\<exists>a'. push_record demo_hash (\<lambda>b w. (Err FinalizeBeforeBuild, w)) 5 (Inline 1 [7, 8] False) full_assembler = (Err FinalizeBeforeBuild, a') \<and>
     assembler_finish demo_hash (\<lambda>b w. (Err FinalizeBeforeBuild, w)) a' = (Err AssemblerPoisoned, a')"
proof -
  have 1: "record_ok (Inline 1 [7, 8] False)" by simp
  have 2: "\<not> ba_failed full_assembler" by (simp add: full_assembler_def demo_assembler_def)
  have 3: "encoded_len (length (record_payload (Inline 1 [7, 8] False))) \<le> ba_block_size full_assembler - 4"
    "length (ba_buf full_assembler) + encoded_len (length (record_payload (Inline 1 [7, 8] False))) > ba_block_size full_assembler - 4"
    by (simp_all add: full_assembler_def encoded_len_def align8_def HEADER_LEN_def RECORD_ALIGN_def)
  have 4: "\<exists>w. (\<lambda>b w. (Err FinalizeBeforeBuild, w)) b (ba_sink full_assembler) = (Err FinalizeBeforeBuild :: unit fres, w)" for b :: bytes
    by simp
  from failed_cut_poisons [where sink = "\<lambda>b w. (Err FinalizeBeforeBuild, w)", OF 1 2 3 4, of demo_hash 5] show ?thesis by blast
qed

section \<open>Lookups in untrusted files\<close>

text \<open>
  C7. Whatever the files of an opened snapshot contain, a lookup never turns damage into an
  answer (the candidate blocks are the ones the binary search over the fences finds, whether the
  fences are sorted or not): a hit is the decoded value of a record with the key's verify fingerprint in a candidate
  block that verified (and, out of line, whose heap bytes match their checksum), and a miss that the
  sketch did not give is returned only after every candidate block was read, verified, scanned to
  its end without error and found to hold no such record.
\<close>

theorem lookup_answers_are_verified:
  assumes "partition_get5 z xorf xxh64 bs codec part fp vfp = Ok res"
  shows "case res of
      Hit v \<Rightarrow> \<exists>b \<in> set (candidate_blocks (pt_fences part) (fence_of fp)). \<exists>buf rec.
        pread (pt_blocks part) (word_of_nat b * ucast bs) bs = Ok buf \<and> verify xxh64 buf = Ok () \<and>
        Ok rec \<in> set (block_records buf) \<and> record_vfp rec = vfp \<and> resolve z xxh64 (pt_heap part) codec rec = Ok v
    | Miss io \<Rightarrow> (\<exists>s. pt_sketch part = Some s \<and> \<not> sketch_contains xorf s fp) \<or>
        (\<forall>b \<in> set (candidate_blocks (pt_fences part) (fence_of fp)). \<exists>buf recs.
          pread (pt_blocks part) (word_of_nat b * ucast bs) bs = Ok buf \<and> verify xxh64 buf = Ok () \<and>
          block_records buf = map Ok recs \<and> (\<forall>r \<in> set recs. record_vfp r \<noteq> vfp))"
  using assms probe_blocks_verified [of z xxh64 bs codec part vfp "candidate_blocks (pt_fences part) (fence_of fp)" False res]
  by (cases res) (auto simp: partition_get5_def split: if_splits option.splits)

section \<open>Block size and compression\<close>

text \<open>
  For every size histogram the derived block size exists and is a power of two between 4 KiB
  and 64 KiB, so the plan passes the validation every reader applies.
\<close>

theorem auto_block_size_valid:
  "\<exists>bs k. auto_tune_block_size hist = Ok bs \<and> 12 \<le> k \<and> k \<le> 16 \<and> bs = 2 ^ k \<and> validate_block_size bs = Ok ()"
proof -
  obtain bs where bs: "auto_tune_block_size hist = Ok bs" using auto_tune_total by blast
  from auto_tune_values [OF this] obtain k where k: "12 \<le> k" "k \<le> 16" "bs = 2 ^ k" by blast
  with pow2_block_size [of k bs] bs show ?thesis by (auto simp: validate_block_size_iff)
qed

text \<open>
  C38. Decompression is bounded by the frame header: it fails, before the codec runs, on a header
  that pins no content size or more than the value limit of 2^30 - 1 bytes, and what it returns has
  exactly the pinned length.
\<close>

theorem decompress_bounded:
  assumes "decompress z d frame = Ok v"
  shows "length v \<le> 2 ^ 30 - 1 \<and> frame_content_size frame = Ok (word_of_nat (length v)) \<and>
    z_decompress z d frame (length v) = Ok v"
proof -
  obtain n where n: "frame_content_size frame = Ok n" "\<not> n > ucast MAX_VALUE_LEN"
    "map_err Decompress (z_decompress z d frame (unat n)) = Ok v" "length v = unat n"
    using assms by (auto simp: decompress_def res_simps split: if_splits)
  have "unat n \<le> 2 ^ 30 - 1" using n(2) by (simp add: word_less_nat_alt unat_MAX_VALUE_LEN_u64)
  moreover have "z_decompress z d frame (unat n) = Ok v"
    using n(3) by (cases "z_decompress z d frame (unat n)") auto
  ultimately show ?thesis using n by simp
qed


lemma demo_frame_decodes: "decompress demo_zstd None (demo_frame (replicate 40 7)) = Ok (replicate 40 7)"
proof -
  have "frame_content_size (demo_frame (replicate 40 7)) = Ok 40" using demo_frame_size [of "replicate 40 7"] by simp
  moreover have "\<not> (40 :: u64) > ucast MAX_VALUE_LEN" by (simp add: word_less_nat_alt unat_MAX_VALUE_LEN_u64)
  moreover have "demo_unframe (demo_frame (replicate 40 7)) 40 = replicate 40 7"
    using demo_unframe_frame [of "replicate 40 7"] by simp
  ultimately show ?thesis by (simp add: decompress_def demo_zstd_def)
qed

theorem decompress_bounded_witness:
  "decompress demo_zstd None (demo_frame (replicate 40 7)) = Ok (replicate 40 7) \<and> length (replicate 40 (7 :: u8)) \<le> 2 ^ 30 - 1"
  using decompress_bounded [OF demo_frame_decodes] demo_frame_decodes by blast

theorem lookup_answers_are_verified_witness:
  "partition_get5 demo_zstd demo_xorf demo_hash 4096 None
     \<lparr>pt_fences = [0], pt_blocks = seal demo_hash 4096 [], pt_heap = [], pt_sketch = None\<rparr> 5 9 = Ok (Miss True) \<and>
   verify demo_hash (seal demo_hash 4096 []) = Ok ()"
proof -
  let ?s = "seal demo_hash 4096 []"
  let ?p = "\<lparr>pt_fences = [0], pt_blocks = ?s, pt_heap = [], pt_sketch = None\<rparr>"
  have len: "length ?s = 4096" by (simp add: length_seal)
  have "pread ?s 0 4096 = Ok ?s" by (simp add: pread_def len bslice_def)
  then have read: "pread (pt_blocks ?p) (word_of_nat 0 * ucast (4096 :: u32)) 4096 = Ok ?s" by simp
  have c: "candidate_blocks (pt_fences ?p) (fence_of 5) = [0]" by (simp add: candidate_blocks_def partition_point_def search_window.simps fence_of_def)
  have "find_v5 demo_hash ?s 9 = Ok None" using find_seal [of "[]" 4096 demo_hash 9] by simp
  with read c have g: "partition_get5 demo_zstd demo_xorf demo_hash 4096 None ?p 5 9 = Ok (Miss True)"
    by (simp add: partition_get5_def)
  from lookup_answers_are_verified [OF g] c read g show ?thesis by auto
qed


section \<open>Resuming a build\<close>

lemma derive_plan_publishes:
  "derive_plan z xxh64 sj b fs = (Ok plan, fs1) \<Longrightarrow> fs1 (path_join (vb_root b) ''v5.plan'') = Some (enc_plan sj plan)"
  by (auto simp: derive_plan_def Let_def io_simps write_marker_eq)

text \<open>
  C20. Building a partition is restartable: after a successful build (whatever the log of well-formed
  frames), a second run, as a resumed load makes it, with any plan, dictionary and options, returns
  the same build record without rebuilding, leaves every output file of the partition as it is, and
  neither run touches a file outside the partition's directory.
\<close>

theorem build_partition_resumes:
  assumes "plan_ok plan" and "partition_compressor z plan dict = Ok c" and "codec_ok z c codec"
    and "sort_ok sort_u" and "pl_sketch plan \<longrightarrow> xorf_ok xorf" and sj: "serde_ok sj"
    and "fs (path_join dir ''build.done'') = None"
    and "fs (path_join dir ''arrival.bin'') = Some (frames_bytes F)"
    and "\<forall>f \<in> set F. frame_ok f" and "values_len F < 2 ^ 64"
  shows "\<exists>d fs1. build_partition z xorf xxh64 sort_u sj dir plan dict target mode fs = (Ok d, fs1) \<and>
    partition_ok z xorf xxh64 codec (pl_block_size plan) (pl_sketch plan) fs1 dir d F \<and>
    (\<forall>q. q \<notin> in_dir dir \<longrightarrow> fs1 q = fs q) \<and>
    (\<forall>z' xorf' sort_u' plan' dict' target' mode'. \<exists>fs2.
       build_partition z' xorf' xxh64 sort_u' sj dir plan' dict' target' mode' fs1 = (Ok d, fs2) \<and>
       (\<forall>q \<in> part_outputs dir. fs2 q = fs1 q) \<and> (\<forall>q. q \<notin> in_dir dir \<longrightarrow> fs2 q = fs1 q))"
proof -
  obtain d fs1 where d: "build_partition z xorf xxh64 sort_u sj dir plan dict target mode fs = (Ok d, fs1)"
    "partition_ok z xorf xxh64 codec (pl_block_size plan) (pl_sketch plan) fs1 dir d F"
    "fs1 (path_join dir ''build.done'') = Some (enc_pdone sj d)" "\<forall>q. q \<notin> in_dir dir \<longrightarrow> fs1 q = fs q"
    using build_partition_ok [where fs = fs and dir = dir and F = F, OF assms(1-4) _ assms(7-10)] assms(5) by blast
  obtain fs2 where s: "sweep_partition_transients dir fs1 = (Ok (), fs2)" by (simp add: sweep_partition_eq)
  have "build_partition z' xorf' xxh64 sort_u' sj dir plan' dict' target' mode' fs1 = (Ok d, fs2)"
    for z' xorf' sort_u' plan' dict' target' mode'
    using d(3) s sj by (simp add: build_partition_def io_bind_def path_exists_def read_json_def read_file_def file_open_def
        io_lift_def io_return_def serde_ok_def)
  with sweep_keeps(1,2) [OF s] have "\<exists>fs2. build_partition z' xorf' xxh64 sort_u' sj dir plan' dict' target' mode' fs1 = (Ok d, fs2) \<and>
      (\<forall>q \<in> part_outputs dir. fs2 q = fs1 q) \<and> (\<forall>q. q \<notin> in_dir dir \<longrightarrow> fs2 q = fs1 q)"
    for z' xorf' sort_u' plan' dict' target' mode' by (intro exI [of _ fs2]) simp
  then have "\<forall>z' xorf' sort_u' plan' dict' target' mode'. \<exists>fs2.
      build_partition z' xorf' xxh64 sort_u' sj dir plan' dict' target' mode' fs1 = (Ok d, fs2) \<and>
      (\<forall>q \<in> part_outputs dir. fs2 q = fs1 q) \<and> (\<forall>q. q \<notin> in_dir dir \<longrightarrow> fs2 q = fs1 q)"
    by (intro allI)
  from conjI [OF d(1) conjI [OF d(2) conjI [OF d(4) this]]] show ?thesis by (intro exI [of _ d] exI [of _ fs1])
qed

definition demo_plan :: Plan where
  "demo_plan =
     \<lparr>pl_block_size = 4096, pl_inline_threshold = 2048, pl_sketch = True, pl_compression = NoCompression,
      pl_min_compress_len = 0, pl_dict_checksum = None, pl_n_samples = 0, pl_dict_len = 0, pl_dict_fallback = False,
      pl_sample_bytes_raw = 0, pl_sample_bytes_stored = 0, pl_zstd_version = None\<rparr>"

lemma demo_plan_ok: "plan_ok demo_plan"
  using pow2_block_size [of 12 4096] by (simp add: plan_ok_def demo_plan_def)

theorem build_partition_resumes_witness:
  "\<exists>d fs1 fs2.
     build_partition demo_zstd demo_xorf demo_hash (sort_key fr_fp) demo_serde [''p''] demo_plan None 1 Rename
       [path_join [''p''] ''arrival.bin'' \<mapsto> frames_bytes [(5, 1, [7, 8])]] = (Ok d, fs1) \<and>
     build_partition demo_zstd demo_xorf demo_hash (sort_key fr_fp) demo_serde [''p''] demo_plan None 1 DirectWrite fs1 = (Ok d, fs2)"
proof -
  let ?fs = "[path_join [''p''] ''arrival.bin'' \<mapsto> frames_bytes [(5, 1, [7, 8])]]"
  have c: "partition_compressor demo_zstd demo_plan None = Ok None" by (simp add: partition_compressor_def demo_plan_def)
  have cd: "codec_ok demo_zstd None None" by (simp add: codec_ok_def)
  have f: "?fs (path_join [''p''] ''build.done'') = None" "?fs (path_join [''p''] ''arrival.bin'') = Some (frames_bytes [(5, 1, [7, 8])])"
    "\<forall>f \<in> set [(5, 1, [7, 8])]. frame_ok f" "values_len [(5, 1, [7, 8])] < 2 ^ 64"
    by simp_all
  from build_partition_resumes [where fs = ?fs, OF demo_plan_ok c cd sort_key_ok impI [OF demo_xorf_ok] demo_serde_ok f,
      of demo_hash 1 Rename] show ?thesis by blast
qed

text \<open>
  C22. The first plan of a snapshot is pinned: once a builder has derived and published its plan, a
  later builder on the same directory, with any block size, sketch and compression options, loads
  that same plan (and finds the dictionary it pins intact) instead of deriving its own.
\<close>

theorem plan_is_pinned:
  assumes "builder_ok b" and sj: "serde_ok sj" and "scattered sj b fs Fs"
    and "vb_compression b = NoCompression \<or> zstd_ok z" and "c_plan c = None"
    and "fs (path_join (vb_root b) ''v5.plan'') = None"
  shows "\<exists>plan fs1. ensure_plan z xxh64 sj b (c, fs) = (Ok plan, (c\<lparr>c_plan := Some plan\<rparr>, fs1)) \<and>
    (\<forall>z' b' c'. vb_root b' = vb_root b \<longrightarrow> c_plan c' = None \<longrightarrow>
       ensure_plan z' xxh64 sj b' (c', fs1) = (Ok plan, (c'\<lparr>c_plan := Some plan\<rparr>, fs1)))"
proof -
  have z: "vb_compression b \<noteq> NoCompression \<Longrightarrow> zstd_ok z" using assms(4) by simp
  obtain plan dict fs1 where p12: "derive_plan z xxh64 sj b fs = (Ok plan, fs1)" "planned xxh64 b fs1 plan dict"
    using derive_plan_ok [OF assms(1-3) z] by metis
  note p = p12 derive_plan_publishes [OF p12(1)]
  have first: "ensure_plan z xxh64 sj b (c, fs) = (Ok plan, (c\<lparr>c_plan := Some plan\<rparr>, fs1))"
    using p(1) assms(5,6) by (simp add: ensure_plan_def io_bind_def on_files_def path_exists_def io_do_def io_return_def)
  have "load_plan xxh64 sj b' fs1 = (Ok plan, fs1)" if "vb_root b' = vb_root b" for b'
    using p(2,3) sj that
    by (cases dict) (auto simp: load_plan_def io_bind_def read_json_def read_file_def file_open_def io_lift_def io_return_def
        serde_ok_def planned_def dict_ok_def read_dict_def verify_dict_def Let_def split: option.splits)
  then have "ensure_plan z' xxh64 sj b' (c', fs1) = (Ok plan, (c'\<lparr>c_plan := Some plan\<rparr>, fs1))"
    if "vb_root b' = vb_root b" "c_plan c' = None" for z' b' c'
    using that p(3) by (simp add: ensure_plan_def io_bind_def on_files_def path_exists_def io_do_def io_return_def)
  with first show ?thesis by blast
qed


theorem plan_is_pinned_witness:
  "\<exists>plan fs1. ensure_plan demo_zstd demo_hash demo_serde demo_v5_builder (\<lparr>c_plan = None, c_done = None\<rparr>,
       \<lambda>p. if p = path_join (builder_dir demo_v5_builder 0) ''arrival.bin'' then Some (frames_bytes [(5, 1, [7, 8])])
           else if p = path_join (builder_dir demo_v5_builder 0) ''arrival.stats''
           then Some (enc_stats demo_serde \<lparr>as_n_keys = 1, as_data_bytes = 22, as_hist = replicate 32 1\<rparr>) else None) =
     (Ok plan, (\<lparr>c_plan = Some plan, c_done = None\<rparr>, fs1)) \<and>
   ensure_plan demo_zstd demo_hash demo_serde (demo_v5_builder\<lparr>vb_compression := NoCompression, vb_block_size_override := Some 65536\<rparr>)
     (\<lparr>c_plan = None, c_done = None\<rparr>, fs1) = (Ok plan, (\<lparr>c_plan = Some plan, c_done = None\<rparr>, fs1))"
proof -
  let ?fs = "\<lambda>p. if p = path_join (builder_dir demo_v5_builder 0) ''arrival.bin'' then Some (frames_bytes [(5, 1, [7, 8])])
           else if p = path_join (builder_dir demo_v5_builder 0) ''arrival.stats''
           then Some (enc_stats demo_serde \<lparr>as_n_keys = 1, as_data_bytes = 22, as_hist = replicate 32 1\<rparr>) else None"
  have b: "builder_ok demo_v5_builder" using V5Builder_new_ok [OF demo_v5_new] by simp
  have one: "unat (n_partitions (vb_layout demo_v5_builder)) = 1" by (simp add: demo_v5_builder_def)
  have sc: "scattered demo_serde demo_v5_builder ?fs (\<lambda>p. [(5, 1, [7, 8])])"
    unfolding scattered_def one by auto
  have root: "?fs (path_join (vb_root demo_v5_builder) ''v5.plan'') = None"
    using root_not_in_part [of "vb_root demo_v5_builder" _ "n_partitions (vb_layout demo_v5_builder)" 0] by auto
  have c: "c_plan \<lparr>c_plan = None, c_done = None\<rparr> = None" by simp
  let ?b' = "demo_v5_builder\<lparr>vb_compression := NoCompression, vb_block_size_override := Some 65536\<rparr>"
  from plan_is_pinned [where fs = ?fs, OF b demo_serde_ok sc disjI2 [OF demo_zstd_ok] c root, of demo_hash]
  obtain plan fs1 where p: "ensure_plan demo_zstd demo_hash demo_serde demo_v5_builder (\<lparr>c_plan = None, c_done = None\<rparr>, ?fs) =
      (Ok plan, (\<lparr>c_plan = None, c_done = None\<rparr>\<lparr>c_plan := Some plan\<rparr>, fs1))"
    "\<forall>z' b' c'. vb_root b' = vb_root demo_v5_builder \<longrightarrow> c_plan c' = None \<longrightarrow>
       ensure_plan z' demo_hash demo_serde b' (c', fs1) = (Ok plan, (c'\<lparr>c_plan := Some plan\<rparr>, fs1))" by blast
  have "ensure_plan demo_zstd demo_hash demo_serde ?b' (\<lparr>c_plan = None, c_done = None\<rparr>, fs1) =
      (Ok plan, (\<lparr>c_plan = None, c_done = None\<rparr>\<lparr>c_plan := Some plan\<rparr>, fs1))"
    using p(2) [rule_format, of ?b' "\<lparr>c_plan = None, c_done = None\<rparr>" demo_zstd] by simp
  with p(1) show ?thesis by simp
qed

section \<open>Radix pass\<close>

text \<open>
  C21. The radix pass is a sort: taking the log itself for the only bucket, or scattering its frames
  to the power-of-two buckets the code chooses when it chooses more than one (by the leading bits of
  the fingerprint), sorting each bucket on its own and concatenating the buckets in order gives a
  permutation of the log sorted by fingerprint, whatever the log size and the target bucket size.
\<close>

theorem radix_pass_sorts:
  assumes "fs (path_join dir ''arrival.bin'') = Some (frames_bytes F)" and "\<forall>f \<in> set F. frame_ok f"
    and "n = radix_bucket_count arrival_bytes target_bytes"
    and "\<And>xs. sorted_perm xs (srt xs)"
  shows "\<exists>ps fs1 Bs. (if n = 1 then io_return [path_join dir ''arrival.bin'']
       else scatter_to_buckets dir (path_join dir ''arrival.bin'') n) fs = (Ok ps, fs1) \<and>
    length ps = n \<and> length Bs = n \<and> (\<forall>b < n. fs1 (ps ! b) = Some (frames_bytes (Bs ! b))) \<and>
    mset (concat (map srt Bs)) = mset F \<and> sorted (map fst (concat (map srt Bs)))"
proof (cases "n = 1")
  case True
  have "fs ([path_join dir ''arrival.bin''] ! b) = Some (frames_bytes ([F] ! b))" if "b < 1" for b
    using that assms(1) by simp
  with True assms(4) [of F] show ?thesis
    by (intro exI [of _ "[path_join dir ''arrival.bin'']"] exI [of _ fs] exI [of _ "[F]"]) (simp add: io_return_def sorted_perm_def)
next
  case False
  obtain k where k: "k \<le> 6" "n = 2 ^ k" using radix_bucket_count_pow2 assms(3) by metis
  with False have "0 < k" by (cases k) simp_all
  let ?Bs = "map (bucket_frames (64 - k) F) [0..<n]" and ?ps = "map (bucket_path dir) [0..<n]"
  obtain fs1 where s: "scatter_to_buckets dir (path_join dir ''arrival.bin'') n fs = (Ok ?ps, fs1)"
    "\<forall>b < n. fs1 (bucket_path dir b) = Some (frames_bytes (bucket_frames (64 - k) F b))"
    using scatter_to_buckets_ok [where fs = fs and dir = dir and F = F, OF assms(1,2) \<open>0 < k\<close> k(1)] k(2) by blast
  have "list_all2 sorted_perm ?Bs (map srt ?Bs)" using assms(4) by (simp add: list_all2_conv_all_nth)
  then have "sorted_perm F (concat (map srt ?Bs))"
    using k by (intro sorted_perm_buckets [of k]) simp_all
  with s False show ?thesis by (intro exI [of _ ?ps] exI [of _ fs1] exI [of _ ?Bs]) (simp add: sorted_perm_def)
qed

theorem radix_pass_sorts_witness:
  "\<exists>ps fs1 Bs. scatter_to_buckets [''p''] (path_join [''p''] ''arrival.bin'') 4
      [path_join [''p''] ''arrival.bin'' \<mapsto> frames_bytes [(2 ^ 63, 1, [7]), (5, 2, [])]] = (Ok ps, fs1) \<and>
    length ps = 4 \<and> sorted (map fst (concat (map (sort_key fst) (Bs :: frame list list)))) \<and>
    mset (concat (map (sort_key fst) Bs)) = mset [(2 ^ 63, 1, [7]), (5, 2, [])]"
proof -
  have srt: "sorted_perm xs (sort_key fst xs)" for xs :: "frame list" by (simp add: sorted_perm_def)
  have up: "[0..<64] = 0 # 1 # 2 # [3..<64 :: nat]" by code_simp
  have three: "checked_next_power_of_two 3 = Some 4"
    unfolding checked_next_power_of_two_def up filter.simps by simp
  have n: "(4 :: nat) = radix_bucket_count 3 1"
    by (simp add: radix_bucket_count_def div_ceil_def MAX_RADIX_BUCKETS_def three)
  from radix_pass_sorts [where fs = "[path_join [''p''] ''arrival.bin'' \<mapsto> frames_bytes [(2 ^ 63, 1, [7]), (5, 2, [])]]"
      and srt = "sort_key fst" and F = "[(2 ^ 63, 1, [7]), (5, 2, [])]" and dir = "[''p'']", OF _ _ n srt]
  show ?thesis by auto
qed

section \<open>Snapshot descriptions\<close>

text \<open>
  C28. A description that loads is well-formed: the version read first is 4 or 5 and decides the
  format, and the metadata of that version passed its own validation, so its number of partitions
  is a power of two that fits the layout.
\<close>

theorem loaded_description_valid:
  assumes "SnapshotDesc_load dj fs root = Ok d"
  shows "sd_root d = root \<and> (\<exists>json l. fs (path_join root ''meta.json'') = Some json \<and>
    (case sd_meta d of
       MetaOfV4 m \<Rightarrow> dec_version dj json = Ok 4 \<and> Meta_layout m = Ok l
     | MetaOfV5 m \<Rightarrow> dec_version dj json = Ok 5 \<and> MetaV5_layout m = Ok l \<and> validate_block_size (m5_block_size m) = Ok ()) \<and>
    n_partitions l = desc_n_partitions d \<and> is_power_of_two (desc_n_partitions d) \<and>
    desc_format d = (if dec_version dj json = Ok 4 then V4 else V5))"
proof -
  obtain json v where j: "fs (path_join root ''meta.json'') = Some json" "dec_version dj json = Ok v" "sd_root d = root"
    and m: "(if v = FORMAT_VERSION_V4 then
              rbind (dec_desc4 dj json) (\<lambda>m. rbind (Meta_layout m) (\<lambda>_. Ok (MetaOfV4 m)))
            else if v = FORMAT_VERSION_V5 then
              rbind (dec_desc5 dj json) (\<lambda>m. rbind (MetaV5_layout m) (\<lambda>_. Ok (MetaOfV5 m)))
            else Err (UnsupportedFormatVersion v)) = Ok (sd_meta d)"
    using assms by (auto simp: SnapshotDesc_load_def file_open_def res_simps split: option.splits)
  show ?thesis
  proof (cases "sd_meta d")
    case (MetaOfV4 m4)
    with m obtain l where "v = 4" "Meta_layout m4 = Ok l"
      by (auto simp: res_simps FORMAT_VERSION_V4_def split: if_splits)
    with j MetaOfV4 show ?thesis
      by (auto simp: Meta_layout_def Layout_new_Ok_iff desc_n_partitions_def desc_format_def split: if_splits)
  next
    case (MetaOfV5 m5)
    with m obtain l where "v = 5" "MetaV5_layout m5 = Ok l"
      by (auto simp: res_simps FORMAT_VERSION_V5_def split: if_splits)
    with j MetaOfV5 show ?thesis
      by (auto simp: MetaV5_layout_def Layout_new_Ok_iff desc_n_partitions_def desc_format_def res_simps split: if_splits)
  qed
qed

definition demo_meta5 :: MetaV5 where
  "demo_meta5 =
     \<lparr>m5_format_version = 5, m5_hash_algorithm = HASH_ALGORITHM, m5_verify_seed = 1, m5_block_size = 4096,
      m5_inline_threshold = 2048, m5_sketch = None, m5_compression = None,
      m5_partitions = [\<lparr>n_blocks = 0, sketch_checksum = None\<rparr>], m5_stats = None, m5_encoding = None\<rparr>"

lemma demo_meta5_loads:
  "SnapshotDesc_load demo_desc5 [path_join [] ''meta.json'' \<mapsto> enc_meta5 demo_serde demo_meta5] [] =
     Ok \<lparr>sd_root = [], sd_meta = MetaOfV5 demo_meta5\<rparr>"
proof -
  have "MetaV5_layout demo_meta5 = Ok layout1"
    using validate_block_size_iff [of 4096] pow2_block_size [of 12 4096] demo_layout
    by (simp add: MetaV5_layout_def demo_meta5_def check_sketch_kind_def check_sketch_anchor_def check_compression_def
        check_block_count_def)
  moreover have "dec_version demo_desc5 (enc_meta5 demo_serde demo_meta5) = Ok 5"
    "dec_desc5 demo_desc5 (enc_meta5 demo_serde demo_meta5) = Ok demo_meta5"
    using demo_desc5_ok by (auto simp: desc5_ok_def demo_meta5_def)
  ultimately show ?thesis
    by (simp add: SnapshotDesc_load_def file_open_def FORMAT_VERSION_V4_def FORMAT_VERSION_V5_def)
qed

theorem loaded_description_valid_witness:
  "\<exists>d. SnapshotDesc_load demo_desc5 [path_join [] ''meta.json'' \<mapsto> enc_meta5 demo_serde demo_meta5] [] = Ok d \<and>
     is_power_of_two (desc_n_partitions d)"
  using loaded_description_valid [OF demo_meta5_loads] demo_meta5_loads by blast

end
