(* ===== verification/Server_Lookup.thy ===== *)
theory Server_Lookup
  imports Snapshot_Facade "HOL-Library.List_Lexorder"
begin

text \<open>
  The serving side's storage layer: \<open>mcfreeze-server/src/error.rs\<close>, \<open>lookup.rs\<close>, \<open>registry.rs\<close>, the
  lookup counters of \<open>metrics.rs\<close> and the \<open>GET /version\<close> handler.  A Rust \<open>String\<close> is its UTF-8
  bytes.  Calls to the metrics library are a trace of \<open>metric\<close> events, in call order.  An
  \<open>Arc<ActiveCatalog>\<close> is the catalog it points to: catalogs are immutable once built.
\<close>

definition ascii :: "string \<Rightarrow> bytes" where
  "ascii s = map of_char s"

section \<open>Errors, outcomes, metrics\<close>

datatype ServeError =
    BlockingTaskPanicked
  | FormatError error
  | ServeIo io_error
  | MissingDatasetPrefix
  | InvalidDatasetName
  | CatalogParse string

datatype LookupOutcome = LookupHit bytes | LookupMiss bool

fun outcome_of_get :: "GetOutcome \<Rightarrow> LookupOutcome" where
  "outcome_of_get (Hit v) = LookupHit v"
| "outcome_of_get (Miss io) = LookupMiss io"

type_synonym lookup_result = "(ServeError, LookupOutcome) res"

datatype metric =
    LookupTotal bytes string
  | RequestDuration string
  | ResponseBytes nat
  | ConnectionsTotal string
  | ConnectionsActiveInc string
  | ConnectionsActiveDec string
  | CatalogGeneration u64
  | ActiveDatasets nat

definition UNKNOWN_DATASET :: bytes where
  "UNKNOWN_DATASET = ascii ''_unknown''"

text \<open>The handles of one dataset are its label; a handle is only ever incremented.\<close>

record LookupCounters =
  lc_dataset :: bytes

definition LookupCounters_new :: "bytes \<Rightarrow> LookupCounters" where
  "LookupCounters_new dataset = \<lparr>lc_dataset = dataset\<rparr>"

definition counters_record :: "LookupCounters \<Rightarrow> lookup_result \<Rightarrow> metric list" where
  "counters_record c result =
     [LookupTotal (lc_dataset c)
        (case result of
           Ok (LookupHit _) \<Rightarrow> ''hit''
         | Ok (LookupMiss False) \<Rightarrow> ''miss''
         | Ok (LookupMiss True) \<Rightarrow> ''miss_io''
         | _ \<Rightarrow> ''error'')]"

section \<open>Snapshot lookups\<close>

text \<open>
  A lookup on the blocking pool: a panic of the closure surfaces as a join error, which returns
  before the outcome is counted.  \<open>get\<close> is \<open>Snapshot::get\<close> on the handle's snapshot.
\<close>

definition blocking_get :: "GetOutcome fres \<Rightarrow> LookupCounters \<Rightarrow> lookup_result \<times> metric list" where
  "blocking_get r counters =
     (case r of
        Panic \<Rightarrow> (Err BlockingTaskPanicked, [])
      | Ok out \<Rightarrow> (Ok (outcome_of_get out), counters_record counters (Ok (outcome_of_get out)))
      | Err e \<Rightarrow> (Err (FormatError e), counters_record counters (Err (FormatError e))))"

record storage =
  st_target :: target
  st_zstd :: zstd_lib
  st_xorf :: xorf_lib
  st_hash :: hash

definition st_get :: "storage \<Rightarrow> Snapshot \<Rightarrow> bytes \<Rightarrow> GetOutcome fres" where
  "st_get st = Snapshot_get (st_target st) (st_zstd st) (st_xorf st) (st_hash st)"

record SnapshotLookup =
  sl_inner :: Snapshot
  sl_counters :: LookupCounters

definition SnapshotLookup_new :: "Snapshot \<Rightarrow> LookupCounters \<Rightarrow> SnapshotLookup" where
  "SnapshotLookup_new reader counters = \<lparr>sl_inner = reader, sl_counters = counters\<rparr>"

definition SnapshotLookup_get :: "storage \<Rightarrow> bytes \<Rightarrow> SnapshotLookup \<Rightarrow> lookup_result \<times> metric list \<times> SnapshotLookup" where
  "SnapshotLookup_get st key l =
     (let (r, ev) = blocking_get (st_get st (sl_inner l) key) (sl_counters l) in (r, ev, l))"

definition SnapshotLookup_for_connection :: "SnapshotLookup \<Rightarrow> SnapshotLookup" where
  "SnapshotLookup_for_connection l = \<lparr>sl_inner = sl_inner l, sl_counters = sl_counters l\<rparr>"

section \<open>Datasets and catalogs\<close>

record DatasetHandle =
  dh_name :: bytes
  dh_version :: bytes
  dh_reader :: Snapshot
  dh_counters :: LookupCounters

definition DatasetHandle_open ::
    "(path \<Rightarrow> Snapshot fres) \<Rightarrow> bytes \<Rightarrow> bytes \<Rightarrow> path \<Rightarrow> (ServeError, DatasetHandle) res" where
  "DatasetHandle_open open_path name version dir =
     rbind (map_err FormatError (open_path dir)) (\<lambda>reader.
     Ok \<lparr>dh_name = name, dh_version = version, dh_reader = reader, dh_counters = LookupCounters_new name\<rparr>)"

definition DatasetHandle_get :: "storage \<Rightarrow> DatasetHandle \<Rightarrow> bytes \<Rightarrow> lookup_result \<times> metric list" where
  "DatasetHandle_get st h key = blocking_get (st_get st (dh_reader h) key) (dh_counters h)"

text \<open>
  \<open>HashMap<String, DatasetHandle>\<close> as an association list with distinct keys; its order is the
  (unspecified) iteration order.  \<open>loaded_at\<close> is the wall clock, a number of seconds.
\<close>

record ActiveCatalog =
  ac_datasets :: "(bytes \<times> DatasetHandle) list"
  ac_generation :: u64
  ac_loaded_at :: nat

definition ActiveCatalog_new :: "(bytes \<times> DatasetHandle) list \<Rightarrow> u64 \<Rightarrow> nat \<Rightarrow> ActiveCatalog" where
  "ActiveCatalog_new datasets gen loaded_at =
     \<lparr>ac_datasets = datasets, ac_generation = gen, ac_loaded_at = loaded_at\<rparr>"

definition dataset_count :: "ActiveCatalog \<Rightarrow> nat" where
  "dataset_count c = length (ac_datasets c)"

definition ActiveCatalog_get :: "storage \<Rightarrow> ActiveCatalog \<Rightarrow> bytes \<Rightarrow> bytes \<Rightarrow> lookup_result \<times> metric list" where
  "ActiveCatalog_get st c dataset key =
     (case map_of (ac_datasets c) dataset of
        None \<Rightarrow> (Ok (LookupMiss False), [LookupTotal UNKNOWN_DATASET ''miss''])
      | Some h \<Rightarrow> DatasetHandle_get st h key)"

record VersionEntry =
  ve_dataset :: bytes
  ve_version_id :: bytes
  ve_loaded_at :: nat

definition version_snapshot :: "ActiveCatalog \<Rightarrow> VersionEntry list" where
  "version_snapshot c =
     sort_key ve_dataset
       (map (\<lambda>(_, h). \<lparr>ve_dataset = dh_name h, ve_version_id = dh_version h, ve_loaded_at = ac_loaded_at c\<rparr>)
          (ac_datasets c))"

record KVDatasetVersion =
  kv_dataset :: bytes
  kv_version_id :: bytes
  kv_loaded_at :: string

text \<open>\<open>rfc3339\<close> is \<open>humantime::format_rfc3339_seconds\<close>; snapshot mode has no registry.\<close>

definition version_handler :: "(nat \<Rightarrow> string) \<Rightarrow> ActiveCatalog option \<Rightarrow> KVDatasetVersion list" where
  "version_handler rfc3339 data_reg =
     (case data_reg of
        None \<Rightarrow> []
      | Some c \<Rightarrow> map (\<lambda>e. \<lparr>kv_dataset = ve_dataset e, kv_version_id = ve_version_id e,
                           kv_loaded_at = rfc3339 (ve_loaded_at e)\<rparr>) (version_snapshot c))"

section \<open>Registry\<close>

record Registry =
  rg_inner :: ActiveCatalog

definition Registry_new :: "ActiveCatalog \<Rightarrow> Registry" where
  "Registry_new c = \<lparr>rg_inner = c\<rparr>"

definition registry_load :: "Registry \<Rightarrow> ActiveCatalog" where
  "registry_load r = rg_inner r"

definition registry_swap :: "ActiveCatalog \<Rightarrow> Registry \<Rightarrow> ActiveCatalog \<times> Registry" where
  "registry_swap new r = (rg_inner r, r\<lparr>rg_inner := new\<rparr>)"

section \<open>Key prefixes\<close>

definition COLON :: u8 where
  "COLON = 0x3A"

text \<open>\<open>iter().position(|&b| b == b':')\<close>.\<close>

fun position_of :: "u8 \<Rightarrow> bytes \<Rightarrow> nat option" where
  "position_of b [] = None"
| "position_of b (x # xs) = (if x = b then Some 0 else map_option Suc (position_of b xs))"

definition split_prefix :: "bytes \<Rightarrow> (ServeError, bytes \<times> bytes) res" where
  "split_prefix key =
     rbind (ok_or MissingDatasetPrefix (position_of COLON key)) (\<lambda>pos.
     Ok (take pos key, drop (pos + 1) key))"

text \<open>\<open>std::str::from_utf8\<close>: the well-formed byte sequences of the Unicode standard.\<close>

definition utf8_cont :: "u8 \<Rightarrow> bool" where
  "utf8_cont b \<longleftrightarrow> 0x80 \<le> b \<and> b \<le> 0xBF"

fun utf8_valid :: "bytes \<Rightarrow> bool" where
  "utf8_valid [] = True"
| "utf8_valid (b # bs) =
     (if b < 0x80 then utf8_valid bs
      else if 0xC2 \<le> b \<and> b \<le> 0xDF then
        (case bs of c # bs' \<Rightarrow> utf8_cont c \<and> utf8_valid bs' | _ \<Rightarrow> False)
      else if 0xE0 \<le> b \<and> b \<le> 0xEF then
        (case bs of
           c # d # bs' \<Rightarrow>
             (if b = 0xE0 then 0xA0 \<le> c \<and> c \<le> 0xBF
              else if b = 0xED then 0x80 \<le> c \<and> c \<le> 0x9F
              else utf8_cont c) \<and> utf8_cont d \<and> utf8_valid bs'
         | _ \<Rightarrow> False)
      else if 0xF0 \<le> b \<and> b \<le> 0xF4 then
        (case bs of
           c # d # e # bs' \<Rightarrow>
             (if b = 0xF0 then 0x90 \<le> c \<and> c \<le> 0xBF
              else if b = 0xF4 then 0x80 \<le> c \<and> c \<le> 0x8F
              else utf8_cont c) \<and> utf8_cont d \<and> utf8_cont e \<and> utf8_valid bs'
         | _ \<Rightarrow> False)
      else False)"

definition from_utf8 :: "'e \<Rightarrow> bytes \<Rightarrow> ('e, bytes) res" where
  "from_utf8 e bs = (if utf8_valid bs then Ok bs else Err e)"

section \<open>Catalog lookups\<close>

record PerConnectionCatalogLookup =
  pc_catalog :: ActiveCatalog

definition CatalogLookup_for_connection :: "Registry \<Rightarrow> PerConnectionCatalogLookup" where
  "CatalogLookup_for_connection r = \<lparr>pc_catalog = registry_load r\<rparr>"

text \<open>The generation check at the head of \<open>get\<close>.\<close>

definition refresh_catalog :: "Registry \<Rightarrow> PerConnectionCatalogLookup \<Rightarrow> PerConnectionCatalogLookup" where
  "refresh_catalog r l =
     (if ac_generation (registry_load r) \<noteq> ac_generation (pc_catalog l)
      then l\<lparr>pc_catalog := registry_load r\<rparr> else l)"

definition CatalogLookup_get ::
    "storage \<Rightarrow> Registry \<Rightarrow> bytes \<Rightarrow> PerConnectionCatalogLookup
      \<Rightarrow> lookup_result \<times> metric list \<times> PerConnectionCatalogLookup" where
  "CatalogLookup_get st r key l =
     (let l = refresh_catalog r l in
      case rbind (split_prefix key) (\<lambda>(ds, k). rbind (from_utf8 InvalidDatasetName ds) (\<lambda>ds. Ok (ds, k))) of
        Ok (dataset, actual) \<Rightarrow> (let (res, ev) = ActiveCatalog_get st (pc_catalog l) dataset actual in (res, ev, l))
      | Err e \<Rightarrow> (Err e, [], l)
      | Panic \<Rightarrow> (Panic, [], l))"

section \<open>Lemmas\<close>

lemma position_of_append: "b \<notin> set xs \<Longrightarrow> position_of b (xs @ b # ys) = Some (length xs)"
  by (induction xs) auto

lemma split_prefix_append: "COLON \<notin> set ds \<Longrightarrow> split_prefix (ds @ COLON # key) = Ok (ds, key)"
  by (simp add: split_prefix_def position_of_append)

lemma CatalogLookup_get_routed:
  assumes "COLON \<notin> set ds" and "utf8_valid ds"
  shows "CatalogLookup_get st r (ds @ COLON # key) l =
    (let (res, ev) = ActiveCatalog_get st (pc_catalog (refresh_catalog r l)) ds key in (res, ev, refresh_catalog r l))"
  using assms by (simp add: CatalogLookup_get_def split_prefix_append from_utf8_def Let_def)

lemma version_snapshot_sorted: "sorted (map ve_dataset (version_snapshot c))"
  by (simp add: version_snapshot_def)

lemma utf8_valid_ascii: "(\<forall>b \<in> set bs. b < 0x80) \<Longrightarrow> utf8_valid bs"
  by (induction bs) auto

end
