(* ===== verification/Server_Protocol.thy ===== *)
theory Server_Protocol
  imports Server_Lookup
begin

text \<open>
  The memcache meta protocol: parser and framer (\<open>mcfreeze-server/src/protocol/meta.rs\<close>) and command
  dispatch (\<open>protocol/commands.rs\<close>).  The combinators of \<open>nom\<close> the parser is written with are fields
  of the parameter \<open>nom_lib\<close>, at the types they are used at; \<open>nom_ok\<close> states their documented
  streaming behaviour.
\<close>

section \<open>Streaming parsers\<close>

text \<open>
  \<open>nom::Err\<close>, with the debug name of the error code.  \<open>NomLoop\<close> is no value of the library: it marks
  a flag loop whose parser succeeds without consuming input, which would never end.
\<close>

datatype nom_err = Incomplete | NomError string | NomFailure string | NomLoop

type_synonym 'o parser = "bytes \<Rightarrow> (nom_err, bytes \<times> 'o) res"

record MgFlags =
  mg_v :: bool
  mg_t :: bool
  mg_h :: bool
  mg_k :: bool

definition MgFlags_default :: MgFlags where
  "MgFlags_default = \<lparr>mg_v = False, mg_t = False, mg_h = False, mg_k = False\<rparr>"

text \<open>\<open>data_len\<close> is a \<open>usize\<close> taken from the wire: it is kept at its width.\<close>

datatype Command =
    Mg bytes MgFlags
  | Version
  | Quit
  | WriteRejected u64

datatype ProtoError = Parse string

record nom_lib =
  nom_tag :: "bytes \<Rightarrow> bytes parser"
  nom_take_while1 :: "(u8 \<Rightarrow> bool) \<Rightarrow> bytes parser"
  nom_space1 :: "bytes parser"
  nom_digit1 :: "bytes parser"
  nom_take_until :: "bytes \<Rightarrow> bytes parser"
  nom_preceded :: "bytes parser \<Rightarrow> bytes parser \<Rightarrow> bytes parser"
  nom_opt :: "bytes parser \<Rightarrow> bytes option parser"
  nom_map_res_str :: "bytes parser \<Rightarrow> (bytes \<Rightarrow> (unit, bytes) res) \<Rightarrow> bytes parser"
  nom_map_res_usize :: "bytes parser \<Rightarrow> (bytes \<Rightarrow> (unit, u64) res) \<Rightarrow> u64 parser"
  nom_alt_tag :: "bytes parser list \<Rightarrow> bytes parser"
  nom_alt_command :: "Command parser list \<Rightarrow> Command parser"

section \<open>Command parsers\<close>

definition SP :: u8 where "SP = 0x20"
definition CR :: u8 where "CR = 0x0D"
definition LF :: u8 where "LF = 0x0A"

definition CRLF :: bytes where
  "CRLF = [CR, LF]"

definition token_byte :: "u8 \<Rightarrow> bool" where
  "token_byte c \<longleftrightarrow> c \<noteq> SP \<and> c \<noteq> CR \<and> c \<noteq> LF"

definition token :: "nom_lib \<Rightarrow> bytes parser" where
  "token n = nom_take_while1 n token_byte"

definition crlf :: "nom_lib \<Rightarrow> unit parser" where
  "crlf n input = rbind (nom_tag n CRLF input) (\<lambda>(input, _). Ok (input, ()))"

fun set_flag :: "bytes \<Rightarrow> MgFlags \<Rightarrow> MgFlags" where
  "set_flag [] flags = flags"
| "set_flag (b # _) flags =
     (if b = of_char CHR ''v'' then flags\<lparr>mg_v := True\<rparr>
      else if b = of_char CHR ''t'' then flags\<lparr>mg_t := True\<rparr>
      else if b = of_char CHR ''h'' then flags\<lparr>mg_h := True\<rparr>
      else if b = of_char CHR ''k'' then flags\<lparr>mg_k := True\<rparr>
      else flags)"

text \<open>The flag loop of \<open>parse_mg\<close>: the flags and where the loop stopped.\<close>

function mg_flags :: "nom_lib \<Rightarrow> MgFlags \<Rightarrow> MgFlags parser" where
  "mg_flags n flags rest =
     rbind (nom_opt n (nom_preceded n (nom_space1 n) (token n)) rest) (\<lambda>(r, t).
       case t of
         None \<Rightarrow> Ok (rest, flags)
       | Some tok \<Rightarrow>
           if length r < length rest then mg_flags n (set_flag tok flags) r else Err NomLoop)"
  by auto

termination by (relation "measure (\<lambda>(_, _, rest). length rest)") auto

declare mg_flags.simps [simp del]

definition parse_mg :: "nom_lib \<Rightarrow> Command parser" where
  "parse_mg n input =
     rbind (nom_tag n (ascii ''mg'') input) (\<lambda>(input, _).
     rbind (nom_space1 n input) (\<lambda>(input, _).
     rbind (token n input) (\<lambda>(input, key_bytes).
     rbind (mg_flags n MgFlags_default input) (\<lambda>(rest, flags).
     rbind (crlf n rest) (\<lambda>(rest, _).
     Ok (rest, Mg key_bytes flags))))))"

definition parse_version :: "nom_lib \<Rightarrow> Command parser" where
  "parse_version n input =
     rbind (nom_tag n (ascii ''version'') input) (\<lambda>(input, _).
     rbind (crlf n input) (\<lambda>(input, _). Ok (input, Version)))"

definition parse_quit :: "nom_lib \<Rightarrow> Command parser" where
  "parse_quit n input =
     rbind (nom_tag n (ascii ''quit'') input) (\<lambda>(input, _).
     rbind (crlf n input) (\<lambda>(input, _). Ok (input, Quit)))"

text \<open>\<open>str::parse::<usize>\<close> on a string of decimal digits: it fails on a value above \<open>usize::MAX\<close>.\<close>

definition digit_value :: "u8 \<Rightarrow> nat" where
  "digit_value b = unat (b - of_char CHR ''0'')"

definition parse_usize :: "bytes \<Rightarrow> (unit, u64) res" where
  "parse_usize s =
     (let v = undigits (map digit_value s) in if v \<le> U64_MAX then Ok (word_of_nat v) else Err ())"

definition parse_ms :: "nom_lib \<Rightarrow> Command parser" where
  "parse_ms n input =
     rbind (nom_tag n (ascii ''ms'') input) (\<lambda>(input, _).
     rbind (nom_space1 n input) (\<lambda>(input, _).
     rbind (token n input) (\<lambda>(input, _).
     rbind (nom_space1 n input) (\<lambda>(input, _).
     rbind (nom_map_res_usize n (nom_map_res_str n (nom_digit1 n) (from_utf8 ())) parse_usize input) (\<lambda>(input, data_len).
     rbind (nom_take_until n CRLF input) (\<lambda>(input, _).
     rbind (crlf n input) (\<lambda>(input, _).
     Ok (input, WriteRejected data_len))))))))"

definition parse_md_ma :: "nom_lib \<Rightarrow> Command parser" where
  "parse_md_ma n input =
     rbind (nom_alt_tag n [nom_tag n (ascii ''md''), nom_tag n (ascii ''ma'')] input) (\<lambda>(input, _).
     rbind (nom_take_until n CRLF input) (\<lambda>(input, _).
     rbind (crlf n input) (\<lambda>(input, _).
     Ok (input, WriteRejected 0))))"

definition nom_parse :: "nom_lib \<Rightarrow> Command parser" where
  "nom_parse n = nom_alt_command n [parse_mg n, parse_version n, parse_quit n, parse_ms n, parse_md_ma n]"

text \<open>
  \<open>src\<close> is returned as it is left: advanced past a command, unchanged otherwise.  A panic of the
  result stands for a call that does not return (\<open>NomLoop\<close>).
\<close>

definition parse_command :: "nom_lib \<Rightarrow> bytes \<Rightarrow> (ProtoError, Command option) res \<times> bytes" where
  "parse_command n src =
     (case nom_parse n src of
        Ok (remaining, cmd) \<Rightarrow>
          (let consumed = length src - length remaining in (Ok (Some cmd), drop consumed src))
      | Err Incomplete \<Rightarrow> (Ok None, src)
      | Err (NomError code) \<Rightarrow> (Err (Parse code), src)
      | Err (NomFailure code) \<Rightarrow> (Err (Parse code), src)
      | Err NomLoop \<Rightarrow> (Panic, src)
      | Panic \<Rightarrow> (Panic, src))"

section \<open>Framer\<close>

definition write_va :: "bytes \<Rightarrow> bytes \<Rightarrow> MgFlags \<Rightarrow> bytes \<Rightarrow> bytes" where
  "write_va dst value flags key =
     dst @ ascii ''VA '' @ ascii (show_nat (length value)) @
     (if mg_k flags then ascii '' k'' @ key else []) @
     (if mg_t flags then ascii '' t-1'' else []) @
     CRLF @ value @ CRLF"

definition write_en :: "bytes \<Rightarrow> bytes" where
  "write_en dst = dst @ ascii ''EN'' @ CRLF"

definition write_server_error :: "bytes \<Rightarrow> bytes \<Rightarrow> bytes" where
  "write_server_error dst msg = dst @ ascii ''SERVER_ERROR '' @ msg @ CRLF"

definition write_version :: "bytes \<Rightarrow> bytes \<Rightarrow> u64 \<Rightarrow> bytes" where
  "write_version dst semver gen =
     dst @ ascii ''VERSION '' @ semver @ ascii '' gen/'' @ ascii (show_nat (unat gen)) @ CRLF"

section \<open>Dispatch\<close>

datatype Disposition = Continue | Close | Drain u64

text \<open>A \<open>Box<dyn Lookup>\<close>: \<open>get\<close> on the lookup's own state, with the metrics it emits.\<close>

type_synonym 's lookup = "bytes \<Rightarrow> 's \<Rightarrow> lookup_result \<times> metric list \<times> 's"

definition dispatch_mg ::
    "'s lookup \<Rightarrow> bytes \<Rightarrow> MgFlags \<Rightarrow> bytes \<Rightarrow> 's \<Rightarrow> bytes \<times> metric list \<times> 's" where
  "dispatch_mg lookup key flags dst s =
     (let (r, ev, s') = lookup key s in
      case r of
        Ok (LookupHit value) \<Rightarrow>
          (write_va dst value flags key, ev @ [ResponseBytes (length value), RequestDuration ''hit''], s')
      | Ok (LookupMiss False) \<Rightarrow> (write_en dst, ev @ [RequestDuration ''miss''], s')
      | Ok (LookupMiss True) \<Rightarrow> (write_en dst, ev @ [RequestDuration ''miss_io''], s')
      | _ \<Rightarrow> (write_server_error dst (ascii ''internal error''), ev @ [RequestDuration ''error''], s'))"

text \<open>The addition \<open>data_len + 2\<close> wraps, as in a release build.\<close>

definition dispatch ::
    "'s lookup \<Rightarrow> bytes \<Rightarrow> u64 \<Rightarrow> Command \<Rightarrow> bytes \<Rightarrow> 's \<Rightarrow> Disposition \<times> bytes \<times> metric list \<times> 's" where
  "dispatch lookup semver gen cmd dst s =
     (case cmd of
        Mg key flags \<Rightarrow> (Continue, dispatch_mg lookup key flags dst s)
      | Version \<Rightarrow> (Continue, write_version dst semver gen, [], s)
      | Quit \<Rightarrow> (Close, dst, [], s)
      | WriteRejected data_len \<Rightarrow>
          (if data_len = 0 then Continue else Drain (data_len + 2),
           write_server_error dst (ascii ''read-only''), [], s))"

section \<open>The documented behaviour of the combinators\<close>

definition s_tag :: "bytes \<Rightarrow> bytes parser" where
  "s_tag t input =
     (if take (length t) input = t then Ok (drop (length t) input, t)
      else if take (length input) t = input then Err Incomplete
      else Err (NomError ''Tag''))"

definition s_split1 :: "string \<Rightarrow> (u8 \<Rightarrow> bool) \<Rightarrow> bytes parser" where
  "s_split1 code P input =
     (case dropWhile P input of
        [] \<Rightarrow> Err Incomplete
      | rest \<Rightarrow> if takeWhile P input = [] then Err (NomError code) else Ok (rest, takeWhile P input))"

fun find_sub :: "bytes \<Rightarrow> bytes \<Rightarrow> nat option" where
  "find_sub t [] = (if t = [] then Some 0 else None)"
| "find_sub t (x # xs) =
     (if take (length t) (x # xs) = t then Some 0 else map_option Suc (find_sub t xs))"

definition s_take_until :: "bytes \<Rightarrow> bytes parser" where
  "s_take_until t input =
     (case find_sub t input of None \<Rightarrow> Err Incomplete | Some i \<Rightarrow> Ok (drop i input, take i input))"

definition s_preceded :: "'a parser \<Rightarrow> 'b parser \<Rightarrow> 'b parser" where
  "s_preceded p q input = rbind (p input) (\<lambda>(input, _). q input)"

definition s_opt :: "'a parser \<Rightarrow> 'a option parser" where
  "s_opt p input =
     (case p input of
        Ok (rest, x) \<Rightarrow> Ok (rest, Some x)
      | Err (NomError _) \<Rightarrow> Ok (input, None)
      | Err e \<Rightarrow> Err e
      | Panic \<Rightarrow> Panic)"

definition s_map_res :: "'a parser \<Rightarrow> ('a \<Rightarrow> (unit, 'b) res) \<Rightarrow> 'b parser" where
  "s_map_res p f input =
     rbind (p input) (\<lambda>(rest, x). rmap (Pair rest) (map_err (\<lambda>_. NomError ''MapRes'') (f x)))"

fun s_alt :: "'a parser list \<Rightarrow> 'a parser" where
  "s_alt [] input = Err (NomError ''Alt'')"
| "s_alt [p] input = p input"
| "s_alt (p # ps) input = (case p input of Err (NomError _) \<Rightarrow> s_alt ps input | r \<Rightarrow> r)"

definition space_byte :: "u8 \<Rightarrow> bool" where
  "space_byte b \<longleftrightarrow> b = SP \<or> b = 0x09"

definition digit_byte :: "u8 \<Rightarrow> bool" where
  "digit_byte b \<longleftrightarrow> 0x30 \<le> b \<and> b \<le> 0x39"

definition nom_streaming :: nom_lib where
  "nom_streaming =
     \<lparr>nom_tag = s_tag, nom_take_while1 = s_split1 ''TakeWhile1'', nom_space1 = s_split1 ''Space'' space_byte,
      nom_digit1 = s_split1 ''Digit'' digit_byte, nom_take_until = s_take_until, nom_preceded = s_preceded,
      nom_opt = s_opt, nom_map_res_str = s_map_res, nom_map_res_usize = s_map_res, nom_alt_tag = s_alt,
      nom_alt_command = s_alt\<rparr>"

text \<open>The hypothesis on the library: its streaming combinators behave as documented.\<close>

definition nom_ok :: "nom_lib \<Rightarrow> bool" where
  "nom_ok n \<longleftrightarrow>
     nom_tag n = s_tag \<and> nom_take_while1 n = s_split1 ''TakeWhile1'' \<and>
     nom_space1 n = s_split1 ''Space'' space_byte \<and> nom_digit1 n = s_split1 ''Digit'' digit_byte \<and>
     nom_take_until n = s_take_until \<and> nom_preceded n = s_preceded \<and> nom_opt n = s_opt \<and>
     nom_map_res_str n = s_map_res \<and> nom_map_res_usize n = s_map_res \<and>
     nom_alt_tag n = s_alt \<and> nom_alt_command n = s_alt"

lemma nom_streaming_ok: "nom_ok nom_streaming"
  by (simp add: nom_ok_def nom_streaming_def)

end
