(* ===== verification/Server_Stream.thy ===== *)
theory Server_Stream
  imports Server_Protocol "HOL-Library.Sublist"
begin

text \<open>
  Streaming behaviour of the command parser: a verdict other than ``incomplete'' does not change when
  more bytes arrive, what a parser leaves is a suffix of its input, and the flag loop always ends.
  The property is closed under the combinators, so it holds of \<open>nom_parse\<close>.
\<close>

named_theorems stream_intros \<open>streaming parsers are closed under the combinators\<close>

section \<open>Streaming parsers\<close>

fun feed :: "bytes \<Rightarrow> (nom_err, bytes \<times> 'o) res \<Rightarrow> (nom_err, bytes \<times> 'o) res" where
  "feed ys (Ok (rest, x)) = Ok (rest @ ys, x)"
| "feed ys (Err e) = Err e"
| "feed ys Panic = Panic"

definition stream_ok :: "'o parser \<Rightarrow> bool" where
  "stream_ok p \<longleftrightarrow>
     (\<forall>xs ys. p xs \<noteq> Err Incomplete \<longrightarrow> p (xs @ ys) = feed ys (p xs)) \<and>
     (\<forall>xs rest x. p xs = Ok (rest, x) \<longrightarrow> suffix rest xs) \<and>
     (\<forall>xs. p xs \<noteq> Err NomLoop \<and> p xs \<noteq> Panic)"

lemma stream_okI:
  assumes "\<And>xs ys. p xs \<noteq> Err Incomplete \<Longrightarrow> p (xs @ ys) = feed ys (p xs)"
    and "\<And>xs rest x. p xs = Ok (rest, x) \<Longrightarrow> suffix rest xs"
    and "\<And>xs. p xs \<noteq> Err NomLoop" and "\<And>xs. p xs \<noteq> Panic"
  shows "stream_ok p"
  using assms unfolding stream_ok_def by blast

lemma stream_feed: "stream_ok p \<Longrightarrow> p xs \<noteq> Err Incomplete \<Longrightarrow> p (xs @ ys) = feed ys (p xs)"
  by (simp add: stream_ok_def)

lemma stream_suffix: "stream_ok p \<Longrightarrow> p xs = Ok (rest, x) \<Longrightarrow> suffix rest xs"
  by (simp add: stream_ok_def)

lemma stream_result:
  assumes "stream_ok p"
  obtains (Done) rest x where "p xs = Ok (rest, x)" | (More) "p xs = Err Incomplete"
    | (Bad) code where "p xs = Err (NomError code)" | (Fail) code where "p xs = Err (NomFailure code)"
proof (cases "p xs")
  case (Ok y)
  then show ?thesis using that(1) by (cases y) auto
next
  case (Err e)
  then show ?thesis using assms that unfolding stream_ok_def by (cases e) auto
next
  case Panic
  then show ?thesis using assms unfolding stream_ok_def by blast
qed

section \<open>Combinators\<close>

lemma stream_return [stream_intros]: "stream_ok (\<lambda>input. Ok (input, x))"
  by (rule stream_okI) auto

lemma stream_bind [stream_intros]:
  assumes p: "stream_ok p" and q: "\<And>x. stream_ok (q x)"
  shows "stream_ok (\<lambda>input. rbind (p input) (\<lambda>(rest, x). q x rest))"
proof (rule stream_okI)
  fix xs ys assume ne: "rbind (p xs) (\<lambda>(rest, x). q x rest) \<noteq> Err Incomplete"
  then have "p xs \<noteq> Err Incomplete" by auto
  note f = stream_feed [OF p this, of ys]
  show "rbind (p (xs @ ys)) (\<lambda>(rest, x). q x rest) = feed ys (rbind (p xs) (\<lambda>(rest, x). q x rest))"
    using ne f by (cases xs rule: stream_result [OF p]) (auto intro: stream_feed [OF q])
next
  fix xs rest y assume "rbind (p xs) (\<lambda>(rest, x). q x rest) = Ok (rest, y)"
  then obtain r x where "p xs = Ok (r, x)" "q x r = Ok (rest, y)" by (auto simp: res_simps)
  then show "suffix rest xs"
    using stream_suffix [OF p] stream_suffix [OF q] suffix_order.trans by blast
next
  fix xs
  show "rbind (p xs) (\<lambda>(rest, x). q x rest) \<noteq> Err NomLoop"
    using q p by (cases xs rule: stream_result [OF p]) (auto simp: stream_ok_def)
  show "rbind (p xs) (\<lambda>(rest, x). q x rest) \<noteq> Panic"
    using q p by (cases xs rule: stream_result [OF p]) (auto simp: stream_ok_def)
qed

lemma stream_tag [stream_intros]: "stream_ok (s_tag t)"
proof (rule stream_okI)
  fix xs ys assume ne: "s_tag t xs \<noteq> Err Incomplete"
  show "s_tag t (xs @ ys) = feed ys (s_tag t xs)"
  proof (cases "take (length t) xs = t")
    case True
    then have "length t \<le> length xs" by (metis length_take min.cobounded1 take_all_iff min_def nle_le)
    with True show ?thesis by (simp add: s_tag_def)
  next
    case False
    with ne have no: "take (length xs) t \<noteq> xs" by (auto simp: s_tag_def)
    have "take (length t) (xs @ ys) \<noteq> t"
    proof
      assume eq: "take (length t) (xs @ ys) = t"
      show False
      proof (cases "length t \<le> length xs")
        case True
        with eq False show False by simp
      next
        case False
        then have "take (length xs) (take (length t) (xs @ ys)) = xs" by simp
        with eq no show False by simp
      qed
    qed
    moreover have "take (length (xs @ ys)) t \<noteq> xs @ ys"
    proof
      assume "take (length (xs @ ys)) t = xs @ ys"
      then have "take (length xs) (take (length (xs @ ys)) t) = xs" by simp
      with no show False by simp
    qed
    ultimately show ?thesis using False no by (simp add: s_tag_def)
  qed
next
  fix xs rest x assume "s_tag t xs = Ok (rest, x)"
  then show "suffix rest xs" by (auto simp: s_tag_def suffix_drop split: if_splits)
qed (auto simp: s_tag_def)

lemma stream_split1 [stream_intros]: "stream_ok (s_split1 code P)"
proof (rule stream_okI)
  fix xs ys assume "s_split1 code P xs \<noteq> Err Incomplete"
  then obtain b bs where d: "dropWhile P xs = b # bs" by (cases "dropWhile P xs") (auto simp: s_split1_def)
  then have "\<exists>x \<in> set xs. \<not> P x" by (metis dropWhile_eq_Nil_conv list.distinct(1))
  then have "dropWhile P (xs @ ys) = dropWhile P xs @ ys" "takeWhile P (xs @ ys) = takeWhile P xs"
    by (auto simp: dropWhile_append1 takeWhile_append1)
  with d show "s_split1 code P (xs @ ys) = feed ys (s_split1 code P xs)" by (simp add: s_split1_def)
next
  fix xs rest x assume "s_split1 code P xs = Ok (rest, x)"
  then have "rest = dropWhile P xs" by (auto simp: s_split1_def split: list.splits if_splits)
  then show "suffix rest xs" by (simp add: suffix_dropWhile)
qed (auto simp: s_split1_def split: list.splits)

lemma find_sub_bound: "find_sub t xs = Some i \<Longrightarrow> i + length t \<le> length xs"
proof (induction xs arbitrary: i)
  case Nil
  then show ?case by (auto split: if_splits)
next
  case (Cons x xs)
  show ?case
  proof (cases "take (length t) (x # xs) = t")
    case True
    then have "length t \<le> length (x # xs)" by (metis length_take min.cobounded1)
    with True Cons.prems show ?thesis by simp
  next
    case False
    with Cons show ?thesis by auto
  qed
qed

lemma find_sub_append: "t \<noteq> [] \<Longrightarrow> find_sub t xs = Some i \<Longrightarrow> find_sub t (xs @ ys) = Some i"
proof (induction xs arbitrary: i)
  case Nil
  then show ?case by simp
next
  case (Cons x xs)
  have "length t \<le> length (x # xs)" using find_sub_bound [OF Cons.prems(2)] by simp
  then have "take (length t) (x # xs @ ys) = take (length t) (x # xs)"
    by (metis append_Cons diff_is_0_eq take0 take_append append_Nil2)
  with Cons show ?case by (auto split: if_splits)
qed

lemma stream_take_until [stream_intros]:
  assumes "t \<noteq> []"
  shows "stream_ok (s_take_until t)"
proof (rule stream_okI)
  fix xs ys assume "s_take_until t xs \<noteq> Err Incomplete"
  then obtain i where i: "find_sub t xs = Some i" by (auto simp: s_take_until_def split: option.splits)
  then have "i \<le> length xs" using find_sub_bound by fastforce
  with i show "s_take_until t (xs @ ys) = feed ys (s_take_until t xs)"
    by (simp add: s_take_until_def find_sub_append [OF assms i])
qed (auto simp: s_take_until_def suffix_drop split: option.splits)

lemma stream_opt [stream_intros]:
  assumes p: "stream_ok p"
  shows "stream_ok (s_opt p)"
proof (rule stream_okI)
  fix xs ys assume ne: "s_opt p xs \<noteq> Err Incomplete"
  then have "p xs \<noteq> Err Incomplete" by (auto simp: s_opt_def)
  note f = stream_feed [OF p this, of ys]
  show "s_opt p (xs @ ys) = feed ys (s_opt p xs)"
    using ne f by (cases xs rule: stream_result [OF p]) (auto simp: s_opt_def)
next
  fix xs rest x assume "s_opt p xs = Ok (rest, x)"
  then show "suffix rest xs"
    using stream_suffix [OF p] by (cases xs rule: stream_result [OF p]) (auto simp: s_opt_def)
next
  fix xs
  show "s_opt p xs \<noteq> Err NomLoop" by (cases xs rule: stream_result [OF p]) (auto simp: s_opt_def)
  show "s_opt p xs \<noteq> Panic" by (cases xs rule: stream_result [OF p]) (auto simp: s_opt_def)
qed

lemma stream_map_res [stream_intros]:
  assumes p: "stream_ok p" and f: "\<And>x. f x \<noteq> Panic"
  shows "stream_ok (s_map_res p f)"
proof -
  have "stream_ok (\<lambda>rest. rmap (Pair rest) (map_err (\<lambda>_. NomError ''MapRes'') (f x)))" for x
    using f [of x] by (cases "f x") (auto intro!: stream_okI)
  then have "stream_ok (\<lambda>input. rbind (p input) (\<lambda>(rest, x). rmap (Pair rest) (map_err (\<lambda>_. NomError ''MapRes'') (f x))))"
    by (rule stream_bind [OF p])
  moreover have "s_map_res p f = (\<lambda>input. rbind (p input) (\<lambda>(rest, x). rmap (Pair rest) (map_err (\<lambda>_. NomError ''MapRes'') (f x))))"
    by (rule ext) (simp add: s_map_res_def)
  ultimately show ?thesis by simp
qed

lemma stream_orelse:
  assumes p: "stream_ok p" and q: "stream_ok q"
  shows "stream_ok (\<lambda>input. case p input of Err (NomError _) \<Rightarrow> q input | r \<Rightarrow> r)"
    (is "stream_ok ?r")
proof (rule stream_okI)
  fix xs ys assume ne: "?r xs \<noteq> Err Incomplete"
  then have "p xs \<noteq> Err Incomplete" by auto
  note f = stream_feed [OF p this, of ys]
  show "?r (xs @ ys) = feed ys (?r xs)"
    using ne f stream_feed [OF q] by (cases xs rule: stream_result [OF p]) auto
next
  fix xs rest x assume "?r xs = Ok (rest, x)"
  then show "suffix rest xs"
    using stream_suffix [OF p] stream_suffix [OF q] by (cases xs rule: stream_result [OF p]) auto
next
  fix xs
  show "?r xs \<noteq> Err NomLoop" using q by (cases xs rule: stream_result [OF p]) (auto simp: stream_ok_def)
  show "?r xs \<noteq> Panic" using q by (cases xs rule: stream_result [OF p]) (auto simp: stream_ok_def)
qed

lemma stream_alt [stream_intros]: "(\<And>p. p \<in> set ps \<Longrightarrow> stream_ok p) \<Longrightarrow> stream_ok (s_alt ps)"
proof (induction ps)
  case Nil
  have "s_alt [] = (\<lambda>input. Err (NomError ''Alt''))" by (rule ext) simp
  then show ?case by (auto intro!: stream_okI)
next
  case (Cons p ps)
  note ok = Cons.prems and IH = Cons.IH
  show ?case
  proof (cases "ps = []")
    case True
    then have "s_alt (p # ps) = p" by (intro ext) simp
    with ok show ?thesis by simp
  next
    case False
    then obtain q qs where "ps = q # qs" by (cases ps) auto
    then have "s_alt (p # ps) = (\<lambda>input. case p input of Err (NomError _) \<Rightarrow> s_alt ps input | r \<Rightarrow> r)"
      by (intro ext) (simp only: s_alt.simps)
    moreover have "stream_ok p" "stream_ok (s_alt ps)" using ok IH by simp_all
    ultimately show ?thesis by (simp only: stream_orelse)
  qed
qed

section \<open>The command parser\<close>

lemma nom_ok_iff: "nom_ok n \<longleftrightarrow> n = nom_streaming"
  by (auto simp: nom_ok_def nom_streaming_def)

lemmas streaming_fields = nom_streaming_def token_def

definition flag_token :: "bytes option parser" where
  "flag_token = s_opt (s_preceded (s_split1 ''Space'' space_byte) (s_split1 ''TakeWhile1'' token_byte))"

lemma stream_preceded [stream_intros]: "stream_ok p \<Longrightarrow> stream_ok q \<Longrightarrow> stream_ok (s_preceded p q)"
  unfolding s_preceded_def [abs_def] by (rule stream_bind)

lemma stream_flag_token: "stream_ok flag_token"
  unfolding flag_token_def by (intro stream_intros)

lemma split1_shorter: "s_split1 code P xs = Ok (rest, x) \<Longrightarrow> length rest < length xs \<and> x \<noteq> [] \<and> xs = x @ rest"
proof -
  assume "s_split1 code P xs = Ok (rest, x)"
  then have "rest = dropWhile P xs" "x = takeWhile P xs" "x \<noteq> []"
    by (auto simp: s_split1_def split: list.splits if_splits)
  moreover from this have "xs = x @ rest" by simp
  ultimately show ?thesis by (metis append_Nil le_add2 length_append length_greater_0_conv less_add_same_cancel2)
qed

lemma flag_token_shorter: "flag_token xs = Ok (rest, Some t) \<Longrightarrow> length rest < length xs"
  by (fastforce simp: flag_token_def s_opt_def s_preceded_def res_simps dest: split1_shorter
      split: res.splits nom_err.splits)

lemma flag_token_None: "flag_token xs = Ok (rest, None) \<Longrightarrow> rest = xs"
  by (auto simp: flag_token_def s_opt_def split: res.splits nom_err.splits)

lemma mg_flags_step:
  "mg_flags nom_streaming flags rest =
     rbind (flag_token rest) (\<lambda>(r, t). case t of None \<Rightarrow> Ok (rest, flags)
       | Some tok \<Rightarrow> mg_flags nom_streaming (set_flag tok flags) r)"
proof -
  have "mg_flags nom_streaming flags rest = rbind (flag_token rest) (\<lambda>(r, t). case t of None \<Rightarrow> Ok (rest, flags)
       | Some tok \<Rightarrow> if length r < length rest then mg_flags nom_streaming (set_flag tok flags) r else Err NomLoop)"
    by (subst mg_flags.simps) (simp add: streaming_fields flag_token_def)
  also have "\<dots> = rbind (flag_token rest) (\<lambda>(r, t). case t of None \<Rightarrow> Ok (rest, flags)
       | Some tok \<Rightarrow> mg_flags nom_streaming (set_flag tok flags) r)"
    by (rule rbind_cong) (auto split: option.splits dest: flag_token_shorter)
  finally show ?thesis .
qed

lemma mg_flags_feed:
  "mg_flags nom_streaming flags xs \<noteq> Err Incomplete \<Longrightarrow>
   mg_flags nom_streaming flags (xs @ ys) = feed ys (mg_flags nom_streaming flags xs)"
proof (induction xs arbitrary: flags rule: length_induct)
  case (1 xs)
  have "flag_token xs \<noteq> Err Incomplete" using "1.prems" by (auto simp: mg_flags_step [of flags xs])
  note f = stream_feed [OF stream_flag_token this, of ys]
  show ?case
  proof (cases rule: stream_result [OF stream_flag_token, of xs, case_names Done More Bad Fail])
    case (Done rest t)
    show ?thesis
    proof (cases t)
      case None
      with Done f show ?thesis by (simp add: mg_flags_step [of flags])
    next
      case (Some tok)
      with Done have "length rest < length xs" by (auto dest: flag_token_shorter)
      moreover have "mg_flags nom_streaming (set_flag tok flags) rest \<noteq> Err Incomplete"
        using "1.prems" Done Some by (simp add: mg_flags_step [of flags xs])
      ultimately have "mg_flags nom_streaming (set_flag tok flags) (rest @ ys) =
          feed ys (mg_flags nom_streaming (set_flag tok flags) rest)" using "1.IH" by blast
      with Done Some f show ?thesis by (simp add: mg_flags_step [of flags])
    qed
  qed (use f \<open>flag_token xs \<noteq> Err Incomplete\<close> in \<open>simp_all add: mg_flags_step [of flags]\<close>)
qed

lemma mg_flags_result:
  "(mg_flags nom_streaming flags xs = Ok (rest, f) \<longrightarrow> suffix rest xs) \<and>
   mg_flags nom_streaming flags xs \<noteq> Err NomLoop \<and> mg_flags nom_streaming flags xs \<noteq> Panic"
proof (induction xs arbitrary: flags rule: length_induct)
  case (1 xs)
  show ?case
  proof (cases rule: stream_result [OF stream_flag_token, of xs, case_names Done More Bad Fail])
    case (Done r t)
    show ?thesis
    proof (cases t)
      case None
      with Done show ?thesis by (simp add: mg_flags_step [of flags])
    next
      case (Some tok)
      with Done have "length r < length xs" by (auto dest: flag_token_shorter)
      note IH = "1.IH" [rule_format, OF this, of "set_flag tok flags"]
      have "suffix r xs" using Done by (rule stream_suffix [OF stream_flag_token])
      with IH Done Some show ?thesis
        by (auto simp: mg_flags_step [of flags] intro: suffix_order.trans)
    qed
  qed (simp_all add: mg_flags_step [of flags])
qed

lemma stream_mg_flags [stream_intros]: "stream_ok (mg_flags nom_streaming flags)"
  using mg_flags_feed mg_flags_result by (intro stream_okI) blast+

lemma stream_crlf [stream_intros]: "stream_ok (crlf nom_streaming)"
  unfolding crlf_def [abs_def] streaming_fields nom_lib.simps by (intro stream_intros)

lemma CRLF_not_Nil [simp]: "CRLF \<noteq> []"
  by (simp add: CRLF_def)

lemma stream_fields [stream_intros]:
  "stream_ok (token nom_streaming)" "stream_ok (nom_space1 nom_streaming)" "stream_ok (nom_tag nom_streaming t)"
  "stream_ok (nom_take_until nom_streaming CRLF)"
  by (simp_all add: streaming_fields stream_split1 stream_tag stream_take_until)

lemma stream_number [stream_intros]:
  "stream_ok (nom_map_res_usize nom_streaming
      (nom_map_res_str nom_streaming (nom_digit1 nom_streaming) (from_utf8 ())) parse_usize)"
  unfolding nom_streaming_def nom_lib.simps
  by (intro stream_intros) (auto simp: from_utf8_def parse_usize_def Let_def)

lemma stream_alt_tag [stream_intros]:
  "stream_ok (nom_alt_tag nom_streaming [nom_tag nom_streaming t, nom_tag nom_streaming u])"
  unfolding nom_streaming_def nom_lib.simps by (intro stream_intros) (auto intro: stream_intros)

lemma stream_parsers [stream_intros]:
  "stream_ok (parse_mg nom_streaming)" "stream_ok (parse_version nom_streaming)"
  "stream_ok (parse_quit nom_streaming)" "stream_ok (parse_ms nom_streaming)"
  "stream_ok (parse_md_ma nom_streaming)"
  unfolding parse_mg_def [abs_def] parse_version_def [abs_def] parse_quit_def [abs_def]
    parse_ms_def [abs_def] parse_md_ma_def [abs_def]
  by (intro stream_intros)+

lemma nom_parse_alt:
  "nom_parse nom_streaming = s_alt [parse_mg nom_streaming, parse_version nom_streaming,
     parse_quit nom_streaming, parse_ms nom_streaming, parse_md_ma nom_streaming]"
  by (simp add: nom_parse_def nom_streaming_def)

lemma stream_nom_parse: "stream_ok (nom_parse nom_streaming)"
  unfolding nom_parse_alt by (rule stream_alt) (auto intro: stream_parsers)

section \<open>Progress\<close>

text \<open>Every command consumes at least one byte.\<close>

definition strict :: "'o parser \<Rightarrow> bool" where
  "strict p \<longleftrightarrow> (\<forall>xs rest x. p xs = Ok (rest, x) \<longrightarrow> length rest < length xs)"

lemma strict_bind:
  assumes "strict p" and "\<And>x. stream_ok (q x)"
  shows "strict (\<lambda>input. rbind (p input) (\<lambda>(rest, x). q x rest))"
  using assms stream_suffix suffix_length_le unfolding strict_def
  by (fastforce simp: res_simps)

lemma strict_tag: "t \<noteq> [] \<Longrightarrow> strict (s_tag t)"
  by (auto simp: strict_def s_tag_def split: if_splits)
    (metis append_take_drop_id length_drop diff_less length_greater_0_conv take_eq_Nil)

lemma strict_alt: "(\<And>p. p \<in> set ps \<Longrightarrow> strict p) \<Longrightarrow> strict (s_alt ps)"
proof (induction ps)
  case Nil
  then show ?case by (simp add: strict_def)
next
  case (Cons p ps)
  then have "strict p" "strict (s_alt ps)" by simp_all
  then show ?case
    by (cases ps) (auto simp: strict_def split: res.splits nom_err.splits)
qed

lemma strict_literal: "strict (nom_tag nom_streaming (ascii (c # s)))"
  by (simp add: nom_streaming_def strict_tag ascii_def)

lemma strict_alt_tag:
  "strict (nom_alt_tag nom_streaming [nom_tag nom_streaming (ascii (c # s)), nom_tag nom_streaming (ascii (d # t))])"
  using strict_alt [of "[nom_tag nom_streaming (ascii (c # s)), nom_tag nom_streaming (ascii (d # t))]"] strict_literal
  by (auto simp: nom_streaming_def)

lemma strict_parsers:
  "strict (parse_mg nom_streaming)" "strict (parse_version nom_streaming)" "strict (parse_quit nom_streaming)"
  "strict (parse_ms nom_streaming)" "strict (parse_md_ma nom_streaming)"
  unfolding parse_mg_def [abs_def] parse_version_def [abs_def] parse_quit_def [abs_def]
    parse_ms_def [abs_def] parse_md_ma_def [abs_def]
  by (rule strict_bind, rule strict_literal strict_alt_tag, intro stream_intros)+

lemma strict_nom_parse: "strict (nom_parse nom_streaming)"
  unfolding nom_parse_alt by (rule strict_alt) (auto intro: strict_parsers)

section \<open>Parsing a growing buffer\<close>

lemma parse_command_Some:
  assumes "parse_command nom_streaming xs = (Ok (Some cmd), rest)"
  shows "parse_command nom_streaming (xs @ ys) = (Ok (Some cmd), rest @ ys)" and "length rest < length xs"
proof -
  obtain r where r: "nom_parse nom_streaming xs = Ok (r, cmd)" and rest: "rest = drop (length xs - length r) xs"
    using assms by (auto simp: parse_command_def Let_def split: res.splits nom_err.splits prod.splits)
  obtain u where u: "xs = u @ r" using stream_suffix [OF stream_nom_parse r] by (auto simp: suffix_def)
  have "nom_parse nom_streaming (xs @ ys) = Ok (r @ ys, cmd)" using stream_feed [OF stream_nom_parse, of xs ys] r by simp
  then show "parse_command nom_streaming (xs @ ys) = (Ok (Some cmd), rest @ ys)"
    using u rest by (simp add: parse_command_def Let_def)
  have "length r < length xs" using strict_nom_parse r unfolding strict_def by blast
  then show "length rest < length xs" using rest u by simp
qed

lemma parse_command_Err:
  assumes "parse_command nom_streaming xs = (Err e, rest)"
  shows "parse_command nom_streaming (xs @ ys) = (Err e, xs @ ys)" and "rest = xs"
  using assms stream_feed [OF stream_nom_parse, of xs ys]
  by (auto simp: parse_command_def Let_def split: res.splits nom_err.splits prod.splits)

lemma parse_command_cases:
  obtains (More) "parse_command nom_streaming xs = (Ok None, xs)"
    | (Bad) e where "parse_command nom_streaming xs = (Err e, xs)"
    | (Command) cmd rest where "parse_command nom_streaming xs = (Ok (Some cmd), rest)"
  using stream_nom_parse
  by (cases rule: stream_result [OF stream_nom_parse, of xs, case_names Done More Bad Fail])
    (auto simp: parse_command_def Let_def)

end
