(* ===== verification/Server_Connection.thy ===== *)
theory Server_Connection
  imports Server_Stream
begin

text \<open>
  The connection handler (\<open>mcfreeze-server/src/listener.rs\<close>).  A socket is the list of what its reads
  deliver (an exhausted list is end of file), the bytes written to the peer, and how many bytes the
  peer takes before a write fails.  \<open>Idle\<close> stands for a pause of the client longer than the idle timeout,
  \<open>Silent\<close> for a client that keeps the connection open and never sends again: a read that has no timeout then waits
  for ever.  A handler that never returns is \<open>None\<close>; its loops are \<open>partial_function\<close>s.
\<close>

section \<open>Sockets\<close>

datatype read_event = Got bytes | ReadError | Idle | Silent

record Socket =
  so_reads :: "read_event list"
  so_out :: bytes
  so_limit :: "nat option"

fun next_read :: "read_event list \<Rightarrow> read_event \<times> read_event list" where
  "next_read [] = (Got [], [])"
| "next_read (e # es) = (e, es)"

definition write_all :: "bytes \<Rightarrow> Socket \<Rightarrow> bool \<times> Socket" where
  "write_all bs so =
     (case so_limit so of
        None \<Rightarrow> (True, so\<lparr>so_out := so_out so @ bs\<rparr>)
      | Some m \<Rightarrow>
          if length (so_out so @ bs) \<le> m then (True, so\<lparr>so_out := so_out so @ bs\<rparr>)
          else (False, so\<lparr>so_out := take m (so_out so @ bs)\<rparr>))"

record 's Connection =
  cn_sock :: Socket
  cn_read_buf :: bytes
  cn_write_buf :: bytes
  cn_lookup :: 's
  cn_log :: "metric list"

section \<open>Drain\<close>

text \<open>The read of the loop has no timeout: a pause is waited out, and a silent client is waited for without end.\<close>

fun drain_loop :: "nat \<Rightarrow> bytes \<Rightarrow> read_event list \<Rightarrow> (bool \<times> bytes \<times> read_event list) option" where
  "drain_loop n buf [] = Some (if length buf < n then (False, buf, []) else (True, drop n buf, []))"
| "drain_loop n buf (e # es) =
     (if length buf < n then
        (case e of
           Got bs \<Rightarrow> if bs = [] then Some (False, buf, es) else drain_loop n (buf @ bs) es
         | ReadError \<Rightarrow> Some (False, buf, es)
         | Idle \<Rightarrow> drain_loop n buf es
         | Silent \<Rightarrow> None)
      else Some (True, drop n buf, e # es))"

definition drain :: "u64 \<Rightarrow> 's Connection \<Rightarrow> (bool \<times> 's Connection) option" where
  "drain n c =
     map_option (\<lambda>(ok, buf, reads). (ok, c\<lparr>cn_read_buf := buf, cn_sock := (cn_sock c)\<lparr>so_reads := reads\<rparr>\<rparr>))
       (drain_loop (unat n) (cn_read_buf c) (so_reads (cn_sock c)))"

section \<open>Connection loop\<close>

text \<open>How the inner loop ends: out of complete commands, or leaving the connection (\<open>break 'outer\<close>).\<close>

datatype verdict = NeedMore | Leave

definition flush_ignored :: "'s Connection \<Rightarrow> 's Connection" where
  "flush_ignored c = c\<lparr>cn_sock := snd (write_all (cn_write_buf c) (cn_sock c))\<rparr>"

definition ERROR_LINE :: bytes where
  "ERROR_LINE = ascii ''ERROR'' @ CRLF"

partial_function (option) pipeline ::
    "nom_lib \<Rightarrow> 's lookup \<Rightarrow> bytes \<Rightarrow> u64 \<Rightarrow> 's Connection \<Rightarrow> (verdict \<times> 's Connection) option" where
  "pipeline n lookup semver gen c =
     (case parse_command n (cn_read_buf c) of (r, buf) \<Rightarrow>
      (case r of
         Panic \<Rightarrow> None
       | Err e \<Rightarrow> Some (Leave, flush_ignored (c\<lparr>cn_write_buf := cn_write_buf c @ ERROR_LINE\<rparr>))
       | Ok None \<Rightarrow> Some (NeedMore, c)
       | Ok (Some cmd) \<Rightarrow>
           (case dispatch lookup semver gen cmd (cn_write_buf c) (cn_lookup c) of (d, dst, ev, s) \<Rightarrow>
            (let c' = c\<lparr>cn_read_buf := buf, cn_write_buf := dst, cn_lookup := s, cn_log := cn_log c @ ev\<rparr> in
             (case d of
                Continue \<Rightarrow> pipeline n lookup semver gen c'
              | Close \<Rightarrow> Some (Leave, flush_ignored c')
              | Drain k \<Rightarrow>
                  Option.bind (drain k c') (\<lambda>oc.
                    (case oc of (ok, c'') \<Rightarrow>
                       if ok then pipeline n lookup semver gen c'' else Some (Leave, c''))))))))"

partial_function (option) connection_loop ::
    "nom_lib \<Rightarrow> 's lookup \<Rightarrow> bytes \<Rightarrow> u64 \<Rightarrow> bool \<Rightarrow> 's Connection \<Rightarrow> 's Connection option" where
  "connection_loop n lookup semver gen idle_timeout c =
     (case next_read (so_reads (cn_sock c)) of (e, es) \<Rightarrow>
      (let c = c\<lparr>cn_sock := (cn_sock c)\<lparr>so_reads := es\<rparr>\<rparr> in
       (case e of
          ReadError \<Rightarrow> Some c
        | Idle \<Rightarrow> if idle_timeout then Some c else connection_loop n lookup semver gen idle_timeout c
        | Silent \<Rightarrow> if idle_timeout then Some c else None
        | Got bs \<Rightarrow>
            if bs = [] then Some c
            else Option.bind (pipeline n lookup semver gen (c\<lparr>cn_read_buf := cn_read_buf c @ bs\<rparr>)) (\<lambda>vc.
              (case vc of (v, c') \<Rightarrow>
                (case v of
                   Leave \<Rightarrow> Some c'
                 | NeedMore \<Rightarrow>
                     if cn_write_buf c' = [] then connection_loop n lookup semver gen idle_timeout c'
                     else (case write_all (cn_write_buf c') (cn_sock c') of (ok, so) \<Rightarrow>
                       if ok then connection_loop n lookup semver gen idle_timeout (c'\<lparr>cn_sock := so, cn_write_buf := []\<rparr>)
                       else Some (c'\<lparr>cn_sock := so\<rparr>))))))))"

definition handle_connection ::
    "nom_lib \<Rightarrow> 's lookup \<Rightarrow> 's \<Rightarrow> bytes \<Rightarrow> u64 \<Rightarrow> string \<Rightarrow> bool \<Rightarrow> Socket \<Rightarrow> 's Connection option" where
  "handle_connection n lookup s semver gen transport idle_timeout so =
     map_option (\<lambda>c. c\<lparr>cn_log := cn_log c @ [ConnectionsActiveDec transport]\<rparr>)
       (connection_loop n lookup semver gen idle_timeout
          \<lparr>cn_sock = so, cn_read_buf = [], cn_write_buf = [], cn_lookup = s,
           cn_log = [ConnectionsTotal transport, ConnectionsActiveInc transport]\<rparr>)"

section \<open>The specification of a connection\<close>

text \<open>
  What a connection means, on the whole byte stream of the client: \<open>serves s xs out s' full\<close> says
  that the stream \<open>xs\<close> is answered with \<open>out\<close>; \<open>full\<close> is false when the stream ends inside the
  body of a write command.
\<close>

inductive serves ::
    "nom_lib \<Rightarrow> 's lookup \<Rightarrow> bytes \<Rightarrow> u64 \<Rightarrow> 's \<Rightarrow> bytes \<Rightarrow> bytes \<Rightarrow> 's \<Rightarrow> bool \<Rightarrow> bool"
  for n lookup semver gen where
  waiting: "serves n lookup semver gen s xs [] s True"
    if "parse_command n xs = (Ok None, xs)"
| malformed: "serves n lookup semver gen s xs ERROR_LINE s True"
    if "parse_command n xs = (Err e, xs)"
| answered: "serves n lookup semver gen s xs (out @ outs) s'' full"
    if "parse_command n xs = (Ok (Some cmd), rest)"
      and "dispatch lookup semver gen cmd [] s = (Continue, out, ev, s')"
      and "serves n lookup semver gen s' rest outs s'' full"
| closed: "serves n lookup semver gen s xs out s' True"
    if "parse_command n xs = (Ok (Some cmd), rest)"
      and "dispatch lookup semver gen cmd [] s = (Close, out, ev, s')"
| skipped: "serves n lookup semver gen s xs (out @ outs) s'' full"
    if "parse_command n xs = (Ok (Some cmd), rest)"
      and "dispatch lookup semver gen cmd [] s = (Drain k, out, ev, s')"
      and "unat k \<le> length rest"
      and "serves n lookup semver gen s' (drop (unat k) rest) outs s'' full"
| truncated: "serves n lookup semver gen s xs out s' False"
    if "parse_command n xs = (Ok (Some cmd), rest)"
      and "dispatch lookup semver gen cmd [] s = (Drain k, out, ev, s')"
      and "length rest < unat k"

section \<open>The handler implements the specification\<close>

lemma dispatch_dst:
  "dispatch lookup semver gen cmd dst s =
     (let (d, out, ev, s') = dispatch lookup semver gen cmd [] s in (d, dst @ out, ev, s'))"
  by (auto simp: dispatch_def dispatch_mg_def write_va_def write_en_def write_server_error_def write_version_def
      split: Command.splits prod.splits res.splits LookupOutcome.splits bool.splits)

definition after_batch ::
    "nom_lib \<Rightarrow> 's lookup \<Rightarrow> bytes \<Rightarrow> u64 \<Rightarrow> bool \<Rightarrow> verdict \<times> 's Connection \<Rightarrow> 's Connection option" where
  "after_batch n lookup semver gen idle vc =
     (case vc of (v, c') \<Rightarrow>
       (case v of
          Leave \<Rightarrow> Some c'
        | NeedMore \<Rightarrow>
            if cn_write_buf c' = [] then connection_loop n lookup semver gen idle c'
            else (case write_all (cn_write_buf c') (cn_sock c') of (ok, so) \<Rightarrow>
              if ok then connection_loop n lookup semver gen idle (c'\<lparr>cn_sock := so, cn_write_buf := []\<rparr>)
              else Some (c'\<lparr>cn_sock := so\<rparr>))))"

definition batch_run ::
    "nom_lib \<Rightarrow> 's lookup \<Rightarrow> bytes \<Rightarrow> u64 \<Rightarrow> bool \<Rightarrow> 's Connection \<Rightarrow> 's Connection option" where
  "batch_run n lookup semver gen idle c =
     Option.bind (pipeline n lookup semver gen c) (after_batch n lookup semver gen idle)"

lemma connection_loop_step:
  "connection_loop n lookup semver gen idle c =
     (let (e, es) = next_read (so_reads (cn_sock c)); c = c\<lparr>cn_sock := (cn_sock c)\<lparr>so_reads := es\<rparr>\<rparr> in
      case e of
        ReadError \<Rightarrow> Some c
      | Idle \<Rightarrow> if idle then Some c else connection_loop n lookup semver gen idle c
      | Silent \<Rightarrow> if idle then Some c else None
      | Got bs \<Rightarrow> if bs = [] then Some c
          else batch_run n lookup semver gen idle (c\<lparr>cn_read_buf := cn_read_buf c @ bs\<rparr>))"
  by (subst connection_loop.simps)
    (simp add: batch_run_def after_batch_def [abs_def] Let_def split: prod.split read_event.split)

text \<open>
  A connection fed by chunks, and then by silence (\<open>sil\<close>) or the end of the stream: what is written or
  waits to be written, and what is still to be parsed.
\<close>

abbreviation chunked :: "bool \<Rightarrow> bytes list \<Rightarrow> read_event list" where
  "chunked sil cs \<equiv> map Got cs @ (if sil then [Silent] else [])"

definition fed :: "bool \<Rightarrow> 's Connection \<Rightarrow> bytes \<Rightarrow> bytes \<Rightarrow> 's \<Rightarrow> bool" where
  "fed sil c out xs s \<longleftrightarrow>
     (\<exists>cs. so_reads (cn_sock c) = chunked sil cs \<and> [] \<notin> set cs \<and> xs = cn_read_buf c @ concat cs) \<and>
     so_limit (cn_sock c) = None \<and> so_out (cn_sock c) @ cn_write_buf c = out \<and> cn_lookup c = s"

lemma after_batch_NeedMore:
  assumes "so_limit (cn_sock c) = None"
  shows "after_batch n lookup semver gen idle (NeedMore, c) =
    connection_loop n lookup semver gen idle (c\<lparr>cn_sock := (cn_sock c)\<lparr>so_out := so_out (cn_sock c) @ cn_write_buf c\<rparr>, cn_write_buf := []\<rparr>)"
proof (cases "cn_write_buf c = []")
  case True
  then have eq: "c\<lparr>cn_sock := (cn_sock c)\<lparr>so_out := so_out (cn_sock c) @ cn_write_buf c\<rparr>, cn_write_buf := []\<rparr> = c"
    by (cases c) simp
  show ?thesis unfolding eq using True by (simp add: after_batch_def)
next
  case False
  with assms show ?thesis by (simp add: after_batch_def write_all_def)
qed

lemma map_Got_inject [simp]: "map Got cs = map Got ds \<longleftrightarrow> cs = ds"
  by (rule inj_map_eq_map) (simp add: inj_def)

text \<open>An incomplete buffer is flushed and filled with the next chunk, until a verdict is possible.\<close>

lemma batch_run_fill:
  assumes "fed sil c out xs s" and idle: "sil \<longrightarrow> idle"
  shows "(parse_command nom_streaming xs = (Ok None, xs) \<and>
      (\<exists>c'. batch_run nom_streaming lookup semver gen idle c = Some c' \<and> so_out (cn_sock c') = out \<and> cn_lookup c' = s)) \<or>
    (\<exists>c'. batch_run nom_streaming lookup semver gen idle c = batch_run nom_streaming lookup semver gen idle c' \<and>
      fed sil c' out xs s \<and> parse_command nom_streaming (cn_read_buf c') \<noteq> (Ok None, cn_read_buf c'))"
proof -
  obtain cs where "so_reads (cn_sock c) = chunked sil cs" "[] \<notin> set cs" using assms(1) by (auto simp: fed_def)
  then show ?thesis using assms(1)
  proof (induction cs arbitrary: c)
    case Nil
    then have xs: "xs = cn_read_buf c" by (auto simp: fed_def split: if_splits)
    show ?case
    proof (cases "parse_command nom_streaming (cn_read_buf c) = (Ok None, cn_read_buf c)")
      case True
      then have "pipeline nom_streaming lookup semver gen c = Some (NeedMore, c)"
        by (subst pipeline.simps) simp
      then have "batch_run nom_streaming lookup semver gen idle c = Some (c\<lparr>cn_sock :=
          (cn_sock c)\<lparr>so_reads := [], so_out := so_out (cn_sock c) @ cn_write_buf c\<rparr>, cn_write_buf := []\<rparr>)"
        using Nil idle by (simp add: batch_run_def after_batch_NeedMore connection_loop_step fed_def split: if_splits)
      then show ?thesis using Nil True xs by (auto simp: fed_def)
    next
      case False
      then show ?thesis using Nil by blast
    qed
  next
    case (Cons ch cs)
    show ?case
    proof (cases "parse_command nom_streaming (cn_read_buf c) = (Ok None, cn_read_buf c)")
      case True
      let ?c = "c\<lparr>cn_sock := (cn_sock c)\<lparr>so_reads := chunked sil cs, so_out := so_out (cn_sock c) @ cn_write_buf c\<rparr>,
        cn_read_buf := cn_read_buf c @ ch, cn_write_buf := []\<rparr>"
      have "pipeline nom_streaming lookup semver gen c = Some (NeedMore, c)"
        using True by (subst pipeline.simps) simp
      then have "batch_run nom_streaming lookup semver gen idle c = connection_loop nom_streaming lookup semver gen idle
          (c\<lparr>cn_sock := (cn_sock c)\<lparr>so_out := so_out (cn_sock c) @ cn_write_buf c\<rparr>, cn_write_buf := []\<rparr>)"
        using Cons.prems by (simp add: batch_run_def [of _ _ _ _ _ c] after_batch_NeedMore fed_def)
      also have "\<dots> = batch_run nom_streaming lookup semver gen idle ?c"
        using Cons.prems(1,2) by (subst connection_loop_step, cases c, cases "cn_sock c") auto
      finally have run: "batch_run nom_streaming lookup semver gen idle c = batch_run nom_streaming lookup semver gen idle ?c" .
      have "xs = cn_read_buf c @ ch @ concat cs" using Cons.prems by (auto simp: fed_def dest!: map_eq_Cons_D split: if_splits)
      then have "fed sil ?c out xs s" using Cons.prems by (auto simp: fed_def)
      from Cons.IH [of ?c, OF _ _ this] Cons.prems show ?thesis unfolding run by simp
    next
      case False
      then show ?thesis using Cons.prems by blast
    qed
  qed
qed

lemma drain_loop_chunks:
  assumes "[] \<notin> set cs"
  shows "if k \<le> length (buf @ concat cs)
    then \<exists>buf' cs'. drain_loop k buf (chunked sil cs) = Some (True, buf', chunked sil cs') \<and> [] \<notin> set cs' \<and>
      buf' @ concat cs' = drop k (buf @ concat cs)
    else if sil then drain_loop k buf (chunked sil cs) = None
    else \<exists>buf' reads'. drain_loop k buf (chunked sil cs) = Some (False, buf', reads')"
  using assms
proof (induction cs arbitrary: buf)
  case Nil
  then show ?case by (auto intro!: exI [of _ "[]"])
next
  case (Cons ch cs)
  show ?case
  proof (cases "length buf < k")
    case True
    then have eq: "drain_loop k buf (chunked sil (ch # cs)) = drain_loop k (buf @ ch) (chunked sil cs)" using Cons.prems by auto
    have "[] \<notin> set cs" using Cons.prems by simp
    from Cons.IH [OF this, of "buf @ ch"] show ?thesis unfolding eq by (simp only: append.assoc concat.simps)
  next
    case False
    then have "drain_loop k buf (chunked sil (ch # cs)) = Some (True, drop k buf, chunked sil (ch # cs))" by simp
    then show ?thesis using False Cons.prems(1) by (auto intro!: exI [of _ "ch # cs"] simp del: drain_loop.simps)
  qed
qed

lemma pipeline_Command:
  assumes "parse_command n (cn_read_buf c) = (Ok (Some cmd), buf)"
    and "dispatch lookup semver gen cmd [] (cn_lookup c) = (d, out, ev, s)"
    and "c' = c\<lparr>cn_read_buf := buf, cn_write_buf := cn_write_buf c @ out, cn_lookup := s, cn_log := cn_log c @ ev\<rparr>"
  shows "pipeline n lookup semver gen c =
    (case d of
       Continue \<Rightarrow> pipeline n lookup semver gen c'
     | Close \<Rightarrow> Some (Leave, flush_ignored c')
     | Drain k \<Rightarrow> Option.bind (drain k c') (\<lambda>(ok, c''). if ok then pipeline n lookup semver gen c'' else Some (Leave, c'')))"
  unfolding assms(3) using assms(1,2)
  by (subst pipeline.simps) (simp add: dispatch_dst [of _ _ _ _ "cn_write_buf c"] Let_def)

lemma fed_command:
  assumes "fed sil c out xs s" and "parse_command nom_streaming xs = (Ok (Some cmd), rest)"
    and "parse_command nom_streaming (cn_read_buf c) \<noteq> (Ok None, cn_read_buf c)"
  obtains buf where "parse_command nom_streaming (cn_read_buf c) = (Ok (Some cmd), buf)"
    and "\<And>new s' ev. fed sil (c\<lparr>cn_read_buf := buf, cn_write_buf := cn_write_buf c @ new, cn_lookup := s', cn_log := cn_log c @ ev\<rparr>)
           (out @ new) rest s'"
proof -
  obtain cs where cs: "so_reads (cn_sock c) = chunked sil cs" "[] \<notin> set cs" "xs = cn_read_buf c @ concat cs"
    using assms(1) by (auto simp: fed_def)
  show thesis
  proof (cases rule: parse_command_cases [of "cn_read_buf c", case_names More Bad Command])
    case More
    with assms(3) show thesis by simp
  next
    case (Bad e)
    with parse_command_Err(1) [OF Bad, of "concat cs"] assms(2) cs(3) show thesis by simp
  next
    case (Command cmd' buf)
    from parse_command_Some(1) [OF this, of "concat cs"] assms(2) cs(3)
    have "cmd' = cmd" "rest = buf @ concat cs" by simp_all
    with Command assms(1) cs show thesis by (intro that [of buf]) (auto simp: fed_def)
  qed
qed

lemma bind_drain:
  "Option.bind m (\<lambda>y. Option.bind (case y of (ok, c') \<Rightarrow> if ok then pipeline n lookup semver gen c' else Some (Leave, c'))
      (after_batch n lookup semver gen idle)) =
   Option.bind m (\<lambda>(ok, c'). if ok then batch_run n lookup semver gen idle c' else Some c')"
  by (cases m) (auto simp: batch_run_def after_batch_def)

lemma batch_run_waiting:
  assumes "fed sil c out xs s" and "sil \<longrightarrow> idle" and "parse_command nom_streaming xs = (Ok None, xs)"
  obtains c' where "batch_run nom_streaming lookup semver gen idle c = Some c'" "so_out (cn_sock c') = out" "cn_lookup c' = s"
proof -
  have "parse_command nom_streaming (cn_read_buf c') = (Ok None, cn_read_buf c')" if "fed sil c' out xs s" for c' :: "'a Connection"
    using that assms(3) parse_command_Some(1) [of "cn_read_buf c'"] parse_command_Err(1) [of "cn_read_buf c'"]
    by (cases rule: parse_command_cases [of "cn_read_buf c'"]) (auto simp: fed_def)
  then show thesis using that batch_run_fill [OF assms(1,2), of lookup semver gen] by blast
qed

lemma batch_run_command:
  assumes "fed sil c out xs s" and "sil \<longrightarrow> idle" and "parse_command nom_streaming xs = (Ok (Some cmd), rest)"
    and "dispatch lookup semver gen cmd [] s = (d, new, ev, s')"
  obtains c' where "fed sil c' (out @ new) rest s'"
    and "batch_run nom_streaming lookup semver gen idle c =
      (case d of
         Continue \<Rightarrow> batch_run nom_streaming lookup semver gen idle c'
       | Close \<Rightarrow> Some (flush_ignored c')
       | Drain k \<Rightarrow> Option.bind (drain k c') (\<lambda>(ok, c'').
           if ok then batch_run nom_streaming lookup semver gen idle c'' else Some c''))"
proof -
  have "parse_command nom_streaming xs \<noteq> (Ok None, xs)" using assms(3) by simp
  then obtain c1 where c1: "batch_run nom_streaming lookup semver gen idle c = batch_run nom_streaming lookup semver gen idle c1"
    "fed sil c1 out xs s" "parse_command nom_streaming (cn_read_buf c1) \<noteq> (Ok None, cn_read_buf c1)"
    using batch_run_fill [OF assms(1,2), of lookup semver gen] by blast
  obtain buf where buf: "parse_command nom_streaming (cn_read_buf c1) = (Ok (Some cmd), buf)"
    and fed: "\<And>new s' ev. fed sil (c1\<lparr>cn_read_buf := buf, cn_write_buf := cn_write_buf c1 @ new, cn_lookup := s', cn_log := cn_log c1 @ ev\<rparr>)
           (out @ new) rest s'"
    using fed_command [OF c1(2) assms(3) c1(3)] by blast
  have "cn_lookup c1 = s" using c1(2) by (simp add: fed_def)
  with assms(4) have dis: "dispatch lookup semver gen cmd [] (cn_lookup c1) = (d, new, ev, s')" by simp
  show thesis
    by (rule that [OF fed [where new = new and s' = s' and ev = ev]])
      (subst c1(1), simp add: batch_run_def [of _ _ _ _ _ c1] pipeline_Command [OF buf dis refl] bind_drain split: Disposition.split,
        simp add: batch_run_def after_batch_def)
qed

lemma flush_fed: "fed sil c out xs s \<Longrightarrow> so_out (cn_sock (flush_ignored c)) = out \<and> cn_lookup (flush_ignored c) = s"
  by (auto simp: fed_def flush_ignored_def write_all_def)

lemma drain_fed:
  assumes "fed sil c out xs s"
  shows "unat k \<le> length xs \<Longrightarrow> \<exists>c'. drain k c = Some (True, c') \<and> fed sil c' out (drop (unat k) xs) s"
    and "length xs < unat k \<Longrightarrow> sil \<Longrightarrow> drain k c = None"
    and "length xs < unat k \<Longrightarrow> \<not> sil \<Longrightarrow>
      \<exists>c'. drain k c = Some (False, c') \<and> prefix (so_out (cn_sock c')) out \<and> cn_lookup c' = s"
proof -
  obtain cs where cs: "so_reads (cn_sock c) = chunked sil cs" "[] \<notin> set cs" "xs = cn_read_buf c @ concat cs"
    using assms by (auto simp: fed_def)
  note d = drain_loop_chunks [OF cs(2), of "unat k" "cn_read_buf c" sil, folded cs(1,3)]
  show "\<exists>c'. drain k c = Some (True, c') \<and> fed sil c' out (drop (unat k) xs) s" if "unat k \<le> length xs"
  proof -
    from d that obtain buf' cs' where "drain_loop (unat k) (cn_read_buf c) (so_reads (cn_sock c)) = Some (True, buf', chunked sil cs')"
      "[] \<notin> set cs'" "buf' @ concat cs' = drop (unat k) xs" by auto
    with assms show ?thesis unfolding drain_def fed_def by auto
  qed
  show "drain k c = None" if "length xs < unat k" sil using d that by (simp add: drain_def)
  show "\<exists>c'. drain k c = Some (False, c') \<and> prefix (so_out (cn_sock c')) out \<and> cn_lookup c' = s"
    if "length xs < unat k" "\<not> sil"
    using d that assms by (auto simp: drain_def fed_def)
qed

text \<open>
  The handler answers a stream as it is meant, and it returns, except when the client falls silent in a
  body that is to be drained.
\<close>

lemma serves_run:
  assumes "serves n lookup semver gen s xs outs s' full" and "n = nom_streaming" and "fed sil c out xs s" and "sil \<longrightarrow> idle"
  shows "if sil \<and> \<not> full then batch_run n lookup semver gen idle c = None
    else \<exists>c'. batch_run n lookup semver gen idle c = Some c' \<and> cn_lookup c' = s' \<and>
      prefix (so_out (cn_sock c')) (out @ outs) \<and> (full \<longrightarrow> so_out (cn_sock c') = out @ outs)"
  using assms
proof (induction arbitrary: c out rule: serves.induct)
  case (waiting xs s)
  then show ?case using batch_run_waiting [of sil c out xs s idle lookup semver gen] by auto
next
  case (malformed xs e s)
  have "parse_command nom_streaming xs \<noteq> (Ok None, xs)" using malformed by simp
  then obtain c1 where c1: "batch_run nom_streaming lookup semver gen idle c = batch_run nom_streaming lookup semver gen idle c1"
    "fed sil c1 out xs s" "parse_command nom_streaming (cn_read_buf c1) \<noteq> (Ok None, cn_read_buf c1)"
    using batch_run_fill [OF malformed(3,4), of lookup semver gen] by blast
  obtain cs where cs: "xs = cn_read_buf c1 @ concat cs" using c1(2) by (auto simp: fed_def)
  obtain e' where "parse_command nom_streaming (cn_read_buf c1) = (Err e', cn_read_buf c1)"
    using c1(3) malformed(1,2) cs parse_command_Some(1) [of "cn_read_buf c1" _ _ "concat cs"]
    by (cases rule: parse_command_cases [of "cn_read_buf c1"]) auto
  then have "pipeline nom_streaming lookup semver gen c1 =
      Some (Leave, flush_ignored (c1\<lparr>cn_write_buf := cn_write_buf c1 @ ERROR_LINE\<rparr>))"
    by (subst pipeline.simps) simp
  then have "batch_run nom_streaming lookup semver gen idle c =
      Some (flush_ignored (c1\<lparr>cn_write_buf := cn_write_buf c1 @ ERROR_LINE\<rparr>))"
    by (subst c1(1)) (simp add: batch_run_def after_batch_def)
  moreover have "fed sil (c1\<lparr>cn_write_buf := cn_write_buf c1 @ ERROR_LINE\<rparr>) (out @ ERROR_LINE) xs s"
    using c1(2) by (auto simp: fed_def)
  ultimately show ?case using flush_fed malformed(2) by force
next
  case (answered xs cmd rest s new ev s' outs s'' full)
  obtain c1 where c1: "fed sil c1 (out @ new) rest s'" and
    run: "batch_run nom_streaming lookup semver gen idle c = batch_run nom_streaming lookup semver gen idle c1"
    using batch_run_command [OF answered(6,7) _ answered(2)] answered(1,5) by auto
  from answered.IH [OF answered(5) c1 answered(7)] show ?case unfolding answered(5) run by (simp only: append.assoc)
next
  case (closed xs cmd rest s new ev s')
  obtain c1 where "fed sil c1 (out @ new) rest s'" and
    "batch_run nom_streaming lookup semver gen idle c = Some (flush_ignored c1)"
    using batch_run_command [OF closed(4,5) _ closed(2)] closed(1,3) by auto
  with flush_fed closed(3) show ?case by fastforce
next
  case (skipped xs cmd rest s k new ev s' outs s'' full)
  obtain c1 where c1: "fed sil c1 (out @ new) rest s'" and
    run: "batch_run nom_streaming lookup semver gen idle c = Option.bind (drain k c1) (\<lambda>(ok, c'').
           if ok then batch_run nom_streaming lookup semver gen idle c'' else Some c'')"
    using batch_run_command [OF skipped(7,8) _ skipped(2)] skipped(1,6) by auto
  obtain c2 where d: "drain k c1 = Some (True, c2)" and c2: "fed sil c2 (out @ new) (drop (unat k) rest) s'"
    using drain_fed(1) [OF c1 skipped(3)] by blast
  have run: "batch_run nom_streaming lookup semver gen idle c = batch_run nom_streaming lookup semver gen idle c2"
    unfolding run d by simp
  from skipped.IH [OF skipped(6) c2 skipped(8)] show ?case unfolding skipped(6) run by (simp only: append.assoc)
next
  case (truncated xs cmd rest s k new ev s')
  obtain c1 where c1: "fed sil c1 (out @ new) rest s'" and
    run: "batch_run nom_streaming lookup semver gen idle c = Option.bind (drain k c1) (\<lambda>(ok, c'').
           if ok then batch_run nom_streaming lookup semver gen idle c'' else Some c'')"
    using batch_run_command [OF truncated(5,6) _ truncated(2)] truncated(1,4) by auto
  show ?case using drain_fed(2,3) [OF c1 truncated(3)] truncated(4) run by (cases sil) auto
qed

text \<open>Every stream has a meaning, and only one.\<close>

lemma serves_total: "\<exists>outs s' full. serves nom_streaming lookup semver gen s xs outs s' full"
proof (induction xs arbitrary: s rule: length_induct)
  case (1 xs)
  show ?case
  proof (cases rule: parse_command_cases [of xs, case_names More Bad Command])
    case More
    then show ?thesis by (intro exI) (rule serves.waiting)
  next
    case (Bad e)
    then show ?thesis by (intro exI) (rule serves.malformed)
  next
    case (Command cmd rest)
    obtain d out ev s' where dis: "dispatch lookup semver gen cmd [] s = (d, out, ev, s')" by (cases "dispatch lookup semver gen cmd [] s") auto
    have IH: "\<exists>outs s'' full. serves nom_streaming lookup semver gen s' (drop k rest) outs s'' full" for k
      using 1 parse_command_Some(2) [OF Command] by simp
    show ?thesis
    proof (cases d)
      case Continue
      with IH [of 0] Command dis show ?thesis by simp (blast intro: serves.answered)
    next
      case Close
      with Command dis show ?thesis by (blast intro: serves.closed)
    next
      case (Drain k)
      with IH [of "unat k"] Command dis show ?thesis
        by (cases "unat k \<le> length rest") (blast intro: serves.skipped serves.truncated, fastforce intro: serves.truncated)
    qed
  qed
qed

lemma serves_unique:
  "serves n lookup semver gen s xs outs s' full \<Longrightarrow> serves n lookup semver gen s xs outs' s'' full' \<Longrightarrow>
   outs' = outs \<and> s'' = s' \<and> full' = full"
proof (induction arbitrary: outs' s'' full' rule: serves.induct)
  case (waiting xs s)
  then show ?case by (auto elim: serves.cases)
next
  case (malformed xs e s)
  then show ?case by (auto elim: serves.cases)
next
  case (answered xs cmd rest s out ev s' outs s'' full)
  from answered.prems show ?case by (cases rule: serves.cases) (use answered.hyps(1,2) in \<open>auto dest!: answered.IH\<close>)
next
  case (closed xs cmd rest s out ev s')
  from closed.prems show ?case by (cases rule: serves.cases) (use closed.hyps(1,2) in \<open>auto\<close>)
next
  case (skipped xs cmd rest s k out ev s' outs s'' full)
  from skipped.prems show ?case by (cases rule: serves.cases) (use skipped.hyps(1,2,3) in \<open>auto dest!: skipped.IH\<close>)
next
  case (truncated xs cmd rest s k out ev s')
  from truncated.prems show ?case by (cases rule: serves.cases) (use truncated.hyps(1,2,3) in \<open>auto\<close>)
qed

lemma handle_connection_chunks:
  assumes "nom_ok n" and "[] \<notin> set cs" and "so_limit so = None" and "so_reads so = chunked sil cs" and "sil \<longrightarrow> idle"
    and "serves n lookup semver gen s (concat cs) outs s' full"
  shows "if sil \<and> \<not> full then handle_connection n lookup s semver gen transport idle so = None
    else \<exists>c. handle_connection n lookup s semver gen transport idle so = Some c \<and> cn_lookup c = s' \<and>
      prefix (so_out (cn_sock c)) (so_out so @ outs) \<and> (full \<longrightarrow> so_out (cn_sock c) = so_out so @ outs)"
proof -
  have n: "n = nom_streaming" using assms(1) by (simp add: nom_ok_iff)
  let ?c = "\<lparr>cn_sock = so, cn_read_buf = [], cn_write_buf = [], cn_lookup = s,
           cn_log = [ConnectionsTotal transport, ConnectionsActiveInc transport]\<rparr>"
  have pc: "parse_command nom_streaming [] = (Ok None, [])"
    by (simp add: parse_command_def nom_parse_def parse_mg_def nom_streaming_def s_tag_def ascii_def)
  have fed: "fed sil ?c (so_out so) (concat cs) s" using assms by (auto simp: fed_def)
  have "pipeline n lookup semver gen ?c = Some (NeedMore, ?c)" using pc n by (subst pipeline.simps) simp
  then have "batch_run n lookup semver gen idle ?c = connection_loop n lookup semver gen idle ?c"
    by (simp add: batch_run_def after_batch_def)
  with serves_run [OF assms(6) n fed assms(5)] show ?thesis by (auto simp: handle_connection_def split: if_splits)
qed

lemma handle_connection_serves:
  assumes "nom_ok n" and "[] \<notin> set cs" and "so_limit so = None" and "so_reads so = map Got cs"
    and "serves n lookup semver gen s (concat cs) outs s' full"
  shows "\<exists>c. handle_connection n lookup s semver gen transport idle so = Some c \<and> cn_lookup c = s' \<and>
    prefix (so_out (cn_sock c)) (so_out so @ outs) \<and> (full \<longrightarrow> so_out (cn_sock c) = so_out so @ outs)"
  using handle_connection_chunks [OF assms(1-3) _ _ assms(5), of False idle transport] assms(4) by simp

section \<open>The handler returns\<close>

text \<open>A client that never falls silent: every read ends.\<close>

abbreviation unsilent :: "'s Connection \<Rightarrow> bool" where
  "unsilent c \<equiv> Silent \<notin> set (so_reads (cn_sock c))"

fun event_weight :: "read_event \<Rightarrow> nat" where
  "event_weight (Got bs) = Suc (length bs)"
| "event_weight _ = 1"

definition weight :: "'s Connection \<Rightarrow> nat" where
  "weight c = length (cn_read_buf c) + sum_list (map event_weight (so_reads (cn_sock c)))"

lemma drain_loop_weight:
  "Silent \<notin> set es \<Longrightarrow> \<exists>ok buf' es'. drain_loop k buf es = Some (ok, buf', es') \<and> Silent \<notin> set es' \<and>
     length buf' + sum_list (map event_weight es') \<le> length buf + sum_list (map event_weight es)"
proof (induction es arbitrary: buf)
  case Nil
  then show ?case by auto
next
  case (Cons e es)
  show ?case
  proof (cases "length buf < k")
    case True
    have "e \<noteq> Silent" "Silent \<notin> set es" using Cons.prems by auto
    then show ?thesis using True Cons.IH [of buf] Cons.IH [of "buf @ bs" for bs]
      by (cases e) (fastforce simp: le_SucI)+
  next
    case False
    then show ?thesis using Cons.prems by auto
  qed
qed

lemma drain_weight: "unsilent c \<Longrightarrow> \<exists>ok c'. drain k c = Some (ok, c') \<and> unsilent c' \<and> weight c' \<le> weight c"
  using drain_loop_weight [of "so_reads (cn_sock c)" "unat k" "cn_read_buf c"] by (auto simp: drain_def weight_def)

lemma flush_weight: "weight (flush_ignored c) = weight c" "unsilent (flush_ignored c) = unsilent c"
  by (simp_all add: flush_ignored_def weight_def write_all_def split: option.split)

lemma pipeline_returns:
  "unsilent c \<Longrightarrow> \<exists>v c'. pipeline nom_streaming lookup semver gen c = Some (v, c') \<and> unsilent c' \<and> weight c' \<le> weight c"
proof (induction "weight c" arbitrary: c rule: less_induct)
  case less
  show ?case
  proof (cases rule: parse_command_cases [of "cn_read_buf c", case_names More Bad Command])
    case More
    then show ?thesis using less.prems by (subst pipeline.simps) simp
  next
    case (Bad e)
    then show ?thesis using less.prems by (subst pipeline.simps) (simp add: flush_weight, simp add: weight_def)
  next
    case (Command cmd buf)
    obtain d out ev s where dis: "dispatch lookup semver gen cmd [] (cn_lookup c) = (d, out, ev, s)"
      by (cases "dispatch lookup semver gen cmd [] (cn_lookup c)") auto
    define c1 where "c1 = c\<lparr>cn_read_buf := buf, cn_write_buf := cn_write_buf c @ out, cn_lookup := s, cn_log := cn_log c @ ev\<rparr>"
    have w: "weight c1 < weight c" "unsilent c1"
      using parse_command_Some(2) [OF Command] less.prems by (simp_all add: c1_def weight_def)
    note step = pipeline_Command [OF Command dis c1_def]
    have more: "\<exists>v c'. pipeline nom_streaming lookup semver gen c2 = Some (v, c') \<and> unsilent c' \<and> weight c' \<le> weight c"
      if "weight c2 \<le> weight c1" "unsilent c2" for c2
      using less(1) [of c2] that w by fastforce
    show ?thesis
    proof (cases d)
      case Continue
      then show ?thesis using more [of c1] w by (simp add: step)
    next
      case Close
      then show ?thesis using w by (simp add: step flush_weight)
    next
      case (Drain k)
      obtain ok c2 where d: "drain k c1 = Some (ok, c2)" "unsilent c2" "weight c2 \<le> weight c1"
        using drain_weight [OF w(2)] by blast
      with more [of c2] w Drain show ?thesis by (cases ok) (auto simp: step)
    qed
  qed
qed

lemma connection_loop_returns:
  "unsilent c \<Longrightarrow> \<exists>c'. connection_loop nom_streaming lookup semver gen idle c = Some c'"
proof (induction "weight c" arbitrary: c rule: less_induct)
  case less
  let ?loop = "connection_loop nom_streaming lookup semver gen idle"
  show ?case
  proof (cases "so_reads (cn_sock c)")
    case Nil
    then show ?thesis by (subst connection_loop_step) (simp add: Let_def)
  next
    case (Cons e es)
    let ?c = "c\<lparr>cn_sock := (cn_sock c)\<lparr>so_reads := es\<rparr>\<rparr>"
    have es: "Silent \<notin> set es" "e \<noteq> Silent" using less.prems Cons by auto
    show ?thesis
    proof (cases e)
      case (Got bs)
      let ?d = "?c\<lparr>cn_read_buf := cn_read_buf c @ bs\<rparr>"
      have w: "weight ?d < weight c" using Cons Got by (simp add: weight_def)
      obtain v c' where p: "pipeline nom_streaming lookup semver gen ?d = Some (v, c')" "unsilent c'" "weight c' \<le> weight ?d"
        using pipeline_returns [of ?d lookup semver gen] es by auto
      have again: "\<exists>c''. ?loop (c'\<lparr>cn_sock := so, cn_write_buf := wb\<rparr>) = Some c''" if "so_reads so = so_reads (cn_sock c')" for so wb
        using less(1) [of "c'\<lparr>cn_sock := so, cn_write_buf := wb\<rparr>"] p(2,3) w that by (simp add: weight_def)
      have "\<exists>c''. ?loop c' = Some c''" using again [of "cn_sock c'" "cn_write_buf c'"] by simp
      moreover have "so_reads (snd (write_all (cn_write_buf c') (cn_sock c'))) = so_reads (cn_sock c')"
        by (simp add: write_all_def split: option.split)
      ultimately have "\<exists>c''. after_batch nom_streaming lookup semver gen idle (v, c') = Some c''"
        using again [of "snd (write_all (cn_write_buf c') (cn_sock c'))" "[]"]
        by (auto simp: after_batch_def split: verdict.split prod.split)
      then show ?thesis using Cons Got p(1) by (subst connection_loop_step) (simp add: Let_def batch_run_def)
    next
      case ReadError
      then show ?thesis using Cons by (subst connection_loop_step) (simp add: Let_def)
    next
      case Idle
      have "\<exists>c'. ?loop ?c = Some c'" using less(1) [of ?c] Cons Idle es by (simp add: weight_def)
      then show ?thesis using Cons Idle by (subst connection_loop_step, cases idle) (simp_all add: Let_def)
    qed (use es in simp)
  qed
qed

end
