(* ===== verification/Server_Requests.thy ===== *)
theory Server_Requests
  imports Server_Connection
begin

text \<open>
  The client's view of the protocol: well-formed requests, their wire form and their replies, and
  the lemma that the server answers a pipeline of requests with the replies in order.
\<close>

section \<open>Requests and replies\<close>

text \<open>A write command carries a body; \<open>md\<close> and \<open>ma\<close> do not.  \<open>line\<close> is what follows on the command line.\<close>

datatype request =
    GetReq bytes "bytes list"
  | VersionReq
  | SetReq bytes bytes bytes
  | DeleteReq bytes
  | ArithReq bytes

fun render :: "request \<Rightarrow> bytes" where
  "render (GetReq key toks) = ascii ''mg'' @ [SP] @ key @ concat (map ((#) SP) toks) @ CRLF"
| "render VersionReq = ascii ''version'' @ CRLF"
| "render (SetReq key body line) =
     ascii ''ms'' @ [SP] @ key @ [SP] @ ascii (show_nat (length body)) @ line @ CRLF @ body @ CRLF"
| "render (DeleteReq line) = ascii ''md'' @ line @ CRLF"
| "render (ArithReq line) = ascii ''ma'' @ line @ CRLF"

definition token_ok :: "bytes \<Rightarrow> bool" where
  "token_ok t \<longleftrightarrow> t \<noteq> [] \<and> list_all token_byte t"

definition line_ok :: "bytes \<Rightarrow> bool" where
  "line_ok l \<longleftrightarrow> CR \<notin> set l"

fun request_ok :: "request \<Rightarrow> bool" where
  "request_ok (GetReq key toks) \<longleftrightarrow> token_ok key \<and> hd key \<noteq> 0x09 \<and> list_all (\<lambda>t. token_ok t \<and> hd t \<noteq> 0x09) toks"
| "request_ok VersionReq \<longleftrightarrow> True"
| "request_ok (SetReq key body line) \<longleftrightarrow>
     token_ok key \<and> hd key \<noteq> 0x09 \<and> body \<noteq> [] \<and> length body < 2 ^ 64 - 2 \<and> line_ok line \<and> (line = [] \<or> hd line = SP)"
| "request_ok (DeleteReq line) \<longleftrightarrow> line_ok line"
| "request_ok (ArithReq line) \<longleftrightarrow> line_ok line"

fun reply :: "'s lookup \<Rightarrow> bytes \<Rightarrow> u64 \<Rightarrow> request \<Rightarrow> 's \<Rightarrow> bytes \<times> 's" where
  "reply lookup semver gen (GetReq key toks) s =
     (let (out, _, s') = dispatch_mg lookup key (fold set_flag toks MgFlags_default) [] s in (out, s'))"
| "reply lookup semver gen VersionReq s = (write_version [] semver gen, s)"
| "reply lookup semver gen _ s = (write_server_error [] (ascii ''read-only''), s)"

fun replies :: "'s lookup \<Rightarrow> bytes \<Rightarrow> u64 \<Rightarrow> request list \<Rightarrow> 's \<Rightarrow> bytes \<times> 's" where
  "replies lookup semver gen [] s = ([], s)"
| "replies lookup semver gen (r # rs) s =
     (let (out, s') = reply lookup semver gen r s; (outs, s'') = replies lookup semver gen rs s' in (out @ outs, s''))"

section \<open>Parsing what a client renders\<close>

lemma nom_streaming_fields [simp]:
  "nom_tag nom_streaming = s_tag" "nom_space1 nom_streaming = s_split1 ''Space'' space_byte"
  "nom_take_until nom_streaming = s_take_until" "nom_alt_tag nom_streaming = s_alt"
  "nom_map_res_str nom_streaming = s_map_res" "nom_map_res_usize nom_streaming = s_map_res"
  "nom_digit1 nom_streaming = s_split1 ''Digit'' digit_byte"
  "token nom_streaming = s_split1 ''TakeWhile1'' token_byte"
  by (simp_all add: nom_streaming_def token_def)

lemma s_tag_match [simp]: "s_tag t (t @ xs) = Ok (xs, t)"
  by (simp add: s_tag_def)

lemma s_split1_match:
  "x \<noteq> [] \<Longrightarrow> list_all P x \<Longrightarrow> \<not> P b \<Longrightarrow> s_split1 code P (x @ b # xs) = Ok (b # xs, x)"
proof -
  assume "x \<noteq> []" "list_all P x" "\<not> P b"
  then have "dropWhile P (x @ b # xs) = b # xs" "takeWhile P (x @ b # xs) = x"
    by (simp_all add: list_all_iff dropWhile_append2 takeWhile_append2)
  with \<open>x \<noteq> []\<close> show ?thesis by (simp add: s_split1_def)
qed

lemma s_split1_none: "\<not> P b \<Longrightarrow> s_split1 code P (b # xs) = Err (NomError code)"
  by (simp add: s_split1_def)

lemma bytes_distinct [simp]:
  "\<not> token_byte SP" "\<not> token_byte CR" "\<not> space_byte CR" "space_byte SP" "\<not> digit_byte SP" "\<not> digit_byte CR"
  by (simp_all add: token_byte_def space_byte_def digit_byte_def SP_def CR_def)

lemma space_token:
  assumes "token_ok t" and "hd t \<noteq> 0x09" and "\<not> token_byte b"
  shows "s_split1 ''Space'' space_byte (SP # t @ b # xs) = Ok (t @ b # xs, [SP])"
    and "s_split1 ''TakeWhile1'' token_byte (t @ b # xs) = Ok (b # xs, t)"
proof -
  obtain a u where t: "t = a # u" using assms(1) by (cases t) (auto simp: token_ok_def)
  then have "\<not> space_byte a" using assms(1,2) by (simp add: token_ok_def space_byte_def token_byte_def)
  then show "s_split1 ''Space'' space_byte (SP # t @ b # xs) = Ok (t @ b # xs, [SP])"
    using s_split1_match [of "[SP]" space_byte a] t by simp
  show "s_split1 ''TakeWhile1'' token_byte (t @ b # xs) = Ok (b # xs, t)"
    using s_split1_match [of t token_byte b] assms by (simp add: token_ok_def)
qed

lemma CRLF_Cons: "CRLF @ xs = CR # LF # xs"
  by (simp add: CRLF_def)

lemma mg_flags_rendered:
  "list_all (\<lambda>t. token_ok t \<and> hd t \<noteq> 0x09) toks \<Longrightarrow>
   mg_flags nom_streaming flags (concat (map ((#) SP) toks) @ CRLF @ xs) = Ok (CRLF @ xs, fold set_flag toks flags)"
proof (induction toks arbitrary: flags)
  case Nil
  show ?case
    by (subst mg_flags_step) (simp add: flag_token_def s_opt_def s_preceded_def CRLF_Cons s_split1_none)
next
  case (Cons t toks)
  obtain b ys where b: "concat (map ((#) SP) toks) @ CRLF @ xs = b # ys" "\<not> token_byte b"
    by (cases toks) (auto simp: CRLF_Cons)
  have "flag_token (SP # t @ b # ys) = Ok (b # ys, Some t)"
    using space_token [of t b ys] Cons.prems b(2) by (simp add: flag_token_def s_opt_def s_preceded_def)
  with Cons show ?case by (subst mg_flags_step) (simp add: b(1))
qed

lemma parse_command_line:
  assumes "nom_parse nom_streaming (line @ xs) = Ok (xs, cmd)"
  shows "parse_command nom_streaming (line @ xs) = (Ok (Some cmd), xs)"
  using assms by (simp add: parse_command_def)

lemma crlf_match [simp]: "crlf nom_streaming (CRLF @ xs) = Ok (xs, ())"
  by (simp add: crlf_def)

lemma parse_get:
  assumes "request_ok (GetReq key toks)"
  shows "parse_command nom_streaming (render (GetReq key toks) @ xs) =
    (Ok (Some (Mg key (fold set_flag toks MgFlags_default))), xs)"
proof (rule parse_command_line)
  obtain b ys where b: "concat (map ((#) SP) toks) @ CRLF @ xs = b # ys" "\<not> token_byte b"
    by (cases toks) (auto simp: CRLF_Cons)
  have "parse_mg nom_streaming (ascii ''mg'' @ SP # key @ concat (map ((#) SP) toks) @ CRLF @ xs) =
      Ok (xs, Mg key (fold set_flag toks MgFlags_default))"
    using space_token [of key b ys] mg_flags_rendered [of toks MgFlags_default xs] assms b
    by (simp add: parse_mg_def)
  then show "nom_parse nom_streaming (render (GetReq key toks) @ xs) = Ok (xs, Mg key (fold set_flag toks MgFlags_default))"
    by (simp add: nom_parse_alt)
qed

lemma other_commands:
  "parse_mg nom_streaming (ascii ''version'' @ xs) = Err (NomError ''Tag'')"
  "parse_mg nom_streaming (ascii ''ms'' @ xs) = Err (NomError ''Tag'')"
  "parse_mg nom_streaming (ascii ''md'' @ xs) = Err (NomError ''Tag'')"
  "parse_mg nom_streaming (ascii ''ma'' @ xs) = Err (NomError ''Tag'')"
  "parse_version nom_streaming (ascii (CHR ''m'' # t) @ xs) = Err (NomError ''Tag'')"
  "parse_quit nom_streaming (ascii (CHR ''m'' # t) @ xs) = Err (NomError ''Tag'')"
  "parse_ms nom_streaming (ascii ''md'' @ xs) = Err (NomError ''Tag'')"
  "parse_ms nom_streaming (ascii ''ma'' @ xs) = Err (NomError ''Tag'')"
  "s_tag (ascii ''md'') (ascii ''ma'' @ xs) = Err (NomError ''Tag'')"
  by (simp_all add: parse_mg_def parse_version_def parse_quit_def parse_ms_def s_tag_def ascii_def)

lemma parse_version_line:
  "parse_command nom_streaming (render VersionReq @ xs) = (Ok (Some Version), xs)"
proof (rule parse_command_line)
  have "parse_version nom_streaming (ascii ''version'' @ CRLF @ xs) = Ok (xs, Version)"
    by (simp add: parse_version_def)
  then show "nom_parse nom_streaming (render VersionReq @ xs) = Ok (xs, Version)"
    by (simp add: nom_parse_alt other_commands)
qed

lemma find_CRLF: "line_ok line \<Longrightarrow> find_sub CRLF (line @ CRLF @ xs) = Some (length line)"
proof (induction line)
  case Nil
  then show ?case by (simp add: CRLF_def)
next
  case (Cons a line)
  then have "a \<noteq> CR" by (auto simp: line_ok_def)
  with Cons show ?case by (simp add: line_ok_def CRLF_def)
qed

lemma take_until_line: "line_ok line \<Longrightarrow> s_take_until CRLF (line @ CRLF @ xs) = Ok (CRLF @ xs, line)"
  by (simp add: s_take_until_def find_CRLF)

lemma parse_no_body:
  assumes "line_ok line" and "t = ''md'' \<or> t = ''ma''"
  shows "parse_command nom_streaming ((ascii t @ line @ CRLF) @ xs) = (Ok (Some (WriteRejected 0)), xs)"
proof (rule parse_command_line)
  have "nom_alt_tag nom_streaming [nom_tag nom_streaming (ascii ''md''), nom_tag nom_streaming (ascii ''ma'')] (ascii t @ ys) =
      Ok (ys, ascii t)" for ys
    using assms(2) by (auto simp: other_commands)
  then have "parse_md_ma nom_streaming (ascii t @ line @ CRLF @ xs) = Ok (xs, WriteRejected 0)"
    using take_until_line [OF assms(1)] by (simp add: parse_md_ma_def)
  then show "nom_parse nom_streaming ((ascii t @ line @ CRLF) @ xs) = Ok (xs, WriteRejected 0)"
    using assms(2) by (auto simp: nom_parse_alt other_commands)
qed

subsection \<open>Lengths on the wire\<close>

lemma ascii_show_nat: "ascii (show_nat n) = map (\<lambda>d. word_of_nat (48 + d)) (digits n)"
proof -
  have "(of_char (char_of (48 + d)) :: u8) = word_of_nat (48 + d)" if "d \<in> set (digits n)" for d
  proof -
    have "(of_char (char_of (48 + d)) :: u8) = word_of_nat (of_char (char_of (48 + d)))" by (rule of_nat_of_char [symmetric])
    also have "\<dots> = word_of_nat (48 + d)" using digits_lt_10 [OF that] by (simp only: of_char_of) simp
    finally show ?thesis .
  qed
  then show ?thesis by (simp add: ascii_def show_nat_def del: of_nat_add)
qed

lemma digit_word:
  assumes "d < 10"
  shows "digit_byte (word_of_nat (48 + d))" and "digit_value (word_of_nat (48 + d)) = d"
    and "(word_of_nat (48 + d) :: u8) < 0x80"
proof -
  have u: "unat (word_of_nat (48 + d) :: u8) = 48 + d" using assms by (intro unat_word_of_nat_less) simp
  then show "digit_byte (word_of_nat (48 + d))" "(word_of_nat (48 + d) :: u8) < 0x80"
    using assms by (simp_all add: digit_byte_def word_le_nat_alt word_less_nat_alt)
  have "word_of_nat (48 + d) - (48 :: u8) = word_of_nat d" by simp
  moreover have "unat (word_of_nat d :: u8) = d" using assms by (intro unat_word_of_nat_less) simp
  ultimately show "digit_value (word_of_nat (48 + d)) = d" by (simp add: digit_value_def)
qed

lemma parse_length:
  assumes "n \<le> U64_MAX" and "\<not> digit_byte b"
  shows "nom_map_res_usize nom_streaming (nom_map_res_str nom_streaming (nom_digit1 nom_streaming) (from_utf8 ())) parse_usize
      (ascii (show_nat n) @ b # xs) = Ok (b # xs, word_of_nat n)"
proof -
  let ?d = "map (\<lambda>d. word_of_nat (48 + d) :: u8) (digits n)"
  have "list_all digit_byte ?d" using digit_word(1) digits_lt_10 by (auto simp: list_all_iff simp del: of_nat_add)
  then have "s_split1 ''Digit'' digit_byte (?d @ b # xs) = Ok (b # xs, ?d)"
    using assms(2) by (intro s_split1_match) simp_all
  moreover have "utf8_valid ?d" using digit_word(3) digits_lt_10 by (intro utf8_valid_ascii) (auto simp del: of_nat_add)
  moreover have "map digit_value ?d = digits n"
    using digit_word(2) digits_lt_10 by (auto simp del: of_nat_add intro!: map_idI)
  ultimately show ?thesis
    using assms(1) unfolding ascii_show_nat
    by (simp add: s_map_res_def from_utf8_def parse_usize_def Let_def del: of_nat_add map_map)
qed

lemma parse_set_line:
  assumes "token_ok key" and "hd key \<noteq> 0x09" and "m \<le> U64_MAX" and "line_ok line" and "line = [] \<or> hd line = SP"
  shows "parse_command nom_streaming (ascii ''ms'' @ SP # key @ SP # ascii (show_nat m) @ line @ CRLF @ ys) =
    (Ok (Some (WriteRejected (word_of_nat m))), ys)"
proof -
  let ?len = "ascii (show_nat m)"
  obtain d ds where d: "?len = d # ds" "digit_byte d"
    using digit_word(1) digits_lt_10 [of _ m] digits_not_Nil [of m]
    unfolding ascii_show_nat by (cases "digits m") (auto simp del: of_nat_add)
  have "\<not> space_byte d" using d(2) by (auto simp: space_byte_def digit_byte_def SP_def)
  obtain b zs where b: "line @ CRLF @ ys = b # zs" "\<not> digit_byte b"
    using assms(5) by (cases line) (auto simp: CRLF_Cons)
  have sp: "s_split1 ''Space'' space_byte (SP # ?len @ b # zs) = Ok (?len @ b # zs, [SP])"
    using s_split1_match [of "[SP]" space_byte d] \<open>\<not> space_byte d\<close> d(1) by simp
  have "parse_ms nom_streaming (ascii ''ms'' @ SP # key @ SP # ?len @ line @ CRLF @ ys) = Ok (ys, WriteRejected (word_of_nat m))"
    using space_token [OF assms(1,2), of SP "?len @ b # zs"] sp parse_length [OF assms(3) b(2), of zs]
      take_until_line [OF assms(4), of ys] b(1)
    unfolding parse_ms_def by simp
  then have "nom_parse nom_streaming ((ascii ''ms'' @ SP # key @ SP # ?len @ line @ CRLF) @ ys) =
      Ok (ys, WriteRejected (word_of_nat m))"
    by (simp add: nom_parse_alt other_commands)
  from parse_command_line [OF this] show ?thesis by simp
qed

lemma parse_set:
  assumes "request_ok (SetReq key body line)"
  shows "parse_command nom_streaming (render (SetReq key body line) @ xs) =
    (Ok (Some (WriteRejected (word_of_nat (length body)))), body @ CRLF @ xs)"
  using parse_set_line [of key "length body" line "body @ CRLF @ xs"] assms by (simp add: U64_MAX_def)

text \<open>
  The length of a body is not bounded by the parser: for a declared length of \<open>2 ^ 64 - 2\<close> the number
  of bytes to drain wraps to 0, and the body is served as commands.
\<close>

lemma huge_set_length_wraps:
  assumes "nom_ok n" and "token_ok key" and "hd key \<noteq> 0x09"
    and "serves n lookup semver gen s xs outs s' full"
  shows "serves n lookup semver gen s (ascii ''ms'' @ SP # key @ SP # ascii (show_nat (2 ^ 64 - 2)) @ CRLF @ xs)
    (write_server_error [] (ascii ''read-only'') @ outs) s' full"
proof -
  have n: "n = nom_streaming" using assms(1) by (simp add: nom_ok_iff)
  have dis: "dispatch lookup semver gen (WriteRejected (- 2)) [] s =
      (Drain 0, write_server_error [] (ascii ''read-only''), [], s)"
    by (simp add: dispatch_def)
  have "(word_of_nat (2 ^ 64 - 2) :: u64) = - 2" by simp
  with parse_set_line [OF assms(2,3), of "2 ^ 64 - 2" "[]" xs]
  have "parse_command nom_streaming (ascii ''ms'' @ SP # key @ SP # ascii (show_nat (2 ^ 64 - 2)) @ CRLF @ xs) =
      (Ok (Some (WriteRejected (- 2))), xs)"
    by (simp add: U64_MAX_def line_ok_def)
  from serves.skipped [OF this dis] assms(4) show ?thesis unfolding n by simp
qed

lemma body_length:
  assumes "length body < 2 ^ 64 - 2"
  shows "body \<noteq> [] \<Longrightarrow> (word_of_nat (length body) :: u64) \<noteq> 0"
    and "unat ((word_of_nat (length body) :: u64) + 2) = length body + 2"
proof -
  have "unat (word_of_nat (length body) :: u64) = length body" using assms by (intro unat_word_of_nat_less) simp
  then show "body \<noteq> [] \<Longrightarrow> (word_of_nat (length body) :: u64) \<noteq> 0" by (metis length_0_conv unat_eq_zero)
  have "(word_of_nat (length body) :: u64) + 2 = word_of_nat (length body + 2)" by simp
  then show "unat ((word_of_nat (length body) :: u64) + 2) = length body + 2"
    using assms by (simp only:) (rule unat_word_of_nat_less, simp)
qed

section \<open>A pipeline of requests\<close>

lemma serves_requests:
  assumes "nom_ok n" and "list_all request_ok reqs" and "replies lookup semver gen reqs s = (outs, s')"
  shows "serves n lookup semver gen s (concat (map render reqs)) outs s' True"
  using assms(2,3)
proof (induction reqs arbitrary: s outs)
  case Nil
  have "parse_command nom_streaming [] = (Ok None, [])"
    by (simp add: parse_command_def nom_parse_def parse_mg_def nom_streaming_def s_tag_def ascii_def)
  then show ?case using Nil assms(1) by (auto simp: nom_ok_iff intro: serves.waiting)
next
  case (Cons r reqs)
  obtain out s1 outs1 where r: "reply lookup semver gen r s = (out, s1)"
    and rs: "replies lookup semver gen reqs s1 = (outs1, s')" "outs = out @ outs1"
    using Cons.prems(2) by (auto split: prod.splits)
  have IH: "serves nom_streaming lookup semver gen s1 (concat (map render reqs)) outs1 s' True"
    using Cons.IH [OF _ rs(1)] Cons.prems(1) assms(1) by (simp add: nom_ok_iff)
  have "serves nom_streaming lookup semver gen s (render r @ concat (map render reqs)) (out @ outs1) s' True"
  proof (cases r)
    case (GetReq key toks)
    then obtain ev where "dispatch lookup semver gen (Mg key (fold set_flag toks MgFlags_default)) [] s = (Continue, out, ev, s1)"
      using r by (auto simp: dispatch_def split: prod.splits)
    then show ?thesis using serves.answered [OF parse_get _ IH] GetReq Cons.prems(1) by auto
  next
    case VersionReq
    then show ?thesis using serves.answered [OF parse_version_line _ IH] r by (auto simp: dispatch_def)
  next
    case (SetReq key body line)
    then have len: "length body < 2 ^ 64 - 2" "body \<noteq> []" using Cons.prems(1) by auto
    let ?k = "word_of_nat (length body) :: u64"
    note k2 = body_length(2) [OF len(1)] and nz = body_length(1) [OF len]
    have dis: "dispatch lookup semver gen (WriteRejected ?k) [] s = (Drain (?k + 2), out, [], s1)"
      using r SetReq nz by (simp add: dispatch_def)
    have "serves nom_streaming lookup semver gen s1 (drop (unat (?k + 2)) (body @ CRLF @ concat (map render reqs))) outs1 s' True"
      using IH unfolding k2 by (simp add: CRLF_def)
    moreover have "unat (?k + 2) \<le> length (body @ CRLF @ concat (map render reqs))" unfolding k2 by (simp add: CRLF_def)
    moreover have ok: "request_ok (SetReq key body line)" using SetReq Cons.prems(1) by simp
    ultimately show ?thesis
      unfolding SetReq by (intro serves.skipped [OF parse_set [OF ok] dis])
  next
    case (DeleteReq line)
    then show ?thesis
      using serves.answered [OF parse_no_body _ IH, of line "''md''"] r Cons.prems(1) by (auto simp: dispatch_def)
  next
    case (ArithReq line)
    then show ?thesis
      using serves.answered [OF parse_no_body _ IH, of line "''ma''"] r Cons.prems(1) by (auto simp: dispatch_def)
  qed
  then show ?case using rs(2) assms(1) by (simp add: nom_ok_iff)
qed

section \<open>Requests in one buffer\<close>

lemma drain_buffered:
  assumes "unat k \<le> length (cn_read_buf c)"
  shows "drain k c = Some (True, c\<lparr>cn_read_buf := drop (unat k) (cn_read_buf c)\<rparr>)"
  using assms by (cases "so_reads (cn_sock c)") (simp_all add: drain_def)

text \<open>Requests that are all in the read buffer are answered into the write buffer: nothing is written yet.\<close>

lemma pipeline_requests:
  assumes "list_all request_ok reqs" and "cn_read_buf c = concat (map render reqs) @ xs"
    and "replies lookup semver gen reqs (cn_lookup c) = (outs, s')"
  shows "\<exists>log. pipeline nom_streaming lookup semver gen c =
    pipeline nom_streaming lookup semver gen
      (c\<lparr>cn_read_buf := xs, cn_write_buf := cn_write_buf c @ outs, cn_lookup := s', cn_log := log\<rparr>)"
  using assms
proof (induction reqs arbitrary: c outs)
  case Nil
  then show ?case by (intro exI [of _ "cn_log c"], cases c) auto
next
  case (Cons r reqs)
  let ?s = "cn_lookup c" and ?rest = "concat (map render reqs) @ xs"
  obtain out s1 outs1 where r: "reply lookup semver gen r ?s = (out, s1)"
    and rs: "replies lookup semver gen reqs s1 = (outs1, s')" "outs = out @ outs1"
    using Cons.prems(3) by (auto split: prod.splits)
  have buf: "cn_read_buf c = render r @ ?rest" using Cons.prems(2) by simp
  have ok: "request_ok r" using Cons.prems(1) by simp
  have cont: "\<exists>log. pipeline nom_streaming lookup semver gen c = pipeline nom_streaming lookup semver gen
      (c\<lparr>cn_read_buf := ?rest, cn_write_buf := cn_write_buf c @ out, cn_lookup := s1, cn_log := log\<rparr>)"
    if "parse_command nom_streaming (cn_read_buf c) = (Ok (Some cmd), ?rest)"
      "dispatch lookup semver gen cmd [] ?s = (Continue, out, ev, s1)" for cmd ev
    using pipeline_Command [OF that refl] by auto
  have "\<exists>log. pipeline nom_streaming lookup semver gen c = pipeline nom_streaming lookup semver gen
      (c\<lparr>cn_read_buf := ?rest, cn_write_buf := cn_write_buf c @ out, cn_lookup := s1, cn_log := log\<rparr>)"
  proof (cases r)
    case (GetReq key toks)
    then obtain ev where "dispatch lookup semver gen (Mg key (fold set_flag toks MgFlags_default)) [] ?s = (Continue, out, ev, s1)"
      using r by (auto simp: dispatch_def split: prod.splits)
    then show ?thesis using cont parse_get [of key toks ?rest] GetReq ok buf by simp
  next
    case VersionReq
    then have "dispatch lookup semver gen Version [] ?s = (Continue, out, [], s1)" using r by (simp add: dispatch_def)
    then show ?thesis using cont parse_version_line [of ?rest] VersionReq buf by simp
  next
    case (SetReq key body line)
    then have len: "length body < 2 ^ 64 - 2" "body \<noteq> []" using ok by auto
    let ?k = "word_of_nat (length body) :: u64"
    note k2 = body_length(2) [OF len(1)] and nz = body_length(1) [OF len]
    have dis: "dispatch lookup semver gen (WriteRejected ?k) [] ?s = (Drain (?k + 2), out, [], s1)"
      using r SetReq nz by (simp add: dispatch_def)
    let ?c1 = "c\<lparr>cn_read_buf := body @ CRLF @ ?rest, cn_write_buf := cn_write_buf c @ out, cn_lookup := s1, cn_log := cn_log c @ []\<rparr>"
    have "drain (?k + 2) ?c1 = Some (True, ?c1\<lparr>cn_read_buf := drop (unat (?k + 2)) (cn_read_buf ?c1)\<rparr>)"
      by (rule drain_buffered) (simp add: k2 CRLF_def del: of_nat_add)
    then have d: "drain (?k + 2) ?c1 = Some (True, ?c1\<lparr>cn_read_buf := ?rest\<rparr>)" unfolding k2 by (simp add: CRLF_def)
    have "parse_command nom_streaming (cn_read_buf c) = (Ok (Some (WriteRejected ?k)), body @ CRLF @ ?rest)"
      using parse_set [of key body line ?rest] SetReq ok buf by simp
    from pipeline_Command [OF this dis refl]
    have run: "pipeline nom_streaming lookup semver gen c = pipeline nom_streaming lookup semver gen (?c1\<lparr>cn_read_buf := ?rest\<rparr>)"
      by (simp only: d Disposition.case bind.bind_lunit prod.case if_True)
    have "?c1\<lparr>cn_read_buf := ?rest\<rparr> =
        c\<lparr>cn_read_buf := ?rest, cn_write_buf := cn_write_buf c @ out, cn_lookup := s1, cn_log := cn_log c\<rparr>"
      by (cases c) simp
    then show ?thesis unfolding run by metis
  next
    case (DeleteReq line)
    then have "dispatch lookup semver gen (WriteRejected 0) [] ?s = (Continue, out, [], s1)" using r by (simp add: dispatch_def)
    then show ?thesis
      using cont parse_no_body [of line "''md''" ?rest] DeleteReq ok buf by simp
  next
    case (ArithReq line)
    then have "dispatch lookup semver gen (WriteRejected 0) [] ?s = (Continue, out, [], s1)" using r by (simp add: dispatch_def)
    then show ?thesis
      using cont parse_no_body [of line "''ma''" ?rest] ArithReq ok buf by simp
  qed
  then obtain log where step: "pipeline nom_streaming lookup semver gen c = pipeline nom_streaming lookup semver gen
      (c\<lparr>cn_read_buf := ?rest, cn_write_buf := cn_write_buf c @ out, cn_lookup := s1, cn_log := log\<rparr>)" by blast
  show ?case
    using Cons.IH [of "c\<lparr>cn_read_buf := ?rest, cn_write_buf := cn_write_buf c @ out, cn_lookup := s1, cn_log := log\<rparr>" outs1]
      Cons.prems(1) rs by (simp add: step)
qed

section \<open>Lookups as a service\<close>

text \<open>What a reply is when lookups answer as a function of the key alone.\<close>

fun answer_line :: "lookup_result \<Rightarrow> MgFlags \<Rightarrow> bytes \<Rightarrow> bytes" where
  "answer_line (Ok (LookupHit v)) flags key = write_va [] v flags key"
| "answer_line (Ok (LookupMiss io)) flags key = write_en []"
| "answer_line _ flags key = write_server_error [] (ascii ''internal error'')"

fun service_reply :: "(bytes \<Rightarrow> lookup_result) \<Rightarrow> bytes \<Rightarrow> u64 \<Rightarrow> request \<Rightarrow> bytes" where
  "service_reply answer semver gen (GetReq key toks) = answer_line (answer key) (fold set_flag toks MgFlags_default) key"
| "service_reply answer semver gen VersionReq = write_version [] semver gen"
| "service_reply answer semver gen _ = write_server_error [] (ascii ''read-only'')"

locale lookup_service =
  fixes lookup :: "'s lookup" and answer :: "bytes \<Rightarrow> lookup_result" and inv :: "'s \<Rightarrow> bool"
  assumes get_answer: "inv s \<Longrightarrow> fst (lookup key s) = answer key"
    and get_inv: "inv s \<Longrightarrow> inv (snd (snd (lookup key s)))"
begin

lemma reply_service:
  assumes "inv s"
  shows "fst (reply lookup semver gen r s) = service_reply answer semver gen r \<and> inv (snd (reply lookup semver gen r s))"
proof (cases r)
  case (GetReq key toks)
  obtain res ev s' where l: "lookup key s = (res, ev, s')" by (cases "lookup key s") auto
  with get_answer [OF assms, of key] get_inv [OF assms, of key] have "res = answer key" "inv s'" by simp_all
  with l GetReq show ?thesis
    by (cases "(res, MgFlags_default, key)" rule: answer_line.cases)
      (auto simp: dispatch_mg_def split: bool.split)
qed (use assms in simp_all)

lemma replies_service:
  "inv s \<Longrightarrow> fst (replies lookup semver gen reqs s) = concat (map (service_reply answer semver gen) reqs)"
proof (induction reqs arbitrary: s)
  case Nil
  then show ?case by simp
next
  case (Cons r reqs)
  then show ?case using reply_service [OF Cons.prems, of semver gen r] Cons.IH [of "snd (reply lookup semver gen r s)"]
    by (simp add: split_beta)
qed

end

definition snapshot_answer :: "storage \<Rightarrow> SnapshotLookup \<Rightarrow> bytes \<Rightarrow> lookup_result" where
  "snapshot_answer st l key = fst (blocking_get (st_get st (sl_inner l) key) (sl_counters l))"

interpretation snapshot_service: lookup_service "SnapshotLookup_get st" "snapshot_answer st l" "\<lambda>l'. l' = l" for st l
  by unfold_locales (auto simp: SnapshotLookup_get_def snapshot_answer_def split: prod.split)

text \<open>Against a fixed registry, a connection's cached catalog never shows.\<close>

definition catalog_answer :: "storage \<Rightarrow> Registry \<Rightarrow> bytes \<Rightarrow> lookup_result" where
  "catalog_answer st r key = fst (CatalogLookup_get st r key (CatalogLookup_for_connection r))"

definition cached_catalog_ok :: "Registry \<Rightarrow> PerConnectionCatalogLookup \<Rightarrow> bool" where
  "cached_catalog_ok r l \<longleftrightarrow>
     (ac_generation (pc_catalog l) = ac_generation (registry_load r) \<longrightarrow> pc_catalog l = registry_load r)"

lemma refresh_cached: "cached_catalog_ok r l \<Longrightarrow> refresh_catalog r l = CatalogLookup_for_connection r"
  by (cases l) (auto simp: cached_catalog_ok_def refresh_catalog_def CatalogLookup_for_connection_def)

lemma CatalogLookup_get_cached:
  "cached_catalog_ok r l \<Longrightarrow> CatalogLookup_get st r key l = CatalogLookup_get st r key (CatalogLookup_for_connection r)"
proof -
  assume "cached_catalog_ok r l"
  moreover have "cached_catalog_ok r (CatalogLookup_for_connection r)"
    by (simp add: cached_catalog_ok_def CatalogLookup_for_connection_def)
  ultimately show ?thesis by (simp add: CatalogLookup_get_def refresh_cached)
qed

lemma CatalogLookup_get_refreshes:
  "snd (snd (CatalogLookup_get st r key l)) = refresh_catalog r l"
  by (simp add: CatalogLookup_get_def Let_def split: res.split prod.split)

interpretation catalog_service: lookup_service "CatalogLookup_get st r" "catalog_answer st r" "cached_catalog_ok r" for st r
proof unfold_locales
  fix l key assume l: "cached_catalog_ok r l"
  then show "fst (CatalogLookup_get st r key l) = catalog_answer st r key"
    by (simp add: catalog_answer_def CatalogLookup_get_cached)
  show "cached_catalog_ok r (snd (snd (CatalogLookup_get st r key l)))"
    using l by (simp add: CatalogLookup_get_refreshes refresh_cached cached_catalog_ok_def CatalogLookup_for_connection_def)
qed

section \<open>Answers from a map\<close>

definition storage_of :: "target \<Rightarrow> zstd_lib \<Rightarrow> xorf_lib \<Rightarrow> hash \<Rightarrow> storage" where
  "storage_of arch z xorf xxh64 = \<lparr>st_target = arch, st_zstd = z, st_xorf = xorf, st_hash = xxh64\<rparr>"

text \<open>The reply a client expects from a map of pairs.\<close>

definition map_reply :: "(bytes \<times> bytes) list \<Rightarrow> bytes \<times> bytes list \<Rightarrow> bytes" where
  "map_reply pairs get =
     (case map_of pairs (fst get) of
        Some v \<Rightarrow> write_va [] v (fold set_flag (snd get) MgFlags_default) (fst get)
      | None \<Rightarrow> write_en [])"

lemma snapshot_answer_get:
  assumes "Snapshot_get arch z xorf xxh64 r key = Ok res"
    and "case map_of pairs key of Some v \<Rightarrow> res = Hit v | None \<Rightarrow> \<exists>io. res = Miss io"
  shows "answer_line (snapshot_answer (storage_of arch z xorf xxh64) (SnapshotLookup_new r counters) key) flags key =
    (case map_of pairs key of Some v \<Rightarrow> write_va [] v flags key | None \<Rightarrow> write_en [])"
  using assms by (auto simp: snapshot_answer_def SnapshotLookup_new_def st_get_def storage_of_def blocking_get_def split: option.splits)

end
