(* ===== verification/Server_Catalog.thy ===== *)
theory Server_Catalog
  imports Server_Lookup
begin

text \<open>
  The serving modes: catalog files (\<open>mcfreeze-server/src/catalog.rs\<close>), catalog mode with its watcher
  (\<open>modes/catalog_mode.rs\<close>) and snapshot mode (\<open>modes/snapshot_mode.rs\<close>).  Catalog mode is a step
  relation: connections are accepted, served and closed while the watcher reloads the catalog; the
  swap of the registry and the store of the generation counter are separate steps.  \<open>open_path\<close> is
  \<open>Snapshot::open_path\<close> on the files of the moment, \<open>dec_catalog\<close> the \<open>serde_json\<close> decoder.
\<close>

section \<open>Catalog files\<close>

record CatalogEntry =
  ce_dataset :: bytes
  ce_key_prefix :: bytes
  ce_version_id :: bytes
  ce_mount_path :: path

record CatalogFile =
  cf_entries :: "CatalogEntry list"

type_synonym catalog_decoder = "bytes \<Rightarrow> (string, CatalogFile) res"

definition CatalogFile_load :: "catalog_decoder \<Rightarrow> files \<Rightarrow> path \<Rightarrow> (ServeError, CatalogFile) res" where
  "CatalogFile_load dec_catalog fs p =
     (case fs p of
        None \<Rightarrow> Err (ServeIo (IoError NotFound []))
      | Some data \<Rightarrow> map_err CatalogParse (dec_catalog data))"

section \<open>Building a catalog\<close>

definition add_entry ::
    "(path \<Rightarrow> Snapshot fres) \<Rightarrow> CatalogEntry \<Rightarrow> (bytes \<times> DatasetHandle) list
      \<Rightarrow> (ServeError, (bytes \<times> DatasetHandle) list) res" where
  "add_entry open_path entry datasets =
     (if ce_key_prefix entry \<in> set (map fst datasets) then Err (CatalogParse ''duplicate key_prefix'')
      else rbind (DatasetHandle_open open_path (ce_dataset entry) (ce_version_id entry) (ce_mount_path entry)) (\<lambda>handle.
        Ok (datasets @ [(ce_key_prefix entry, handle)])))"

definition build_catalog_sync ::
    "catalog_decoder \<Rightarrow> (path \<Rightarrow> Snapshot fres) \<Rightarrow> nat \<Rightarrow> files \<Rightarrow> path \<Rightarrow> u64 \<Rightarrow> (ServeError, ActiveCatalog) res" where
  "build_catalog_sync dec_catalog open_path now fs p gen =
     rbind (CatalogFile_load dec_catalog fs p) (\<lambda>f.
     rbind (foldR (add_entry open_path) (cf_entries f) []) (\<lambda>datasets.
     Ok (ActiveCatalog_new datasets gen now)))"

definition build_catalog_blocking ::
    "catalog_decoder \<Rightarrow> (path \<Rightarrow> Snapshot fres) \<Rightarrow> nat \<Rightarrow> files \<Rightarrow> path \<Rightarrow> u64 \<Rightarrow> (ServeError, ActiveCatalog) res" where
  "build_catalog_blocking dec_catalog open_path now fs p gen =
     (case build_catalog_sync dec_catalog open_path now fs p gen of
        Panic \<Rightarrow> Err BlockingTaskPanicked
      | r \<Rightarrow> r)"

section \<open>Catalog mode\<close>

text \<open>The watcher is idle, or between the swap of the registry and the store of the generation.\<close>

datatype Watcher = Watching | Swapped u64 nat

record CatalogConn =
  cc_lookup :: PerConnectionCatalogLookup
  cc_generation :: u64

record CatalogServer =
  cs_registry :: Registry
  cs_generation :: u64
  cs_watcher :: Watcher
  cs_conns :: "CatalogConn list"
  cs_log :: "metric list"

definition empty_catalog :: "nat \<Rightarrow> ActiveCatalog" where
  "empty_catalog now = ActiveCatalog_new [] 0 now"

text \<open>The start of \<open>run\<close>: a missing catalog file is an empty catalog, any other error is fatal.\<close>

definition catalog_start ::
    "catalog_decoder \<Rightarrow> (path \<Rightarrow> Snapshot fres) \<Rightarrow> nat \<Rightarrow> files \<Rightarrow> path \<Rightarrow> (ServeError, CatalogServer) res" where
  "catalog_start dec_catalog open_path now fs p =
     rbind (case build_catalog_blocking dec_catalog open_path now fs p 0 of
              Ok cat \<Rightarrow> Ok cat
            | Err (ServeIo (IoError NotFound _)) \<Rightarrow> Ok (empty_catalog now)
            | Err e \<Rightarrow> Err e
            | Panic \<Rightarrow> Panic) (\<lambda>initial.
     Ok \<lparr>cs_registry = Registry_new initial, cs_generation = 0, cs_watcher = Watching, cs_conns = [],
         cs_log = [ActiveDatasets (dataset_count initial), CatalogGeneration 0]\<rparr>)"

text \<open>One pass of the reload loop up to the swap: the next generation is the counter plus one.\<close>

definition reload_swap ::
    "catalog_decoder \<Rightarrow> (path \<Rightarrow> Snapshot fres) \<Rightarrow> nat \<Rightarrow> files \<Rightarrow> path \<Rightarrow> CatalogServer \<Rightarrow> CatalogServer" where
  "reload_swap dec_catalog open_path now fs p s =
     (let next_gen = cs_generation s + 1 in
      case build_catalog_blocking dec_catalog open_path now fs p next_gen of
        Ok new \<Rightarrow> s\<lparr>cs_registry := snd (registry_swap new (cs_registry s)), cs_watcher := Swapped next_gen (dataset_count new)\<rparr>
      | _ \<Rightarrow> s)"

definition reload_store :: "u64 \<Rightarrow> nat \<Rightarrow> CatalogServer \<Rightarrow> CatalogServer" where
  "reload_store next_gen n_ds s =
     s\<lparr>cs_generation := next_gen, cs_watcher := Watching,
       cs_log := cs_log s @ [CatalogGeneration next_gen, ActiveDatasets n_ds]\<rparr>"

definition accept_conn :: "CatalogServer \<Rightarrow> CatalogServer" where
  "accept_conn s =
     s\<lparr>cs_conns := cs_conns s @
        [\<lparr>cc_lookup = CatalogLookup_for_connection (cs_registry s), cc_generation = cs_generation s\<rparr>]\<rparr>"

definition conn_get :: "storage \<Rightarrow> nat \<Rightarrow> bytes \<Rightarrow> CatalogServer \<Rightarrow> lookup_result \<times> CatalogServer" where
  "conn_get st i key s =
     (let (r, ev, l) = CatalogLookup_get st (cs_registry s) key (cc_lookup (cs_conns s ! i)) in
      (r, s\<lparr>cs_conns := (cs_conns s)[i := (cs_conns s ! i)\<lparr>cc_lookup := l\<rparr>], cs_log := cs_log s @ ev\<rparr>))"

inductive catalog_step :: "storage \<Rightarrow> catalog_decoder \<Rightarrow> CatalogServer \<Rightarrow> CatalogServer \<Rightarrow> bool"
  for st dec_catalog where
  accept: "catalog_step st dec_catalog s (accept_conn s)"
| serve: "catalog_step st dec_catalog s (snd (conn_get st i key s))" if "i < length (cs_conns s)"
| disconnect: "catalog_step st dec_catalog s (s\<lparr>cs_conns := take i (cs_conns s) @ drop (Suc i) (cs_conns s)\<rparr>)"
    if "i < length (cs_conns s)"
| reload: "catalog_step st dec_catalog s (reload_swap dec_catalog open_path now fs p s)" if "cs_watcher s = Watching"
| stored: "catalog_step st dec_catalog s (reload_store g n s)" if "cs_watcher s = Swapped g n"

section \<open>Snapshot mode\<close>

definition SNAPSHOT_DATASET :: bytes where
  "SNAPSHOT_DATASET = ascii ''snapshot''"

definition snapshot_start :: "(path \<Rightarrow> Snapshot fres) \<Rightarrow> path \<Rightarrow> (ServeError, SnapshotLookup \<times> metric list) res" where
  "snapshot_start open_path dir =
     rbind (map_err FormatError (open_path dir)) (\<lambda>reader.
     Ok (SnapshotLookup_new reader (LookupCounters_new SNAPSHOT_DATASET), [ActiveDatasets 1, CatalogGeneration 0]))"

section \<open>Built catalogs\<close>

lemma add_entries_ok:
  assumes "foldR (add_entry open_path) entries datasets = Ok datasets'" and "distinct (map fst datasets)"
  shows "distinct (map fst datasets') \<and> map fst datasets' = map fst datasets @ map ce_key_prefix entries \<and>
    (\<exists>hs. datasets' = datasets @ hs \<and> list_all2 (\<lambda>e (p, h). p = ce_key_prefix e \<and>
      DatasetHandle_open open_path (ce_dataset e) (ce_version_id e) (ce_mount_path e) = Ok h) entries hs)"
  using assms
proof (induction entries arbitrary: datasets)
  case Nil
  then show ?case by simp
next
  case (Cons e entries)
  obtain h where h: "ce_key_prefix e \<notin> set (map fst datasets)"
    "DatasetHandle_open open_path (ce_dataset e) (ce_version_id e) (ce_mount_path e) = Ok h"
    "foldR (add_entry open_path) entries (datasets @ [(ce_key_prefix e, h)]) = Ok datasets'"
    using Cons.prems(1) by (auto simp: add_entry_def [of open_path e] res_simps split: if_splits)
  have "distinct (map fst (datasets @ [(ce_key_prefix e, h)]))" using h(1) Cons.prems(2) by auto
  from Cons.IH [OF h(3) this] obtain hs where hs: "distinct (map fst datasets')"
    "map fst datasets' = map fst datasets @ ce_key_prefix e # map ce_key_prefix entries"
    "datasets' = datasets @ (ce_key_prefix e, h) # hs"
    "list_all2 (\<lambda>e (p, h). p = ce_key_prefix e \<and>
      DatasetHandle_open open_path (ce_dataset e) (ce_version_id e) (ce_mount_path e) = Ok h) entries hs"
    by auto
  show ?case
  proof (intro conjI exI [of _ "(ce_key_prefix e, h) # hs"])
    show "distinct (map fst datasets')" by (rule hs(1))
  qed (use hs(2-) h(2) in simp_all)
qed

lemma built_generation: "build_catalog_blocking dec open_path now fs p g = Ok c \<Longrightarrow> ac_generation c = g"
  by (auto simp: build_catalog_blocking_def build_catalog_sync_def ActiveCatalog_new_def res_simps split: res.splits)

section \<open>The catalogs a server has had\<close>

text \<open>
  \<open>history hs s\<close>: \<open>hs\<close> are the catalogs activated so far, in order; the generation of a catalog is its
  position, the last one is active, the counter is its position or, between swap and store, the one
  before, and every connection holds one of them.
\<close>

fun counter_ok :: "nat \<Rightarrow> Watcher \<Rightarrow> u64 \<Rightarrow> bool" where
  "counter_ok n Watching g \<longleftrightarrow> g = word_of_nat (n - 1)"
| "counter_ok n (Swapped g' _) g \<longleftrightarrow> g' = word_of_nat (n - 1) \<and> 2 \<le> n \<and> g = word_of_nat (n - 2)"

definition history :: "ActiveCatalog list \<Rightarrow> CatalogServer \<Rightarrow> bool" where
  "history hs s \<longleftrightarrow>
     hs \<noteq> [] \<and> registry_load (cs_registry s) = last hs \<and>
     (\<forall>j < length hs. ac_generation (hs ! j) = word_of_nat j) \<and>
     counter_ok (length hs) (cs_watcher s) (cs_generation s) \<and>
     (\<forall>c \<in> set (cs_conns s). pc_catalog (cc_lookup c) \<in> set hs)"

lemma history_start: "catalog_start dec open_path now fs p = Ok s \<Longrightarrow> \<exists>c. history [c] s"
  by (auto simp: catalog_start_def history_def Registry_new_def registry_load_def res_simps built_generation
      empty_catalog_def ActiveCatalog_new_def split: res.splits ServeError.splits io_error.splits io_kind.splits)

lemma refresh_history: "history hs s \<Longrightarrow> pc_catalog l \<in> set hs \<Longrightarrow> pc_catalog (refresh_catalog (cs_registry s) l) \<in> set hs"
  by (auto simp: refresh_catalog_def history_def)

lemma CatalogLookup_get_state: "CatalogLookup_get st r key l = (res, ev, l') \<Longrightarrow> l' = refresh_catalog r l"
  by (auto simp: CatalogLookup_get_def Let_def split: res.splits prod.splits)

lemma history_step:
  assumes "catalog_step st dec s s'" and "history hs s"
  shows "\<exists>hs'. history hs' s' \<and> length hs' \<le> Suc (length hs)"
  using assms
proof (induction rule: catalog_step.induct)
  case (accept s)
  then have "history hs (accept_conn s)"
    by (auto simp: history_def accept_conn_def CatalogLookup_for_connection_def)
  then show ?case by fastforce
next
  case (serve i s key)
  obtain r ev l where g: "CatalogLookup_get st (cs_registry s) key (cc_lookup (cs_conns s ! i)) = (r, ev, l)"
    by (cases "CatalogLookup_get st (cs_registry s) key (cc_lookup (cs_conns s ! i))") auto
  have "pc_catalog (cc_lookup (cs_conns s ! i)) \<in> set hs" using serve by (auto simp: history_def)
  then have "pc_catalog l \<in> set hs" using refresh_history [OF serve(2)] CatalogLookup_get_state [OF g] by simp
  then have "history hs (snd (conn_get st i key s))"
    using serve by (auto simp: conn_get_def g history_def dest!: set_update_subset_insert [THEN subsetD])
  then show ?case by fastforce
next
  case (disconnect i s)
  then have "history hs (s\<lparr>cs_conns := take i (cs_conns s) @ drop (Suc i) (cs_conns s)\<rparr>)"
    by (auto simp: history_def dest: in_set_takeD in_set_dropD)
  then show ?case by fastforce
next
  case (reload s open_path now fs p)
  show ?case
  proof (cases "build_catalog_blocking dec open_path now fs p (cs_generation s + 1)")
    case (Ok new)
    have g: "cs_generation s + 1 = word_of_nat (length hs)" "hs \<noteq> []"
      using reload by (auto simp: history_def of_nat_diff neq_Nil_conv)
    have "history (hs @ [new]) (reload_swap dec open_path now fs p s)"
      using reload g Ok built_generation [OF Ok]
      by (auto simp: history_def reload_swap_def registry_swap_def registry_load_def nth_append less_Suc_eq Suc_le_eq)
    then show ?thesis by fastforce
  next
    case (Err e)
    then show ?thesis using reload by (auto simp: reload_swap_def Let_def)
  next
    case Panic
    then show ?thesis using reload by (auto simp: reload_swap_def Let_def)
  qed
next
  case (stored s g n)
  then have "history hs (reload_store g n s)" by (auto simp: history_def reload_store_def)
  then show ?case by fastforce
qed

lemma history_reachable:
  assumes "(catalog_step st dec ^^ k) s0 s" and "history [c] s0"
  shows "\<exists>hs. history hs s \<and> length hs \<le> Suc k"
  using assms
proof (induction k arbitrary: s)
  case 0
  then show ?case by auto
next
  case (Suc k)
  then obtain t where "(catalog_step st dec ^^ k) s0 t" "catalog_step st dec t s" by auto
  from Suc.IH [OF this(1) Suc.prems(2)] obtain hs where "history hs t" "length hs \<le> Suc k" by blast
  with history_step [OF \<open>catalog_step st dec t s\<close>] show ?case by fastforce
qed

lemma history_refresh_current:
  assumes "history hs s" and "length hs \<le> 2 ^ 64" and "pc_catalog l \<in> set hs"
  shows "pc_catalog (refresh_catalog (cs_registry s) l) = registry_load (cs_registry s)"
proof (cases "ac_generation (registry_load (cs_registry s)) = ac_generation (pc_catalog l)")
  case True
  obtain j where j: "j < length hs" "pc_catalog l = hs ! j" using assms(3) by (auto simp: in_set_conv_nth)
  have last: "registry_load (cs_registry s) = hs ! (length hs - 1)" "length hs - 1 < length hs"
    using assms(1) by (auto simp: history_def last_conv_nth)
  have "(word_of_nat (length hs - 1) :: u64) = word_of_nat j"
    using True assms(1) j last unfolding history_def by metis
  then have "unat (word_of_nat (length hs - 1) :: u64) = unat (word_of_nat j :: u64)" by simp
  moreover have "unat (word_of_nat (length hs - 1) :: u64) = length hs - 1"
    using last(2) assms(2) by (intro unat_word_of_nat_less) simp
  moreover have "unat (word_of_nat j :: u64) = j" using j(1) assms(2) by (intro unat_word_of_nat_less) simp
  ultimately show ?thesis using j last True by (simp add: refresh_catalog_def)
next
  case False
  then show ?thesis by (simp add: refresh_catalog_def)
qed

end
