(* ===== verification/Server_Watcher.thy ===== *)
theory Server_Watcher
  imports Server_Catalog
begin

text \<open>
  The catalog watcher of \<open>modes/catalog_mode.rs\<close> and the end of its \<open>run\<close>: file-system events of the
  \<open>notify\<close> crate (the parameter \<open>notify_lib\<close>), the blocking task that filters and forwards them
  through a bounded channel, and the reload loop of \<open>Server_Catalog\<close> that the channel drives.  Files
  change at any time; changes are reported from the moment the watch begins.
\<close>

section \<open>Events\<close>

datatype EventKind = AnyEvent | AccessEvent | CreateEvent | ModifyEvent | RemoveEvent | OtherEvent

record NotifyEvent =
  ne_kind :: EventKind
  ne_paths :: "path list"

text \<open>
  \<open>nt_new\<close> and \<open>nt_watch\<close> are the results of creating a watcher and of watching a directory,
  \<open>nt_events\<close> what a watcher reports when the files change.
\<close>

record notify_lib =
  nt_new :: "(string, unit) res"
  nt_watch :: "path \<Rightarrow> (string, unit) res"
  nt_events :: "files \<Rightarrow> files \<Rightarrow> (string, NotifyEvent) res list"

text \<open>A file that appears or gets new contents is reported as created or modified.\<close>

definition notify_ok :: "notify_lib \<Rightarrow> path \<Rightarrow> bool" where
  "notify_ok nl p \<longleftrightarrow>
     (\<forall>fs fs'. fs' p \<noteq> None \<longrightarrow> fs' p \<noteq> fs p \<longrightarrow>
        (\<exists>ev. Ok ev \<in> set (nt_events nl fs fs') \<and> (ne_kind ev = CreateEvent \<or> ne_kind ev = ModifyEvent) \<and> p \<in> set (ne_paths ev)))"

definition is_relevant :: "path \<Rightarrow> NotifyEvent \<Rightarrow> bool" where
  "is_relevant p ev \<longleftrightarrow> (case ne_kind ev of CreateEvent \<Rightarrow> True | ModifyEvent \<Rightarrow> True | _ \<Rightarrow> False) \<and> p \<in> set (ne_paths ev)"

section \<open>Start\<close>

definition path_parent :: "path \<Rightarrow> path option" where
  "path_parent p = (if p = [] then None else Some (butlast p))"

text \<open>What the blocking task signals before it waits for events.\<close>

definition watch_init :: "notify_lib \<Rightarrow> path \<Rightarrow> (string, unit) res" where
  "watch_init nl p =
     (case path_parent p of
        None \<Rightarrow> Err ''catalog path has no parent directory''
      | Some parent \<Rightarrow>
          (case rbind (nt_new nl) (\<lambda>_. nt_watch nl parent) of
             Panic \<Rightarrow> Err ''watcher blocking task died before signalling startup''
           | r \<Rightarrow> r))"

text \<open>
  \<open>ws_events\<close> are the reports the blocking task has not seen, \<open>ws_queue\<close> is the number of messages in
  the channel to the reload loop, and \<open>ws_received\<close> says that the loop has taken a message and not
  yet read the catalog.
\<close>

record WatchedServer =
  ws_files :: files
  ws_server :: CatalogServer
  ws_watching :: bool
  ws_events :: "(string, NotifyEvent) res list"
  ws_queue :: nat
  ws_received :: bool

definition catalog_loaded :: "files \<Rightarrow> CatalogServer \<Rightarrow> WatchedServer" where
  "catalog_loaded fs cs =
     \<lparr>ws_files = fs, ws_server = cs, ws_watching = False, ws_events = [], ws_queue = 0, ws_received = False\<rparr>"

definition watch_begin :: "notify_lib \<Rightarrow> path \<Rightarrow> WatchedServer \<Rightarrow> (ServeError, WatchedServer) res" where
  "watch_begin nl p s =
     rbind (map_err (\<lambda>msg. ServeIo (IoError OtherKind msg)) (watch_init nl p)) (\<lambda>_. Ok (s\<lparr>ws_watching := True\<rparr>))"

section \<open>Operations\<close>

definition change_files :: "notify_lib \<Rightarrow> files \<Rightarrow> WatchedServer \<Rightarrow> WatchedServer" where
  "change_files nl fs' s =
     s\<lparr>ws_files := fs', ws_events := ws_events s @ (if ws_watching s then nt_events nl (ws_files s) fs' else [])\<rparr>"

definition RELOAD_CHANNEL :: nat where
  "RELOAD_CHANNEL = 4"

text \<open>The blocking task takes an event; it waits while the channel is full.\<close>

definition forward_event :: "path \<Rightarrow> WatchedServer \<Rightarrow> WatchedServer option" where
  "forward_event p s =
     (case ws_events s of
        [] \<Rightarrow> None
      | Ok ev # evs \<Rightarrow>
          if is_relevant p ev
          then if ws_queue s < RELOAD_CHANNEL then Some (s\<lparr>ws_events := evs, ws_queue := Suc (ws_queue s)\<rparr>) else None
          else Some (s\<lparr>ws_events := evs\<rparr>)
      | _ # evs \<Rightarrow> Some (s\<lparr>ws_events := evs\<rparr>))"

text \<open>The reload loop takes a message, reads the catalog and swaps it in, then stores its generation.\<close>

definition receive_reload :: "WatchedServer \<Rightarrow> WatchedServer option" where
  "receive_reload s =
     (if 0 < ws_queue s \<and> \<not> ws_received s \<and> cs_watcher (ws_server s) = Watching
      then Some (s\<lparr>ws_queue := ws_queue s - 1, ws_received := True\<rparr>) else None)"

definition reload_server ::
    "catalog_decoder \<Rightarrow> (files \<Rightarrow> path \<Rightarrow> Snapshot fres) \<Rightarrow> path \<Rightarrow> nat \<Rightarrow> WatchedServer \<Rightarrow> CatalogServer" where
  "reload_server dec_catalog open_path p now s =
     reload_swap dec_catalog (open_path (ws_files s)) now (ws_files s) p (ws_server s)"

definition run_reload ::
    "catalog_decoder \<Rightarrow> (files \<Rightarrow> path \<Rightarrow> Snapshot fres) \<Rightarrow> path \<Rightarrow> nat \<Rightarrow> WatchedServer \<Rightarrow> WatchedServer option" where
  "run_reload dec_catalog open_path p now s =
     (if ws_received s \<and> cs_watcher (ws_server s) = Watching
      then Some (s\<lparr>ws_received := False, ws_server := reload_server dec_catalog open_path p now s\<rparr>) else None)"

section \<open>Steps\<close>

text \<open>The watcher's own steps, the steps while no file changes, and all steps.\<close>

inductive watch_progress ::
    "catalog_decoder \<Rightarrow> (files \<Rightarrow> path \<Rightarrow> Snapshot fres) \<Rightarrow> path \<Rightarrow> WatchedServer \<Rightarrow> WatchedServer \<Rightarrow> bool"
  for dec_catalog open_path p where
  forwarded: "watch_progress dec_catalog open_path p s s'" if "forward_event p s = Some s'"
| received: "watch_progress dec_catalog open_path p s s'" if "receive_reload s = Some s'"
| reloaded: "watch_progress dec_catalog open_path p s s'" if "run_reload dec_catalog open_path p now s = Some s'"
| published: "watch_progress dec_catalog open_path p s (s\<lparr>ws_server := reload_store g n (ws_server s)\<rparr>)"
    if "cs_watcher (ws_server s) = Swapped g n"

inductive quiet_step ::
    "storage \<Rightarrow> catalog_decoder \<Rightarrow> (files \<Rightarrow> path \<Rightarrow> Snapshot fres) \<Rightarrow> path \<Rightarrow> WatchedServer \<Rightarrow> WatchedServer \<Rightarrow> bool"
  for st dec_catalog open_path p where
  progressed: "quiet_step st dec_catalog open_path p s s'" if "watch_progress dec_catalog open_path p s s'"
| accepted: "quiet_step st dec_catalog open_path p s (s\<lparr>ws_server := accept_conn (ws_server s)\<rparr>)"
| served: "quiet_step st dec_catalog open_path p s (s\<lparr>ws_server := snd (conn_get st i key (ws_server s))\<rparr>)"
    if "i < length (cs_conns (ws_server s))"
| disconnected: "quiet_step st dec_catalog open_path p s
      (s\<lparr>ws_server := (ws_server s)\<lparr>cs_conns := take i (cs_conns (ws_server s)) @ drop (Suc i) (cs_conns (ws_server s))\<rparr>\<rparr>)"
    if "i < length (cs_conns (ws_server s))"

inductive watch_step ::
    "notify_lib \<Rightarrow> storage \<Rightarrow> catalog_decoder \<Rightarrow> (files \<Rightarrow> path \<Rightarrow> Snapshot fres) \<Rightarrow> path
       \<Rightarrow> WatchedServer \<Rightarrow> WatchedServer \<Rightarrow> bool"
  for nl st dec_catalog open_path p where
  quiet: "watch_step nl st dec_catalog open_path p s s'" if "quiet_step st dec_catalog open_path p s s'"
| changed: "watch_step nl st dec_catalog open_path p s (change_files nl fs' s)"

section \<open>The catalog server behind it\<close>

text \<open>Every step is a step of \<open>Server_Catalog\<close> or leaves the server alone.\<close>

lemma watch_step_refines:
  assumes "watch_step nl st dec open_path p s s'"
  shows "catalog_step st dec (ws_server s) (ws_server s') \<or> ws_server s' = ws_server s"
proof -
  have "catalog_step st dec (ws_server s) (ws_server s') \<or> ws_server s' = ws_server s" if "watch_progress dec open_path p s s'"
    using that
  proof cases
    case (reloaded now)
    then show ?thesis
      by (auto simp: run_reload_def reload_server_def intro: catalog_step.reload simp del: disj_not1 split: if_splits)
  qed (auto simp: forward_event_def receive_reload_def intro: catalog_step.stored split: list.splits res.splits if_splits)
  then show ?thesis
    using assms by (auto simp: change_files_def elim!: watch_step.cases quiet_step.cases intro: catalog_step.intros)
qed

section \<open>The watcher settles\<close>

fun swap_pending :: "Watcher \<Rightarrow> nat" where
  "swap_pending Watching = 0"
| "swap_pending (Swapped _ _) = 1"

definition work_left :: "WatchedServer \<Rightarrow> nat" where
  "work_left s = 4 * length (ws_events s) + 3 * ws_queue s + (if ws_received s then 2 else 0) + swap_pending (cs_watcher (ws_server s))"

definition settled :: "WatchedServer \<Rightarrow> bool" where
  "settled s \<longleftrightarrow> ws_events s = [] \<and> ws_queue s = 0 \<and> \<not> ws_received s \<and> cs_watcher (ws_server s) = Watching"

lemma reload_swap_pending: "cs_watcher s = Watching \<Longrightarrow> swap_pending (cs_watcher (reload_swap dec op now fs p s)) \<le> 1"
  by (auto simp: reload_swap_def Let_def split: res.split)

lemma watch_progress_work: "watch_progress dec open_path p s s' \<Longrightarrow> work_left s' < work_left s"
proof (induction rule: watch_progress.induct)
  case (reloaded now s s')
  then show ?case
    using reload_swap_pending [of "ws_server s" dec "open_path (ws_files s)" now "ws_files s" p]
    by (auto simp: run_reload_def reload_server_def work_left_def split: if_splits)
qed (auto simp: forward_event_def receive_reload_def reload_store_def work_left_def split: list.splits res.splits if_splits)

lemma watch_progress_terminates: "\<nexists>f. \<forall>i. watch_progress dec open_path p (f i) (f (Suc i))"
proof
  assume "\<exists>f. \<forall>i. watch_progress dec open_path p (f i) (f (Suc i))"
  then obtain f where "\<forall>i. watch_progress dec open_path p (f i) (f (Suc i))" by blast
  then have "\<forall>i. (f (Suc i), f i) \<in> measure work_left" using watch_progress_work by (metis in_measure)
  with wf_measure [of work_left] show False unfolding wf_iff_no_infinite_down_chain by blast
qed

lemma watch_stuck_settled:
  assumes "\<nexists>s'. watch_progress dec open_path p s s'"
  shows "settled s"
proof -
  have n: "forward_event p s = None" "receive_reload s = None" "run_reload dec open_path p 0 s = None"
    using assms by (auto intro: ccontr watch_progress.intros)
  have w: "cs_watcher (ws_server s) = Watching"
    using assms by (cases "cs_watcher (ws_server s)") (blast intro: watch_progress.published)+
  with n(3) have r: "\<not> ws_received s" by (simp add: run_reload_def split: if_splits)
  with w n(2) have q: "ws_queue s = 0" by (simp add: receive_reload_def split: if_splits)
  with n(1) have "ws_events s = []"
    by (auto simp: forward_event_def RELOAD_CHANNEL_def split: list.splits res.splits if_splits)
  with w r q show ?thesis by (simp add: settled_def)
qed

lemma watch_settles: "\<exists>s'. (watch_progress dec open_path p)\<^sup>*\<^sup>* s s' \<and> (\<nexists>s''. watch_progress dec open_path p s' s'')"
proof (induction "work_left s" arbitrary: s rule: less_induct)
  case less
  show ?case
  proof (cases "\<exists>t. watch_progress dec open_path p s t")
    case True
    then obtain t where "watch_progress dec open_path p s t" by blast
    with less [OF watch_progress_work [OF this]] show ?thesis by (meson converse_rtranclp_into_rtranclp)
  qed blast
qed

lemma watch_progress_files: "watch_progress dec open_path p s s' \<Longrightarrow> ws_files s' = ws_files s"
  by (auto simp: forward_event_def receive_reload_def run_reload_def elim!: watch_progress.cases
      split: list.splits res.splits if_splits)

lemma progress_run_files: "(watch_progress dec open_path p)\<^sup>*\<^sup>* s s' \<Longrightarrow> ws_files s' = ws_files s"
  by (induction rule: rtranclp_induct) (simp_all add: watch_progress_files)

section \<open>The latest contents are read\<close>

text \<open>A change of the catalog file that the reload loop has still to see.\<close>

definition reload_pending :: "path \<Rightarrow> WatchedServer \<Rightarrow> bool" where
  "reload_pending p s \<longleftrightarrow> (\<exists>ev. Ok ev \<in> set (ws_events s) \<and> is_relevant p ev) \<or> 0 < ws_queue s \<or> ws_received s"

text \<open>
  The active catalog is the one of the start, or the outcome of a reload in a state \<open>t\<close> of the run,
  and the catalog file has now the contents it had then.
\<close>

definition catalog_current ::
    "notify_lib \<Rightarrow> storage \<Rightarrow> catalog_decoder \<Rightarrow> (files \<Rightarrow> path \<Rightarrow> Snapshot fres) \<Rightarrow> path
       \<Rightarrow> WatchedServer \<Rightarrow> WatchedServer \<Rightarrow> bool" where
  "catalog_current nl st dec_catalog open_path p s0 s \<longleftrightarrow>
     ws_files s p = ws_files s0 p \<and> cs_registry (ws_server s) = cs_registry (ws_server s0) \<or>
     (\<exists>t now. (watch_step nl st dec_catalog open_path p)\<^sup>*\<^sup>* s0 t \<and> (watch_step nl st dec_catalog open_path p)\<^sup>*\<^sup>* t s \<and>
        ws_received t \<and> ws_files s p = ws_files t p \<and>
        cs_registry (ws_server s) = cs_registry (reload_server dec_catalog open_path p now t))"

lemma catalog_current_keeps:
  assumes "catalog_current nl st dec open_path p s0 s" and "watch_step nl st dec open_path p s s'"
    and "ws_files s' p = ws_files s p" and "cs_registry (ws_server s') = cs_registry (ws_server s)"
  shows "catalog_current nl st dec open_path p s0 s'"
proof -
  have "(watch_step nl st dec open_path p)\<^sup>*\<^sup>* t s'" if "(watch_step nl st dec open_path p)\<^sup>*\<^sup>* t s" for t
    using that assms(2) by (rule rtranclp.rtrancl_into_rtrancl)
  then show ?thesis using assms(1) unfolding catalog_current_def assms(3,4) by blast
qed

definition watch_inv ::
    "notify_lib \<Rightarrow> storage \<Rightarrow> catalog_decoder \<Rightarrow> (files \<Rightarrow> path \<Rightarrow> Snapshot fres) \<Rightarrow> path
       \<Rightarrow> WatchedServer \<Rightarrow> WatchedServer \<Rightarrow> bool" where
  "watch_inv nl st dec_catalog open_path p s0 s \<longleftrightarrow>
     ws_watching s \<and> (reload_pending p s \<or> ws_files s p = None \<or> catalog_current nl st dec_catalog open_path p s0 s)"

lemma watch_inv_keeps:
  assumes "watch_inv nl st dec open_path p s0 s" and "watch_step nl st dec open_path p s s'"
    and "ws_watching s' = ws_watching s" "ws_files s' p = ws_files s p" "cs_registry (ws_server s') = cs_registry (ws_server s)"
    and "reload_pending p s \<Longrightarrow> reload_pending p s'"
  shows "watch_inv nl st dec open_path p s0 s'"
  using assms catalog_current_keeps [OF _ assms(2,4,5)] unfolding watch_inv_def by metis

lemma watch_progress_inv:
  assumes "watch_progress dec open_path p s s'" and inv: "watch_inv nl st dec open_path p s0 s"
    and run: "(watch_step nl st dec open_path p)\<^sup>*\<^sup>* s0 s"
  shows "watch_inv nl st dec open_path p s0 s'"
proof -
  have step: "watch_step nl st dec open_path p s s'" using assms(1) by (intro watch_step.quiet quiet_step.progressed)
  show ?thesis
    using assms(1)
  proof cases
    case forwarded
    then show ?thesis
      by (intro watch_inv_keeps [OF inv step])
        (auto simp: forward_event_def reload_pending_def split: list.splits res.splits if_splits)
  next
    case received
    then show ?thesis
      by (intro watch_inv_keeps [OF inv step]) (auto simp: receive_reload_def reload_pending_def split: if_splits)
  next
    case (reloaded now)
    then have s': "ws_received s" "s' = s\<lparr>ws_received := False, ws_server := reload_server dec open_path p now s\<rparr>"
      by (auto simp: run_reload_def split: if_splits)
    then have "catalog_current nl st dec open_path p s0 s'"
      using run step unfolding catalog_current_def by (intro disjI2 exI [of _ s] exI [of _ now]) auto
    with inv s' show ?thesis by (simp add: watch_inv_def)
  next
    case published
    then show ?thesis
      by (intro watch_inv_keeps [OF inv step]) (auto simp: reload_store_def reload_pending_def)
  qed
qed

lemma watch_step_inv:
  assumes "watch_step nl st dec open_path p s s'" and nl: "notify_ok nl p"
    and inv: "watch_inv nl st dec open_path p s0 s" and run: "(watch_step nl st dec open_path p)\<^sup>*\<^sup>* s0 s"
  shows "watch_inv nl st dec open_path p s0 s'"
  using assms(1)
proof cases
  case quiet
  note step = assms(1)
  show ?thesis
    using quiet
  proof cases
    case progressed
    then show ?thesis by (rule watch_progress_inv [OF _ inv run])
  next
    case accepted
    then show ?thesis by (intro watch_inv_keeps [OF inv step]) (auto simp: accept_conn_def reload_pending_def)
  next
    case (served i key)
    then show ?thesis
      by (intro watch_inv_keeps [OF inv step]) (auto simp: conn_get_def reload_pending_def split: prod.splits)
  next
    case (disconnected i)
    then show ?thesis by (intro watch_inv_keeps [OF inv step]) (auto simp: reload_pending_def)
  qed
next
  case (changed fs')
  have w: "ws_watching s" using inv by (simp add: watch_inv_def)
  show ?thesis
  proof (cases "fs' p = None \<or> fs' p = ws_files s p")
    case True
    show ?thesis
    proof (cases "fs' p = None")
      case True
      with changed w show ?thesis by (simp add: watch_inv_def change_files_def)
    next
      case False
      with True changed show ?thesis
        by (intro watch_inv_keeps [OF inv assms(1)]) (auto simp: change_files_def reload_pending_def)
    qed
  next
    case False
    with nl obtain ev where "Ok ev \<in> set (nt_events nl (ws_files s) fs')" "ne_kind ev = CreateEvent \<or> ne_kind ev = ModifyEvent"
      "p \<in> set (ne_paths ev)"
      unfolding notify_ok_def by meson
    with changed w show ?thesis
      by (auto simp: watch_inv_def change_files_def reload_pending_def is_relevant_def intro!: exI [of _ ev])
  qed
qed

lemma watch_run_inv:
  assumes "(watch_step nl st dec open_path p)\<^sup>*\<^sup>* s0 s" and "notify_ok nl p" and "ws_watching s0"
  shows "watch_inv nl st dec open_path p s0 s"
  using assms(1)
proof (induction rule: rtranclp_induct)
  case base
  then show ?case using assms(3) by (simp add: watch_inv_def catalog_current_def)
next
  case (step t u)
  then show ?case using watch_step_inv [OF step(2) assms(2)] by blast
qed

lemma progress_run: "(watch_progress dec open_path p)\<^sup>*\<^sup>* s s' \<Longrightarrow> (watch_step nl st dec open_path p)\<^sup>*\<^sup>* s s'"
  by (induction rule: rtranclp_induct)
    (auto intro: watch_step.quiet quiet_step.progressed rtranclp.rtrancl_into_rtrancl)

text \<open>A settled server has read the contents of its catalog file.\<close>

lemma settled_current:
  assumes "(watch_step nl st dec open_path p)\<^sup>*\<^sup>* s0 s" and "notify_ok nl p" and "ws_watching s0"
    and "settled s" and "ws_files s p \<noteq> None"
  shows "catalog_current nl st dec open_path p s0 s"
  using watch_run_inv [OF assms(1-3)] assms(4,5) by (auto simp: watch_inv_def settled_def reload_pending_def)

section \<open>Nothing to do\<close>

text \<open>Without changes, a settled server keeps its catalog.\<close>

lemma quiet_settled:
  assumes "quiet_step st dec open_path p s s'" and "settled s"
  shows "settled s' \<and> ws_files s' = ws_files s \<and> cs_registry (ws_server s') = cs_registry (ws_server s)"
  using assms
  by (auto simp: settled_def forward_event_def receive_reload_def run_reload_def accept_conn_def conn_get_def
      elim!: quiet_step.cases watch_progress.cases split: prod.splits)

lemma quiet_run_settled:
  assumes "(quiet_step st dec open_path p)\<^sup>*\<^sup>* s s'" and "settled s"
  shows "settled s' \<and> ws_files s' = ws_files s \<and> cs_registry (ws_server s') = cs_registry (ws_server s)"
  using assms by (induction rule: rtranclp_induct) (auto dest: quiet_settled)

end
