(* ===== verification/Server_Properties.thy ===== *)
theory Server_Properties
  imports V5_Properties Server_Requests Server_Watcher
begin

text \<open>
  Properties of the server: connections against their specification, pipelined requests, the two ways
  a rejected write upsets a connection, catalog reloads under concurrency, the catalog watcher, and the composition of
  load, snapshot mode and protocol.
\<close>

section \<open>Concrete instances\<close>

definition demo_lookup :: "unit lookup" where
  "demo_lookup key s = (if key = ascii ''a'' then Ok (LookupHit [1, 2]) else Ok (LookupMiss False), [], s)"

definition demo_socket :: "bytes list \<Rightarrow> Socket" where
  "demo_socket cs = \<lparr>so_reads = map Got cs, so_out = [], so_limit = None\<rparr>"

definition demo_decoder :: catalog_decoder where
  "demo_decoder data = Ok \<lparr>cf_entries = []\<rparr>"

definition demo_storage :: storage where
  "demo_storage = storage_of OtherArch demo_zstd demo_xorf demo_hash"

definition demo_catalog_start :: CatalogServer where
  "demo_catalog_start = \<lparr>cs_registry = Registry_new (empty_catalog 7), cs_generation = 0, cs_watcher = Watching,
     cs_conns = [], cs_log = [ActiveDatasets 0, CatalogGeneration 0]\<rparr>"

definition demo_reloaded :: CatalogServer where
  "demo_reloaded = reload_swap demo_decoder (\<lambda>_. Panic) 8 [[''catalog.json''] \<mapsto> []] [''catalog.json''] (accept_conn demo_catalog_start)"

section \<open>Connections\<close>

text \<open>
  C10. The connection handler refines the stream specification: on any bytes, cut into chunks in any
  way, it returns; it leaves the lookup in the state the stream leads to, and what it writes is the
  answer to the whole stream, unless the stream ends inside the body of a write command, when it is
  a prefix of that answer.
\<close>

theorem connection_refines_stream:
  assumes "nom_ok n" and "[] \<notin> set cs" and "so_limit so = None" and "so_reads so = map Got cs"
    and "serves n lookup semver gen s (concat cs) outs s' full"
  shows "\<exists>c. handle_connection n lookup s semver gen transport idle so = Some c \<and> cn_lookup c = s' \<and>
    prefix (so_out (cn_sock c)) (so_out so @ outs) \<and> (full \<longrightarrow> so_out (cn_sock c) = so_out so @ outs)"
  using handle_connection_serves [OF assms] .

theorem connection_refines_stream_witness:
  "\<exists>c. handle_connection nom_streaming demo_lookup () (ascii ''1'') 0 ''tcp'' True
      (demo_socket [ascii ''ver'', ascii ''sion'' @ CRLF @ CRLF]) = Some c \<and>
    so_out (cn_sock c) = write_version [] (ascii ''1'') 0 @ ERROR_LINE"
proof -
  have "parse_command nom_streaming CRLF = (Err (Parse ''Tag''), CRLF)"
    by (simp add: parse_command_def nom_parse_alt parse_mg_def parse_version_def parse_quit_def parse_ms_def parse_md_ma_def
        s_tag_def ascii_def CRLF_def CR_def)
  then have bad: "serves nom_streaming demo_lookup (ascii ''1'') 0 () CRLF ERROR_LINE () True" by (rule serves.malformed)
  have "serves nom_streaming demo_lookup (ascii ''1'') 0 () (render VersionReq @ CRLF) (write_version [] (ascii ''1'') 0 @ ERROR_LINE) () True"
    by (rule serves.answered [OF parse_version_line _ bad]) (simp add: dispatch_def)
  then have "serves nom_streaming demo_lookup (ascii ''1'') 0 () (concat [ascii ''ver'', ascii ''sion'' @ CRLF @ CRLF])
      (write_version [] (ascii ''1'') 0 @ ERROR_LINE) () True"
    by (simp add: ascii_def)
  from connection_refines_stream [OF nom_streaming_ok _ _ _ this, of "demo_socket [ascii ''ver'', ascii ''sion'' @ CRLF @ CRLF]" "''tcp''" True]
  show ?thesis by (auto simp: demo_socket_def ascii_def)
qed

text \<open>
  C13. Pipelined requests are answered in order: however the wire form of a list of well-formed
  requests is cut into chunks, the handler writes exactly the replies, one after the other.
\<close>

theorem pipelined_requests_answered:
  assumes "nom_ok n" and "list_all request_ok reqs" and "concat cs = concat (map render reqs)" and "[] \<notin> set cs"
    and "so_limit so = None" and "so_reads so = map Got cs"
  shows "\<exists>c. handle_connection n lookup s semver gen transport idle so = Some c \<and>
    so_out (cn_sock c) = so_out so @ fst (replies lookup semver gen reqs s) \<and>
    cn_lookup c = snd (replies lookup semver gen reqs s)"
proof -
  have "serves n lookup semver gen s (concat cs) (fst (replies lookup semver gen reqs s)) (snd (replies lookup semver gen reqs s)) True"
    unfolding assms(3) by (rule serves_requests [OF assms(1,2)]) simp
  from handle_connection_serves [OF assms(1,4,5,6) this] show ?thesis by blast
qed

theorem pipelined_requests_answered_witness:
  "\<exists>c. handle_connection nom_streaming demo_lookup () (ascii ''1'') 0 ''tcp'' True
      (demo_socket [ascii ''mg a'' @ [CR], [LF] @ ascii ''mg b'' @ CRLF]) = Some c \<and>
    so_out (cn_sock c) = ascii ''VA 2'' @ CRLF @ [1, 2] @ CRLF @ ascii ''EN'' @ CRLF"
proof -
  let ?reqs = "[GetReq (ascii ''a'') [], GetReq (ascii ''b'') []]"
  have ok: "list_all request_ok ?reqs" by (simp add: token_ok_def ascii_def token_byte_def SP_def CR_def LF_def)
  have w: "concat [ascii ''mg a'' @ [CR], [LF] @ ascii ''mg b'' @ CRLF] = concat (map render ?reqs)"
    by (simp add: ascii_def CRLF_def SP_def)
  have "ascii (show_nat (Suc (Suc 0))) = ascii ''2''" unfolding ascii_show_nat by (simp add: digits.simps ascii_def)
  then have "fst (replies demo_lookup (ascii ''1'') 0 ?reqs ()) = ascii ''VA 2'' @ CRLF @ [1, 2] @ CRLF @ ascii ''EN'' @ CRLF"
    by (simp add: demo_lookup_def dispatch_mg_def write_va_def write_en_def MgFlags_default_def ascii_def)
  with pipelined_requests_answered [OF nom_streaming_ok ok w, of "demo_socket [ascii ''mg a'' @ [CR], [LF] @ ascii ''mg b'' @ CRLF]"
      demo_lookup "()" "ascii ''1''" 0 "''tcp''" True]
  show ?thesis by (auto simp: demo_socket_def ascii_def)
qed



text \<open>
  C30. A write command with an empty body breaks the connection: \<open>ms <key> 0\<close> is taken for a command
  without a body, the line end of the empty body is read as the next command, and the client gets
  \<open>ERROR\<close> and is disconnected, whatever requests follow.
\<close>

theorem empty_set_body_desynchronises:
  assumes "nom_ok n" and "token_ok key" and "hd key \<noteq> 0x09"
    and "concat cs = ascii ''ms'' @ [SP] @ key @ ascii '' 0'' @ CRLF @ CRLF @ following" and "[] \<notin> set cs"
    and "so_limit so = None" and "so_reads so = map Got cs"
  shows "\<exists>c. handle_connection n lookup s semver gen transport idle so = Some c \<and>
    so_out (cn_sock c) = so_out so @ ascii ''SERVER_ERROR read-only'' @ CRLF @ ascii ''ERROR'' @ CRLF"
proof -
  have n: "n = nom_streaming" using assms(1) by (simp add: nom_ok_iff)
  have zero: "ascii (show_nat 0) = ascii ''0''" unfolding ascii_show_nat by (simp add: digits.simps ascii_def)
  have "parse_command nom_streaming (CRLF @ following) = (Err (Parse ''Tag''), CRLF @ following)"
    by (simp add: parse_command_def nom_parse_alt parse_mg_def parse_version_def parse_quit_def parse_ms_def parse_md_ma_def
        s_tag_def ascii_def CRLF_def CR_def)
  then have bad: "serves nom_streaming lookup semver gen s (CRLF @ following) ERROR_LINE s True" by (rule serves.malformed)
  have dis: "dispatch lookup semver gen (WriteRejected 0) [] s =
      (Continue, write_server_error [] (ascii ''read-only''), [], s)" by (simp add: dispatch_def)
  have "parse_command nom_streaming (concat cs) = (Ok (Some (WriteRejected 0)), CRLF @ following)"
    using parse_set_line [OF assms(2,3), of 0 "[]" "CRLF @ following"] unfolding zero assms(4)
    by (simp add: line_ok_def ascii_def SP_def)
  from serves.answered [OF this dis bad]
  have "serves n lookup semver gen s (concat cs) (write_server_error [] (ascii ''read-only'') @ ERROR_LINE) s True"
    unfolding n .
  from handle_connection_serves [OF assms(1,5,6,7) this] show ?thesis
    by (auto simp: write_server_error_def ERROR_LINE_def ascii_def)
qed

theorem empty_set_body_desynchronises_witness:
  "\<exists>c. handle_connection nom_streaming demo_lookup () (ascii ''1'') 0 ''tcp'' True
      (demo_socket [ascii ''ms a 0'' @ CRLF @ CRLF @ ascii ''mg a'' @ CRLF]) = Some c \<and>
    so_out (cn_sock c) = ascii ''SERVER_ERROR read-only'' @ CRLF @ ascii ''ERROR'' @ CRLF"
  using empty_set_body_desynchronises [OF nom_streaming_ok, of "ascii ''a''"
      "[ascii ''ms a 0'' @ CRLF @ CRLF @ ascii ''mg a'' @ CRLF]" "ascii ''mg a'' @ CRLF"
      "demo_socket [ascii ''ms a 0'' @ CRLF @ CRLF @ ascii ''mg a'' @ CRLF]" demo_lookup "()" "ascii ''1''" 0 "''tcp''" True]
  by (simp add: demo_socket_def ascii_def token_ok_def token_byte_def SP_def CR_def LF_def)

text \<open>
  C31. Replies are lost when the client's stream ends inside the body of a write command that came
  in the same chunk: the requests before it were served, but nothing is ever written.
\<close>

theorem eof_in_body_drops_replies:
  assumes "nom_ok n" and "list_all request_ok reqs" and "request_ok (SetReq key body line)"
    and "render (SetReq key body line) = cmdline @ body @ CRLF" and "strict_prefix part (body @ CRLF)"
    and "so_reads so = [Got (concat (map render reqs) @ cmdline @ part)]"
  shows "\<exists>c. handle_connection n lookup s semver gen transport idle so = Some c \<and>
    so_out (cn_sock c) = so_out so \<and> cn_lookup c = snd (replies lookup semver gen reqs s)"
proof -
  have n: "n = nom_streaming" using assms(1) by (simp add: nom_ok_iff)
  let ?c0 = "\<lparr>cn_sock = so\<lparr>so_reads := []\<rparr>, cn_read_buf = concat (map render reqs) @ cmdline @ part, cn_write_buf = [], cn_lookup = s,
     cn_log = [ConnectionsTotal transport, ConnectionsActiveInc transport]\<rparr>"
  let ?out = "fst (replies lookup semver gen reqs s)" and ?s = "snd (replies lookup semver gen reqs s)"
  let ?k = "word_of_nat (length body) :: u64"
  obtain log where run: "pipeline n lookup semver gen ?c0 = pipeline n lookup semver gen
      (?c0\<lparr>cn_read_buf := cmdline @ part, cn_write_buf := ?out, cn_lookup := ?s, cn_log := log\<rparr>)" (is "_ = pipeline _ _ _ _ ?c1")
    using pipeline_requests [OF assms(2), of ?c0 "cmdline @ part" lookup semver gen ?out ?s] unfolding n by auto
  obtain rest where rest: "body @ CRLF = part @ rest" "rest \<noteq> []"
    using assms(5) by (auto simp: strict_prefix_def prefix_def)
  have len: "length body < 2 ^ 64 - 2" "body \<noteq> []" using assms(3) by auto
  note k2 = body_length(2) [OF len(1)] and nz = body_length(1) [OF len]
  have cmdline: "cmdline = ascii ''ms'' @ SP # key @ SP # ascii (show_nat (length body)) @ line @ CRLF"
    using assms(4) by simp
  have parse: "parse_command n (cn_read_buf ?c1) = (Ok (Some (WriteRejected ?k)), part)"
    using parse_set_line [of key "length body" line part] assms(3) unfolding n cmdline by (simp add: U64_MAX_def)
  have dis: "dispatch lookup semver gen (WriteRejected ?k) [] (cn_lookup ?c1) =
      (Drain (?k + 2), write_server_error [] (ascii ''read-only''), [], ?s)" using nz by (simp add: dispatch_def)
  have "length (body @ CRLF) = length (part @ rest)" using rest(1) by simp
  then have "length part < unat (?k + 2)" unfolding k2 using rest(2) by (simp add: CRLF_def)
  then have drain: "drain (?k + 2) c' = Some (False, c')" if "cn_read_buf c' = part" "so_reads (cn_sock c') = []" for c' :: "'a Connection"
    using that by (cases c') (simp add: drain_def)
  from pipeline_Command [OF parse dis refl]
  obtain c2 where c2: "pipeline n lookup semver gen ?c1 = Some (Leave, c2)" "so_out (cn_sock c2) = so_out so" "cn_lookup c2 = ?s"
    by (simp add: drain)
  have ne: "cmdline \<noteq> []" unfolding cmdline by (simp add: ascii_def)
  have "connection_loop n lookup semver gen idle
     \<lparr>cn_sock = so, cn_read_buf = [], cn_write_buf = [], cn_lookup = s, cn_log = [ConnectionsTotal transport, ConnectionsActiveInc transport]\<rparr>
     = Some c2"
    by (subst connection_loop_step) (simp add: assms(6) ne Let_def batch_run_def after_batch_def trans [OF run c2(1)])
  with c2(2,3) show ?thesis by (simp add: handle_connection_def)
qed

theorem eof_in_body_drops_replies_witness:
  "\<exists>c. handle_connection nom_streaming demo_lookup () (ascii ''1'') 0 ''tcp'' True
      (demo_socket [ascii ''version'' @ CRLF @ ascii ''ms a 1'' @ CRLF @ [9]]) = Some c \<and> so_out (cn_sock c) = []"
proof -
  have one: "ascii (show_nat (Suc 0)) = ascii ''1''" unfolding ascii_show_nat by (simp add: digits.simps ascii_def)
  have ok: "request_ok (SetReq (ascii ''a'') [9] [])"
    by (simp add: token_ok_def ascii_def token_byte_def SP_def CR_def LF_def line_ok_def)
  have r: "render (SetReq (ascii ''a'') [9] []) = (ascii ''ms a 1'' @ CRLF) @ [9] @ CRLF"
    by (simp add: one) (simp add: ascii_def SP_def)
  have "strict_prefix [9] ([9] @ CRLF)" by (simp add: CRLF_def strict_prefix_def)
  from eof_in_body_drops_replies [OF nom_streaming_ok _ ok r this, of "[VersionReq]"
      "demo_socket [ascii ''version'' @ CRLF @ ascii ''ms a 1'' @ CRLF @ [9]]" demo_lookup "()" "ascii ''1''" 0 "''tcp''" True]
  show ?thesis by (auto simp: demo_socket_def)
qed

section \<open>Catalogs\<close>

lemma demo_catalog_started: "catalog_start demo_decoder (\<lambda>_. Panic) 7 Map.empty [''catalog.json''] = Ok demo_catalog_start"
  by (simp add: catalog_start_def build_catalog_blocking_def build_catalog_sync_def CatalogFile_load_def
      demo_catalog_start_def dataset_count_def empty_catalog_def ActiveCatalog_new_def)

text \<open>
  C11. Whatever the interleaving of requests, connections and catalog reloads (fewer than 2^64
  steps), a request is answered from the catalog that is active when it is made: the catalog a
  connection has cached never shows.
\<close>

theorem catalog_requests_are_current:
  assumes "catalog_start dec open_path now fs p = Ok s0" and "(catalog_step st dec ^^ k) s0 s" and "k < 2 ^ 64"
    and "i < length (cs_conns s)"
  shows "fst (conn_get st i key s) = catalog_answer st (cs_registry s) key \<and>
    pc_catalog (cc_lookup (cs_conns (snd (conn_get st i key s)) ! i)) = registry_load (cs_registry s)"
proof -
  obtain c where "history [c] s0" using history_start [OF assms(1)] by blast
  from history_reachable [OF assms(2) this] obtain hs where hs: "history hs s" "length hs \<le> Suc k" by blast
  let ?l = "cc_lookup (cs_conns s ! i)"
  have mem: "pc_catalog ?l \<in> set hs" using hs(1) assms(4) by (auto simp: history_def)
  have cur: "pc_catalog (refresh_catalog (cs_registry s) ?l) = registry_load (cs_registry s)"
    by (rule history_refresh_current [OF hs(1) _ mem]) (use hs(2) assms(3) in simp)
  then have ok: "cached_catalog_ok (cs_registry s) ?l" by (auto simp: cached_catalog_ok_def refresh_catalog_def split: if_splits)
  have "snd (snd (CatalogLookup_get st (cs_registry s) key ?l)) = refresh_catalog (cs_registry s) ?l"
    by (rule CatalogLookup_get_refreshes)
  with cur assms(4) catalog_service.get_answer [OF ok, of st key] show ?thesis
    by (simp add: conn_get_def split_beta)
qed

theorem catalog_requests_are_current_witness:
  "fst (conn_get demo_storage 0 (ascii ''ds:k'') demo_reloaded) = Ok (LookupMiss False) \<and>
   ac_generation (pc_catalog (cc_lookup (cs_conns (snd (conn_get demo_storage 0 (ascii ''ds:k'') demo_reloaded)) ! 0))) = 1"
proof -
  note start = demo_catalog_started
  have "catalog_step demo_storage demo_decoder demo_catalog_start (accept_conn demo_catalog_start)" by (rule catalog_step.accept)
  moreover have "catalog_step demo_storage demo_decoder (accept_conn demo_catalog_start) demo_reloaded"
    unfolding demo_reloaded_def by (rule catalog_step.reload) (simp add: accept_conn_def demo_catalog_start_def)
  ultimately have run: "(catalog_step demo_storage demo_decoder ^^ 2) demo_catalog_start demo_reloaded"
    by (auto simp: numeral_2_eq_2)
  have conns: "length (cs_conns demo_reloaded) = 1" "ac_generation (registry_load (cs_registry demo_reloaded)) = 1"
    "ac_datasets (registry_load (cs_registry demo_reloaded)) = []"
    by (simp_all add: demo_reloaded_def reload_swap_def Let_def build_catalog_blocking_def build_catalog_sync_def
        CatalogFile_load_def demo_decoder_def accept_conn_def demo_catalog_start_def registry_swap_def registry_load_def
        ActiveCatalog_new_def)
  have "catalog_answer demo_storage (cs_registry demo_reloaded) (ascii ''ds:k'') = Ok (LookupMiss False)"
    using conns(3) CatalogLookup_get_routed [of "ascii ''ds''" demo_storage "cs_registry demo_reloaded" "ascii ''k''"]
    by (simp add: catalog_answer_def ascii_def COLON_def ActiveCatalog_get_def CatalogLookup_for_connection_def refresh_catalog_def)
  with catalog_requests_are_current [OF start run, of 0 "ascii ''ds:k''"] conns show ?thesis by simp
qed

section \<open>The catalog watcher\<close>

definition demo_notify :: notify_lib where
  "demo_notify =
     \<lparr>nt_new = Ok (), nt_watch = (\<lambda>_. Ok ()),
      nt_events = (\<lambda>fs fs'. [Ok \<lparr>ne_kind = AccessEvent, ne_paths = [[''catalog.json'']]\<rparr>, Ok \<lparr>ne_kind = ModifyEvent, ne_paths = [[''catalog.json'']]\<rparr>])\<rparr>"

lemma demo_notify_ok: "notify_ok demo_notify [''catalog.json'']"
  by (auto simp: notify_ok_def demo_notify_def intro!: exI [of _ "\<lparr>ne_kind = ModifyEvent, ne_paths = [[''catalog.json'']]\<rparr>"])

lemma demo_watch_init: "watch_init demo_notify [''catalog.json''] = Ok ()"
  by (simp add: watch_init_def path_parent_def demo_notify_def)

lemma catalog_start_settled: "catalog_start dec open_path now fs p = Ok cs \<Longrightarrow> cs_watcher cs = Watching"
  by (auto simp: catalog_start_def res_simps)

text \<open>
  C12. The watched catalog converges.  In every state a server reaches while files change, connections
  come and go and events queue up, the watcher has only finitely many steps to take on its own; once
  it has taken them, nothing is pending, and unless the catalog file is missing, its present contents
  are the ones that the start or a reload has read, and the active catalog is the outcome of that
  reading (the catalog built from them, or the one before when they could not be loaded).
\<close>

theorem catalog_file_converges:
  assumes "notify_ok nl p" and "catalog_start dec (open_path fs) now fs p = Ok cs"
    and "watch_begin nl p (catalog_loaded fs cs) = Ok s0" and "(watch_step nl st dec open_path p)\<^sup>*\<^sup>* s0 s"
  shows "(\<nexists>f. f 0 = s \<and> (\<forall>i. watch_progress dec open_path p (f i) (f (Suc i)))) \<and>
    (\<forall>s'. (watch_progress dec open_path p)\<^sup>*\<^sup>* s s' \<and> (\<nexists>s''. watch_progress dec open_path p s' s'') \<longrightarrow>
       settled s' \<and> (ws_files s' p \<noteq> None \<longrightarrow> catalog_current nl st dec open_path p s0 s'))"
proof (intro conjI allI impI)
  show "\<nexists>f. f 0 = s \<and> (\<forall>i. watch_progress dec open_path p (f i) (f (Suc i)))" using watch_progress_terminates by blast
next
  fix s'
  assume s': "(watch_progress dec open_path p)\<^sup>*\<^sup>* s s' \<and> (\<nexists>s''. watch_progress dec open_path p s' s'')"
  then show fin: "settled s'" using watch_stuck_settled by blast
  have w: "ws_watching s0" using assms(3) by (auto simp: watch_begin_def res_simps)
  have run: "(watch_step nl st dec open_path p)\<^sup>*\<^sup>* s0 s'" using assms(4) s' progress_run by (meson rtranclp_trans)
  show "catalog_current nl st dec open_path p s0 s'" if "ws_files s' p \<noteq> None"
    by (rule settled_current [OF run assms(1) w fin that])
qed

theorem catalog_file_converges_witness:
  "\<exists>s0 s'. watch_begin demo_notify [''catalog.json''] (catalog_loaded Map.empty demo_catalog_start) = Ok s0 \<and>
     (watch_progress demo_decoder (\<lambda>_ _. Panic) [''catalog.json''])\<^sup>*\<^sup>* (change_files demo_notify [[''catalog.json''] \<mapsto> []] s0) s' \<and>
     settled s' \<and> catalog_current demo_notify demo_storage demo_decoder (\<lambda>_ _. Panic) [''catalog.json''] s0 s'"
proof -
  let ?p = "[''catalog.json'']" and ?open = "\<lambda>_ _. Panic"
  let ?start = "catalog_loaded Map.empty demo_catalog_start\<lparr>ws_watching := True\<rparr>"
  let ?s = "change_files demo_notify [?p \<mapsto> []] ?start"
  have b: "watch_begin demo_notify ?p (catalog_loaded Map.empty demo_catalog_start) = Ok ?start"
    by (simp add: watch_begin_def demo_watch_init)
  have run: "(watch_step demo_notify demo_storage demo_decoder ?open ?p)\<^sup>*\<^sup>* ?start ?s"
    by (intro rtranclp.rtrancl_into_rtrancl [OF rtranclp.rtrancl_refl] watch_step.changed)
  obtain s' where s': "(watch_progress demo_decoder ?open ?p)\<^sup>*\<^sup>* ?s s'" "\<nexists>s''. watch_progress demo_decoder ?open ?p s' s''"
    using watch_settles by blast
  have "ws_files s' ?p \<noteq> None" using progress_run_files [OF s'(1)] by (simp add: change_files_def)
  with catalog_file_converges [where open_path = "\<lambda>_ _. Panic", OF demo_notify_ok demo_catalog_started b run] s' b show ?thesis by blast
qed

text \<open>
  C32. A change of the catalog between the first load and the start of the watch is lost: nobody reports
  it, and however the server runs on while no file changes, the catalog stays the one loaded before.
\<close>

theorem catalog_change_before_watch_is_missed:
  assumes "catalog_start dec (open_path fs) now fs p = Ok cs"
    and "watch_begin nl p (change_files nl fs' (catalog_loaded fs cs)) = Ok s1"
    and "(quiet_step st dec open_path p)\<^sup>*\<^sup>* s1 s"
  shows "ws_watching s1 \<and> settled s \<and> ws_files s = fs' \<and> cs_registry (ws_server s) = cs_registry cs"
proof -
  have s1: "s1 = catalog_loaded fs' cs\<lparr>ws_watching := True\<rparr>"
    using assms(2) by (auto simp: watch_begin_def change_files_def catalog_loaded_def res_simps)
  then have "settled s1" using catalog_start_settled [OF assms(1)] by (simp add: settled_def catalog_loaded_def)
  from quiet_run_settled [OF assms(3) this] s1 show ?thesis by (simp add: catalog_loaded_def)
qed

theorem catalog_change_before_watch_is_missed_witness:
  "\<exists>s1. watch_begin demo_notify [''catalog.json''] (change_files demo_notify [[''catalog.json''] \<mapsto> []]
       (catalog_loaded Map.empty demo_catalog_start)) = Ok s1 \<and> settled s1 \<and>
     build_catalog_blocking demo_decoder (\<lambda>_. Panic) 8 (ws_files s1) [''catalog.json''] 1 = Ok (ActiveCatalog_new [] 1 8) \<and>
     registry_load (cs_registry (ws_server s1)) = registry_load (cs_registry demo_catalog_start)"
proof -
  let ?s1 = "catalog_loaded [[''catalog.json''] \<mapsto> []] demo_catalog_start\<lparr>ws_watching := True\<rparr>"
  have b: "watch_begin demo_notify [''catalog.json''] (change_files demo_notify [[''catalog.json''] \<mapsto> []]
      (catalog_loaded Map.empty demo_catalog_start)) = Ok ?s1"
    by (simp add: watch_begin_def demo_watch_init change_files_def catalog_loaded_def)
  have "build_catalog_blocking demo_decoder (\<lambda>_. Panic) 8 (ws_files ?s1) [''catalog.json''] 1 = Ok (ActiveCatalog_new [] 1 8)"
    by (simp add: build_catalog_blocking_def build_catalog_sync_def CatalogFile_load_def demo_decoder_def catalog_loaded_def)
  with catalog_change_before_watch_is_missed [where open_path = "\<lambda>_ _. Panic", OF demo_catalog_started b rtranclp.rtrancl_refl] b
  show ?thesis by auto
qed

section \<open>From the load to the wire\<close>

text \<open>
  C3. From the load to the wire: after a V5 load into a fresh directory, snapshot mode starts on the
  directory, and a client that pipelines gets, in chunks of any size, reads for every key that was
  loaded its value and for every other key a miss (keys whose 64-bit verify fingerprint collides
  with that of another loaded key excepted).
\<close>

theorem loaded_pairs_served:
  fixes hl :: "'h hdr_lib"
  assumes "V5Builder_new (loader_builder_config root cfg) = Ok (b, c)" and "fresh_root root fs"
    and "sources_ok (lc_max_value_bytes cfg) srcs" and "lc_max_value_bytes cfg < 2 ^ 30"
    and "length (all_pairs srcs) < 2 ^ 32"
    and "(scatter_step xxh64)\<^sup>*\<^sup>* (scatter_start (vb_layout b) (lc_max_value_bytes cfg) srcs) ss"
    and "scatter_finished ss"
    and "serde_ok sj" and "desc5_ok sj dj" and "sort_ok sort_u"
    and "vo_compression (lc_v5 cfg) = NoCompression \<or> zstd_ok z" and "vo_sketch (lc_v5 cfg) \<longrightarrow> xorf_ok xorf"
    and dist: "distinct (map fst (all_pairs srcs))"
    and inj: "\<forall>key \<in> fst ` set gets. \<forall>k \<in> fst ` set (all_pairs srcs). v5_verify_fingerprint xxh64 k DEFAULT_VERIFY_SEED =
        v5_verify_fingerprint xxh64 key DEFAULT_VERIFY_SEED \<longrightarrow> k = key"
    and "nom_ok n" and "list_all request_ok (map (\<lambda>(key, toks). GetReq key toks) gets)"
    and "concat cs = concat (map (\<lambda>(key, toks). render (GetReq key toks)) gets)" and "[] \<notin> set cs"
    and "so_limit so = None" and "so_reads so = map Got cs"
  shows "\<exists>ids c' fs' l ev conn. load_parallel xxh64 (v5_format_builder z xorf xxh64 sort_u sj secs b) hl lj root
      (lc_n_partitions cfg) (vo_marker_mode (lc_v5 cfg)) secs' rate drains ss now (c, fs) = Some (Ok ids, (c', fs')) \<and>
    snapshot_start (Snapshot_open_path populate dj z xxh64 fs') root = Ok (l, ev) \<and>
    handle_connection n (SnapshotLookup_get (storage_of arch z xorf xxh64)) l semver 0 transport idle so = Some conn \<and>
    so_out (cn_sock conn) = so_out so @ concat (map (map_reply (all_pairs srcs)) gets)"
proof -
  let ?load = "load_parallel xxh64 (v5_format_builder z xorf xxh64 sort_u sj secs b) hl lj root
      (lc_n_partitions cfg) (vo_marker_mode (lc_v5 cfg)) secs' rate drains ss now (c, fs)"
  note load = v5_load_ok [OF assms(1-12), where hl = hl and secs = secs and lj = lj and secs' = secs' and rate = rate and
        drains = drains and now = now and populate = populate and arch = arch]
  obtain k m c' fs' r where L: "?load = Some (Ok (k, m), (c', fs'))" "Snapshot_open_path populate dj z xxh64 fs' root = Ok r"
    using load by blast
  let ?l = "SnapshotLookup_new r (LookupCounters_new SNAPSHOT_DATASET)" and ?st = "storage_of arch z xorf xxh64"
  have start: "snapshot_start (Snapshot_open_path populate dj z xxh64 fs') root = Ok (?l, [ActiveDatasets 1, CatalogGeneration 0])"
    using L(2) by (simp add: snapshot_start_def)
  have reply: "service_reply (snapshot_answer ?st ?l) semver 0 (GetReq key toks) = map_reply (all_pairs srcs) (key, toks)"
    if "(key, toks) \<in> set gets" for key toks
  proof -
    obtain res where res: "Snapshot_get arch z xorf xxh64 r key = Ok res" "load_answers xxh64 (vb_layout b) (all_pairs srcs) key res"
      using load L by fastforce
    from load_answers_map_of [OF res(2) dist] inj that
    have "case map_of (all_pairs srcs) key of Some v \<Rightarrow> res = Hit v | None \<Rightarrow> \<exists>io. res = Miss io" by force
    from snapshot_answer_get [OF res(1) this] show ?thesis unfolding map_reply_def fst_conv snd_conv service_reply.simps .
  qed
  have wire: "concat cs = concat (map render (map (\<lambda>(key, toks). GetReq key toks) gets))"
    unfolding assms(17) map_map by (rule arg_cong [where f = concat], rule map_cong) auto
  let ?reqs = "map (\<lambda>(key, toks). GetReq key toks) gets"
  have "serves n (SnapshotLookup_get ?st) semver 0 ?l (concat cs) (fst (replies (SnapshotLookup_get ?st) semver 0 ?reqs ?l))
      (snd (replies (SnapshotLookup_get ?st) semver 0 ?reqs ?l)) True"
    unfolding wire by (rule serves_requests [OF assms(15,16)]) simp
  moreover have "fst (replies (SnapshotLookup_get ?st) semver 0 ?reqs ?l) = concat (map (map_reply (all_pairs srcs)) gets)"
    using reply by (subst snapshot_service.replies_service) (auto intro!: arg_cong [where f = concat])
  ultimately obtain conn where "handle_connection n (SnapshotLookup_get ?st) ?l semver 0 transport idle so = Some conn"
    "so_out (cn_sock conn) = so_out so @ concat (map (map_reply (all_pairs srcs)) gets)"
    using handle_connection_serves [OF assms(15,18,19,20)] by metis
  with L(1) start show ?thesis by blast
qed

theorem loaded_pairs_served_witness:
  "\<exists>ss ids c' fs' l ev conn. load_parallel demo_hash
        (v5_format_builder demo_zstd demo_xorf demo_hash (sort_key fr_fp) demo_serde [] demo_v5_builder)
        demo_hdr demo_lserde [''snap''] 1 Rename [] 0 (\<lambda>_. True) ss [] (\<lparr>c_plan = None, c_done = None\<rparr>, Map.empty) =
        Some (Ok ids, (c', fs')) \<and>
      snapshot_start (Snapshot_open_path None demo_desc5 demo_zstd demo_hash fs') [''snap''] = Ok (l, ev) \<and>
      handle_connection nom_streaming (SnapshotLookup_get (storage_of OtherArch demo_zstd demo_xorf demo_hash)) l (ascii ''1'') 0
        ''tcp'' True (demo_socket [ascii ''mg '' @ [7] @ CRLF]) = Some conn \<and>
      so_out (cn_sock conn) = ascii ''VA 3'' @ CRLF @ [1, 2, 3] @ CRLF"
proof -
  have lay: "vb_layout demo_v5_builder = layout1" by (simp add: demo_v5_builder_def)
  obtain ss where ss: "(scatter_step demo_hash)\<^sup>*\<^sup>* (scatter_start layout1 DEFAULT_MAX_VALUE_BYTES demo_sources) ss" "scatter_finished ss"
    using scatter_run_exists [OF _ demo_sources_ok, of layout1] demo_layout by auto
  have len: "length (all_pairs demo_sources) < 2 ^ 32" by (simp add: demo_kvs_def)
  have m: "lc_max_value_bytes demo_v5_config < 2 ^ 30" by (simp add: demo_config DEFAULT_MAX_VALUE_BYTES_def)
  have d: "distinct (map fst (all_pairs demo_sources))" by (simp add: demo_kvs_def)
  have i: "\<forall>key \<in> fst ` set [([7], [] :: bytes list)]. \<forall>k \<in> fst ` set (all_pairs demo_sources).
      v5_verify_fingerprint demo_hash k DEFAULT_VERIFY_SEED = v5_verify_fingerprint demo_hash key DEFAULT_VERIFY_SEED \<longrightarrow> k = key"
    by (simp add: demo_kvs_def v5_verify_fingerprint_def demo_hash_def DEFAULT_VERIFY_SEED_def Let_def)
  have ok: "list_all request_ok (map (\<lambda>(key, toks). GetReq key toks) [([7], [])])"
    by (simp add: token_ok_def token_byte_def SP_def CR_def LF_def)
  have wire: "concat [ascii ''mg '' @ [7] @ CRLF] = concat (map (\<lambda>(key, toks). render (GetReq key toks)) [([7], [])])"
    by (simp add: ascii_def SP_def)
  have so: "so_limit (demo_socket [ascii ''mg '' @ [7] @ CRLF]) = None"
    "so_reads (demo_socket [ascii ''mg '' @ [7] @ CRLF]) = map Got [ascii ''mg '' @ [7] @ CRLF]" by (simp_all add: demo_socket_def)
  have ne: "[] \<notin> set [ascii ''mg '' @ [7] @ CRLF]" by (simp add: ascii_def)
  note w = loaded_pairs_served [OF demo_v5_new empty_is_fresh, unfolded demo_config lay, OF demo_sources_ok
      m [unfolded demo_config] len ss demo_serde_ok demo_desc5_ok sort_key_ok
      disjI2 [OF demo_zstd_ok] impI [OF demo_xorf_ok] d i nom_streaming_ok ok wire ne so,
      of "[]" demo_hdr demo_lserde "[]" 0 "\<lambda>_. True" "[]" None OtherArch "ascii ''1''" "''tcp''" True, unfolded demo_pairs]
  have three: "ascii (show_nat (Suc (Suc (Suc 0)))) = ascii ''3''" unfolding ascii_show_nat by (simp add: digits.simps ascii_def)
  have "map_of demo_kvs [7] = Some [1, 2, 3]" by (simp add: demo_kvs_def)
  then have "concat (map (map_reply demo_kvs) [([7], [])]) = ascii ''VA 3'' @ CRLF @ [1, 2, 3] @ CRLF"
    by (simp add: map_reply_def write_va_def MgFlags_default_def three) (simp add: ascii_def)
  with w ss show ?thesis by (simp add: demo_socket_def) blast
qed

end
