(* ===== verification/Loader_Sources.thy ===== *)
theory Loader_Sources
  imports Loader "HOL-Library.Sublist"
begin

text \<open>
  \<open>mcfreeze-loader/src/source.rs\<close>: what a load reads.  A source of record batches is the list of
  what its \<open>next_batch\<close> returns, after which it reports the end of the stream; the adapters turn
  such sources into the key-value sources the scatter of \<open>Loader\<close> polls.

  The \<open>arrow\<close> and \<open>itoa\<close> crates are the record \<open>arrow_lib\<close> of the functions the code calls, over
  the abstract types \<open>'b\<close> of record batches and \<open>'c\<close> of columns, with the documented behaviour
  \<open>arrow_ok\<close>; \<open>arrow_csv\<close> is \<open>csv_lib\<close>.  The estimates a source reports only feed the progress
  display.
\<close>

section \<open>Arrow\<close>

datatype DataType =
    Binary
  | LargeBinary
  | Utf8
  | LargeUtf8
  | Int32
  | Int64
  | UInt32
  | UInt64
  | OtherType string

type_synonym Schema = "(string \<times> DataType) list"

text \<open>
  \<open>ar_value\<close> is \<open>value(i)\<close> of a byte or string array for a row within its length, \<open>ar_values_len\<close>
  the length of its values buffer, \<open>ar_ints\<close> the values of an integer array.
\<close>

record ('b, 'c) arrow_lib =
  ar_data_type :: "'c \<Rightarrow> DataType"
  ar_len :: "'c \<Rightarrow> nat"
  ar_null_count :: "'c \<Rightarrow> nat"
  ar_value :: "'c \<Rightarrow> nat \<Rightarrow> bytes"
  ar_values_len :: "'c \<Rightarrow> nat"
  ar_ints :: "'c \<Rightarrow> int list"
  ar_slice :: "'c \<Rightarrow> nat \<Rightarrow> nat \<Rightarrow> 'c"
  rb_columns :: "'b \<Rightarrow> 'c list"
  rb_names :: "'b \<Rightarrow> string list"
  rb_num_rows :: "'b \<Rightarrow> nat"
  rb_slice :: "'b \<Rightarrow> nat \<Rightarrow> nat \<Rightarrow> 'b"
  rb_project :: "'b \<Rightarrow> nat list \<Rightarrow> (string, 'b) res"
  show_type :: "DataType \<Rightarrow> string"
  debug_str :: "string \<Rightarrow> string"
  itoa_format :: "int \<Rightarrow> bytes"

definition bytes_of_string :: "string \<Rightarrow> bytes" where
  "bytes_of_string s = map (\<lambda>c. of_char c) s"

definition show_int :: "int \<Rightarrow> string" where
  "show_int i = (if i < 0 then CHR ''-'' # show_nat (nat (- i)) else show_nat (nat i))"

definition int_type :: "DataType \<Rightarrow> bool" where
  "int_type dt \<longleftrightarrow> dt \<in> {Int32, Int64, UInt32, UInt64}"

definition byte_type :: "DataType \<Rightarrow> bool" where
  "byte_type dt \<longleftrightarrow> dt \<in> {Binary, LargeBinary, Utf8, LargeUtf8}"

text \<open>
  The columns of a batch have one name and as many rows as the batch; a slice of a batch slices
  its columns; \<open>itoa\<close> formats in decimal.
\<close>

definition arrow_ok :: "('b, 'c) arrow_lib \<Rightarrow> bool" where
  "arrow_ok ar \<longleftrightarrow>
     (\<forall>b. length (rb_names ar b) = length (rb_columns ar b) \<and>
          (\<forall>c \<in> set (rb_columns ar b). ar_len ar c = rb_num_rows ar b)) \<and>
     (\<forall>c. int_type (ar_data_type ar c) \<longrightarrow> length (ar_ints ar c) = ar_len ar c) \<and>
     (\<forall>b off n. off + n \<le> rb_num_rows ar b \<longrightarrow>
          rb_num_rows ar (rb_slice ar b off n) = n \<and> rb_names ar (rb_slice ar b off n) = rb_names ar b \<and>
          rb_columns ar (rb_slice ar b off n) = map (\<lambda>c. ar_slice ar c off n) (rb_columns ar b)) \<and>
     (\<forall>c off n. off + n \<le> ar_len ar c \<longrightarrow>
          ar_data_type ar (ar_slice ar c off n) = ar_data_type ar c \<and>
          (\<forall>i < n. ar_value ar (ar_slice ar c off n) i = ar_value ar c (off + i)) \<and>
          (int_type (ar_data_type ar c) \<longrightarrow> ar_ints ar (ar_slice ar c off n) = take n (drop off (ar_ints ar c)))) \<and>
     (\<forall>i. itoa_format ar i = bytes_of_string (show_int i))"

section \<open>Record batch sources\<close>

record SourceMetadata =
  sm_estimated_rows :: "u64 option"
  sm_estimated_bytes :: "u64 option"

definition SourceMetadata_default :: SourceMetadata where
  "SourceMetadata_default = \<lparr>sm_estimated_rows = None, sm_estimated_bytes = None\<rparr>"

text \<open>One call of \<open>next_batch\<close>, and the source it leaves.\<close>

fun poll :: "('e, 'b) res list \<Rightarrow> ('e, 'b option) res \<times> ('e, 'b) res list" where
  "poll [] = (Ok None, [])"
| "poll (r # rest) = (rmap Some r, rest)"

text \<open>\<open>BoxedRecordBatchSource\<close>: errors become \<open>LoaderError::Source\<close>; \<open>disp\<close> displays them.\<close>

definition boxed :: "('e \<Rightarrow> string) \<Rightarrow> ('e, 'b) res list \<Rightarrow> (LoaderError, 'b) res list" where
  "boxed disp src = map (map_err (SourceE \<circ> disp)) src"

definition next_batch_boxed :: "('e \<Rightarrow> string) \<Rightarrow> ('e, 'b) res list \<Rightarrow> 'b option lres \<times> ('e, 'b) res list" where
  "next_batch_boxed disp src = (let (r, src') = poll src in (map_err (SourceE \<circ> disp) r, src'))"

section \<open>Key-value batches\<close>

type_synonym VecBatch = "(bytes \<times> bytes) list"

definition VecBatch_for_each_kv :: "(bytes \<Rightarrow> bytes \<Rightarrow> 's \<Rightarrow> ('e, 's) res) \<Rightarrow> VecBatch \<Rightarrow> 's \<Rightarrow> ('e, 's) res" where
  "VecBatch_for_each_kv f b = foldR (\<lambda>(k, v). f k v) b"

definition VecBatch_total_bytes :: "VecBatch \<Rightarrow> u64" where
  "VecBatch_total_bytes b = sum_list (map (\<lambda>(k, v). word_of_nat (length k + length v)) b)"

record 'c ArrowKvBatch =
  akb_keys :: 'c
  akb_values :: 'c

definition validate_key_column :: "('b, 'c) arrow_lib \<Rightarrow> 'c \<Rightarrow> string \<Rightarrow> unit lres" where
  "validate_key_column ar col name =
     (case ar_data_type ar col of
        OtherType t \<Rightarrow> Err (ArrowE (''key column '' @ debug_str ar name @ '' has type '' @ show_type ar (OtherType t) @
          ''; expected Binary, LargeBinary, Utf8, LargeUtf8, Int32, Int64, UInt32, or UInt64''))
      | _ \<Rightarrow> Ok ())"

definition validate_byte_column :: "('b, 'c) arrow_lib \<Rightarrow> 'c \<Rightarrow> string \<Rightarrow> unit lres" where
  "validate_byte_column ar col name =
     (case ar_data_type ar col of
        Binary \<Rightarrow> Ok () | LargeBinary \<Rightarrow> Ok () | Utf8 \<Rightarrow> Ok () | LargeUtf8 \<Rightarrow> Ok ()
      | dt \<Rightarrow> Err (ArrowE (''column '' @ debug_str ar name @ '' has type '' @ show_type ar dt @
          ''; expected Binary, LargeBinary, Utf8, or LargeUtf8'')))"

text \<open>Indexing columns or fields out of range panics.\<close>

definition index_or_panic :: "'a list \<Rightarrow> nat \<Rightarrow> ('e, 'a) res" where
  "index_or_panic xs i = (if i < length xs then Ok (xs ! i) else Panic)"

definition from_record_batch :: "('b, 'c) arrow_lib \<Rightarrow> 'b \<Rightarrow> nat \<Rightarrow> nat \<Rightarrow> 'c ArrowKvBatch lres" where
  "from_record_batch ar batch key_col_idx val_col_idx =
     rbind (index_or_panic (rb_columns ar batch) key_col_idx) (\<lambda>keys.
     rbind (index_or_panic (rb_columns ar batch) val_col_idx) (\<lambda>vals.
     rbind (index_or_panic (rb_names ar batch) key_col_idx) (\<lambda>kname.
     rbind (validate_key_column ar keys kname) (\<lambda>_.
     rbind (index_or_panic (rb_names ar batch) val_col_idx) (\<lambda>vname.
     rbind (validate_byte_column ar vals vname) (\<lambda>_.
     Ok \<lparr>akb_keys = keys, akb_values = vals\<rparr>))))))"

text \<open>The callbacks pass a state of type \<open>'s\<close>; an error of a callback ends the visit.\<close>

definition for_each_value :: "('b, 'c) arrow_lib \<Rightarrow> 'c \<Rightarrow> (nat \<Rightarrow> bytes \<Rightarrow> 's \<Rightarrow> ('e, 's) res) \<Rightarrow> 's \<Rightarrow> ('e, 's) res" where
  "for_each_value ar col f = foldR (\<lambda>i. f i (ar_value ar col i)) [0..<ar_len ar col]"

definition for_each_int :: "('b, 'c) arrow_lib \<Rightarrow> 'c \<Rightarrow> (nat \<Rightarrow> bytes \<Rightarrow> 's \<Rightarrow> ('e, 's) res) \<Rightarrow> 's \<Rightarrow> ('e, 's) res" where
  "for_each_int ar col f = foldR (\<lambda>(i, v). f i (itoa_format ar v)) (enumerate 0 (ar_ints ar col))"

definition for_each_key :: "('b, 'c) arrow_lib \<Rightarrow> 'c \<Rightarrow> (nat \<Rightarrow> bytes \<Rightarrow> 's \<Rightarrow> ('e, 's) res) \<Rightarrow> 's \<Rightarrow> ('e, 's) res" where
  "for_each_key ar col f s =
     (case ar_data_type ar col of
        Binary \<Rightarrow> for_each_value ar col f s
      | LargeBinary \<Rightarrow> for_each_value ar col f s
      | Utf8 \<Rightarrow> for_each_value ar col f s
      | LargeUtf8 \<Rightarrow> for_each_value ar col f s
      | Int32 \<Rightarrow> for_each_int ar col f s
      | Int64 \<Rightarrow> for_each_int ar col f s
      | UInt32 \<Rightarrow> for_each_int ar col f s
      | UInt64 \<Rightarrow> for_each_int ar col f s
      | OtherType _ \<Rightarrow> Panic)"

definition byte_value :: "('b, 'c) arrow_lib \<Rightarrow> 'c \<Rightarrow> nat \<Rightarrow> ('e, bytes) res" where
  "byte_value ar col i =
     (case ar_data_type ar col of
        Binary \<Rightarrow> if i < ar_len ar col then Ok (ar_value ar col i) else Panic
      | LargeBinary \<Rightarrow> if i < ar_len ar col then Ok (ar_value ar col i) else Panic
      | Utf8 \<Rightarrow> if i < ar_len ar col then Ok (ar_value ar col i) else Panic
      | LargeUtf8 \<Rightarrow> if i < ar_len ar col then Ok (ar_value ar col i) else Panic
      | _ \<Rightarrow> Panic)"

definition ArrowKvBatch_len :: "('b, 'c) arrow_lib \<Rightarrow> 'c ArrowKvBatch \<Rightarrow> nat" where
  "ArrowKvBatch_len ar kb = ar_len ar (akb_keys kb)"

definition ArrowKvBatch_for_each_kv ::
    "('b, 'c) arrow_lib \<Rightarrow> 'c ArrowKvBatch \<Rightarrow> (bytes \<Rightarrow> bytes \<Rightarrow> 's \<Rightarrow> ('e, 's) res) \<Rightarrow> 's \<Rightarrow> ('e, 's) res" where
  "ArrowKvBatch_for_each_kv ar kb f =
     for_each_key ar (akb_keys kb) (\<lambda>i key s. rbind (byte_value ar (akb_values kb) i) (\<lambda>v. f key v s))"

definition key_column_size :: "('b, 'c) arrow_lib \<Rightarrow> 'c \<Rightarrow> ('e, u64) res" where
  "key_column_size ar col =
     (case ar_data_type ar col of
        Binary \<Rightarrow> Ok (word_of_nat (ar_values_len ar col))
      | LargeBinary \<Rightarrow> Ok (word_of_nat (ar_values_len ar col))
      | Utf8 \<Rightarrow> Ok (word_of_nat (ar_values_len ar col))
      | LargeUtf8 \<Rightarrow> Ok (word_of_nat (ar_values_len ar col))
      | Int32 \<Rightarrow> Ok (word_of_nat (ar_len ar col) * 4)
      | UInt32 \<Rightarrow> Ok (word_of_nat (ar_len ar col) * 4)
      | Int64 \<Rightarrow> Ok (word_of_nat (ar_len ar col) * 8)
      | UInt64 \<Rightarrow> Ok (word_of_nat (ar_len ar col) * 8)
      | OtherType _ \<Rightarrow> Panic)"

definition byte_value_buffer_size :: "('b, 'c) arrow_lib \<Rightarrow> 'c \<Rightarrow> ('e, u64) res" where
  "byte_value_buffer_size ar col =
     (case ar_data_type ar col of
        Binary \<Rightarrow> Ok (word_of_nat (ar_values_len ar col))
      | LargeBinary \<Rightarrow> Ok (word_of_nat (ar_values_len ar col))
      | Utf8 \<Rightarrow> Ok (word_of_nat (ar_values_len ar col))
      | LargeUtf8 \<Rightarrow> Ok (word_of_nat (ar_values_len ar col))
      | _ \<Rightarrow> Panic)"

definition ArrowKvBatch_total_bytes :: "('b, 'c) arrow_lib \<Rightarrow> 'c ArrowKvBatch \<Rightarrow> ('e, u64) res" where
  "ArrowKvBatch_total_bytes ar kb =
     rbind (key_column_size ar (akb_keys kb)) (\<lambda>k.
     rbind (byte_value_buffer_size ar (akb_values kb)) (\<lambda>v. Ok (k + v)))"

section \<open>Raw encoding\<close>

definition RawEncodingSource_next ::
    "('b, 'c) arrow_lib \<Rightarrow> ('e \<Rightarrow> string) \<Rightarrow> nat \<Rightarrow> nat \<Rightarrow> ('e, 'b) res list
       \<Rightarrow> 'c ArrowKvBatch option lres \<times> ('e, 'b) res list" where
  "RawEncodingSource_next ar disp key_col_idx val_col_idx src =
     (case poll src of
        (Ok (Some b), src') \<Rightarrow> (rmap Some (from_record_batch ar b key_col_idx val_col_idx), src')
      | (Ok None, src') \<Rightarrow> (Ok None, src')
      | (Err e, src') \<Rightarrow> (Err (SourceE (disp e)), src')
      | (Panic, src') \<Rightarrow> (Panic, src'))"

text \<open>
  What the scatter sees of a key-value source: it polls until the end of the stream and visits the
  pairs of each batch with \<open>for_each_kv\<close> (\<open>visit\<close> collects them).
\<close>

definition collect_kv :: "((bytes \<Rightarrow> bytes \<Rightarrow> (bytes \<times> bytes) list \<Rightarrow> ('e, (bytes \<times> bytes) list) res) \<Rightarrow>
      (bytes \<times> bytes) list \<Rightarrow> ('e, (bytes \<times> bytes) list) res) \<Rightarrow> ('e, (bytes \<times> bytes) list) res" where
  "collect_kv visit = visit (\<lambda>k v kvs. Ok (kvs @ [(k, v)])) []"

fun kv_source :: "('s \<Rightarrow> ('e, 'k option) res \<times> 's) \<Rightarrow> ('k \<Rightarrow> ('e, (bytes \<times> bytes) list) res) \<Rightarrow> ('e \<Rightarrow> string) \<Rightarrow> nat \<Rightarrow> 's \<Rightarrow> source" where
  "kv_source next pairs disp 0 s = []"
| "kv_source next pairs disp (Suc n) s =
     (case next s of
        (Ok (Some b), s') \<Rightarrow> map_err disp (pairs b) # kv_source next pairs disp n s'
      | (Ok None, s') \<Rightarrow> []
      | (Err e, s') \<Rightarrow> [Err (disp e)]
      | (Panic, s') \<Rightarrow> [Panic])"

definition raw_source ::
    "('b, 'c) arrow_lib \<Rightarrow> ('e \<Rightarrow> string) \<Rightarrow> (LoaderError \<Rightarrow> string) \<Rightarrow> nat \<Rightarrow> nat \<Rightarrow> ('e, 'b) res list \<Rightarrow> source" where
  "raw_source ar disp dispL ki vi src =
     kv_source (RawEncodingSource_next ar disp ki vi) (\<lambda>kb. collect_kv (ArrowKvBatch_for_each_kv ar kb)) dispL
       (length src) src"


section \<open>Row limit\<close>

text \<open>
  The budget after \<open>fetch_sub\<close> (a wrapping \<open>i64\<close>) and the batch passed on.  A slice is only taken
  within the batch, where it does not panic.
\<close>

definition take_from_budget :: "('b, 'c) arrow_lib \<Rightarrow> 64 word \<Rightarrow> 'b \<Rightarrow> 64 word \<times> 'b option" where
  "take_from_budget ar remaining batch =
     (let n = (word_of_nat (rb_num_rows ar batch) :: 64 word); prev = remaining
      in (remaining - n,
          if sint prev \<le> 0 then None
          else if sint prev < sint n then Some (rb_slice ar batch 0 (unat prev))
          else Some batch))"

text \<open>
  One whole call of \<open>LimitedSource::next_batch\<close>, with nothing in between; \<open>inner\<close> is a boxed source.
\<close>

definition LimitedSource_next ::
    "('b, 'c) arrow_lib \<Rightarrow> 64 word \<times> (LoaderError, 'b) res list \<Rightarrow> 'b option lres \<times> 64 word \<times> (LoaderError, 'b) res list" where
  "LimitedSource_next ar st =
     (let (remaining, inner) = st
      in if sint remaining \<le> 0 then (Ok None, st)
         else case poll inner of
                (Ok (Some b), inner') \<Rightarrow> (let (r, out) = take_from_budget ar remaining b in (Ok out, r, inner'))
              | (Ok None, inner') \<Rightarrow> (Ok None, remaining, inner')
              | (Err e, inner') \<Rightarrow> (Err e, remaining, inner')
              | (Panic, inner') \<Rightarrow> (Panic, remaining, inner'))"

text \<open>
  The sources of \<open>limit_sources\<close> share the budget and run concurrently: between a source's check of
  the budget and its reservation other sources may reserve.  A task is checking, waiting for its
  upstream, or has reported the end of its stream or an error.
\<close>

datatype LimitPhase = Checking | Fetching | Ended "LoaderError option"

record 'b LimitTask =
  lt_inner :: "(LoaderError, 'b) res list"
  lt_phase :: LimitPhase
  lt_out :: "'b list"

record 'b LimitState =
  ls_remaining :: "64 word"
  ls_tasks :: "'b LimitTask list"

definition limit_budget :: "u64 \<Rightarrow> 64 word" where
  "limit_budget limit = min limit (word_of_nat (2 ^ 63 - 1))"

definition limit_sources :: "(LoaderError, 'b) res list list \<Rightarrow> u64 \<Rightarrow> 'b LimitState" where
  "limit_sources sources limit =
     \<lparr>ls_remaining = limit_budget limit,
      ls_tasks = map (\<lambda>inner. \<lparr>lt_inner = inner, lt_phase = Checking, lt_out = []\<rparr>) sources\<rparr>"

inductive limit_step :: "('b, 'c) arrow_lib \<Rightarrow> 'b LimitState \<Rightarrow> 'b LimitState \<Rightarrow> bool" for ar where
  spent: "i < length (ls_tasks s) \<Longrightarrow> ls_tasks s ! i = \<lparr>lt_inner = src, lt_phase = Checking, lt_out = out\<rparr> \<Longrightarrow>
    sint (ls_remaining s) \<le> 0 \<Longrightarrow>
    limit_step ar s (s\<lparr>ls_tasks := (ls_tasks s)[i := \<lparr>lt_inner = src, lt_phase = Ended None, lt_out = out\<rparr>]\<rparr>)"
| checked: "i < length (ls_tasks s) \<Longrightarrow> ls_tasks s ! i = \<lparr>lt_inner = src, lt_phase = Checking, lt_out = out\<rparr> \<Longrightarrow>
    0 < sint (ls_remaining s) \<Longrightarrow>
    limit_step ar s (s\<lparr>ls_tasks := (ls_tasks s)[i := \<lparr>lt_inner = src, lt_phase = Fetching, lt_out = out\<rparr>]\<rparr>)"
| exhausted: "i < length (ls_tasks s) \<Longrightarrow> ls_tasks s ! i = \<lparr>lt_inner = [], lt_phase = Fetching, lt_out = out\<rparr> \<Longrightarrow>
    limit_step ar s (s\<lparr>ls_tasks := (ls_tasks s)[i := \<lparr>lt_inner = [], lt_phase = Ended None, lt_out = out\<rparr>]\<rparr>)"
| failed: "i < length (ls_tasks s) \<Longrightarrow> ls_tasks s ! i = \<lparr>lt_inner = Err e # src, lt_phase = Fetching, lt_out = out\<rparr> \<Longrightarrow>
    limit_step ar s (s\<lparr>ls_tasks := (ls_tasks s)[i := \<lparr>lt_inner = src, lt_phase = Ended (Some e), lt_out = out\<rparr>]\<rparr>)"
| passed: "i < length (ls_tasks s) \<Longrightarrow> ls_tasks s ! i = \<lparr>lt_inner = Ok b # src, lt_phase = Fetching, lt_out = out\<rparr> \<Longrightarrow>
    take_from_budget ar (ls_remaining s) b = (r, Some b') \<Longrightarrow>
    limit_step ar s (s\<lparr>ls_remaining := r, ls_tasks := (ls_tasks s)[i := \<lparr>lt_inner = src, lt_phase = Checking, lt_out = out @ [b']\<rparr>]\<rparr>)"
| drained: "i < length (ls_tasks s) \<Longrightarrow> ls_tasks s ! i = \<lparr>lt_inner = Ok b # src, lt_phase = Fetching, lt_out = out\<rparr> \<Longrightarrow>
    take_from_budget ar (ls_remaining s) b = (r, None) \<Longrightarrow>
    limit_step ar s (s\<lparr>ls_remaining := r, ls_tasks := (ls_tasks s)[i := \<lparr>lt_inner = src, lt_phase = Ended None, lt_out = out\<rparr>]\<rparr>)"

definition limit_finished :: "'b LimitState \<Rightarrow> bool" where
  "limit_finished s \<longleftrightarrow> (\<forall>t \<in> set (ls_tasks s). lt_phase t \<noteq> Checking \<and> lt_phase t \<noteq> Fetching)"

text \<open>What the limited sources have delivered; they are boxed again.\<close>

definition limited_outputs :: "(LoaderError \<Rightarrow> string) \<Rightarrow> 'b LimitState \<Rightarrow> (LoaderError, 'b) res list list" where
  "limited_outputs disp s =
     map (\<lambda>t. map Ok (lt_out t) @ (case lt_phase t of Ended (Some e) \<Rightarrow> [Err (SourceE (disp e))] | _ \<Rightarrow> [])) (ls_tasks s)"

section \<open>CSV\<close>

text \<open>
  \<open>csv_infer_schema\<close> reads the header and at most the given number of rows; \<open>csv_read\<close> builds a
  reader with a header for a schema and batch size, and gives what it yields.
\<close>

record 'b csv_lib =
  csv_infer_schema :: "bytes \<Rightarrow> nat \<Rightarrow> (string, Schema) res"
  csv_read :: "Schema \<Rightarrow> nat \<Rightarrow> bytes \<Rightarrow> (string, (string, 'b) res list) res"

record 'b CsvSource =
  cs_reader :: "(string, 'b) res list"
  cs_schema :: Schema

definition CsvSource_with_schema :: "'b csv_lib \<Rightarrow> bytes \<Rightarrow> Schema \<Rightarrow> nat \<Rightarrow> 'b CsvSource lres" where
  "CsvSource_with_schema cl reader schema batch_size =
     rbind (map_err ArrowE (csv_read cl schema batch_size reader)) (\<lambda>rd.
     Ok \<lparr>cs_reader = rd, cs_schema = schema\<rparr>)"

definition CsvSource_from_reader :: "'b csv_lib \<Rightarrow> (io_error, bytes) res \<Rightarrow> nat \<Rightarrow> 'b CsvSource lres" where
  "CsvSource_from_reader cl reader batch_size =
     rbind (map_err IoE reader) (\<lambda>buf.
     rbind (map_err ArrowE (csv_infer_schema cl buf 100)) (\<lambda>schema.
     CsvSource_with_schema cl buf schema batch_size))"

definition CsvSource_from_path :: "'b csv_lib \<Rightarrow> files \<Rightarrow> path \<Rightarrow> nat \<Rightarrow> 'b CsvSource lres" where
  "CsvSource_from_path cl fs p batch_size =
     rbind (case fs p of Some bs \<Rightarrow> Ok bs | None \<Rightarrow> Err (IoE (IoError NotFound []))) (\<lambda>file_bytes.
     rbind (map_err ArrowE (csv_infer_schema cl file_bytes 100)) (\<lambda>schema.
     CsvSource_with_schema cl file_bytes schema batch_size))"

definition CsvSource_next :: "'b CsvSource \<Rightarrow> 'b option lres \<times> 'b CsvSource" where
  "CsvSource_next cs =
     (case cs_reader cs of
        Ok b # rest \<Rightarrow> (Ok (Some b), cs\<lparr>cs_reader := rest\<rparr>)
      | Err e # rest \<Rightarrow> (Err (ArrowE e), cs\<lparr>cs_reader := rest\<rparr>)
      | Panic # rest \<Rightarrow> (Panic, cs\<lparr>cs_reader := rest\<rparr>)
      | [] \<Rightarrow> (Ok None, cs))"

text \<open>The batches of a CSV source, as the list of what its polls return.\<close>

definition csv_batches :: "'b CsvSource \<Rightarrow> (LoaderError, 'b) res list" where
  "csv_batches cs = map (map_err ArrowE) (cs_reader cs)"

section \<open>Polling\<close>

lemma boxed_poll: "next_batch_boxed disp src = (fst (poll (boxed disp src)), tl src)"
  by (cases src; cases "hd src") (simp_all add: next_batch_boxed_def boxed_def)

lemma csv_poll: "CsvSource_next cs = (r, cs') \<Longrightarrow> poll (csv_batches cs) = (r, csv_batches cs')"
  by (cases "cs_reader cs"; cases "hd (cs_reader cs)") (auto simp: CsvSource_next_def csv_batches_def)

text \<open>An undisturbed call of a limited source is a check followed by its fetch.\<close>

lemma limited_next_steps:
  assumes "i < length (ls_tasks s)" and "ls_tasks s ! i = \<lparr>lt_inner = src, lt_phase = Checking, lt_out = out\<rparr>"
    and "LimitedSource_next ar (ls_remaining s, src) = (Ok (Some b), r, src')"
  shows "(limit_step ar)\<^sup>*\<^sup>* s (s\<lparr>ls_remaining := r,
    ls_tasks := (ls_tasks s)[i := \<lparr>lt_inner = src', lt_phase = Checking, lt_out = out @ [b]\<rparr>]\<rparr>)"
proof -
  from assms(3) obtain b0 where c: "0 < sint (ls_remaining s)" "src = Ok b0 # src'"
    "take_from_budget ar (ls_remaining s) b0 = (r, Some b)"
    by (cases src; cases "hd src") (auto simp: LimitedSource_next_def split: if_splits prod.splits)
  let ?s1 = "s\<lparr>ls_tasks := (ls_tasks s)[i := \<lparr>lt_inner = src, lt_phase = Fetching, lt_out = out\<rparr>]\<rparr>"
  have "limit_step ar s ?s1" using limit_step.checked [OF assms(1,2) c(1)] .
  moreover have "limit_step ar ?s1 (?s1\<lparr>ls_remaining := r,
      ls_tasks := (ls_tasks ?s1)[i := \<lparr>lt_inner = src', lt_phase = Checking, lt_out = out @ [b]\<rparr>]\<rparr>)"
    using assms(1) c by (intro limit_step.passed [where b = b0]) simp_all
  ultimately show ?thesis
    by (cases s) (simp add: converse_rtranclp_into_rtranclp r_into_rtranclp)
qed

section \<open>Rows\<close>

text \<open>The pairs of a batch by row: the reference for the visits.\<close>

definition key_at :: "('b, 'c) arrow_lib \<Rightarrow> 'c \<Rightarrow> nat \<Rightarrow> bytes" where
  "key_at ar c i = (if int_type (ar_data_type ar c) then itoa_format ar (ar_ints ar c ! i) else ar_value ar c i)"

definition row_pairs :: "('b, 'c) arrow_lib \<Rightarrow> nat \<Rightarrow> nat \<Rightarrow> 'b \<Rightarrow> (bytes \<times> bytes) list" where
  "row_pairs ar ki vi b =
     map (\<lambda>i. (key_at ar (rb_columns ar b ! ki) i, ar_value ar (rb_columns ar b ! vi) i)) [0..<rb_num_rows ar b]"

definition raw_batch :: "('b, 'c) arrow_lib \<Rightarrow> nat \<Rightarrow> nat \<Rightarrow> 'b \<Rightarrow> bool" where
  "raw_batch ar ki vi b \<longleftrightarrow> ki < length (rb_columns ar b) \<and> vi < length (rb_columns ar b) \<and>
     (byte_type (ar_data_type ar (rb_columns ar b ! ki)) \<or> int_type (ar_data_type ar (rb_columns ar b ! ki))) \<and>
     byte_type (ar_data_type ar (rb_columns ar b ! vi))"

lemma foldR_map: "foldR f (map g xs) s = foldR (f \<circ> g) xs s"
proof (induction xs arbitrary: s)
  case (Cons x xs)
  then show ?case by (cases "f (g x) s") simp_all
qed simp

lemma foldR_cong_list:
  "(\<And>x s. x \<in> set xs \<Longrightarrow> f x s = g x s) \<Longrightarrow> foldR f xs s = foldR g xs s"
proof (induction xs arbitrary: s)
  case (Cons x xs)
  then show ?case by (cases "g x s") simp_all
qed simp

lemma foldR_collect: "foldR (\<lambda>x kvs. Ok (kvs @ [g x])) xs acc = Ok (acc @ map g xs)"
  by (induction xs arbitrary: acc) auto

lemma enumerate_conv_map: "enumerate 0 xs = map (\<lambda>i. (i, xs ! i)) [0..<length xs]"
  by (rule nth_equalityI) (simp_all add: nth_enumerate_eq)

lemma for_each_key_rows:
  assumes "arrow_ok ar" and "byte_type (ar_data_type ar c) \<or> int_type (ar_data_type ar c)"
  shows "for_each_key ar c f s = foldR (\<lambda>i. f i (key_at ar c i)) [0..<ar_len ar c] s"
proof (cases "int_type (ar_data_type ar c)")
  case True
  with assms(1) have len: "length (ar_ints ar c) = ar_len ar c" by (simp add: arrow_ok_def)
  have "for_each_key ar c f s = for_each_int ar c f s"
    using True by (auto simp: int_type_def for_each_key_def)
  also have "\<dots> = foldR (\<lambda>i. f i (itoa_format ar (ar_ints ar c ! i))) [0..<ar_len ar c] s"
    by (simp add: for_each_int_def enumerate_conv_map foldR_map len comp_def)
  finally show ?thesis using True by (simp add: key_at_def)
next
  case False
  with assms(2) show ?thesis
    by (auto simp: byte_type_def int_type_def for_each_key_def for_each_value_def key_at_def)
qed

abbreviation raw_kv_batch :: "('b, 'c) arrow_lib \<Rightarrow> nat \<Rightarrow> nat \<Rightarrow> 'b \<Rightarrow> 'c ArrowKvBatch" where
  "raw_kv_batch ar ki vi b \<equiv> \<lparr>akb_keys = rb_columns ar b ! ki, akb_values = rb_columns ar b ! vi\<rparr>"

lemma from_record_batch_ok:
  assumes "arrow_ok ar" and "raw_batch ar ki vi b"
  shows "from_record_batch ar b ki vi = Ok (raw_kv_batch ar ki vi b)"
  using assms by (auto simp: from_record_batch_def index_or_panic_def raw_batch_def arrow_ok_def byte_type_def int_type_def
      validate_key_column_def validate_byte_column_def)

lemma raw_batch_len:
  assumes "arrow_ok ar" and "raw_batch ar ki vi b"
  shows "ar_len ar (rb_columns ar b ! ki) = rb_num_rows ar b" "ar_len ar (rb_columns ar b ! vi) = rb_num_rows ar b"
  using assms by (auto simp: arrow_ok_def raw_batch_def)

lemma for_each_kv_rows:
  assumes ok: "arrow_ok ar" and b: "raw_batch ar ki vi b"
  shows "ArrowKvBatch_for_each_kv ar (raw_kv_batch ar ki vi b) f s = foldR (\<lambda>(k, v). f k v) (row_pairs ar ki vi b) s"
proof -
  let ?k = "rb_columns ar b ! ki" and ?v = "rb_columns ar b ! vi"
  note len = raw_batch_len [OF ok b]
  have types: "byte_type (ar_data_type ar ?k) \<or> int_type (ar_data_type ar ?k)" "byte_type (ar_data_type ar ?v)"
    using b by (simp_all add: raw_batch_def)
  have bv: "byte_value ar ?v i = Ok (ar_value ar ?v i)" if "i < rb_num_rows ar b" for i
    using types(2) that len by (auto simp: byte_type_def byte_value_def)
  show ?thesis
    by (simp add: ArrowKvBatch_for_each_kv_def for_each_key_rows [OF ok types(1)] row_pairs_def foldR_map len,
        rule foldR_cong_list, simp add: bv)
qed

lemma row_pairs_length [simp]: "length (row_pairs ar ki vi b) = rb_num_rows ar b"
  by (simp add: row_pairs_def)

lemma raw_source_rows:
  assumes "arrow_ok ar" and "\<forall>b \<in> set bs. raw_batch ar ki vi b"
  shows "raw_source ar disp dispL ki vi (map Ok bs) = map (Ok \<circ> row_pairs ar ki vi) bs"
  using assms(2)
proof (induction bs)
  case Nil
  then show ?case by (simp add: raw_source_def)
next
  case (Cons b bs)
  then have b: "raw_batch ar ki vi b" by simp
  have "foldR (\<lambda>(k, v) kvs. Ok (kvs @ [(k, v)])) xs [] = (Ok xs :: (bytes \<times> bytes) list lres)" for xs
    using foldR_collect [of "\<lambda>x. x" xs "[]"] by (simp add: case_prod_unfold)
  with Cons show ?case
    by (simp add: raw_source_def RawEncodingSource_next_def collect_kv_def from_record_batch_ok [OF assms(1) b]
        for_each_kv_rows [OF assms(1) b])
qed

text \<open>Slices.\<close>

lemma row_pairs_slice:
  assumes "arrow_ok ar" and "n \<le> rb_num_rows ar b" and "raw_batch ar ki vi b"
  shows "row_pairs ar ki vi (rb_slice ar b 0 n) = take n (row_pairs ar ki vi b)"
    and "raw_batch ar ki vi (rb_slice ar b 0 n)" and "rb_num_rows ar (rb_slice ar b 0 n) = n"
proof -
  have s: "rb_num_rows ar (rb_slice ar b 0 n) = n" "rb_columns ar (rb_slice ar b 0 n) = map (\<lambda>c. ar_slice ar c 0 n) (rb_columns ar b)"
    using assms(1,2) by (simp_all add: arrow_ok_def)
  have c: "ar_data_type ar (ar_slice ar c 0 n) = ar_data_type ar c"
    "i < n \<Longrightarrow> ar_value ar (ar_slice ar c 0 n) i = ar_value ar c i"
    "int_type (ar_data_type ar c) \<Longrightarrow> ar_ints ar (ar_slice ar c 0 n) = take n (ar_ints ar c)"
    if "c \<in> set (rb_columns ar b)" for c i
  proof -
    have "ar_len ar c = rb_num_rows ar b" using that assms(1) by (simp add: arrow_ok_def)
    with assms(2) have "0 + n \<le> ar_len ar c" by simp
    then show "ar_data_type ar (ar_slice ar c 0 n) = ar_data_type ar c"
      "i < n \<Longrightarrow> ar_value ar (ar_slice ar c 0 n) i = ar_value ar c i"
      "int_type (ar_data_type ar c) \<Longrightarrow> ar_ints ar (ar_slice ar c 0 n) = take n (ar_ints ar c)"
      using assms(1) unfolding arrow_ok_def by (metis add_0 drop_0)+
  qed
  show n: "rb_num_rows ar (rb_slice ar b 0 n) = n" by (rule s)
  show "raw_batch ar ki vi (rb_slice ar b 0 n)"
    using assms(3) by (auto simp: raw_batch_def s c)
  show "row_pairs ar ki vi (rb_slice ar b 0 n) = take n (row_pairs ar ki vi b)"
    using assms(2,3) by (intro nth_equalityI) (auto simp: row_pairs_def s raw_batch_def key_at_def c)
qed


section \<open>The limit is exact\<close>

abbreviation rows :: "('b, 'c) arrow_lib \<Rightarrow> 'b list \<Rightarrow> nat" where
  "rows ar bs \<equiv> sum_list (map (rb_num_rows ar) bs)"

abbreviation pairs :: "('b, 'c) arrow_lib \<Rightarrow> nat \<Rightarrow> nat \<Rightarrow> 'b list \<Rightarrow> (bytes \<times> bytes) list" where
  "pairs ar ki vi bs \<equiv> concat (map (row_pairs ar ki vi) bs)"

text \<open>
  What a task has consumed of its batches \<open>bs\<close>: it has passed on a prefix of the consumed rows, all
  of them while budget remains, and a task that ended has nothing left or saw the budget spent.
\<close>

definition limit_task :: "('b, 'c) arrow_lib \<Rightarrow> nat \<Rightarrow> nat \<Rightarrow> int \<Rightarrow> 'b list \<Rightarrow> 'b list \<Rightarrow> 'b LimitTask \<Rightarrow> bool" where
  "limit_task ar ki vi r bs used t \<longleftrightarrow>
     (\<exists>rest. bs = used @ rest \<and> lt_inner t = map Ok rest) \<and>
     prefix (pairs ar ki vi (lt_out t)) (pairs ar ki vi used) \<and>
     (0 < r \<longrightarrow> lt_out t = used) \<and> (\<forall>b \<in> set (lt_out t). raw_batch ar ki vi b) \<and>
     (case lt_phase t of Ended e \<Rightarrow> e = None \<and> (lt_inner t = [] \<or> r \<le> 0) | _ \<Rightarrow> True)"

definition limit_inv :: "('b, 'c) arrow_lib \<Rightarrow> nat \<Rightarrow> nat \<Rightarrow> nat \<Rightarrow> 'b list list \<Rightarrow> 'b list list \<Rightarrow> 'b LimitState \<Rightarrow> bool" where
  "limit_inv ar ki vi L bss useds s \<longleftrightarrow>
     length (ls_tasks s) = length bss \<and> length useds = length bss \<and>
     ls_remaining s = word_of_int (int L - int (sum_list (map (rows ar) useds))) \<and>
     sum_list (map (rows ar \<circ> lt_out) (ls_tasks s)) = min L (sum_list (map (rows ar) useds)) \<and>
     (\<forall>i < length bss. limit_task ar ki vi (int L - int (sum_list (map (rows ar) useds))) (bss ! i) (useds ! i) (ls_tasks s ! i))"

lemma sint_range: "- (2 ^ 63) \<le> r \<Longrightarrow> r < 2 ^ 63 \<Longrightarrow> sint (word_of_int r :: 64 word) = r"
  using signed_take_bit_int_eq_self [of 63 r] by (simp only: signed_of_int) simp

lemma take_from_budget_cases:
  assumes "- (2 ^ 63) \<le> r" "r < 2 ^ 63" "rb_num_rows ar b < 2 ^ 63"
  shows "take_from_budget ar (word_of_int r) b =
    (word_of_int (r - int (rb_num_rows ar b)),
     if r \<le> 0 then None else if r < int (rb_num_rows ar b) then Some (rb_slice ar b 0 (nat r)) else Some b)"
proof -
  let ?n = "rb_num_rows ar b"
  have n: "(word_of_nat ?n :: 64 word) = word_of_int (int ?n)" by simp
  have s: "sint (word_of_int r :: 64 word) = r" "sint (word_of_nat ?n :: 64 word) = int ?n"
    using sint_range [OF assms(1,2)] sint_range [of "int ?n"] assms(3) unfolding n by (simp_all only:) simp_all
  have u: "unat (word_of_int r :: 64 word) = nat r" if "0 < r"
  proof -
    have "(word_of_int r :: 64 word) = word_of_nat (nat r)" using that by simp
    moreover have "nat r < 2 ^ 64" using assms(2) by simp
    ultimately show ?thesis by (simp only:) (simp add: unat_word_of_nat_less)
  qed
  show ?thesis using u by (auto simp: take_from_budget_def Let_def s)
qed

lemma sum_list_update_nat:
  "i < length xs \<Longrightarrow> sum_list (map f (xs[i := x])) + f (xs ! i) = sum_list (map f xs) + (f x :: nat)"
  by (induction xs arbitrary: i) (auto split: nat.split)

lemma rows_le: "i < length bss \<Longrightarrow> rows ar (bss ! i) \<le> sum_list (map (rows ar) bss)"
  by (metis elem_le_sum_list length_map nth_map)


lemma limit_taskI:
  assumes "bs = used @ rest" and "prefix (pairs ar ki vi out) (pairs ar ki vi used)" and "0 < r \<Longrightarrow> out = used"
    and "\<forall>b \<in> set out. raw_batch ar ki vi b" and "\<And>e. ph = Ended e \<Longrightarrow> e = None \<and> (rest = [] \<or> r \<le> 0)"
  shows "limit_task ar ki vi r bs used \<lparr>lt_inner = map Ok rest, lt_phase = ph, lt_out = out\<rparr>"
  using assms by (auto simp: limit_task_def split: LimitPhase.split)

lemma limit_task_weaken: "limit_task ar ki vi r bs used t \<Longrightarrow> r' \<le> r \<Longrightarrow> limit_task ar ki vi r' bs used t"
  by (auto simp: limit_task_def split: LimitPhase.splits)

text \<open>Replacing one task that consumed nothing.\<close>

lemma limit_inv_same:
  assumes inv: "limit_inv ar ki vi L bss useds s" and i: "i < length (ls_tasks s)" and out: "lt_out t = lt_out (ls_tasks s ! i)"
    and t: "limit_task ar ki vi (int L - int (sum_list (map (rows ar) useds))) (bss ! i) (useds ! i) t"
  shows "limit_inv ar ki vi L bss useds (s\<lparr>ls_tasks := (ls_tasks s)[i := t]\<rparr>)"
proof -
  have "sum_list (map (rows ar \<circ> lt_out) ((ls_tasks s)[i := t])) = sum_list (map (rows ar \<circ> lt_out) (ls_tasks s))"
    using sum_list_update_nat [OF i, of "rows ar \<circ> lt_out" t] out by simp
  with assms show ?thesis by (simp add: limit_inv_def nth_list_update)
qed

text \<open>Replacing one task that consumed a batch.\<close>

lemma limit_inv_consume:
  assumes inv: "limit_inv ar ki vi L bss useds s" and i: "i < length (ls_tasks s)"
    and n: "r = int L - int (sum_list (map (rows ar) useds))"
    and t: "limit_task ar ki vi (r - int (rb_num_rows ar b)) (bss ! i) (useds ! i @ [b]) t"
    and out: "rows ar (lt_out t) = rows ar (lt_out (ls_tasks s ! i)) + min (nat r) (rb_num_rows ar b)"
  shows "limit_inv ar ki vi L bss (useds[i := useds ! i @ [b]])
    (s\<lparr>ls_remaining := word_of_int (r - int (rb_num_rows ar b)), ls_tasks := (ls_tasks s)[i := t]\<rparr>)"
proof -
  have len: "length (ls_tasks s) = length bss" "length useds = length bss"
    and del: "sum_list (map (rows ar \<circ> lt_out) (ls_tasks s)) = min L (sum_list (map (rows ar) useds))"
    and task: "\<And>j. j < length bss \<Longrightarrow> limit_task ar ki vi r (bss ! j) (useds ! j) (ls_tasks s ! j)"
    using inv by (simp_all add: limit_inv_def n)
  have u: "sum_list (map (rows ar) (useds[i := useds ! i @ [b]])) = sum_list (map (rows ar) useds) + rb_num_rows ar b"
    using sum_list_update_nat [of i useds "rows ar" "useds ! i @ [b]"] i len by simp
  have d: "sum_list (map (rows ar \<circ> lt_out) ((ls_tasks s)[i := t])) = min L (sum_list (map (rows ar) useds)) + min (nat r) (rb_num_rows ar b)"
    using sum_list_update_nat [OF i, of "rows ar \<circ> lt_out" t] out del by simp
  have "limit_task ar ki vi (r - int (rb_num_rows ar b)) (bss ! j) (useds[i := useds ! i @ [b]] ! j) ((ls_tasks s)[i := t] ! j)"
    if "j < length bss" for j
    using that t limit_task_weaken [OF task [OF that], of "r - int (rb_num_rows ar b)"] i len by (cases "j = i") simp_all
  then show ?thesis
    using len by (simp add: limit_inv_def u d n algebra_simps)
qed


lemma limit_used_le:
  assumes "limit_inv ar ki vi L bss useds s"
  shows "sum_list (map (rows ar) useds) \<le> sum_list (map (rows ar) bss)"
proof -
  have "rows ar (useds ! i) \<le> rows ar (bss ! i)" if "i < length bss" for i
    using assms that by (auto simp: limit_inv_def limit_task_def)
  moreover have "length useds = length bss" using assms by (simp add: limit_inv_def)
  ultimately have "list_all2 (\<le>) (map (rows ar) useds) (map (rows ar) bss)" by (simp add: list_all2_conv_all_nth)
  then show ?thesis by (induction rule: list_all2_induct) simp_all
qed

lemma limit_inv_step:
  assumes ok: "arrow_ok ar" and raw: "\<forall>bs \<in> set bss. \<forall>b \<in> set bs. raw_batch ar ki vi b"
    and small: "sum_list (map (rows ar) bss) < 2 ^ 63" "L < 2 ^ 63"
    and step: "limit_step ar s s'" and inv: "limit_inv ar ki vi L bss useds s"
  shows "\<exists>useds'. limit_inv ar ki vi L bss useds' s'"
proof -
  define r where "r = int L - int (sum_list (map (rows ar) useds))"
  have rem: "ls_remaining s = word_of_int r" using inv by (simp add: limit_inv_def r_def)
  have rng: "- (2 ^ 63) \<le> r" "r < 2 ^ 63"
    using limit_used_le [OF inv] small by (simp_all add: r_def)
  have sr: "sint (ls_remaining s) = r" using sint_range [OF rng] by (simp add: rem)
  have task: "limit_task ar ki vi r (bss ! i) (useds ! i) (ls_tasks s ! i)" if "i < length (ls_tasks s)" for i
    using inv that by (simp add: limit_inv_def r_def)
  have take: "take_from_budget ar (ls_remaining s) b =
      (word_of_int (r - int (rb_num_rows ar b)),
       if r \<le> 0 then None else if r < int (rb_num_rows ar b) then Some (rb_slice ar b 0 (nat r)) else Some b)
    \<and> raw_batch ar ki vi b"
    if "i < length (ls_tasks s)" "lt_inner (ls_tasks s ! i) = Ok b # src" for i b src
  proof -
    from task [OF that(1)] that(2) have b: "b \<in> set (bss ! i)" by (auto simp: limit_task_def map_eq_Cons_conv)
    have i: "i < length bss" using inv that(1) by (simp add: limit_inv_def)
    have "rb_num_rows ar b \<le> rows ar (bss ! i)" using b by (simp add: member_le_sum_list)
    with rows_le [OF i, of ar] small(1) have "rb_num_rows ar b < 2 ^ 63" by linarith
    moreover have "raw_batch ar ki vi b" using raw b i nth_mem by blast
    ultimately show ?thesis using take_from_budget_cases [OF rng, of ar b] by (simp add: rem)
  qed
  note same = limit_inv_same [OF inv, folded r_def]
  note consume = limit_inv_consume [OF inv _ r_def]
  from step show ?thesis
  proof cases
    case (spent i src out)
    have "limit_task ar ki vi r (bss ! i) (useds ! i) \<lparr>lt_inner = src, lt_phase = Ended None, lt_out = out\<rparr>"
      using task [OF spent(2)] spent(3,4) by (auto simp: limit_task_def sr)
    from same [OF spent(2) _ this] spent(1,3) show ?thesis by auto
  next
    case (checked i src out)
    have "limit_task ar ki vi r (bss ! i) (useds ! i) \<lparr>lt_inner = src, lt_phase = Fetching, lt_out = out\<rparr>"
      using task [OF checked(2)] checked(3) by (auto simp: limit_task_def)
    from same [OF checked(2) _ this] checked(1,3) show ?thesis by auto
  next
    case (exhausted i out)
    have "limit_task ar ki vi r (bss ! i) (useds ! i) \<lparr>lt_inner = [], lt_phase = Ended None, lt_out = out\<rparr>"
      using task [OF exhausted(2)] exhausted(3) by (auto simp: limit_task_def)
    from same [OF exhausted(2) _ this] exhausted(1,3) show ?thesis by auto
  next
    case (failed i e src out)
    then show ?thesis using task [OF failed(2)] by (auto simp: limit_task_def map_eq_Cons_conv)
  next
    case (passed i b src out r' b')
    from task [OF passed(2)] passed(3) obtain rest where rest: "bss ! i = useds ! i @ b # rest" "src = map Ok rest"
      and pre: "prefix (pairs ar ki vi out) (pairs ar ki vi (useds ! i))" and eq: "0 < r \<longrightarrow> out = useds ! i"
      and rb: "\<forall>b \<in> set out. raw_batch ar ki vi b"
      by (auto simp: limit_task_def map_eq_Cons_conv)
    from take [OF passed(2)] passed(3,4)
    have r': "r' = word_of_int (r - int (rb_num_rows ar b))" "0 < r" and b: "raw_batch ar ki vi b"
      and b': "b' = (if r < int (rb_num_rows ar b) then rb_slice ar b 0 (nat r) else b)"
      by (auto split: if_splits)
    have out: "out = useds ! i" using eq r' by simp
    let ?t = "\<lparr>lt_inner = src, lt_phase = Checking, lt_out = out @ [b']\<rparr>"
    have sl: "row_pairs ar ki vi b' = take (nat r) (row_pairs ar ki vi b) \<and> raw_batch ar ki vi b' \<and>
        rb_num_rows ar b' = min (nat r) (rb_num_rows ar b)"
      using row_pairs_slice [OF ok _ b, of "nat r"] b r' by (auto simp: b')
    have "limit_task ar ki vi (r - int (rb_num_rows ar b)) (bss ! i) (useds ! i @ [b]) ?t"
      unfolding rest(2)
    proof (rule limit_taskI)
      show "prefix (pairs ar ki vi (out @ [b'])) (pairs ar ki vi (useds ! i @ [b]))"
        using sl by (simp add: out take_is_prefix)
      show "0 < r - int (rb_num_rows ar b) \<Longrightarrow> out @ [b'] = useds ! i @ [b]" by (simp add: out b')
    qed (use rest rb sl in auto)
    with consume [OF passed(2), of b ?t] sl passed(3) show ?thesis by (auto simp: passed(1) r')
  next
    case (drained i b src out r')
    from task [OF drained(2)] drained(3) obtain rest where rest: "bss ! i = useds ! i @ b # rest" "src = map Ok rest"
      and pre: "prefix (pairs ar ki vi out) (pairs ar ki vi (useds ! i))"
      and rb: "\<forall>b \<in> set out. raw_batch ar ki vi b"
      by (auto simp: limit_task_def map_eq_Cons_conv)
    from take [OF drained(2)] drained(3,4)
    have r': "r' = word_of_int (r - int (rb_num_rows ar b))" "r \<le> 0" by (auto split: if_splits)
    let ?t = "\<lparr>lt_inner = src, lt_phase = Ended None, lt_out = out\<rparr>"
    have "limit_task ar ki vi (r - int (rb_num_rows ar b)) (bss ! i) (useds ! i @ [b]) ?t"
      unfolding rest(2) by (rule limit_taskI) (use rest rb r' pre in \<open>auto intro: prefix_prefix\<close>)
    with consume [OF drained(2), of b ?t] r' drained(3) show ?thesis by (auto simp: drained(1))
  qed
qed

lemma limit_inv_start:
  assumes "L = min (unat limit) (2 ^ 63 - 1)"
  shows "limit_inv ar ki vi L bss (map (\<lambda>_. []) bss) (limit_sources (map (map Ok) bss) limit)"
proof -
  have "unat (word_of_nat (2 ^ 63 - 1) :: 64 word) = 2 ^ 63 - 1" by (rule unat_word_of_nat_less) simp
  then have "unat (limit_budget limit) = L"
    by (auto simp: limit_budget_def min_def word_le_nat_alt assms)
  then have "limit_budget limit = word_of_nat L" by (metis of_nat_unat ucast_id)
  then show ?thesis
    by (simp add: limit_inv_def limit_sources_def limit_task_def comp_def sum_list_triv)
qed

lemma limit_exact:
  assumes ok: "arrow_ok ar" and raw: "\<forall>bs \<in> set bss. \<forall>b \<in> set bs. raw_batch ar ki vi b"
    and small: "sum_list (map (rows ar) bss) < 2 ^ 63"
    and run: "(limit_step ar)\<^sup>*\<^sup>* (limit_sources (map (map Ok) bss) limit) s" and fin: "limit_finished s"
  shows "length (ls_tasks s) = length bss \<and>
    (\<forall>i < length bss. prefix (pairs ar ki vi (lt_out (ls_tasks s ! i))) (pairs ar ki vi (bss ! i)) \<and>
      lt_phase (ls_tasks s ! i) = Ended None \<and> (\<forall>b \<in> set (lt_out (ls_tasks s ! i)). raw_batch ar ki vi b)) \<and>
    sum_list (map (rows ar \<circ> lt_out) (ls_tasks s)) = min (unat limit) (sum_list (map (rows ar) bss))"
proof -
  define L where "L = min (unat limit) (2 ^ 63 - 1)"
  have "\<exists>useds. limit_inv ar ki vi L bss useds s"
    using run
  proof induction
    case base
    then show ?case using limit_inv_start [OF L_def] by blast
  next
    case (step s s')
    then show ?case using limit_inv_step [OF ok raw small, of L] by (force simp: L_def)
  qed
  then obtain useds where inv: "limit_inv ar ki vi L bss useds s" by blast
  then have len: "length (ls_tasks s) = length bss" "length useds = length bss"
    and del: "sum_list (map (rows ar \<circ> lt_out) (ls_tasks s)) = min L (sum_list (map (rows ar) useds))"
    and task: "\<And>i. i < length bss \<Longrightarrow> limit_task ar ki vi (int L - int (sum_list (map (rows ar) useds))) (bss ! i) (useds ! i) (ls_tasks s ! i)"
    by (simp_all add: limit_inv_def)
  have each: "prefix (pairs ar ki vi (lt_out (ls_tasks s ! i))) (pairs ar ki vi (bss ! i)) \<and>
      lt_phase (ls_tasks s ! i) = Ended None \<and> (\<forall>b \<in> set (lt_out (ls_tasks s ! i)). raw_batch ar ki vi b)" 
    "useds ! i = bss ! i \<or> L \<le> sum_list (map (rows ar) useds)" if "i < length bss" for i
  proof -
    have "ls_tasks s ! i \<in> set (ls_tasks s)" using that len by simp
    with fin have "\<exists>e. lt_phase (ls_tasks s ! i) = Ended e" unfolding limit_finished_def by (metis LimitPhase.exhaust)
    then show "prefix (pairs ar ki vi (lt_out (ls_tasks s ! i))) (pairs ar ki vi (bss ! i)) \<and>
      lt_phase (ls_tasks s ! i) = Ended None \<and> (\<forall>b \<in> set (lt_out (ls_tasks s ! i)). raw_batch ar ki vi b)" 
      "useds ! i = bss ! i \<or> L \<le> sum_list (map (rows ar) useds)"
      using task [OF that] by (auto simp: limit_task_def intro: prefix_prefix)
  qed
  have "min L (sum_list (map (rows ar) useds)) = min L (sum_list (map (rows ar) bss))"
  proof (cases "L \<le> sum_list (map (rows ar) useds)")
    case True
    then show ?thesis using limit_used_le [OF inv] by simp
  next
    case False
    with each(2) len have "useds = bss" by (intro nth_equalityI) auto
    then show ?thesis by simp
  qed
  with del each(1) len(1) small show ?thesis by (simp add: L_def)
qed

text \<open>Every limited run ends: a task polls at most once more than its source has batches.\<close>

definition limit_work :: "'b LimitState \<Rightarrow> nat" where
  "limit_work s = sum_list (map (\<lambda>t. 2 * length (lt_inner t) +
     (case lt_phase t of Checking \<Rightarrow> 2 | Fetching \<Rightarrow> 1 | Ended _ \<Rightarrow> 0)) (ls_tasks s))"

lemma limit_work_update:
  assumes "i < length (ls_tasks s)" and "ls_tasks s' = (ls_tasks s)[i := t]"
    and "2 * length (lt_inner t) + (case lt_phase t of Checking \<Rightarrow> 2 | Fetching \<Rightarrow> 1 | Ended _ \<Rightarrow> 0) <
      2 * length (lt_inner (ls_tasks s ! i)) + (case lt_phase (ls_tasks s ! i) of Checking \<Rightarrow> 2 | Fetching \<Rightarrow> 1 | Ended _ \<Rightarrow> 0)"
  shows "limit_work s' < limit_work s"
  using sum_list_update_nat [OF assms(1), of "\<lambda>t. 2 * length (lt_inner t) +
     (case lt_phase t of Checking \<Rightarrow> 2 | Fetching \<Rightarrow> 1 | Ended _ \<Rightarrow> 0)" t] assms(2,3)
  by (simp add: limit_work_def)

lemma limit_step_work: "limit_step ar s s' \<Longrightarrow> limit_work s' < limit_work s"
  by (erule limit_step.cases; (hypsubst, erule limit_work_update, simp, simp))

lemma limit_progress:
  assumes "\<not> limit_finished s" and "\<forall>t \<in> set (ls_tasks s). Panic \<notin> set (lt_inner t)"
  shows "\<exists>s'. limit_step ar s s'"
proof -
  obtain t where t: "t \<in> set (ls_tasks s)" "lt_phase t = Checking \<or> lt_phase t = Fetching"
    using assms(1) by (auto simp: limit_finished_def)
  then obtain i where i: "i < length (ls_tasks s)" "ls_tasks s ! i = t" by (auto simp: in_set_conv_nth)
  obtain src ph out where tt: "t = \<lparr>lt_inner = src, lt_phase = ph, lt_out = out\<rparr>" by (cases t) auto
  show ?thesis
  proof (cases "ph = Checking")
    case True
    with i tt show ?thesis using limit_step.spent [of i s src out ar] limit_step.checked [of i s src out ar]
      by (cases "sint (ls_remaining s) \<le> 0") (simp_all, blast, meson not_le)
  next
    case False
    with t tt have ph: "ph = Fetching" by simp
    show ?thesis
    proof (cases src)
      case Nil
      with i tt ph show ?thesis using limit_step.exhausted [of i s out ar] by auto
    next
      case (Cons r rest)
      show ?thesis
      proof (cases r)
        case (Ok b)
        obtain r' ob where "take_from_budget ar (ls_remaining s) b = (r', ob)" by fastforce
        with i tt ph Cons Ok show ?thesis
          using limit_step.passed [of i s b rest out ar r'] limit_step.drained [of i s b rest out ar r'] by (cases ob) auto
      next
        case (Err e)
        with i tt ph Cons show ?thesis using limit_step.failed [of i s e rest out ar] by auto
      next
        case Panic
        with assms(2) t(1) tt Cons show ?thesis by auto
      qed
    qed
  qed
qed

lemma limit_step_no_panic:
  assumes "limit_step ar s s'" and "\<forall>t \<in> set (ls_tasks s). Panic \<notin> set (lt_inner t)"
  shows "\<forall>t \<in> set (ls_tasks s'). Panic \<notin> set (lt_inner t)"
proof -
  have "Panic \<notin> set (lt_inner (ls_tasks s ! i))" if "i < length (ls_tasks s)" for i
    using assms(2) that nth_mem by blast
  with assms(1,2) show ?thesis
    by cases (fastforce dest!: subsetD [OF set_update_subset_insert])+
qed

lemma limit_completes:
  assumes "\<forall>t \<in> set (ls_tasks s). Panic \<notin> set (lt_inner t)"
  shows "\<exists>s'. (limit_step ar)\<^sup>*\<^sup>* s s' \<and> limit_finished s'"
  using assms
proof (induction "limit_work s" arbitrary: s rule: less_induct)
  case less
  show ?case
  proof (cases "limit_finished s")
    case False
    with limit_progress less.prems obtain s1 where s1: "limit_step ar s s1" by blast
    with less limit_step_work limit_step_no_panic obtain s' where "(limit_step ar)\<^sup>*\<^sup>* s1 s'" "limit_finished s'"
      by metis
    with s1 show ?thesis by (meson converse_rtranclp_into_rtranclp)
  qed blast
qed

end
