(* ===== verification/Encode.thy ===== *)
theory Encode
  imports Loader_Sources
begin

text \<open>
  The crate \<open>mcfreeze-encode\<close>: protobuf encoding of record batches (\<open>adapter.rs\<close>), resolution of the
  descriptor (\<open>builder.rs\<close>) and the worker configuration (\<open>config.rs\<close>).  The \<open>apb\<close> and \<open>prost\<close>
  crates, \<open>base64\<close> and the client of Google Cloud Storage are parameters.
\<close>

datatype EncodeError =
    TranscodeE string
  | MappingE string
  | DescriptorE string
  | GenerateE string
  | EncArrowE string
  | Base64E string
  | ConfigE string
  | EncSourceE string

type_synonym 'a eres = "(EncodeError, 'a) res"

text \<open>\<open>Transcoder::transcode_arrow\<close>: the column of encoded messages of a batch.\<close>

type_synonym ('b, 'c, 't) transcode = "'t \<Rightarrow> 'b \<Rightarrow> (string, 'c) res"

section \<open>Encoded batches\<close>

record 'c EncodedBatch =
  eb_keys :: 'c
  eb_values :: 'c

definition EncodedBatch_len :: "('b, 'c) arrow_lib \<Rightarrow> 'c EncodedBatch \<Rightarrow> nat" where
  "EncodedBatch_len ar eb = ar_len ar (eb_keys eb)"

definition EncodedBatch_for_each_kv ::
    "('b, 'c) arrow_lib \<Rightarrow> 'c EncodedBatch \<Rightarrow> (bytes \<Rightarrow> bytes \<Rightarrow> 's \<Rightarrow> ('e, 's) res) \<Rightarrow> 's \<Rightarrow> ('e, 's) res" where
  "EncodedBatch_for_each_kv ar eb f =
     for_each_key ar (eb_keys eb) (\<lambda>i key s.
       if i < ar_len ar (eb_values eb) then f key (ar_value ar (eb_values eb) i) s else Panic)"

definition EncodedBatch_total_bytes :: "('b, 'c) arrow_lib \<Rightarrow> 'c EncodedBatch \<Rightarrow> ('e, u64) res" where
  "EncodedBatch_total_bytes ar eb =
     rmap (\<lambda>k. k + word_of_nat (ar_values_len ar (eb_values eb))) (key_column_size ar (eb_keys eb))"

definition Encode_validate_key_column :: "('b, 'c) arrow_lib \<Rightarrow> 'c \<Rightarrow> unit eres" where
  "Encode_validate_key_column ar col =
     (case ar_data_type ar col of
        OtherType t \<Rightarrow> Err (ConfigE (''key column has unsupported type '' @ show_type ar (OtherType t) @
          ''; expected Binary, LargeBinary, Utf8, LargeUtf8, Int32, Int64, UInt32, or UInt64''))
      | _ \<Rightarrow> Ok ())"

definition encode_batch ::
    "('b, 'c) arrow_lib \<Rightarrow> ('b, 'c, 't) transcode \<Rightarrow> 'b \<Rightarrow> nat \<Rightarrow> bool \<Rightarrow> 't \<Rightarrow> 'c EncodedBatch eres" where
  "encode_batch ar transcode_arrow batch key_col_idx include_key_in_value transcoder =
     rbind (index_or_panic (rb_columns ar batch) key_col_idx) (\<lambda>key_col.
     rbind (Encode_validate_key_column ar key_col) (\<lambda>_.
     if ar_null_count ar key_col > 0 then Err (ConfigE ''key column contains null values'')
     else
       let value_col_indices = filter (\<lambda>i. include_key_in_value \<or> i \<noteq> key_col_idx) [0..<length (rb_columns ar batch)]
       in rbind (map_err EncArrowE (rb_project ar batch value_col_indices)) (\<lambda>value_batch.
          rbind (map_err TranscodeE (transcode_arrow transcoder value_batch)) (\<lambda>vals.
          Ok \<lparr>eb_keys = key_col, eb_values = vals\<rparr>))))"

definition ProtobufEncodingSource_next ::
    "('b, 'c) arrow_lib \<Rightarrow> ('b, 'c, 't) transcode \<Rightarrow> ('e \<Rightarrow> string) \<Rightarrow> nat \<Rightarrow> bool \<Rightarrow> 't \<Rightarrow> ('e, 'b) res list
       \<Rightarrow> 'c EncodedBatch option eres \<times> ('e, 'b) res list" where
  "ProtobufEncodingSource_next ar transcode_arrow disp key_col_idx include_key_in_value transcoder src =
     (case poll src of
        (Ok (Some b), src') \<Rightarrow> (rmap Some (encode_batch ar transcode_arrow b key_col_idx include_key_in_value transcoder), src')
      | (Ok None, src') \<Rightarrow> (Ok None, src')
      | (Err e, src') \<Rightarrow> (Err (EncSourceE (disp e)), src')
      | (Panic, src') \<Rightarrow> (Panic, src'))"

definition protobuf_source ::
    "('b, 'c) arrow_lib \<Rightarrow> ('b, 'c, 't) transcode \<Rightarrow> ('e \<Rightarrow> string) \<Rightarrow> (EncodeError \<Rightarrow> string) \<Rightarrow> nat \<Rightarrow> bool \<Rightarrow> 't
       \<Rightarrow> ('e, 'b) res list \<Rightarrow> source" where
  "protobuf_source ar transcode_arrow disp dispE ki incl t src =
     kv_source (ProtobufEncodingSource_next ar transcode_arrow disp ki incl t) (\<lambda>eb. collect_kv (EncodedBatch_for_each_kv ar eb)) dispE
       (length src) src"

section \<open>Configuration\<close>

record ProtobufEncoding =
  pe_descriptor :: "string option"
  pe_descriptor_uri :: "string option"
  pe_package :: "string option"
  pe_message_name :: string

record CsvSpec =
  csv_data :: "string option"
  csv_path :: "path option"

record BigQuerySpec =
  bqs_project :: string
  bqs_table :: string
  bqs_selected_fields :: "string list"
  bqs_row_restriction :: "string option"
  bqs_streams :: "32 word"
  bqs_no_compression :: bool

text \<open>\<open>encoding\<close> is an option of an \<open>EncodingSpec\<close>, whose only field is the option \<open>protobuf\<close>.\<close>

record SourceSpec =
  sp_key_column :: string
  sp_value_column :: "string option"
  sp_include_key_in_value :: bool
  sp_encoding :: "ProtobufEncoding option option"
  sp_bigquery :: "BigQuerySpec option"
  sp_csv :: "CsvSpec option"

record WorkerConfig =
  wc_source :: SourceSpec
  wc_output :: path
  wc_partitions :: u32
  wc_index_parallelism :: nat

definition empty_string_as_none :: "string option \<Rightarrow> string option" where
  "empty_string_as_none s = (case s of Some [] \<Rightarrow> None | _ \<Rightarrow> s)"

section \<open>Descriptors\<close>

text \<open>The stages of \<open>apb\<close> and the encoder of a \<open>FileDescriptorSet\<close>, over their own types.\<close>

record ('p, 'm, 'g, 'f, 't) apb_lib =
  proto_schema_from_bytes :: "bytes \<Rightarrow> (string, 'p) res"
  proto_message :: "'p \<Rightarrow> string \<Rightarrow> (string, 'm) res"
  infer_mapping :: "Schema \<Rightarrow> 'm \<Rightarrow> (string, 'g) res"
  transcoder_new :: "'g \<Rightarrow> (string, 't) res"
  generate_file_descriptor :: "Schema \<Rightarrow> string \<Rightarrow> string \<Rightarrow> (string, 'f) res"
  encode_fds :: "'f list \<Rightarrow> bytes"

record base64_lib =
  base64_encode :: "bytes \<Rightarrow> string"
  base64_decode :: "string \<Rightarrow> (string, bytes) res"

record gcs_response =
  gr_status :: nat
  gr_status_text :: string
  gr_body :: "(string, bytes) res"

record gcs_lib =
  gcs_new :: "(string, unit) res"
  gcs_get :: "string \<Rightarrow> (string, unit) res"
  gcs_send :: "string \<Rightarrow> (string, gcs_response) res"
  percent_encode :: "string \<Rightarrow> string"

definition strip_prefix :: "string \<Rightarrow> string \<Rightarrow> string option" where
  "strip_prefix p s = (if take (length p) s = p then Some (drop (length p) s) else None)"

definition split_once :: "char \<Rightarrow> string \<Rightarrow> (string \<times> string) option" where
  "split_once c s =
     (case dropWhile (\<lambda>x. x \<noteq> c) s of [] \<Rightarrow> None | _ # rest \<Rightarrow> Some (takeWhile (\<lambda>x. x \<noteq> c) s, rest))"

definition parse_gcs_uri :: "(string \<Rightarrow> string) \<Rightarrow> string \<Rightarrow> (string \<times> string) eres" where
  "parse_gcs_uri debug uri =
     rbind (ok_or (ConfigE (''descriptor_uri must start with gs://, got '' @ debug uri)) (strip_prefix ''gs://'' uri)) (\<lambda>p.
     rbind (ok_or (ConfigE (''descriptor_uri missing object path: '' @ debug uri)) (split_once (CHR ''/'') p)) (\<lambda>(bucket, object).
     if bucket = [] \<or> object = []
     then Err (ConfigE (''descriptor_uri has empty bucket or object: '' @ debug uri))
     else Ok (bucket, object)))"

definition gcs_url :: "gcs_lib \<Rightarrow> string \<Rightarrow> string \<Rightarrow> string" where
  "gcs_url gl bucket object =
     ''https://storage.googleapis.com/storage/v1/b/'' @ bucket @ ''/o/'' @ percent_encode gl object @ ''?alt=media''"

definition download_gcs_descriptor :: "gcs_lib \<Rightarrow> (string \<Rightarrow> string) \<Rightarrow> string \<Rightarrow> bytes eres" where
  "download_gcs_descriptor gl debug uri =
     rbind (parse_gcs_uri debug uri) (\<lambda>(bucket, object).
     rbind (map_err (\<lambda>e. EncSourceE (''GCS auth init: '' @ e)) (gcs_new gl)) (\<lambda>_.
     let url = gcs_url gl bucket object
     in rbind (map_err (\<lambda>e. EncSourceE (''GCS auth token: '' @ e)) (gcs_get gl url)) (\<lambda>_.
        rbind (map_err (\<lambda>e. EncSourceE (''GCS GET '' @ uri @ '': '' @ e)) (gcs_send gl url)) (\<lambda>resp.
        if \<not> (200 \<le> gr_status resp \<and> gr_status resp < 300)
        then Err (EncSourceE (''GCS GET '' @ uri @ '': HTTP '' @ gr_status_text resp))
        else rbind (map_err (\<lambda>e. EncSourceE (''GCS read body '' @ uri @ '': '' @ e)) (gr_body resp)) (\<lambda>bs.
             if bs = [] then Err (ConfigE (''GCS object is empty: '' @ uri)) else Ok bs)))))"

definition fully_qualified_name :: "ProtobufEncoding \<Rightarrow> string" where
  "fully_qualified_name config =
     (case pe_package config of
        Some pkg \<Rightarrow> if pkg \<noteq> [] then pkg @ ''.'' @ pe_message_name config else pe_message_name config
      | None \<Rightarrow> pe_message_name config)"

definition resolve_descriptor ::
    "('p, 'm, 'g, 'f, 't) apb_lib \<Rightarrow> base64_lib \<Rightarrow> gcs_lib \<Rightarrow> (string \<Rightarrow> string) \<Rightarrow> ProtobufEncoding \<Rightarrow> Schema \<Rightarrow> bytes eres" where
  "resolve_descriptor ap b64 gl debug config value_schema =
     (case (pe_descriptor config, pe_descriptor_uri config) of
        (Some _, Some _) \<Rightarrow> Err (ConfigE ''descriptor and descriptor_uri are mutually exclusive'')
      | (Some desc_b64, None) \<Rightarrow> map_err Base64E (base64_decode b64 desc_b64)
      | (None, Some uri) \<Rightarrow> download_gcs_descriptor gl debug uri
      | (None, None) \<Rightarrow>
          rbind (ok_or (ConfigE ''protobuf.package is required when no descriptor is provided'') (pe_package config)) (\<lambda>package.
          rbind (map_err GenerateE (generate_file_descriptor ap value_schema package (pe_message_name config))) (\<lambda>fd.
          Ok (encode_fds ap [fd]))))"

record 't TranscoderOutput =
  to_transcoder :: 't
  to_descriptor_bytes :: bytes
  to_message_fqn :: string

definition build_transcoder ::
    "('p, 'm, 'g, 'f, 't) apb_lib \<Rightarrow> base64_lib \<Rightarrow> gcs_lib \<Rightarrow> (string \<Rightarrow> string) \<Rightarrow> ProtobufEncoding \<Rightarrow> Schema
       \<Rightarrow> 't TranscoderOutput eres" where
  "build_transcoder ap b64 gl debug config value_schema =
     (let auto_generated = (pe_descriptor config = None \<and> pe_descriptor_uri config = None)
      in rbind (resolve_descriptor ap b64 gl debug config value_schema) (\<lambda>descriptor_bytes.
         let fqn = if auto_generated then fully_qualified_name config else pe_message_name config
         in rbind (map_err DescriptorE (proto_schema_from_bytes ap descriptor_bytes)) (\<lambda>schema.
            rbind (map_err DescriptorE (proto_message ap schema fqn)) (\<lambda>msg.
            rbind (map_err MappingE (infer_mapping ap value_schema msg)) (\<lambda>mapping.
            rbind (map_err TranscodeE (transcoder_new ap mapping)) (\<lambda>transcoder.
            Ok \<lparr>to_transcoder = transcoder, to_descriptor_bytes = descriptor_bytes, to_message_fqn = fqn\<rparr>))))))"


section \<open>Behaviour\<close>

text \<open>The fields of row \<open>i\<close> of a batch: the name of each column and its one-row slice.\<close>

definition row_fields :: "('b, 'c) arrow_lib \<Rightarrow> 'b \<Rightarrow> nat \<Rightarrow> (string \<times> 'c) list" where
  "row_fields ar b i = map (\<lambda>(name, c). (name, ar_slice ar c i 1)) (zip (rb_names ar b) (rb_columns ar b))"

text \<open>
  What \<open>arrow\<close> documents of a projection (the chosen columns and their names, in the order of the indices)
  and \<open>apb\<close> of a transcoded batch: one message for each row, in order, and the message of a row depends
  on the fields of that row alone.  \<open>msg\<close> stands for that message.
\<close>

definition transcode_ok ::
    "('b, 'c) arrow_lib \<Rightarrow> ('b, 'c, 't) transcode \<Rightarrow> ('t \<Rightarrow> (string \<times> 'c) list \<Rightarrow> bytes) \<Rightarrow> bool" where
  "transcode_ok ar transcode_arrow msg \<longleftrightarrow>
     (\<forall>b idxs b'. rb_project ar b idxs = Ok b' \<longrightarrow>
        rb_num_rows ar b' = rb_num_rows ar b \<and> rb_columns ar b' = map (\<lambda>i. rb_columns ar b ! i) idxs \<and>
        rb_names ar b' = map (\<lambda>i. rb_names ar b ! i) idxs) \<and>
     (\<forall>t b c. transcode_arrow t b = Ok c \<longrightarrow> ar_len ar c = rb_num_rows ar b \<and>
        (\<forall>i < rb_num_rows ar b. ar_value ar c i = msg t (row_fields ar b i)))"

text \<open>The value batch of a row batch: its columns without the key, unless it is included.\<close>

definition value_columns :: "('b, 'c) arrow_lib \<Rightarrow> nat \<Rightarrow> bool \<Rightarrow> 'b \<Rightarrow> nat list" where
  "value_columns ar ki incl b = filter (\<lambda>i. incl \<or> i \<noteq> ki) [0..<length (rb_columns ar b)]"

definition encodable :: "('b, 'c) arrow_lib \<Rightarrow> nat \<Rightarrow> 'b \<Rightarrow> bool" where
  "encodable ar ki b \<longleftrightarrow> ki < length (rb_columns ar b) \<and> ar_null_count ar (rb_columns ar b ! ki) = 0 \<and>
     (byte_type (ar_data_type ar (rb_columns ar b ! ki)) \<or> int_type (ar_data_type ar (rb_columns ar b ! ki)))"

text \<open>Every row's key with the message of its value fields.\<close>

definition encoded_pairs ::
    "('b, 'c) arrow_lib \<Rightarrow> ('t \<Rightarrow> (string \<times> 'c) list \<Rightarrow> bytes) \<Rightarrow> nat \<Rightarrow> bool \<Rightarrow> 't \<Rightarrow> 'b \<Rightarrow> (bytes \<times> bytes) list" where
  "encoded_pairs ar msg ki incl t b =
     map (\<lambda>i. (key_at ar (rb_columns ar b ! ki) i, msg t (map (\<lambda>j. row_fields ar b i ! j) (value_columns ar ki incl b))))
       [0..<rb_num_rows ar b]"

lemma row_fields_project:
  assumes "arrow_ok ar" and "transcode_ok ar transcode_arrow msg" and "rb_project ar b idxs = Ok vb"
    and "\<forall>j \<in> set idxs. j < length (rb_columns ar b)"
  shows "row_fields ar vb i = map (\<lambda>j. row_fields ar b i ! j) idxs"
proof -
  have n: "length (rb_names ar b) = length (rb_columns ar b)" using assms(1) by (simp add: arrow_ok_def)
  have "rb_columns ar vb = map (\<lambda>i. rb_columns ar b ! i) idxs" "rb_names ar vb = map (\<lambda>i. rb_names ar b ! i) idxs"
    using assms(2,3) by (auto simp: transcode_ok_def)
  then show ?thesis using assms(4) n by (simp add: row_fields_def zip_map_map zip_same_conv_map)
qed

lemma encode_batch_ok:
  assumes "encodable ar ki b" and "rb_project ar b (value_columns ar ki incl b) = Ok vb" and "transcode_arrow t vb = Ok vals"
  shows "encode_batch ar transcode_arrow b ki incl t = Ok \<lparr>eb_keys = rb_columns ar b ! ki, eb_values = vals\<rparr>"
  using assms by (auto simp: encode_batch_def index_or_panic_def encodable_def Encode_validate_key_column_def byte_type_def
      int_type_def value_columns_def Let_def)

lemma encode_batch_Ok_iff:
  "encode_batch ar transcode_arrow b ki incl t = Ok eb \<longleftrightarrow>
    encodable ar ki b \<and> eb_keys eb = rb_columns ar b ! ki \<and>
    (\<exists>vb. rb_project ar b (value_columns ar ki incl b) = Ok vb \<and> transcode_arrow t vb = Ok (eb_values eb))"
proof
  assume "encode_batch ar transcode_arrow b ki incl t = Ok eb"
  then show "encodable ar ki b \<and> eb_keys eb = rb_columns ar b ! ki \<and>
    (\<exists>vb. rb_project ar b (value_columns ar ki incl b) = Ok vb \<and> transcode_arrow t vb = Ok (eb_values eb))"
    by (cases "ar_data_type ar (rb_columns ar b ! ki)")
      (auto simp: encode_batch_def index_or_panic_def encodable_def Encode_validate_key_column_def byte_type_def
        int_type_def value_columns_def Let_def rbind_Ok_iff map_err_Ok_iff split: if_splits)
next
  assume "encodable ar ki b \<and> eb_keys eb = rb_columns ar b ! ki \<and>
    (\<exists>vb. rb_project ar b (value_columns ar ki incl b) = Ok vb \<and> transcode_arrow t vb = Ok (eb_values eb))"
  then show "encode_batch ar transcode_arrow b ki incl t = Ok eb"
    using encode_batch_ok [of ar ki b incl _ transcode_arrow t "eb_values eb"] by auto
qed

lemma encoded_for_each_kv:
  assumes ar: "arrow_ok ar" and tr: "transcode_ok ar transcode_arrow msg"
    and e: "encode_batch ar transcode_arrow b ki incl t = Ok eb"
  shows "EncodedBatch_for_each_kv ar eb f s = foldR (\<lambda>(k, v). f k v) (encoded_pairs ar msg ki incl t b) s"
proof -
  let ?k = "rb_columns ar b ! ki"
  from e obtain vb where b: "encodable ar ki b" "eb_keys eb = ?k" and vb: "rb_project ar b (value_columns ar ki incl b) = Ok vb"
    "transcode_arrow t vb = Ok (eb_values eb)"
    by (auto simp: encode_batch_Ok_iff)
  have len: "ar_len ar ?k = rb_num_rows ar b" using ar b by (simp add: arrow_ok_def encodable_def)
  have rows: "rb_num_rows ar vb = rb_num_rows ar b" using tr vb(1) by (auto simp: transcode_ok_def)
  then have vlen: "ar_len ar (eb_values eb) = rb_num_rows ar b" using tr vb(2) by (auto simp: transcode_ok_def)
  have val: "ar_value ar (eb_values eb) i = msg t (map (\<lambda>j. row_fields ar b i ! j) (value_columns ar ki incl b))"
    if "i < rb_num_rows ar b" for i
    using tr vb(2) that rows row_fields_project [OF ar tr vb(1), of i] by (auto simp: transcode_ok_def value_columns_def)
  have ty: "byte_type (ar_data_type ar ?k) \<or> int_type (ar_data_type ar ?k)" using b by (simp add: encodable_def)
  show ?thesis
    by (simp add: EncodedBatch_for_each_kv_def b(2) for_each_key_rows [OF ar ty] encoded_pairs_def foldR_map len vlen,
        rule foldR_cong_list, simp add: val)
qed

lemma take_append_prefix: "take (length p) s = p \<longleftrightarrow> (\<exists>r. s = p @ r)"
  by (metis append_eq_conv_conj append_take_drop_id)

lemma split_once_Some_iff: "split_once c s = Some (a, b) \<longleftrightarrow> s = a @ c # b \<and> c \<notin> set a"
proof
  assume h: "split_once c s = Some (a, b)"
  then obtain x where x: "dropWhile (\<lambda>x. x \<noteq> c) s = x # b" "a = takeWhile (\<lambda>x. x \<noteq> c) s"
    by (auto simp: split_once_def split: list.splits)
  then have "x = c" using hd_dropWhile [of "\<lambda>x. x \<noteq> c" s] by simp
  with x show "s = a @ c # b \<and> c \<notin> set a"
    by (metis set_takeWhileD takeWhile_dropWhile_id)
next
  assume "s = a @ c # b \<and> c \<notin> set a"
  then have "takeWhile (\<lambda>x. x \<noteq> c) s = a" "dropWhile (\<lambda>x. x \<noteq> c) s = c # b"
    by (auto simp: takeWhile_append dropWhile_append)
  then show "split_once c s = Some (a, b)" by (simp add: split_once_def)
qed

lemma parse_gcs_uri_iff:
  "parse_gcs_uri debug uri = Ok (bucket, object) \<longleftrightarrow>
    uri = ''gs://'' @ bucket @ ''/'' @ object \<and> bucket \<noteq> [] \<and> object \<noteq> [] \<and> CHR ''/'' \<notin> set bucket"
proof -
  have "strip_prefix ''gs://'' uri = Some r \<longleftrightarrow> uri = ''gs://'' @ r" for r
    unfolding strip_prefix_def take_append_prefix by auto
  then show ?thesis
    by (auto simp: parse_gcs_uri_def rbind_Ok_iff ok_or_Ok_iff split_once_Some_iff)
qed

end
