(* ===== verification/Bq_Source.thy ===== *)
theory Bq_Source
  imports Loader_Sources
begin

text \<open>
  The crate \<open>mcfreeze-bq\<close>: a BigQuery read session (\<open>session.rs\<close>) and its streams as sources of
  record batches (\<open>source.rs\<close>).  The storage service and the Arrow IPC decoder are parameters; a
  stream of the service is the list of what its \<open>message()\<close> returns before the end.
\<close>

datatype BqError =
    SdkE string
  | GrpcE string
  | BqArrowE string
  | SchemaE string

type_synonym 'a bres = "(BqError, 'a) res"

record BqSourceConfig =
  bq_project :: string
  bq_table :: string
  bq_selected_fields :: "string list"
  bq_n_streams :: "32 word"
  bq_row_restriction :: "string option"
  bq_disable_compression :: bool

section \<open>The service\<close>

datatype CompressionCodec = Lz4Frame

record TableReadOptions =
  tro_selected_fields :: "string list"
  tro_row_restriction :: string
  tro_buffer_compression :: "CompressionCodec option"

record CreateReadSessionRequest =
  crs_parent :: string
  crs_table :: string
  crs_read_options :: TableReadOptions
  crs_max_stream_count :: "32 word"
  crs_preferred_min_stream_count :: "32 word"

datatype SessionSchema = ArrowSchema bytes | AvroSchema

record ReadSession =
  rs_schema :: "SessionSchema option"
  rs_streams :: "string list"
  rs_estimated_row_count :: "64 word"
  rs_estimated_total_bytes_scanned :: "64 word"

datatype Rows = ArrowRecordBatch bytes | AvroRows

text \<open>
  \<open>bq_read_rows\<close> starts a stream at an offset.  \<open>ipc_decode\<close> feeds bytes to a decoder; it returns
  the batch it completed, if any, and the decoder it leaves.
\<close>

record ('b, 'd) bq_lib =
  bq_connect :: "(string, unit) res"
  bq_create_read_session :: "CreateReadSessionRequest \<Rightarrow> (string, ReadSession) res"
  bq_read_rows :: "string \<Rightarrow> nat \<Rightarrow> (string, (string, Rows option) res list) res"
  ipc_schema :: "bytes \<Rightarrow> (string, Schema) res"
  ipc_decoder_new :: 'd
  ipc_decode :: "'d \<Rightarrow> bytes \<Rightarrow> (string, 'b option) res \<times> 'd"

section \<open>Sessions\<close>

record BqReadSession =
  brs_streams :: "string list"
  brs_schema_bytes :: bytes
  brs_metadata :: SourceMetadata

definition read_session_request :: "BqSourceConfig \<Rightarrow> CreateReadSessionRequest" where
  "read_session_request config =
     \<lparr>crs_parent = ''projects/'' @ bq_project config, crs_table = bq_table config,
      crs_read_options =
        \<lparr>tro_selected_fields = bq_selected_fields config,
         tro_row_restriction = (case bq_row_restriction config of Some r \<Rightarrow> r | None \<Rightarrow> []),
         tro_buffer_compression = (if bq_disable_compression config then None else Some Lz4Frame)\<rparr>,
      crs_max_stream_count = bq_n_streams config, crs_preferred_min_stream_count = bq_n_streams config\<rparr>"

definition positive_estimate :: "64 word \<Rightarrow> u64 option" where
  "positive_estimate n = (if 0 < sint n then Some n else None)"

definition BqReadSession_open :: "('b, 'd) bq_lib \<Rightarrow> BqSourceConfig \<Rightarrow> BqReadSession bres" where
  "BqReadSession_open bl config =
     rbind (map_err SdkE (bq_connect bl)) (\<lambda>_.
     rbind (map_err GrpcE (bq_create_read_session bl (read_session_request config))) (\<lambda>session.
     rbind (case rs_schema session of
              Some (ArrowSchema s) \<Rightarrow> Ok s
            | Some AvroSchema \<Rightarrow> Err (SchemaE ''session returned Avro schema; request must use DataFormat::Arrow'')
            | None \<Rightarrow> Err (SchemaE ''server did not return a schema'')) (\<lambda>schema_bytes.
     Ok \<lparr>brs_streams = rs_streams session, brs_schema_bytes = schema_bytes,
         brs_metadata = \<lparr>sm_estimated_rows = positive_estimate (rs_estimated_row_count session),
                         sm_estimated_bytes = positive_estimate (rs_estimated_total_bytes_scanned session)\<rparr>\<rparr>)))"

definition n_streams :: "BqReadSession \<Rightarrow> nat" where
  "n_streams s = length (brs_streams s)"

definition decode_schema :: "('b, 'd) bq_lib \<Rightarrow> bytes \<Rightarrow> Schema bres" where
  "decode_schema bl schema_bytes = map_err BqArrowE (ipc_schema bl schema_bytes)"

definition BqReadSession_schema :: "('b, 'd) bq_lib \<Rightarrow> BqReadSession \<Rightarrow> Schema bres" where
  "BqReadSession_schema bl s = decode_schema bl (brs_schema_bytes s)"

definition prime_decoder :: "('b, 'd) bq_lib \<Rightarrow> bytes \<Rightarrow> 'd bres" where
  "prime_decoder bl schema_bytes =
     (case ipc_decode bl (ipc_decoder_new bl) schema_bytes of
        (Ok _, d) \<Rightarrow> Ok d
      | (Err e, d) \<Rightarrow> Err (BqArrowE e)
      | (Panic, d) \<Rightarrow> Panic)"

section \<open>Streams\<close>

datatype ReadState =
    NotStarted
  | Reading "(string, Rows option) res list"
  | Done

record 'd BqRecordBatchSource =
  bs_stream_name :: string
  bs_decoder :: 'd
  bs_state :: ReadState

definition BqRecordBatchSource_new :: "('b, 'd) bq_lib \<Rightarrow> string \<Rightarrow> bytes \<Rightarrow> 'd BqRecordBatchSource bres" where
  "BqRecordBatchSource_new bl stream_name schema_bytes =
     rbind (prime_decoder bl schema_bytes) (\<lambda>d.
     Ok \<lparr>bs_stream_name = stream_name, bs_decoder = d, bs_state = NotStarted\<rparr>)"

definition into_record_batch_sources :: "('b, 'd) bq_lib \<Rightarrow> BqReadSession \<Rightarrow> 'd BqRecordBatchSource list bres" where
  "into_record_batch_sources bl s =
     mapR (\<lambda>name. BqRecordBatchSource_new bl name (brs_schema_bytes s)) (brs_streams s)"

definition decode_record_batch :: "('b, 'd) bq_lib \<Rightarrow> Rows option \<Rightarrow> 'd \<Rightarrow> 'b bres \<times> 'd" where
  "decode_record_batch bl response d =
     (case response of
        Some (ArrowRecordBatch bs) \<Rightarrow>
          (case ipc_decode bl d bs of
             (Ok ob, d') \<Rightarrow> (ok_or (SchemaE ''IPC decoder returned no batch after consuming batch bytes'') ob, d')
           | (Err e, d') \<Rightarrow> (Err (BqArrowE e), d')
           | (Panic, d') \<Rightarrow> (Panic, d'))
      | Some AvroRows \<Rightarrow> (Err (SchemaE ''received Avro rows; session must be created with DataFormat::Arrow''), d)
      | None \<Rightarrow> (Err (SchemaE ''ReadRowsResponse contained no rows''), d))"

text \<open>
  \<open>next_batch\<close>.  While a message is awaited the state is \<open>Done\<close>, and it stays so when the stream
  ends or fails.
\<close>

definition bq_message :: "('b, 'd) bq_lib \<Rightarrow> 'd BqRecordBatchSource \<Rightarrow> (string, Rows option) res list \<Rightarrow>
    'b option bres \<times> 'd BqRecordBatchSource" where
  "bq_message bl src stream =
     (case stream of
        [] \<Rightarrow> (Ok None, src\<lparr>bs_state := Done\<rparr>)
      | Err e # rest \<Rightarrow> (Err (GrpcE e), src\<lparr>bs_state := Done\<rparr>)
      | Panic # rest \<Rightarrow> (Panic, src\<lparr>bs_state := Done\<rparr>)
      | Ok response # rest \<Rightarrow>
          (let (r, d) = decode_record_batch bl response (bs_decoder src)
           in (rmap Some r, src\<lparr>bs_state := Reading rest, bs_decoder := d\<rparr>)))"

definition bq_next_batch :: "('b, 'd) bq_lib \<Rightarrow> 'd BqRecordBatchSource \<Rightarrow> 'b option bres \<times> 'd BqRecordBatchSource" where
  "bq_next_batch bl src =
     (case bs_state src of
        NotStarted \<Rightarrow>
          (case bq_read_rows bl (bs_stream_name src) 0 of
             Ok stream \<Rightarrow> bq_message bl src stream
           | Err e \<Rightarrow> (Err (GrpcE e), src)
           | Panic \<Rightarrow> (Panic, src))
      | Reading stream \<Rightarrow> bq_message bl src stream
      | Done \<Rightarrow> (Ok None, src))"

text \<open>
  What the polls of a source return, up to its end or its first error: the loader stops there.
\<close>

fun bq_messages :: "('b, 'd) bq_lib \<Rightarrow> 'd \<Rightarrow> (string, Rows option) res list \<Rightarrow> (BqError, 'b) res list" where
  "bq_messages bl d [] = []"
| "bq_messages bl d (Ok response # rest) =
     (case decode_record_batch bl response d of
        (Ok b, d') \<Rightarrow> Ok b # bq_messages bl d' rest
      | (r, d') \<Rightarrow> [r])"
| "bq_messages bl d (Err e # rest) = [Err (GrpcE e)]"
| "bq_messages bl d (Panic # rest) = [Panic]"

definition bq_batches :: "('b, 'd) bq_lib \<Rightarrow> 'd BqRecordBatchSource \<Rightarrow> (BqError, 'b) res list" where
  "bq_batches bl src =
     (case bs_state src of
        NotStarted \<Rightarrow>
          (case bq_read_rows bl (bs_stream_name src) 0 of
             Ok stream \<Rightarrow> bq_messages bl (bs_decoder src) stream
           | Err e \<Rightarrow> [Err (GrpcE e)]
           | Panic \<Rightarrow> [Panic])
      | Reading stream \<Rightarrow> bq_messages bl (bs_decoder src) stream
      | Done \<Rightarrow> [])"

section \<open>Behaviour\<close>

text \<open>Polling a source is polling the list of its batches, until an error.\<close>

lemma bq_message_poll:
  assumes "bq_message bl src stream = (r, src')"
  shows "r = fst (poll (bq_messages bl (bs_decoder src) stream)) \<and>
    (\<forall>x. r = Ok x \<longrightarrow> bq_batches bl src' = snd (poll (bq_messages bl (bs_decoder src) stream)))"
  using assms
  by (cases "(bl, bs_decoder src, stream)" rule: bq_messages.cases)
    (auto simp: bq_message_def bq_batches_def Let_def split: prod.splits res.splits)

lemma bq_next_poll:
  assumes "bq_next_batch bl src = (r, src')"
  shows "r = fst (poll (bq_batches bl src)) \<and> (\<forall>x. r = Ok x \<longrightarrow> bq_batches bl src' = snd (poll (bq_batches bl src)))"
  using assms bq_message_poll [of bl src _ r src']
  by (auto simp: bq_next_batch_def bq_batches_def split: ReadState.splits res.splits)

text \<open>After the end of the stream, or an error of the stream itself, a source reports the end.\<close>

lemma bq_done_stays: "bs_state src = Done \<Longrightarrow> bq_next_batch bl src = (Ok None, src)"
  by (simp add: bq_next_batch_def)

lemma bq_stream_failure_ends:
  assumes "bs_state src = Reading (Err e # rest)"
  shows "bq_next_batch bl src = (Err (GrpcE e), src\<lparr>bs_state := Done\<rparr>)"
    and "bq_next_batch bl (src\<lparr>bs_state := Done\<rparr>) = (Ok None, src\<lparr>bs_state := Done\<rparr>)"
  using assms by (simp_all add: bq_next_batch_def bq_message_def)

end
