(* ===== verification/Cli_Load.thy ===== *)
theory Cli_Load
  imports Encode Bq_Source
begin

text \<open>
  The command \<open>mcf load\<close> (\<open>mcfreeze-cli/src/load.rs\<close>): from the parsed arguments to the files of the
  snapshot.  \<open>clap\<close> parses the arguments; logging and the progress reporter are left out, and
  so are quotation marks inside messages.

  The record \<open>env\<close> holds everything outside the repository: the libraries, standard input, the
  clocks, the display of errors (their text travels inside other errors), and the interleavings of
  the concurrent sources, which the theorems let range over all runs.
\<close>

datatype SourceArg =
    Bq "string option" string "32 word" "string option" bool "string list"
  | Csv "string option" nat
  | Config string

record LoadArgs =
  la_output :: "path option"
  la_partitions :: u32
  la_format :: FormatId
  la_index_parallelism :: nat
  la_max_value_bytes :: nat
  la_block_size :: "u32 option"
  la_no_sketch :: bool
  la_bucket_bytes :: "u64 option"
  la_direct_markers :: bool
  la_compression :: Mode
  la_min_compress_len :: u32
  la_max_rows :: "u64 option"
  la_dry_run :: bool
  la_download_benchmark :: bool
  la_key_column :: string
  la_value_column :: string
  la_include_key_in_value :: bool
  la_protobuf_message :: "string option"
  la_protobuf_package :: "string option"
  la_protobuf_descriptor :: "string option"
  la_source :: SourceArg

text \<open>\<open>anyhow::Error\<close>: an error under the contexts added on its way.\<close>

datatype CliError =
    CliContext string CliError
  | CliMessage string
  | CliLoader LoaderError
  | CliFormat error
  | CliEncode EncodeError
  | CliBq BqError
  | CliJson string
  | CliSchema string
  | CliJoin

type_synonym 'a cres = "(CliError, 'a) res"

definition with_context :: "string \<Rightarrow> ('e \<Rightarrow> CliError) \<Rightarrow> ('e, 'a) res \<Rightarrow> 'a cres" where
  "with_context msg wrap r = map_err (CliContext msg \<circ> wrap) r"

text \<open>
  \<open>e_schedule\<close> is the state the scatter tasks reach and \<open>e_limit_schedule\<close> the one the limited
  sources reach, from their start states.
\<close>

record ('b, 'c, 'd, 'p, 'm, 'g, 'f, 't, 'h) env =
  e_arrow :: "('b, 'c) arrow_lib"
  e_csv :: "'b csv_lib"
  e_bq :: "('b, 'd) bq_lib"
  e_apb :: "('p, 'm, 'g, 'f, 't) apb_lib"
  e_transcode :: "('b, 'c, 't) transcode"
  e_base64 :: base64_lib
  e_gcs :: gcs_lib
  e_stdin :: "(io_error, bytes) res"
  e_path :: "string \<Rightarrow> path"
  e_show_path :: "path \<Rightarrow> string"
  e_worker_config :: "bytes \<Rightarrow> (string, WorkerConfig) res"
  e_show_loader :: "LoaderError \<Rightarrow> string"
  e_show_encode :: "EncodeError \<Rightarrow> string"
  e_show_bq :: "BqError \<Rightarrow> string"
  e_zstd :: zstd_lib
  e_xorf :: xorf_lib
  e_xxh64 :: hash
  e_sort :: "FrameRef list \<Rightarrow> FrameRef list"
  e_serde4 :: serde4_lib
  e_serde5 :: serde_lib
  e_loader_serde :: loader_serde
  e_meta_parse :: "bytes \<Rightarrow> (string, json) res"
  e_meta_print :: "json \<Rightarrow> bytes"
  e_hdr :: "'h hdr_lib"
  e_scatter_secs :: string
  e_index_secs :: string
  e_rate :: u64
  e_now :: string
  e_drains :: "nat \<Rightarrow> bool"
  e_schedule :: "Layout \<Rightarrow> nat \<Rightarrow> source list \<Rightarrow> ScatterState"
  e_limit_schedule :: "'b LimitState \<Rightarrow> 'b LimitState"

section \<open>Arguments\<close>

definition v5_options :: "LoadArgs \<Rightarrow> V5Options" where
  "v5_options args =
     \<lparr>vo_block_size = la_block_size args, vo_bucket_bytes = la_bucket_bytes args, vo_sketch = (\<not> la_no_sketch args),
      vo_compression = la_compression args, vo_min_compress_len = la_min_compress_len args,
      vo_marker_mode = (if la_direct_markers args then DirectWrite else Rename)\<rparr>"

text \<open>\<open>str::split\<close> and \<open>str::splitn\<close>.\<close>

fun split_all :: "char \<Rightarrow> string \<Rightarrow> string list" where
  "split_all c [] = [[]]"
| "split_all c (x # xs) =
     (if x = c then [] # split_all c xs
      else case split_all c xs of w # ws \<Rightarrow> (x # w) # ws | [] \<Rightarrow> [[x]])"

fun splitn :: "nat \<Rightarrow> char \<Rightarrow> string \<Rightarrow> string list" where
  "splitn 0 c s = []"
| "splitn (Suc 0) c s = [s]"
| "splitn (Suc (Suc n)) c s = (case split_once c s of None \<Rightarrow> [s] | Some (a, b) \<Rightarrow> a # splitn (Suc n) c b)"

definition parse_table :: "string \<Rightarrow> string option \<Rightarrow> (string \<times> string) cres" where
  "parse_table table project_override =
     rbind (if strip_prefix ''projects/'' table \<noteq> None then
              (case split_all (CHR ''/'') table of
                 _ # project # _ \<Rightarrow> Ok (project, table)
               | _ \<Rightarrow> Err (CliMessage ''malformed resource name, expected projects/P/datasets/D/tables/T''))
            else
              (case splitn 3 (CHR ''.'') table of
                 [p, d, t] \<Rightarrow> Ok (p, ''projects/'' @ p @ ''/datasets/'' @ d @ ''/tables/'' @ t)
               | _ \<Rightarrow> Err (CliMessage (''--table must be in dotted notation project.dataset.table or full '' @
                   ''resource name projects/P/datasets/D/tables/T'')))) (\<lambda>(project, resource).
     Ok (case project_override of Some o' \<Rightarrow> o' | None \<Rightarrow> project, resource))"

definition build_protobuf_config ::
    "('b, 'c, 'd, 'p, 'm, 'g, 'f, 't, 'h) env \<Rightarrow> files \<Rightarrow> LoadArgs \<Rightarrow> ProtobufEncoding cres" where
  "build_protobuf_config ev fs args =
     rbind (ok_or (CliMessage ''--protobuf-message is required for protobuf encoding'') (la_protobuf_message args)) (\<lambda>message_name.
     rbind (case la_protobuf_descriptor args of
              None \<Rightarrow> Ok (None, None)
            | Some d \<Rightarrow>
                if strip_prefix ''gs://'' d \<noteq> None then Ok (None, Some d)
                else if fs (e_path ev d) \<noteq> None then
                  rbind (with_context (''failed to read descriptor file '' @ d) CliFormat (file_open fs (e_path ev d))) (\<lambda>bs.
                  Ok (Some (base64_encode (e_base64 ev) bs), None))
                else Ok (Some d, None)) (\<lambda>(descriptor, descriptor_uri).
     Ok \<lparr>pe_descriptor = descriptor, pe_descriptor_uri = descriptor_uri, pe_package = la_protobuf_package args,
         pe_message_name = message_name\<rparr>))"

section \<open>Pipelines\<close>

record DescriptorMeta =
  dm_descriptor_bytes :: bytes
  dm_message_fqn :: string

record 'b Pipeline =
  pp_sources :: "(LoaderError, 'b) res list list"
  pp_schema :: Schema
  pp_estimated_rows :: "u64 option"
  pp_key_column :: string
  pp_value_column :: string
  pp_include_key_in_value :: bool
  pp_encoding :: "ProtobufEncoding option"

definition open_bq_session ::
    "('b, 'c, 'd, 'p, 'm, 'g, 'f, 't, 'h) env \<Rightarrow> string option \<Rightarrow> string \<Rightarrow> 32 word \<Rightarrow> string option \<Rightarrow> bool \<Rightarrow> string list
       \<Rightarrow> BqReadSession cres" where
  "open_bq_session ev project table streams row_restriction no_compression selected_fields =
     rbind (parse_table table project) (\<lambda>(billing_project, table_resource).
     with_context ''failed to open BigQuery read session'' CliBq (BqReadSession_open (e_bq ev)
       \<lparr>bq_project = billing_project, bq_table = table_resource, bq_selected_fields = selected_fields,
        bq_n_streams = streams, bq_row_restriction = row_restriction, bq_disable_compression = no_compression\<rparr>))"

text \<open>The schema, the estimate and the boxed sources of a session, for both ways to name a table.\<close>

definition session_sources ::
    "('b, 'c, 'd, 'p, 'm, 'g, 'f, 't, 'h) env \<Rightarrow> BqReadSession
       \<Rightarrow> (Schema \<times> u64 option \<times> (LoaderError, 'b) res list list) cres" where
  "session_sources ev session =
     rbind (with_context ''failed to get Arrow schema'' CliBq (BqReadSession_schema (e_bq ev) session)) (\<lambda>schema.
     rbind (with_context ''failed to create record batch sources'' CliBq (into_record_batch_sources (e_bq ev) session)) (\<lambda>srcs.
     Ok (schema, sm_estimated_rows (brs_metadata session), map (boxed (e_show_bq ev) \<circ> bq_batches (e_bq ev)) srcs)))"

definition csv_pipeline_source ::
    "('b, 'c, 'd, 'p, 'm, 'g, 'f, 't, 'h) env \<Rightarrow> string \<Rightarrow> (io_error, bytes) res \<Rightarrow> nat \<Rightarrow> 'b CsvSource cres" where
  "csv_pipeline_source ev msg reader batch_size =
     with_context msg CliLoader (CsvSource_from_reader (e_csv ev) reader batch_size)"

definition open_csv_file ::
    "('b, 'c, 'd, 'p, 'm, 'g, 'f, 't, 'h) env \<Rightarrow> files \<Rightarrow> path \<Rightarrow> nat \<Rightarrow> 'b CsvSource cres" where
  "open_csv_file ev fs p batch_size =
     rbind (with_context (''failed to open '' @ e_show_path ev p) CliFormat (file_open fs p)) (\<lambda>bs.
     csv_pipeline_source ev ''failed to read CSV'' (Ok bs) batch_size)"

definition config_pipeline ::
    "('b, 'c, 'd, 'p, 'm, 'g, 'f, 't, 'h) env \<Rightarrow> files \<Rightarrow> SourceSpec \<Rightarrow> 'b Pipeline cres" where
  "config_pipeline ev fs sp =
     (let encoding = (case sp_encoding sp of Some e \<Rightarrow> e | None \<Rightarrow> None);
          value_column = (case sp_value_column sp of Some v \<Rightarrow> v | None \<Rightarrow> ''value'');
          mk = (\<lambda>(schema, estimated, sources).
            \<lparr>pp_sources = sources, pp_schema = schema, pp_estimated_rows = estimated, pp_key_column = sp_key_column sp,
             pp_value_column = value_column, pp_include_key_in_value = sp_include_key_in_value sp, pp_encoding = encoding\<rparr>)
      in case sp_csv sp of
           Some csv \<Rightarrow>
             rbind (case csv_data csv of
                      Some dat \<Rightarrow> csv_pipeline_source ev ''failed to read inline CSV data'' (Ok (bytes_of_string dat)) 8192
                    | None \<Rightarrow>
                        (case csv_path csv of
                           Some p \<Rightarrow> open_csv_file ev fs p 8192
                         | None \<Rightarrow> Err (CliMessage ''csv source requires either data or path''))) (\<lambda>cs.
             Ok (mk (cs_schema cs, None, [boxed (e_show_loader ev) (csv_batches cs)])))
         | None \<Rightarrow>
             rbind (ok_or (CliMessage ''source must specify either csv or bigquery'') (sp_bigquery sp)) (\<lambda>bq.
             rbind (parse_table (bqs_table bq) (Some (bqs_project bq))) (\<lambda>(billing_project, table_resource).
             rbind (with_context ''failed to open BigQuery read session'' CliBq (BqReadSession_open (e_bq ev)
                      \<lparr>bq_project = billing_project, bq_table = table_resource, bq_selected_fields = bqs_selected_fields bq,
                       bq_n_streams = bqs_streams bq, bq_row_restriction = bqs_row_restriction bq,
                       bq_disable_compression = bqs_no_compression bq\<rparr>)) (\<lambda>session.
             rbind (session_sources ev session) (\<lambda>r. Ok (mk r))))))"


definition build_pipeline ::
    "('b, 'c, 'd, 'p, 'm, 'g, 'f, 't, 'h) env \<Rightarrow> files \<Rightarrow> LoadArgs \<Rightarrow> WorkerConfig option \<Rightarrow> 'b Pipeline cres" where
  "build_pipeline ev fs args worker_config =
     rbind (if la_protobuf_message args \<noteq> None then rmap Some (build_protobuf_config ev fs args) else Ok None) (\<lambda>encoding.
     let mk = (\<lambda>(schema, estimated, sources).
           \<lparr>pp_sources = sources, pp_schema = schema, pp_estimated_rows = estimated, pp_key_column = la_key_column args,
            pp_value_column = la_value_column args, pp_include_key_in_value = la_include_key_in_value args,
            pp_encoding = encoding\<rparr>)
     in case la_source args of
          Bq project table streams row_restriction no_compression selected_fields \<Rightarrow>
            rbind (open_bq_session ev project table streams row_restriction no_compression selected_fields) (\<lambda>session.
            rbind (session_sources ev session) (\<lambda>r. Ok (mk r)))
        | Csv csv_file batch_size \<Rightarrow>
            rbind (if csv_file = None \<or> csv_file = Some ''-''
                   then csv_pipeline_source ev ''failed to read CSV from stdin'' (e_stdin ev) batch_size
                   else open_csv_file ev fs (e_path ev (the csv_file)) batch_size) (\<lambda>cs.
            Ok (mk (cs_schema cs, None, [boxed (e_show_loader ev) (csv_batches cs)])))
        | Config _ \<Rightarrow>
            (case worker_config of Some wc \<Rightarrow> config_pipeline ev fs (wc_source wc) | None \<Rightarrow> Panic))"

definition apply_protobuf_encoding ::
    "('b, 'c, 'd, 'p, 'm, 'g, 'f, 't, 'h) env \<Rightarrow> Schema \<Rightarrow> nat \<Rightarrow> bool \<Rightarrow> ProtobufEncoding
       \<Rightarrow> ('t \<times> DescriptorMeta) cres" where
  "apply_protobuf_encoding ev schema key_col_idx include_key_in_value proto_config =
     (let value_schema = map snd (filter (\<lambda>(i, _). include_key_in_value \<or> i \<noteq> key_col_idx) (enumerate 0 schema))
      in rbind (with_context ''failed to build protobuf transcoder'' CliEncode
                  (build_transcoder (e_apb ev) (e_base64 ev) (e_gcs ev) (debug_str (e_arrow ev)) proto_config value_schema)) (\<lambda>tc.
         Ok (to_transcoder tc, \<lparr>dm_descriptor_bytes = to_descriptor_bytes tc, dm_message_fqn = to_message_fqn tc\<rparr>)))"

text \<open>\<open>Schema::index_of\<close>: the first column of that name.\<close>

definition schema_index_of :: "Schema \<Rightarrow> string \<Rightarrow> (string, nat) res" where
  "schema_index_of schema name =
     (let i = length (takeWhile (\<lambda>(n, _). n \<noteq> name) schema)
      in if i < length schema then Ok i else Err name)"

definition column_index :: "string \<Rightarrow> Schema \<Rightarrow> string \<Rightarrow> nat cres" where
  "column_index what schema name =
     with_context (what @ '' column '' @ name @ '' not found in schema'') CliSchema (schema_index_of schema name)"

section \<open>Loading\<close>

record LoadParams =
  lp_format :: FormatId
  lp_partitions :: u32
  lp_index_parallelism :: nat
  lp_max_value_bytes :: nat
  lp_v5 :: V5Options

definition load_params :: "LoadArgs \<Rightarrow> LoadParams" where
  "load_params args =
     \<lparr>lp_format = la_format args, lp_partitions = la_partitions args, lp_index_parallelism = la_index_parallelism args,
      lp_max_value_bytes = la_max_value_bytes args, lp_v5 = v5_options args\<rparr>"

definition load_config :: "LoadParams \<Rightarrow> LoaderConfig" where
  "load_config params =
     LoaderConfig_default\<lparr>lc_format := lp_format params, lc_n_partitions := lp_partitions params,
       lc_index_parallelism := lp_index_parallelism params, lc_max_value_bytes := lp_max_value_bytes params,
       lc_v5 := lp_v5 params, lc_progress_interval := 0\<rparr>"

text \<open>The phases of a load with the builder of one format; \<open>None\<close> when the V4 build does not return.\<close>

definition load_phases ::
    "('b, 'c, 'd, 'p, 'm, 'g, 'f, 't, 'h) env \<Rightarrow> ('cell, 'a) FormatBuilder \<Rightarrow> path \<Rightarrow> LoaderConfig \<Rightarrow> Layout \<Rightarrow> source list
       \<Rightarrow> 'cell \<times> files \<Rightarrow> (unit cres \<times> files) option" where
  "load_phases ev fb output cfg layout sources s =
     (case scatter_parallel (e_xxh64 ev) fb (e_hdr ev) (e_loader_serde ev) output (lc_n_partitions cfg)
             (vo_marker_mode (lc_v5 cfg)) (e_scatter_secs ev) (e_rate ev) (e_drains ev)
             (e_schedule ev layout (lc_max_value_bytes cfg) sources) s of
        (Ok scatter_result, s1) \<Rightarrow>
          map_option (\<lambda>(r, s2). (with_context ''index/finalize failed'' CliLoader (rmap (\<lambda>_. ()) r), snd s2))
            (loader_finalize fb (e_loader_serde ev) output (e_now ev) s1)
      | (Err e, s1) \<Rightarrow> Some (Err (CliContext ''scatter failed'' (CliLoader e)), snd s1)
      | (Panic, s1) \<Rightarrow> Some (Panic, snd s1))"

definition load_sources ::
    "('b, 'c, 'd, 'p, 'm, 'g, 'f, 't, 'h) env \<Rightarrow> path \<Rightarrow> LoadParams \<Rightarrow> source list \<Rightarrow> files \<Rightarrow> (unit cres \<times> files) option" where
  "load_sources ev output params sources fs =
     (let cfg = load_config params; bc = loader_builder_config output cfg;
          new_failed = (\<lambda>e. Some (Err (CliContext ''failed to create SnapshotLoader'' (CliLoader (FormatE e))), fs))
      in case lc_format cfg of
           V4 \<Rightarrow>
             (case V4Builder_new bc of
                Ok (b, c) \<Rightarrow> load_phases ev (v4_format_builder (e_xxh64 ev) (e_serde4 ev) (e_index_secs ev) b) output cfg
                  (v4_layout b) sources (c, fs)
              | Err e \<Rightarrow> new_failed e
              | Panic \<Rightarrow> Some (Panic, fs))
         | V5 \<Rightarrow>
             (case V5Builder_new bc of
                Ok (b, c) \<Rightarrow> load_phases ev (v5_format_builder (e_zstd ev) (e_xorf ev) (e_xxh64 ev) (e_sort ev) (e_serde5 ev)
                  (e_index_secs ev) b) output cfg (vb_layout b) sources (c, fs)
              | Err e \<Rightarrow> new_failed e
              | Panic \<Rightarrow> Some (Panic, fs)))"

text \<open>
  \<open>meta["encoding"] = ...\<close>: a member of an object is replaced or added, \<open>null\<close> becomes an object,
  anything else panics.  The order of members does not matter to readers.
\<close>

fun json_insert :: "string \<Rightarrow> json \<Rightarrow> (string \<times> json) list \<Rightarrow> (string \<times> json) list" where
  "json_insert k v [] = [(k, v)]"
| "json_insert k v ((k', v') # kvs) = (if k' = k then (k, v) # kvs else (k', v') # json_insert k v kvs)"

definition json_set :: "string \<Rightarrow> json \<Rightarrow> json \<Rightarrow> json cres" where
  "json_set k v j = (case j of JObject kvs \<Rightarrow> Ok (JObject (json_insert k v kvs)) | JNull \<Rightarrow> Ok (JObject [(k, v)]) | _ \<Rightarrow> Panic)"

definition descriptor_json :: "base64_lib \<Rightarrow> bytes \<Rightarrow> string \<Rightarrow> json" where
  "descriptor_json b64 descriptor_bytes message_fqn =
     JObject [(''protobuf'', JObject [(''descriptor'', JString (base64_encode b64 descriptor_bytes)),
                                      (''message_name'', JString message_fqn)])]"

definition patch_meta_descriptor ::
    "('b, 'c, 'd, 'p, 'm, 'g, 'f, 't, 'h) env \<Rightarrow> path \<Rightarrow> bytes \<Rightarrow> string \<Rightarrow> (CliError, files, unit) effect" where
  "patch_meta_descriptor ev output descriptor_bytes message_fqn =
     (let meta_path = path_join output ''meta.json''
      in io_bind (io_map_err (CliContext ''failed to read meta.json for descriptor patching'' \<circ> CliFormat) (read_file meta_path)) (\<lambda>raw.
         io_bind (io_lift (with_context ''failed to parse meta.json'' CliJson (e_meta_parse ev raw))) (\<lambda>meta.
         io_bind (io_lift (json_set ''encoding'' (descriptor_json (e_base64 ev) descriptor_bytes message_fqn) meta)) (\<lambda>patched.
         io_do (\<lambda>fs. fs(meta_path \<mapsto> e_meta_print ev patched))))))"

definition Pipeline_load ::
    "('b, 'c, 'd, 'p, 'm, 'g, 'f, 't, 'h) env \<Rightarrow> 'b Pipeline \<Rightarrow> path \<Rightarrow> LoadParams \<Rightarrow> files \<Rightarrow> (unit cres \<times> files) option" where
  "Pipeline_load ev p output params fs =
     (case column_index ''key'' (pp_schema p) (pp_key_column p) of
        Err e \<Rightarrow> Some (Err e, fs)
      | Panic \<Rightarrow> Some (Panic, fs)
      | Ok key_col_idx \<Rightarrow>
          (case pp_encoding p of
             Some proto_config \<Rightarrow>
               (case apply_protobuf_encoding ev (pp_schema p) key_col_idx (pp_include_key_in_value p) proto_config of
                  Err e \<Rightarrow> Some (Err e, fs)
                | Panic \<Rightarrow> Some (Panic, fs)
                | Ok (transcoder, desc) \<Rightarrow>
                    (case load_sources ev output params
                            (map (protobuf_source (e_arrow ev) (e_transcode ev) (e_show_loader ev) (e_show_encode ev) key_col_idx
                               (pp_include_key_in_value p) transcoder) (pp_sources p)) fs of
                       Some (Ok _, fs') \<Rightarrow> Some (patch_meta_descriptor ev output (dm_descriptor_bytes desc) (dm_message_fqn desc) fs')
                     | r \<Rightarrow> r))
           | None \<Rightarrow>
               (case column_index ''value'' (pp_schema p) (pp_value_column p) of
                  Err e \<Rightarrow> Some (Err e, fs)
                | Panic \<Rightarrow> Some (Panic, fs)
                | Ok val_col_idx \<Rightarrow>
                    load_sources ev output params
                      (map (raw_source (e_arrow ev) (e_show_loader ev) (e_show_loader ev) key_col_idx val_col_idx) (pp_sources p)) fs)))"

section \<open>Download benchmark\<close>

text \<open>One task: the keys and payload bytes of the batches of a source.\<close>

fun benchmark_task ::
    "('s \<Rightarrow> ('e, 'k option) res \<times> 's) \<Rightarrow> ('k \<Rightarrow> nat) \<Rightarrow> ('k \<Rightarrow> ('e, u64) res) \<Rightarrow> nat \<Rightarrow> 's \<Rightarrow> u64 \<times> u64 \<Rightarrow> ('e, u64 \<times> u64) res" where
  "benchmark_task next len payload 0 s acc = Ok acc"
| "benchmark_task next len payload (Suc n) s acc =
     (case next s of
        (Ok (Some b), s') \<Rightarrow>
          rbind (payload b) (\<lambda>bs. benchmark_task next len payload n s' (fst acc + word_of_nat (len b), snd acc + bs))
      | (Ok None, s') \<Rightarrow> Ok acc
      | (Err e, s') \<Rightarrow> Err e
      | (Panic, s') \<Rightarrow> Panic)"

text \<open>The totals of all tasks; the error of the first task that failed, where a panic is one.\<close>

definition benchmark_download :: "('s list \<Rightarrow> (string, u64 \<times> u64) res) \<Rightarrow> 's list list \<Rightarrow> (u64 \<times> u64) cres" where
  "benchmark_download task sources =
     foldR (\<lambda>(idx, src) (ks, bs).
        case task src of
          Ok (k, b) \<Rightarrow> Ok (ks + k, bs + b)
        | Err e \<Rightarrow> Err (CliMessage (''stream '' @ show_nat idx @ '': '' @ e))
        | Panic \<Rightarrow> Err CliJoin) (enumerate 0 sources) (0, 0)"

definition Pipeline_benchmark ::
    "('b, 'c, 'd, 'p, 'm, 'g, 'f, 't, 'h) env \<Rightarrow> 'b Pipeline \<Rightarrow> (u64 \<times> u64) cres" where
  "Pipeline_benchmark ev p =
     rbind (column_index ''key'' (pp_schema p) (pp_key_column p)) (\<lambda>key_col_idx.
     case pp_encoding p of
       Some proto_config \<Rightarrow>
         rbind (apply_protobuf_encoding ev (pp_schema p) key_col_idx (pp_include_key_in_value p) proto_config) (\<lambda>(transcoder, _).
         benchmark_download (\<lambda>src. map_err (e_show_encode ev)
           (benchmark_task (ProtobufEncodingSource_next (e_arrow ev) (e_transcode ev) (e_show_loader ev) key_col_idx
              (pp_include_key_in_value p) transcoder) (EncodedBatch_len (e_arrow ev)) (EncodedBatch_total_bytes (e_arrow ev))
              (length src) src (0, 0))) (pp_sources p))
     | None \<Rightarrow>
         rbind (column_index ''value'' (pp_schema p) (pp_value_column p)) (\<lambda>val_col_idx.
         benchmark_download (\<lambda>src. map_err (e_show_loader ev)
           (benchmark_task (RawEncodingSource_next (e_arrow ev) (e_show_loader ev) key_col_idx val_col_idx)
              (ArrowKvBatch_len (e_arrow ev)) (ArrowKvBatch_total_bytes (e_arrow ev)) (length src) src (0, 0))) (pp_sources p)))"

section \<open>The command\<close>

definition index_only_config :: "LoadArgs \<Rightarrow> LoaderConfig" where
  "index_only_config args =
     LoaderConfig_default\<lparr>lc_format := la_format args, lc_n_partitions := la_partitions args,
       lc_index_parallelism := la_index_parallelism args, lc_v5 := v5_options args\<rparr>"

definition index_phases ::
    "('b, 'c, 'd, 'p, 'm, 'g, 'f, 't, 'h) env \<Rightarrow> ('cell, 'a) FormatBuilder \<Rightarrow> path \<Rightarrow> LoaderConfig \<Rightarrow> 'cell \<times> files
       \<Rightarrow> (unit cres \<times> files) option" where
  "index_phases ev fb output cfg s =
     (case scatter_result_from_done fb (e_loader_serde ev) output (lc_n_partitions cfg) (vo_marker_mode (lc_v5 cfg)) s of
        (Ok (Some scatter_result), s1) \<Rightarrow>
          map_option (\<lambda>(r, s2). (with_context ''index/finalize failed'' CliLoader (rmap (\<lambda>_. ()) r), snd s2))
            (loader_finalize fb (e_loader_serde ev) output (e_now ev) s1)
      | (Ok None, s1) \<Rightarrow> Some (Err (CliMessage ''scatter.done not found or invalid - cannot run index-only''), snd s1)
      | (Err e, s1) \<Rightarrow> Some (Err (CliContext ''failed to read scatter.done'' (CliLoader e)), snd s1)
      | (Panic, s1) \<Rightarrow> Some (Panic, snd s1))"

definition run_index_only ::
    "('b, 'c, 'd, 'p, 'm, 'g, 'f, 't, 'h) env \<Rightarrow> LoadArgs \<Rightarrow> files \<Rightarrow> (unit cres \<times> files) option" where
  "run_index_only ev args fs =
     (case la_output args of
        None \<Rightarrow> Some (Err (CliMessage ''--output is required for index-only resume''), fs)
      | Some output \<Rightarrow>
          (let cfg = index_only_config args; bc = loader_builder_config output cfg;
               new_failed = (\<lambda>e. Some (Err (CliContext ''failed to create SnapshotLoader'' (CliLoader (FormatE e))), fs))
           in case lc_format cfg of
                V4 \<Rightarrow>
                  (case V4Builder_new bc of
                     Ok (b, c) \<Rightarrow> index_phases ev (v4_format_builder (e_xxh64 ev) (e_serde4 ev) (e_index_secs ev) b) output cfg (c, fs)
                   | Err e \<Rightarrow> new_failed e
                   | Panic \<Rightarrow> Some (Panic, fs))
              | V5 \<Rightarrow>
                  (case V5Builder_new bc of
                     Ok (b, c) \<Rightarrow> index_phases ev (v5_format_builder (e_zstd ev) (e_xorf ev) (e_xxh64 ev) (e_sort ev) (e_serde5 ev)
                       (e_index_secs ev) b) output cfg (c, fs)
                   | Err e \<Rightarrow> new_failed e
                   | Panic \<Rightarrow> Some (Panic, fs))))"

text \<open>The configuration file, which is authoritative for the partitions and the parallelism.\<close>

definition apply_worker_config ::
    "('b, 'c, 'd, 'p, 'm, 'g, 'f, 't, 'h) env \<Rightarrow> files \<Rightarrow> LoadArgs \<Rightarrow> (LoadArgs \<times> WorkerConfig option) cres" where
  "apply_worker_config ev fs args =
     (case la_source args of
        Config config \<Rightarrow>
          rbind (with_context (''failed to read config file '' @ config) CliFormat (file_open fs (e_path ev config))) (\<lambda>config_bytes.
          rbind (with_context (''failed to parse config file '' @ config) CliJson (e_worker_config ev config_bytes)) (\<lambda>wc.
          Ok (args\<lparr>la_output := (case la_output args of None \<Rightarrow> Some (wc_output wc) | o' \<Rightarrow> o'),
                   la_partitions := wc_partitions wc, la_index_parallelism := wc_index_parallelism wc\<rparr>, Some wc)))
      | _ \<Rightarrow> Ok (args, None))"

definition limit_pipeline ::
    "('b, 'c, 'd, 'p, 'm, 'g, 'f, 't, 'h) env \<Rightarrow> u64 option \<Rightarrow> 'b Pipeline \<Rightarrow> 'b Pipeline" where
  "limit_pipeline ev max_rows p =
     (case max_rows of
        None \<Rightarrow> p
      | Some limit \<Rightarrow>
          p\<lparr>pp_sources := limited_outputs (e_show_loader ev) (e_limit_schedule ev (limit_sources (pp_sources p) limit)),
            pp_estimated_rows := Some (case pp_estimated_rows p of None \<Rightarrow> limit | Some e \<Rightarrow> min e limit)\<rparr>)"

definition resume_applies :: "LoadArgs \<Rightarrow> files \<Rightarrow> bool" where
  "resume_applies args fs \<longleftrightarrow> \<not> la_dry_run args \<and> \<not> la_download_benchmark args \<and>
     (case la_output args of
        None \<Rightarrow> False
      | Some output \<Rightarrow> fs (path_join output ''scatter.done'') \<noteq> None \<and> fs (path_join output ''meta.json'') = None)"

definition run_load_command ::
    "('b, 'c, 'd, 'p, 'm, 'g, 'f, 't, 'h) env \<Rightarrow> LoadArgs \<Rightarrow> WorkerConfig option \<Rightarrow> files \<Rightarrow> (unit cres \<times> files) option" where
  "run_load_command ev args worker_config fs =
     (if resume_applies args fs then run_index_only ev args fs
      else case rmap (limit_pipeline ev (la_max_rows args)) (build_pipeline ev fs args worker_config) of
             Err e \<Rightarrow> Some (Err e, fs)
           | Panic \<Rightarrow> Some (Panic, fs)
           | Ok pipeline \<Rightarrow>
               if la_dry_run args then Some (Ok (), fs)
               else if la_download_benchmark args then Some (rmap (\<lambda>_. ()) (Pipeline_benchmark ev pipeline), fs)
               else (case la_output args of
                       None \<Rightarrow> Some (Err (CliMessage ''--output is required''), fs)
                     | Some output \<Rightarrow>
                         Pipeline_load ev pipeline output (load_params args) fs))"

definition run_load ::
    "('b, 'c, 'd, 'p, 'm, 'g, 'f, 't, 'h) env \<Rightarrow> LoadArgs \<Rightarrow> files \<Rightarrow> (unit cres \<times> files) option" where
  "run_load ev args fs =
     (case rbind (case la_block_size args of
                    Some bs \<Rightarrow> with_context ''invalid --block-size'' CliFormat (validate_block_size bs)
                  | None \<Rightarrow> Ok ()) (\<lambda>_. apply_worker_config ev fs args) of
        Err e \<Rightarrow> Some (Err e, fs)
      | Panic \<Rightarrow> Some (Panic, fs)
      | Ok (args', worker_config) \<Rightarrow> run_load_command ev args' worker_config fs)"

end
