(* ===== verification/Cli_Get.thy ===== *)
theory Cli_Get
  imports Cli_Load Server_Lookup
begin

text \<open>
  The commands \<open>mcf get\<close> (\<open>get.rs\<close>) and \<open>mcf serve\<close> (\<open>serve.rs\<close>, up to the configuration it hands to
  the server).  \<open>prost_reflect\<close> is a parameter.  A \<open>meta.json\<close> that is not UTF-8 fails in its parse.
\<close>

section \<open>\<open>mcf get\<close>\<close>

record GetArgs =
  ga_snapshot :: path
  ga_key :: string
  ga_hex :: bool
  ga_json :: bool

text \<open>What the command prints on standard output, or that it exits with status 1.\<close>

datatype GetReport = Printed bytes | NotFoundExit bool

record ('q, 'r, 'v) prost_lib =
  pool_decode :: "bytes \<Rightarrow> (string, 'q) res"
  get_message_by_name :: "'q \<Rightarrow> string \<Rightarrow> 'r option"
  message_decode :: "'r \<Rightarrow> bytes \<Rightarrow> (string, 'v) res"
  message_to_json :: "'v \<Rightarrow> (string, bytes) res"

definition hex_digit :: "nat \<Rightarrow> char" where
  "hex_digit d = (if d < 10 then char_of (48 + d) else char_of (87 + d))"

definition hex :: "bytes \<Rightarrow> string" where
  "hex bs = concat (map (\<lambda>b. [hex_digit (unat b div 16), hex_digit (unat b mod 16)]) bs)"

definition json_get :: "string \<Rightarrow> json \<Rightarrow> json option" where
  "json_get k j = (case j of JObject kvs \<Rightarrow> map_of kvs k | _ \<Rightarrow> None)"

definition json_as_str :: "json \<Rightarrow> string option" where
  "json_as_str j = (case j of JString s \<Rightarrow> Some s | _ \<Rightarrow> None)"

text \<open>The descriptor and the message name \<open>meta.json\<close> records.\<close>

definition embedded_descriptor ::
    "('b, 'c, 'd, 'p, 'm, 'g, 'f, 't, 'h) env \<Rightarrow> files \<Rightarrow> path \<Rightarrow> (bytes \<times> string) cres" where
  "embedded_descriptor ev fs snapshot =
     rbind (with_context ''failed to read meta.json'' CliFormat (file_open fs (path_join snapshot ''meta.json''))) (\<lambda>raw.
     rbind (with_context ''failed to parse meta.json'' CliJson (e_meta_parse ev raw)) (\<lambda>meta.
     rbind (ok_or (CliMessage ''no encoding.protobuf section in meta.json - snapshot may not use protobuf encoding'')
              (Option.bind (json_get ''encoding'' meta) (json_get ''protobuf''))) (\<lambda>enc.
     rbind (ok_or (CliMessage ''missing encoding.protobuf.descriptor in meta.json'')
              (Option.bind (json_get ''descriptor'' enc) json_as_str)) (\<lambda>desc_b64.
     rbind (ok_or (CliMessage ''missing encoding.protobuf.message_name in meta.json'')
              (Option.bind (json_get ''message_name'' enc) json_as_str)) (\<lambda>message_name.
     rbind (with_context ''failed to decode base64 descriptor'' CliMessage (base64_decode (e_base64 ev) desc_b64)) (\<lambda>desc_bytes.
     Ok (desc_bytes, message_name)))))))"

definition print_json ::
    "('b, 'c, 'd, 'p, 'm, 'g, 'f, 't, 'h) env \<Rightarrow> ('q, 'r, 'v) prost_lib \<Rightarrow> files \<Rightarrow> path \<Rightarrow> bytes \<Rightarrow> bytes cres" where
  "print_json ev pl fs snapshot value_bytes =
     rbind (embedded_descriptor ev fs snapshot) (\<lambda>(desc_bytes, message_name).
     rbind (with_context ''failed to parse FileDescriptorSet'' CliMessage (pool_decode pl desc_bytes)) (\<lambda>pool.
     rbind (ok_or (CliMessage (''message '' @ message_name @ '' not found in descriptor'')) (get_message_by_name pl pool message_name)) (\<lambda>msg_desc.
     rbind (with_context ''failed to decode protobuf value'' CliMessage (message_decode pl msg_desc value_bytes)) (\<lambda>msg.
     rbind (with_context ''failed to serialize to JSON'' CliMessage (message_to_json pl msg)) (\<lambda>json.
     if utf8_valid json then Ok json else Err (CliMessage ''invalid UTF-8 in JSON output''))))))"

definition run_get ::
    "('b, 'c, 'd, 'p, 'm, 'g, 'f, 't, 'h) env \<Rightarrow> io_error option \<Rightarrow> target \<Rightarrow> desc_serde \<Rightarrow> ('q, 'r, 'v) prost_lib \<Rightarrow> files
       \<Rightarrow> GetArgs \<Rightarrow> GetReport cres" where
  "run_get ev populate arch dj pl fs args =
     rbind (with_context ''failed to open snapshot'' CliFormat
              (Snapshot_open_path populate dj (e_zstd ev) (e_xxh64 ev) fs (ga_snapshot args))) (\<lambda>reader.
     rbind (with_context ''lookup failed'' CliFormat
              (Snapshot_get arch (e_zstd ev) (e_xorf ev) (e_xxh64 ev) reader (bytes_of_string (ga_key args)))) (\<lambda>outcome.
     case outcome of
       Miss io \<Rightarrow> Ok (NotFoundExit io)
     | Hit bs \<Rightarrow>
         if ga_json args then rmap Printed (print_json ev pl fs (ga_snapshot args) bs)
         else if ga_hex args then Ok (Printed (bytes_of_string (hex bs)))
         else if utf8_valid bs then Ok (Printed bs)
         else Ok (Printed (bytes_of_string (hex bs)))))"

section \<open>\<open>mcf serve\<close>\<close>

record ServeArgs =
  sa_uds :: "path option"
  sa_tcp :: "string option"
  sa_metrics :: "string option"
  sa_idle_timeout_secs :: u64

text \<open>Both modes take the same options besides the directory or the catalog they serve.\<close>

datatype ServeMode = SnapshotMode path ServeArgs | CatalogMode path ServeArgs

record ServeConfig =
  sc_target :: path
  sc_uds_path :: "path option"
  sc_tcp_addr :: "string option"
  sc_metrics_addr :: "string option"
  sc_idle_timeout :: "u64 option"

definition idle_timeout :: "u64 \<Rightarrow> u64 option" where
  "idle_timeout secs = (if secs = 0 then None else Some secs)"

datatype ServeStart = RunSnapshot ServeConfig | RunCatalog ServeConfig

definition serve_config :: "path \<Rightarrow> ServeArgs \<Rightarrow> ServeConfig cres" where
  "serve_config p a =
     (if sa_uds a = None \<and> sa_tcp a = None
      then Err (CliMessage ''at least one of --uds or --tcp must be specified'')
      else Ok \<lparr>sc_target = p, sc_uds_path = sa_uds a, sc_tcp_addr = sa_tcp a, sc_metrics_addr = sa_metrics a,
               sc_idle_timeout = idle_timeout (sa_idle_timeout_secs a)\<rparr>)"

definition run_serve :: "ServeMode \<Rightarrow> ServeStart cres" where
  "run_serve mode =
     (case mode of
        SnapshotMode dir a \<Rightarrow> rmap RunSnapshot (serve_config dir a)
      | CatalogMode catalog a \<Rightarrow> rmap RunCatalog (serve_config catalog a))"

end
