(* ===== verification/Cli_Properties.thy ===== *)
theory Cli_Properties
  imports Cli_Get Loader_Properties
begin

text \<open>
  The properties of the sources, of the encoding and of the commands: a load from a CSV file to the
  answer of \<open>mcf get\<close>, the row limit, protobuf encoding, BigQuery streams, dry runs and resumed loads.
\<close>

section \<open>Interleavings\<close>

text \<open>The schedules are runs of the concurrent tasks to their end.\<close>

definition schedules_ok :: "('b, 'c, 'd, 'p, 'm, 'g, 'f, 't, 'h) env \<Rightarrow> bool" where
  "schedules_ok ev \<longleftrightarrow>
     (\<forall>l m srcs. Layout_new (n_partitions l) = Ok l \<longrightarrow> sources_ok m srcs \<longrightarrow>
        (scatter_step (e_xxh64 ev))\<^sup>*\<^sup>* (scatter_start l m srcs) (e_schedule ev l m srcs) \<and>
        scatter_finished (e_schedule ev l m srcs)) \<and>
     (\<forall>s. (\<forall>t \<in> set (ls_tasks s). Panic \<notin> set (lt_inner t)) \<longrightarrow>
        (limit_step (e_arrow ev))\<^sup>*\<^sup>* s (e_limit_schedule ev s) \<and> limit_finished (e_limit_schedule ev s))"

text \<open>Such schedules exist.\<close>

lemma schedules_exist:
  "\<exists>sched lim. schedules_ok (ev\<lparr>e_schedule := sched, e_limit_schedule := lim\<rparr>)"
proof -
  have "\<exists>sched. \<forall>l m srcs. Layout_new (n_partitions l) = Ok l \<longrightarrow> sources_ok m srcs \<longrightarrow>
      (scatter_step (e_xxh64 ev))\<^sup>*\<^sup>* (scatter_start l m srcs) (sched l m srcs) \<and> scatter_finished (sched l m srcs)"
  proof (rule exI, intro allI impI)
    fix l m srcs
    assume "Layout_new (n_partitions l) = Ok l" "sources_ok m srcs"
    from scatter_run_exists [OF this, of "e_xxh64 ev"]
    show "(scatter_step (e_xxh64 ev))\<^sup>*\<^sup>* (scatter_start l m srcs)
        (SOME ss. (scatter_step (e_xxh64 ev))\<^sup>*\<^sup>* (scatter_start l m srcs) ss \<and> scatter_finished ss) \<and>
      scatter_finished (SOME ss. (scatter_step (e_xxh64 ev))\<^sup>*\<^sup>* (scatter_start l m srcs) ss \<and> scatter_finished ss)"
      by (rule someI_ex)
  qed
  then obtain sched where a: "\<And>l m srcs. Layout_new (n_partitions l) = Ok l \<Longrightarrow> sources_ok m srcs \<Longrightarrow>
      (scatter_step (e_xxh64 ev))\<^sup>*\<^sup>* (scatter_start l m srcs) (sched l m srcs) \<and> scatter_finished (sched l m srcs)" by blast
  have "\<forall>s. \<exists>s'. (\<forall>t \<in> set (ls_tasks s). Panic \<notin> set (lt_inner t)) \<longrightarrow> (limit_step (e_arrow ev))\<^sup>*\<^sup>* s s' \<and> limit_finished s'"
    using limit_completes by blast
  then obtain lim where b: "\<And>s. (\<forall>t \<in> set (ls_tasks s). Panic \<notin> set (lt_inner t)) \<Longrightarrow>
      (limit_step (e_arrow ev))\<^sup>*\<^sup>* s (lim s) \<and> limit_finished (lim s)" by metis
  from a b have "schedules_ok (ev\<lparr>e_schedule := sched, e_limit_schedule := lim\<rparr>)" by (simp add: schedules_ok_def)
  then show ?thesis by blast
qed

section \<open>Loading rows\<close>

lemma load_phases_ok:
  assumes "load_parallel (e_xxh64 ev) fb (e_hdr ev) (e_loader_serde ev) output (lc_n_partitions cfg) (vo_marker_mode (lc_v5 cfg))
      (e_scatter_secs ev) (e_rate ev) (e_drains ev) (e_schedule ev layout (lc_max_value_bytes cfg) srcs) (e_now ev) s =
    Some (Ok r, (c', fs'))"
  shows "load_phases ev fb output cfg layout srcs s = Some (Ok (), fs')"
  using assms by (auto simp: load_phases_def load_parallel_def with_context_def res_simps split: prod.splits res.splits)

text \<open>A single limited source delivers the first rows.\<close>

lemma limit_one:
  assumes ok: "arrow_ok (e_arrow ev)" and raw: "\<forall>b \<in> set bs. raw_batch (e_arrow ev) ki vi b"
    and small: "rows (e_arrow ev) bs < 2 ^ 63" and sched: "schedules_ok ev"
  shows "\<exists>out. limited_outputs disp (e_limit_schedule ev (limit_sources [map Ok bs] limit)) = [map Ok out] \<and>
    pairs (e_arrow ev) ki vi out = take (unat limit) (pairs (e_arrow ev) ki vi bs) \<and>
    (\<forall>b \<in> set out. raw_batch (e_arrow ev) ki vi b)"
proof -
  let ?ar = "e_arrow ev" and ?start = "limit_sources [map Ok bs] limit"
  let ?s = "e_limit_schedule ev ?start"
  have "\<forall>t \<in> set (ls_tasks ?start). Panic \<notin> set (lt_inner t)" by (auto simp: limit_sources_def)
  then have run: "(limit_step ?ar)\<^sup>*\<^sup>* ?start ?s" "limit_finished ?s"
    using sched unfolding schedules_ok_def by blast+
  have ex: "length (ls_tasks ?s) = length [bs] \<and>
    (\<forall>i < length [bs]. prefix (pairs ?ar ki vi (lt_out (ls_tasks ?s ! i))) (pairs ?ar ki vi ([bs] ! i)) \<and>
      lt_phase (ls_tasks ?s ! i) = Ended None \<and> (\<forall>b \<in> set (lt_out (ls_tasks ?s ! i)). raw_batch ?ar ki vi b)) \<and>
    sum_list (map (rows ?ar \<circ> lt_out) (ls_tasks ?s)) = min (unat limit) (sum_list (map (rows ?ar) [bs]))"
    using limit_exact [OF ok, of "[bs]" ki vi limit ?s] raw small run by simp
  then obtain t where t: "ls_tasks ?s = [t]" by (auto simp: length_Suc_conv)
  have pre: "prefix (pairs ?ar ki vi (lt_out t)) (pairs ?ar ki vi bs)" and ph: "lt_phase t = Ended None"
    and rb: "\<forall>b \<in> set (lt_out t). raw_batch ?ar ki vi b" and n: "rows ?ar (lt_out t) = min (unat limit) (rows ?ar bs)"
    using ex t by simp_all
  have len: "length (pairs ?ar ki vi xs) = rows ?ar xs" for xs by (induction xs) simp_all
  have "pairs ?ar ki vi (lt_out t) = take (rows ?ar (lt_out t)) (pairs ?ar ki vi bs)"
    using pre len [of "lt_out t"] by (auto simp: prefix_def)
  also have "\<dots> = take (unat limit) (pairs ?ar ki vi bs)" using n len [of bs] by (simp add: min_def)
  finally show ?thesis using t ph rb by (intro exI [of _ "lt_out t"]) (simp add: limited_outputs_def)
qed

lemma pairs_of_rows: "pairs_of (map (Ok \<circ> row_pairs ar ki vi) bs) = pairs ar ki vi bs"
  by (induction bs) simp_all

lemma load_sources_rows:
  fixes ev :: "('b, 'c, 'd, 'p, 'm, 'g, 'f, 't, 'h) env"
  assumes fmt: "lp_format params = V5" and new: "V5Builder_new (loader_builder_config output (load_config params)) = Ok (b, c)"
    and fresh: "fresh_root output fs"
    and ar: "arrow_ok (e_arrow ev)" and raw: "\<forall>bt \<in> set bs. raw_batch (e_arrow ev) ki vi bt"
    and vals: "\<forall>(k, v) \<in> set (pairs (e_arrow ev) ki vi bs). length v \<le> lp_max_value_bytes params"
    and max: "lp_max_value_bytes params < 2 ^ 30" and small: "length (pairs (e_arrow ev) ki vi bs) < 2 ^ 32"
    and sched: "schedules_ok ev" and sj: "serde_ok (e_serde5 ev)" and dj: "desc5_ok (e_serde5 ev) dj" and srt: "sort_ok (e_sort ev)"
    and z: "vo_compression (lp_v5 params) = NoCompression \<or> zstd_ok (e_zstd ev)" and x: "vo_sketch (lp_v5 params) \<longrightarrow> xorf_ok (e_xorf ev)"
  shows "\<exists>fs' r. load_sources ev output params [raw_source (e_arrow ev) disp disp' ki vi (map Ok bs)] fs = Some (Ok (), fs') \<and>
    Snapshot_open_path populate dj (e_zstd ev) (e_xxh64 ev) fs' output = Ok r \<and>
    (\<forall>key. \<exists>res. Snapshot_get arch (e_zstd ev) (e_xorf ev) (e_xxh64 ev) r key = Ok res \<and>
      load_answers (e_xxh64 ev) (vb_layout b) (pairs (e_arrow ev) ki vi bs) key res)"
proof -
  let ?ar = "e_arrow ev" and ?cfg = "load_config params"
  let ?srcs = "[raw_source ?ar disp disp' ki vi (map Ok bs)]"
  let ?ss = "e_schedule ev (vb_layout b) (lc_max_value_bytes ?cfg) ?srcs"
  have cfg: "lc_max_value_bytes ?cfg = lp_max_value_bytes params" "lc_format ?cfg = V5" "lc_v5 ?cfg = lp_v5 params"
    by (simp_all add: load_config_def fmt)
  have src: "raw_source ?ar disp disp' ki vi (map Ok bs) = map (Ok \<circ> row_pairs ?ar ki vi) bs" by (rule raw_source_rows [OF ar raw])
  have ok: "sources_ok (lc_max_value_bytes ?cfg) ?srcs" using vals by (auto simp: sources_ok_def src cfg)
  have ps: "all_pairs ?srcs = pairs ?ar ki vi bs" by (simp add: src pairs_of_rows)
  have "Layout_new (n_partitions (vb_layout b)) = Ok (vb_layout b)" using V5Builder_new_fields [OF new] by simp
  with sched ok have run: "(scatter_step (e_xxh64 ev))\<^sup>*\<^sup>* (scatter_start (vb_layout b) (lc_max_value_bytes ?cfg) ?srcs) ?ss" "scatter_finished ?ss"
    by (auto simp: schedules_ok_def)
  have bounds: "lc_max_value_bytes ?cfg < 2 ^ 30" "length (all_pairs ?srcs) < 2 ^ 32" using max small by (simp_all only: cfg ps)
  obtain n c' fs' r where l: "load_parallel (e_xxh64 ev) (v5_format_builder (e_zstd ev) (e_xorf ev) (e_xxh64 ev) (e_sort ev) (e_serde5 ev)
        (e_index_secs ev) b) (e_hdr ev) (e_loader_serde ev) output (lc_n_partitions ?cfg) (vo_marker_mode (lc_v5 ?cfg))
        (e_scatter_secs ev) (e_rate ev) (e_drains ev) ?ss (e_now ev) (c, fs) =
        Some (Ok (word_of_nat (length (all_pairs ?srcs)), n), (c', fs'))"
    and o: "Snapshot_open_path populate dj (e_zstd ev) (e_xxh64 ev) fs' output = Ok r"
    and g: "\<forall>key. \<exists>res. Snapshot_get arch (e_zstd ev) (e_xorf ev) (e_xxh64 ev) r key = Ok res \<and>
      load_answers (e_xxh64 ev) (vb_layout b) (all_pairs ?srcs) key res"
    using v5_load_ok [OF new fresh ok bounds run sj dj srt _ _, of "e_zstd ev" "e_xorf ev"] z x unfolding cfg by blast
  have "load_sources ev output params ?srcs fs = Some (Ok (), fs')"
    using load_phases_ok [OF l] new by (simp add: load_sources_def cfg(2) del: split_paired_Ex)
  with o g show ?thesis unfolding ps by blast
qed

section \<open>Demonstration environment\<close>

text \<open>Batches of integer keys and byte values, as two columns.\<close>

datatype demo_col = IntCol "int list" | ByteCol "bytes list"

fun demo_slice :: "demo_col \<Rightarrow> nat \<Rightarrow> nat \<Rightarrow> demo_col" where
  "demo_slice (IntCol xs) off n = IntCol (take n (drop off xs))"
| "demo_slice (ByteCol xs) off n = ByteCol (take n (drop off xs))"

definition demo_arrow :: "((int \<times> bytes) list, demo_col) arrow_lib" where
  "demo_arrow =
     \<lparr>ar_data_type = (\<lambda>c. case c of IntCol _ \<Rightarrow> Int64 | ByteCol _ \<Rightarrow> Binary),
      ar_len = (\<lambda>c. case c of IntCol xs \<Rightarrow> length xs | ByteCol xs \<Rightarrow> length xs), ar_null_count = (\<lambda>_. 0),
      ar_value = (\<lambda>c i. case c of IntCol _ \<Rightarrow> [] | ByteCol xs \<Rightarrow> xs ! i),
      ar_values_len = (\<lambda>c. case c of IntCol _ \<Rightarrow> 0 | ByteCol xs \<Rightarrow> length (concat xs)),
      ar_ints = (\<lambda>c. case c of IntCol xs \<Rightarrow> xs | ByteCol _ \<Rightarrow> []), ar_slice = demo_slice,
      rb_columns = (\<lambda>b. [IntCol (map fst b), ByteCol (map snd b)]), rb_names = (\<lambda>_. [''key'', ''value'']),
      rb_num_rows = length, rb_slice = (\<lambda>b off n. take n (drop off b)),
      rb_project = (\<lambda>b idxs. if idxs = [0, 1] then Ok b else Err []), show_type = (\<lambda>_. []), debug_str = (\<lambda>s. s),
      itoa_format = (\<lambda>i. bytes_of_string (show_int i))\<rparr>"

lemma demo_arrow_ok: "arrow_ok demo_arrow"
  by (auto simp: arrow_ok_def demo_arrow_def int_type_def take_map drop_map nth_append split: demo_col.splits)

lemma demo_raw_batch: "raw_batch demo_arrow 0 1 b"
  by (simp add: raw_batch_def demo_arrow_def byte_type_def int_type_def)

lemma demo_digits: "show_nat 7 = ''7''" "show_nat 8 = ''8''"
  by code_simp+

lemma demo_pairs_rows: "pairs demo_arrow 0 (Suc 0) [[(7, [104, 105]), (8, [33])]] = [([55], [104, 105]), ([56], [33])]"
  by (simp add: row_pairs_def demo_arrow_def key_at_def int_type_def show_int_def demo_digits bytes_of_string_def)

definition demo_args :: LoadArgs where
  "demo_args =
     \<lparr>la_output = Some [''snap''], la_partitions = 1, la_format = V5, la_index_parallelism = 2,
      la_max_value_bytes = DEFAULT_MAX_VALUE_BYTES, la_block_size = None, la_no_sketch = False, la_bucket_bytes = None,
      la_direct_markers = False, la_compression = ZstdDict_Mode,
      la_min_compress_len = word_of_nat DEFAULT_MIN_COMPRESS_LEN, la_max_rows = Some 1, la_dry_run = False,
      la_download_benchmark = False, la_key_column = ''key'', la_value_column = ''value'', la_include_key_in_value = False,
      la_protobuf_message = None, la_protobuf_package = None, la_protobuf_descriptor = None,
      la_source = Csv (Some ''in.csv'') 1024\<rparr>"

text \<open>A meta file with one byte for each member; base64 as the text of the bytes.\<close>

definition demo_env ::
    "((int \<times> bytes) list, demo_col, unit, unit, unit, unit, unit, unit, u64 list) env" where
  "demo_env =
     \<lparr>e_arrow = demo_arrow,
      e_csv = \<lparr>csv_infer_schema = (\<lambda>_ _. Ok [(''key'', Int64), (''value'', Binary)]),
        csv_read = (\<lambda>_ _ _. Ok [Ok [(7, [104, 105]), (8, [33])]])\<rparr>,
      e_bq = \<lparr>bq_connect = Err [], bq_create_read_session = (\<lambda>_. Err []), bq_read_rows = (\<lambda>_ _. Err []), ipc_schema = (\<lambda>_. Err []),
        ipc_decoder_new = (), ipc_decode = (\<lambda>_ _. (Err [], ()))\<rparr>,
      e_apb = \<lparr>proto_schema_from_bytes = (\<lambda>_. Ok ()), proto_message = (\<lambda>_ _. Ok ()), infer_mapping = (\<lambda>_ _. Ok ()),
        transcoder_new = (\<lambda>_. Ok ()), generate_file_descriptor = (\<lambda>_ _ _. Ok ()), encode_fds = (\<lambda>_. [])\<rparr>,
      e_transcode = (\<lambda>_ b. Ok (ByteCol (map snd b))),
      e_base64 = \<lparr>base64_encode = map (\<lambda>b. char_of (unat b)), base64_decode = (\<lambda>s. Ok (bytes_of_string s))\<rparr>,
      e_gcs = \<lparr>gcs_new = Err [], gcs_get = (\<lambda>_. Err []), gcs_send = (\<lambda>_. Err []), percent_encode = (\<lambda>s. s)\<rparr>,
      e_stdin = Ok [], e_path = (\<lambda>s. [s]), e_show_path = concat, e_worker_config = (\<lambda>_. Err []), e_show_loader = (\<lambda>_. []),
      e_show_encode = (\<lambda>_. []), e_show_bq = (\<lambda>_. []), e_zstd = demo_zstd, e_xorf = demo_xorf, e_xxh64 = demo_hash,
      e_sort = sort_key fr_fp, e_serde4 = demo_serde4, e_serde5 = demo_serde, e_loader_serde = demo_lserde2,
      e_meta_parse = Ok \<circ> unnumbered, e_meta_print = numbered, e_hdr = demo_hdr, e_scatter_secs = [], e_index_secs = [],
      e_rate = 0, e_now = [], e_drains = (\<lambda>_. True), e_schedule = (\<lambda>l m srcs. scatter_start l m srcs),
      e_limit_schedule = (\<lambda>s. s)\<rparr>"

definition demo_prost :: "(unit, unit, bytes) prost_lib" where
  "demo_prost =
     \<lparr>pool_decode = (\<lambda>_. Ok ()), get_message_by_name = (\<lambda>_ _. Some ()), message_decode = (\<lambda>_ bs. Ok bs), message_to_json = Ok\<rparr>"

abbreviation demo_csv_files :: files where
  "demo_csv_files \<equiv> [[''in.csv''] \<mapsto> []]"

section \<open>From a CSV file to the terminal\<close>

text \<open>The rows a limit leaves, and what \<open>mcf get\<close> prints of a value.\<close>

definition limited_rows :: "u64 option \<Rightarrow> 'a list \<Rightarrow> 'a list" where
  "limited_rows max_rows xs = (case max_rows of None \<Rightarrow> xs | Some l \<Rightarrow> take (unat l) xs)"

definition printed :: "bytes \<Rightarrow> bytes" where
  "printed v = (if utf8_valid v then v else bytes_of_string (hex v))"

lemma limited_rows_set: "set (limited_rows m xs) \<subseteq> set xs" and limited_rows_length: "length (limited_rows m xs) \<le> length xs"
  by (auto simp: limited_rows_def split: option.split dest: in_set_takeD)

lemma new_v5:
  assumes "Layout_new (la_partitions args) = Ok l" and "\<forall>bs. la_block_size args = Some bs \<longrightarrow> validate_block_size bs = Ok ()"
  shows "\<exists>b c. V5Builder_new (loader_builder_config output (load_config (load_params args))) = Ok (b, c)"
  using assms by (auto simp: V5Builder_new_def loader_builder_config_def load_config_def load_params_def v5_options_def
      LoaderConfig_default_def split: option.splits)

lemma rows_eq_length: "rows ar bs = length (pairs ar ki vi bs)"
  by (induction bs) simp_all

text \<open>The pipeline of a CSV file, after the limit.\<close>

lemma csv_pipeline_rows:
  assumes src: "la_source args = Csv (Some f) n" "f \<noteq> ''-''" and pb: "la_protobuf_message args = None"
    and csv: "fs (e_path ev f) = Some bytes" "csv_infer_schema (e_csv ev) bytes 100 = Ok schema"
      "csv_read (e_csv ev) schema n bytes = Ok (map Ok bs)"
    and ar: "arrow_ok (e_arrow ev)" and raw: "\<forall>bt \<in> set bs. raw_batch (e_arrow ev) ki vi bt"
    and small: "rows (e_arrow ev) bs < 2 ^ 63" and sched: "schedules_ok ev"
  shows "\<exists>p bs'. rmap (limit_pipeline ev (la_max_rows args)) (build_pipeline ev fs args wc) = Ok p \<and>
    pp_sources p = [map Ok bs'] \<and> pp_schema p = schema \<and> pp_key_column p = la_key_column args \<and>
    pp_value_column p = la_value_column args \<and> pp_encoding p = None \<and>
    pairs (e_arrow ev) ki vi bs' = limited_rows (la_max_rows args) (pairs (e_arrow ev) ki vi bs) \<and>
    (\<forall>bt \<in> set bs'. raw_batch (e_arrow ev) ki vi bt)"
proof -
  have bx: "boxed (e_show_loader ev) (csv_batches \<lparr>cs_reader = map Ok bs, cs_schema = schema\<rparr>) = map Ok bs"
    by (simp add: boxed_def csv_batches_def)
  have p: "build_pipeline ev fs args wc =
      Ok \<lparr>pp_sources = [map Ok bs], pp_schema = schema, pp_estimated_rows = None, pp_key_column = la_key_column args,
          pp_value_column = la_value_column args, pp_include_key_in_value = la_include_key_in_value args, pp_encoding = None\<rparr>"
    using src pb csv by (simp add: build_pipeline_def open_csv_file_def csv_pipeline_source_def with_context_def file_open_def
        CsvSource_from_reader_def CsvSource_with_schema_def bx)
  show ?thesis
  proof (cases "la_max_rows args")
    case None
    then show ?thesis using raw by (auto simp: p limit_pipeline_def limited_rows_def)
  next
    case (Some limit)
    obtain out where "limited_outputs (e_show_loader ev) (e_limit_schedule ev (limit_sources [map Ok bs] limit)) = [map Ok out]"
      "pairs (e_arrow ev) ki vi out = take (unat limit) (pairs (e_arrow ev) ki vi bs)" "\<forall>b \<in> set out. raw_batch (e_arrow ev) ki vi b"
      using limit_one [OF ar raw small sched] by blast
    with Some show ?thesis by (auto simp: p limit_pipeline_def limited_rows_def)
  qed
qed

lemma run_get_loaded:
  assumes "Snapshot_open_path populate dj (e_zstd ev) (e_xxh64 ev) fs output = Ok r"
    and "Snapshot_get arch (e_zstd ev) (e_xorf ev) (e_xxh64 ev) r (bytes_of_string key) = Ok res"
    and "case map_of kvs (bytes_of_string key) of Some v \<Rightarrow> res = Hit v | None \<Rightarrow> \<exists>io. res = Miss io"
  shows "\<exists>io. run_get ev populate arch dj pl fs \<lparr>ga_snapshot = output, ga_key = key, ga_hex = False, ga_json = False\<rparr> =
    Ok (case map_of kvs (bytes_of_string key) of Some v \<Rightarrow> Printed (printed v) | None \<Rightarrow> NotFoundExit io)"
  using assms by (auto simp: run_get_def with_context_def printed_def split: option.splits)

text \<open>
  C1. \<open>mcf load csv\<close> and \<open>mcf get\<close>, end to end.  A V5 load of a CSV file into a fresh directory
  succeeds under every schedule of its concurrent tasks, with or without a row limit, sketch and
  compression; \<open>mcf get\<close> on the snapshot then prints the value of every key in the rows the limit
  leaves (hexadecimal where the value is not text) and reports every other key as not found, when the
  keys of those rows are distinct and the key asked for shares its verify fingerprint with none of
  the others.
\<close>

theorem csv_load_then_get:
  fixes ev :: "('b, 'c, 'd, 'p, 'm, 'g, 'f, 't, 'h) env"
  assumes src: "la_source args = Csv (Some f) n" "f \<noteq> ''-''" and pb: "la_protobuf_message args = None"
    and mode: "la_format args = V5" "\<not> la_dry_run args" "\<not> la_download_benchmark args" "la_output args = Some output"
    and opts: "Layout_new (la_partitions args) = Ok l" "\<forall>bs. la_block_size args = Some bs \<longrightarrow> validate_block_size bs = Ok ()"
      "la_max_value_bytes args < 2 ^ 30"
    and csv: "fs (e_path ev f) = Some bytes" "csv_infer_schema (e_csv ev) bytes 100 = Ok schema"
      "csv_read (e_csv ev) schema n bytes = Ok (map Ok bs)"
    and cols: "schema_index_of schema (la_key_column args) = Ok ki" "schema_index_of schema (la_value_column args) = Ok vi"
    and rows: "\<forall>bt \<in> set bs. raw_batch (e_arrow ev) ki vi bt" "length (pairs (e_arrow ev) ki vi bs) < 2 ^ 32"
      "\<forall>(k, v) \<in> set (pairs (e_arrow ev) ki vi bs). length v \<le> la_max_value_bytes args"
    and fresh: "fresh_root output fs"
    and libs: "arrow_ok (e_arrow ev)" "schedules_ok ev" "serde_ok (e_serde5 ev)" "desc5_ok (e_serde5 ev) dj" "sort_ok (e_sort ev)"
      "la_compression args = NoCompression \<or> zstd_ok (e_zstd ev)" "la_no_sketch args \<or> xorf_ok (e_xorf ev)"
    and kvs: "kvs = limited_rows (la_max_rows args) (pairs (e_arrow ev) ki vi bs)"
    and dist: "distinct (map fst kvs)"
    and inj: "\<forall>k \<in> fst ` set kvs. v5_verify_fingerprint (e_xxh64 ev) k DEFAULT_VERIFY_SEED =
        v5_verify_fingerprint (e_xxh64 ev) (bytes_of_string key) DEFAULT_VERIFY_SEED \<longrightarrow> k = bytes_of_string key"
  shows "\<exists>fs' io. run_load ev args fs = Some (Ok (), fs') \<and>
    run_get ev populate arch dj pl fs' \<lparr>ga_snapshot = output, ga_key = key, ga_hex = False, ga_json = False\<rparr> =
      Ok (case map_of kvs (bytes_of_string key) of Some v \<Rightarrow> Printed (printed v) | None \<Rightarrow> NotFoundExit io)"
proof -
  let ?ar = "e_arrow ev" and ?params = "load_params args"
  have "rows ?ar bs < 2 ^ 63" using rows(2) unfolding rows_eq_length [of ?ar bs ki vi] by simp
  from csv_pipeline_rows [where fs = fs and wc = None, OF src pb csv libs(1) rows(1) this libs(2)]
  obtain p bs' where p: "rmap (limit_pipeline ev (la_max_rows args)) (build_pipeline ev fs args None) = Ok p"
    and ps: "pp_sources p = [map Ok bs']" "pp_schema p = schema" "pp_key_column p = la_key_column args"
      "pp_value_column p = la_value_column args" "pp_encoding p = None"
    and bs': "pairs ?ar ki vi bs' = kvs" "\<forall>bt \<in> set bs'. raw_batch ?ar ki vi bt"
    unfolding kvs by metis
  obtain b c where new: "V5Builder_new (loader_builder_config output (load_config ?params)) = Ok (b, c)"
    using new_v5 [OF opts(1,2)] by blast
  have lp: "lp_format ?params = V5" "lp_max_value_bytes ?params = la_max_value_bytes args"
    "vo_compression (lp_v5 ?params) = la_compression args" "vo_sketch (lp_v5 ?params) = (\<not> la_no_sketch args)"
    by (simp_all add: load_params_def mode v5_options_def)
  have kv: "\<forall>(k, v) \<in> set (pairs ?ar ki vi bs'). length v \<le> lp_max_value_bytes ?params" "length (pairs ?ar ki vi bs') < 2 ^ 32"
    using rows(2,3) limited_rows_set [of "la_max_rows args" "pairs ?ar ki vi bs"]
      limited_rows_length [of "la_max_rows args" "pairs ?ar ki vi bs"]
    unfolding bs'(1) kvs lp by (blast, linarith)
  have xs: "vo_sketch (lp_v5 ?params) \<longrightarrow> xorf_ok (e_xorf ev)" using libs(7) lp(4) by blast
  obtain fs' r where l: "load_sources ev output ?params [raw_source ?ar (e_show_loader ev) (e_show_loader ev) ki vi (map Ok bs')] fs = Some (Ok (), fs')"
    and o: "Snapshot_open_path populate dj (e_zstd ev) (e_xxh64 ev) fs' output = Ok r"
    and g: "\<forall>key. \<exists>res. Snapshot_get arch (e_zstd ev) (e_xorf ev) (e_xxh64 ev) r key = Ok res \<and>
      load_answers (e_xxh64 ev) (vb_layout b) (pairs ?ar ki vi bs') key res"
    using load_sources_rows [OF lp(1) new fresh libs(1) bs'(2) kv(1) opts(3) [folded lp(2)] kv(2) libs(2-5) libs(6) [folded lp(3)] xs]
    by blast
  from g obtain res where res: "Snapshot_get arch (e_zstd ev) (e_xorf ev) (e_xxh64 ev) r (bytes_of_string key) = Ok res"
    "load_answers (e_xxh64 ev) (vb_layout b) kvs (bytes_of_string key) res" unfolding bs'(1) by blast
  have "resume_applies args fs = False"
    using fresh mode by (simp add: resume_applies_def fresh_root_join)
  moreover have "rbind (case la_block_size args of Some bs \<Rightarrow> with_context ''invalid --block-size'' CliFormat (validate_block_size bs)
      | None \<Rightarrow> Ok ()) (\<lambda>_. apply_worker_config ev fs args) = Ok (args, None)"
    using opts(2) src by (auto simp: apply_worker_config_def with_context_def split: option.split)
  ultimately have "run_load ev args fs = Some (Ok (), fs')"
    using p l mode cols by (simp add: run_load_def run_load_command_def Pipeline_load_def ps column_index_def with_context_def)
  with run_get_loaded [OF o res(1) load_answers_map_of [OF res(2) dist inj]] show ?thesis by blast
qed

theorem csv_load_then_get_witness:
  "\<exists>sched lim fs'. schedules_ok (demo_env\<lparr>e_schedule := sched, e_limit_schedule := lim\<rparr>) \<and>
     run_load (demo_env\<lparr>e_schedule := sched, e_limit_schedule := lim\<rparr>) demo_args demo_csv_files = Some (Ok (), fs') \<and>
     run_get (demo_env\<lparr>e_schedule := sched, e_limit_schedule := lim\<rparr>) None OtherArch demo_desc5
       demo_prost fs'
       \<lparr>ga_snapshot = [''snap''], ga_key = ''7'', ga_hex = False, ga_json = False\<rparr> = Ok (Printed [104, 105])"
proof -
  obtain sched lim where s: "schedules_ok (demo_env\<lparr>e_schedule := sched, e_limit_schedule := lim\<rparr>)"
    using schedules_exist by blast
  let ?ev = "demo_env\<lparr>e_schedule := sched, e_limit_schedule := lim\<rparr>" and ?b = "[(7, [104, 105]), (8, [33])] :: (int \<times> bytes) list"
  have ev: "e_arrow ?ev = demo_arrow" "e_serde5 ?ev = demo_serde" "e_sort ?ev = sort_key fr_fp" "e_zstd ?ev = demo_zstd"
    "e_xorf ?ev = demo_xorf" "e_path ?ev ''in.csv'' = [''in.csv'']"
    "csv_infer_schema (e_csv ?ev) [] 100 = Ok [(''key'', Int64), (''value'', Binary)]"
    "csv_read (e_csv ?ev) [(''key'', Int64), (''value'', Binary)] 1024 [] = Ok (map Ok [?b])"
    by (simp_all add: demo_env_def)
  have key: "bytes_of_string ''7'' = [55]" by (simp add: bytes_of_string_def)
  have lim1: "limited_rows (la_max_rows demo_args) (pairs (e_arrow ?ev) 0 (Suc 0) [?b]) = [([55], [104, 105])]"
    unfolding ev(1) demo_pairs_rows by (simp add: limited_rows_def demo_args_def)
  have "\<exists>fs' io. run_load ?ev demo_args demo_csv_files = Some (Ok (), fs') \<and>
    run_get ?ev None OtherArch demo_desc5 demo_prost fs'
      \<lparr>ga_snapshot = [''snap''], ga_key = ''7'', ga_hex = False, ga_json = False\<rparr> =
      Ok (case map_of [([55], [104, 105])] (bytes_of_string ''7'') of Some v \<Rightarrow> Printed (printed v) | None \<Rightarrow> NotFoundExit io)"
  proof (rule csv_load_then_get [where ki = 0 and vi = "Suc 0" and bs = "[?b]"])
    show "schedules_ok ?ev" by (rule s)
    show "arrow_ok (e_arrow ?ev)" "serde_ok (e_serde5 ?ev)" "desc5_ok (e_serde5 ?ev) demo_desc5" "sort_ok (e_sort ?ev)"
      using demo_arrow_ok demo_serde_ok demo_desc5_ok sort_key_ok by (simp_all only: ev)
    show "la_compression demo_args = NoCompression \<or> zstd_ok (e_zstd ?ev)" "la_no_sketch demo_args \<or> xorf_ok (e_xorf ?ev)"
      using demo_zstd_ok demo_xorf_ok unfolding ev by blast+
    show "\<forall>bt \<in> set [?b]. raw_batch (e_arrow ?ev) 0 (Suc 0) bt" using demo_raw_batch by (simp only: ev) simp
    show "length (pairs (e_arrow ?ev) 0 (Suc 0) [?b]) < 2 ^ 32"
      "\<forall>(k, v) \<in> set (pairs (e_arrow ?ev) 0 (Suc 0) [?b]). length v \<le> la_max_value_bytes demo_args"
      unfolding ev(1) demo_pairs_rows by (simp_all add: demo_args_def DEFAULT_MAX_VALUE_BYTES_def)
    show "demo_csv_files (e_path ?ev ''in.csv'') = Some []" by (simp only: ev) simp
    show "csv_infer_schema (e_csv ?ev) [] 100 = Ok [(''key'', Int64), (''value'', Binary)]"
      "csv_read (e_csv ?ev) [(''key'', Int64), (''value'', Binary)] 1024 [] = Ok (map Ok [?b])" by (rule ev)+
    show "[([55], [104, 105])] = limited_rows (la_max_rows demo_args) (pairs (e_arrow ?ev) 0 (Suc 0) [?b])" using lim1 by simp
    show "Layout_new (la_partitions demo_args) = Ok layout1" using demo_layout by (simp add: demo_args_def)
  qed (simp_all add: demo_args_def schema_index_of_def fresh_root_def DEFAULT_MAX_VALUE_BYTES_def key)
  with s show ?thesis by (auto simp: key printed_def)
qed

section \<open>Row limit\<close>

text \<open>
  C14. However the concurrent sources that share a row limit interleave (also when one of them drains
  the budget between another's check and reservation), every source delivers a prefix of its rows, no
  source fails, and together they deliver exactly the limit, or everything when there is less.
\<close>

theorem limit_sources_exact:
  assumes "arrow_ok ar" and "\<forall>bs \<in> set bss. \<forall>b \<in> set bs. raw_batch ar ki vi b"
    and "sum_list (map (rows ar) bss) < 2 ^ 63"
    and "(limit_step ar)\<^sup>*\<^sup>* (limit_sources (map (map Ok) bss) limit) s" and "limit_finished s"
  shows "length (ls_tasks s) = length bss \<and>
    (\<forall>i < length bss. prefix (pairs ar ki vi (lt_out (ls_tasks s ! i))) (pairs ar ki vi (bss ! i)) \<and>
      lt_phase (ls_tasks s ! i) = Ended None) \<and>
    sum_list (map (rows ar \<circ> lt_out) (ls_tasks s)) = min (unat limit) (sum_list (map (rows ar) bss))"
  using limit_exact [OF assms] by blast

theorem limit_sources_exact_witness:
  "\<exists>s. (limit_step demo_arrow)\<^sup>*\<^sup>* (limit_sources [[Ok [(1, []), (2, [])]], [Ok [(3, []), (4, [])]]] 3) s \<and> limit_finished s \<and>
     sum_list (map (rows demo_arrow \<circ> lt_out) (ls_tasks s)) = 3"
proof -
  let ?bss = "[[[(1, []), (2, [])]], [[(3, []), (4, [])]]] :: (int \<times> bytes) list list list"
  have e: "map (map Ok) ?bss = [[Ok [(1, []), (2, [])]], [Ok [(3, []), (4, [])]]]" by simp
  have "\<forall>t \<in> set (ls_tasks (limit_sources (map (map Ok) ?bss) 3)). Panic \<notin> set (lt_inner t)" by (simp add: limit_sources_def)
  then obtain s where s: "(limit_step demo_arrow)\<^sup>*\<^sup>* (limit_sources (map (map Ok) ?bss) 3) s" "limit_finished s"
    using limit_completes by blast
  have n: "rb_num_rows demo_arrow = length" by (simp add: demo_arrow_def)
  have "\<forall>bs \<in> set ?bss. \<forall>b \<in> set bs. raw_batch demo_arrow 0 1 b" using demo_raw_batch by blast
  from limit_sources_exact [OF demo_arrow_ok this _ s] have "sum_list (map (rows demo_arrow \<circ> lt_out) (ls_tasks s)) = 3"
    by (simp add: n)
  with s show ?thesis unfolding e by blast
qed

section \<open>Modes that leave the files alone\<close>

text \<open>
  C23. A dry run and a download benchmark leave every file as it is, whatever their arguments,
  configuration file and sources, and also when they fail.
\<close>

theorem dry_run_writes_nothing:
  assumes "la_dry_run args \<or> la_download_benchmark args"
  shows "\<exists>r. run_load ev args fs = Some (r, fs)"
proof -
  have keep: "la_dry_run args' \<or> la_download_benchmark args'" if "apply_worker_config ev fs args = Ok (args', wc)" for args' wc
    using that assms by (auto simp: apply_worker_config_def res_simps split: SourceArg.splits)
  have "\<exists>r. run_load_command ev args' wc fs = Some (r, fs)" if "la_dry_run args' \<or> la_download_benchmark args'" for args' wc
    using that by (auto simp: run_load_command_def resume_applies_def split: res.split)
  with keep show ?thesis by (auto simp: run_load_def res_simps split: res.split)
qed

theorem dry_run_writes_nothing_witness:
  "\<exists>r. run_load demo_env (demo_args\<lparr>la_dry_run := True\<rparr>) demo_csv_files = Some (r, demo_csv_files)"
  by (rule dry_run_writes_nothing) simp

section \<open>Resumed loads\<close>

lemma index_phases_load:
  assumes "index_phases ev fb output cfg s = Some (Ok (), fs')"
    and "lc_n_partitions cfg' = lc_n_partitions cfg" "vo_marker_mode (lc_v5 cfg') = vo_marker_mode (lc_v5 cfg)"
  shows "load_phases ev fb output cfg' layout sources s = Some (Ok (), fs')"
proof -
  let ?mode = "vo_marker_mode (lc_v5 cfg)" and ?lj = "e_loader_serde ev"
  from assms(1) obtain sr s1 where sr: "scatter_result_from_done fb ?lj output (lc_n_partitions cfg) ?mode s = (Ok (Some sr), s1)"
    by (auto simp: index_phases_def split: prod.splits res.splits option.splits)
  then have "scatter_parallel (e_xxh64 ev) fb (e_hdr ev) ?lj output (lc_n_partitions cfg) ?mode secs rate drains ss s = (Ok sr, s1)"
    for secs rate drains ss
    by (auto simp: scatter_parallel_def scatter_result_from_done_def io_simps io_bind_def io_lift_def io_return_def
        split: prod.splits res.splits option.splits)
  with assms sr show ?thesis by (simp add: index_phases_def load_phases_def)
qed

lemma index_only_load_sources:
  assumes run: "run_index_only ev args fs = Some (Ok (), fs')" and "la_output args = Some output"
  shows "load_sources ev output (load_params args) sources fs = Some (Ok (), fs')"
proof -
  let ?cfg = "index_only_config args" and ?cfg' = "load_config (load_params args)"
  have bc: "loader_builder_config output ?cfg' = loader_builder_config output ?cfg"
    by (simp add: loader_builder_config_def load_config_def load_params_def index_only_config_def)
  have same: "lc_n_partitions ?cfg' = lc_n_partitions ?cfg" "vo_marker_mode (lc_v5 ?cfg') = vo_marker_mode (lc_v5 ?cfg)"
    "lc_format ?cfg' = lc_format ?cfg"
    by (simp_all add: load_config_def load_params_def index_only_config_def)
  show ?thesis
  proof (cases "lc_format ?cfg")
    case V4
    with run assms(2) obtain b c where new: "V4Builder_new (loader_builder_config output ?cfg) = Ok (b, c)"
      by (auto simp: run_index_only_def Let_def split: res.splits)
    with run assms(2) V4 have "index_phases ev (v4_format_builder (e_xxh64 ev) (e_serde4 ev) (e_index_secs ev) b) output ?cfg (c, fs) = Some (Ok (), fs')"
      by (simp add: run_index_only_def Let_def)
    from index_phases_load [OF this same(1,2)] new V4 show ?thesis by (simp add: load_sources_def Let_def bc same(3))
  next
    case V5
    with run assms(2) obtain b c where new: "V5Builder_new (loader_builder_config output ?cfg) = Ok (b, c)"
      by (auto simp: run_index_only_def Let_def split: res.splits)
    with run assms(2) V5 have "index_phases ev (v5_format_builder (e_zstd ev) (e_xorf ev) (e_xxh64 ev) (e_sort ev) (e_serde5 ev)
        (e_index_secs ev) b) output ?cfg (c, fs) = Some (Ok (), fs')"
      by (simp add: run_index_only_def Let_def)
    from index_phases_load [OF this same(1,2)] new V5 show ?thesis by (simp add: load_sources_def Let_def bc same(3))
  qed
qed

lemma patch_meta_descriptor_frame:
  assumes "patch_meta_descriptor ev output bs fqn fs = (r, fs')" and "q \<noteq> path_join output ''meta.json''"
  shows "fs' q = fs q"
  using assms by (auto simp: patch_meta_descriptor_def Let_def io_bind_def io_map_err_def read_file_def io_lift_def io_do_def
      split: prod.splits res.splits)

text \<open>
  C9. A load resumed from its scatter is the load it replaces, up to the embedded descriptor: when the
  command takes the index-only path and succeeds, the full load (\<open>Pipeline::load\<close>) of any raw pipeline with the same
  arguments leaves exactly the same files; the full load of a protobuf pipeline leaves those files with the
  descriptor patched into \<open>meta.json\<close>, which is the only file that may differ and which the resumed load leaves
  unpatched, as the comment on the index-only path says.  The command itself leaves the same files with any other source
  or configuration file.
\<close>

theorem resume_equals_load:
  assumes "resume_applies args fs" and "run_load_command ev args wc fs = Some (Ok (), fs')" and "la_output args = Some output"
    and "column_index ''key'' (pp_schema p) (pp_key_column p) = Ok ki"
  shows "(pp_encoding p = None \<and> column_index ''value'' (pp_schema p) (pp_value_column p) = Ok vi \<longrightarrow>
      Pipeline_load ev p output (load_params args) fs = Some (Ok (), fs')) \<and>
    (\<forall>pc transcoder desc. pp_encoding p = Some pc \<and>
      apply_protobuf_encoding ev (pp_schema p) ki (pp_include_key_in_value p) pc = Ok (transcoder, desc) \<longrightarrow>
      (\<exists>r fs''. Pipeline_load ev p output (load_params args) fs = Some (r, fs'') \<and>
        patch_meta_descriptor ev output (dm_descriptor_bytes desc) (dm_message_fqn desc) fs' = (r, fs'') \<and>
        (\<forall>q. q \<noteq> path_join output ''meta.json'' \<longrightarrow> fs'' q = fs' q))) \<and>
    run_load_command ev (args\<lparr>la_source := src\<rparr>) wc' fs = Some (Ok (), fs')"
proof -
  have run: "run_index_only ev args fs = Some (Ok (), fs')" using assms(1,2) by (simp add: run_load_command_def)
  note full = index_only_load_sources [OF run assms(3)]
  have "\<exists>r fs''. Pipeline_load ev p output (load_params args) fs = Some (r, fs'') \<and>
      patch_meta_descriptor ev output (dm_descriptor_bytes desc) (dm_message_fqn desc) fs' = (r, fs'') \<and>
      (\<forall>q. q \<noteq> path_join output ''meta.json'' \<longrightarrow> fs'' q = fs' q)"
    if "pp_encoding p = Some pc" "apply_protobuf_encoding ev (pp_schema p) ki (pp_include_key_in_value p) pc = Ok (transcoder, desc)"
    for pc transcoder desc
  proof -
    obtain r fs'' where patch: "patch_meta_descriptor ev output (dm_descriptor_bytes desc) (dm_message_fqn desc) fs' = (r, fs'')"
      by fastforce
    then have "Pipeline_load ev p output (load_params args) fs = Some (r, fs'')"
      using that assms(4) full by (simp add: Pipeline_load_def)
    with patch patch_meta_descriptor_frame [OF patch] show ?thesis by blast
  qed
  moreover have "resume_applies (args\<lparr>la_source := src\<rparr>) fs" using assms(1) by (simp add: resume_applies_def)
  moreover have "index_only_config (args\<lparr>la_source := src\<rparr>) = index_only_config args" by (simp add: index_only_config_def v5_options_def)
  then have "run_index_only ev (args\<lparr>la_source := src\<rparr>) fs = run_index_only ev args fs" by (simp add: run_index_only_def assms(3))
  ultimately show ?thesis
    using run assms(4) full by (auto simp: run_load_command_def Pipeline_load_def)
qed

text \<open>Two pipelines of a source that can no longer be read, one of them with the protobuf encoding.\<close>

definition demo_pipeline :: "ProtobufEncoding option \<Rightarrow> (int \<times> bytes) list Pipeline" where
  "demo_pipeline enc =
     \<lparr>pp_sources = [[Err (SourceE ''offline'')]], pp_schema = [(''key'', Int64), (''value'', Binary)], pp_estimated_rows = None, pp_key_column = ''key'',
      pp_value_column = ''value'', pp_include_key_in_value = False, pp_encoding = enc\<rparr>"

definition demo_encoding :: ProtobufEncoding where
  "demo_encoding = \<lparr>pe_descriptor = Some [], pe_descriptor_uri = None, pe_package = None, pe_message_name = ''Row''\<rparr>"

definition demo_resume_files :: files where
  "demo_resume_files =
     (\<lambda>p. if p = path_join (builder_dir demo_v5_builder 0) ''arrival.bin'' then Some (frames_bytes [(5, 1, [7, 8])])
          else if p = path_join (builder_dir demo_v5_builder 0) ''arrival.stats''
          then Some (enc_stats demo_serde \<lparr>as_n_keys = 1, as_data_bytes = 22, as_hist = replicate 32 1\<rparr>)
          else if p = path_join [''snap''] ''scatter.done''
          then Some (enc_sdone demo_lserde2 \<lparr>sdn_format = V5, sdn_n_keys = 1, sdn_n_partitions = 1, sdn_data_bytes = 2,
            sdn_wall_secs = None, sdn_bytes_per_sec = None, sdn_value_sizes = None, sdn_partitions = []\<rparr>)
          else None)"

lemma demo_resume_new:
  "V5Builder_new (loader_builder_config [''snap''] (index_only_config demo_args)) =
     Ok (demo_v5_builder, \<lparr>c_plan = None, c_done = None\<rparr>)"
  by (simp add: V5Builder_new_def loader_builder_config_def index_only_config_def v5_options_def demo_args_def
      LoaderConfig_default_def demo_layout demo_v5_builder_def)

lemma demo_resume_run: "\<exists>fs'. run_load_command demo_env demo_args None demo_resume_files = Some (Ok (), fs')"
proof -
  let ?fb = "v5_format_builder demo_zstd demo_xorf demo_hash (sort_key fr_fp) demo_serde [] demo_v5_builder"
  let ?c = "\<lparr>c_plan = None, c_done = None\<rparr>"
  have root: "vb_root demo_v5_builder = [''snap'']" by (simp add: demo_v5_builder_def)
  have dirs: "builder_dir demo_v5_builder p \<noteq> [''snap'']" for p
    using root_not_in_part [of "vb_root demo_v5_builder" _ "n_partitions (vb_layout demo_v5_builder)" p] root by auto
  have b: "builder_ok demo_v5_builder" using V5Builder_new_ok [OF demo_v5_new] by simp
  have "unat (n_partitions (vb_layout demo_v5_builder)) = 1" by (simp add: demo_v5_builder_def)
  then have sc: "scattered demo_serde demo_v5_builder demo_resume_files (\<lambda>p. [(5, 1, [7, 8])])"
    using dirs [of 0] by (auto simp: scattered_def demo_resume_files_def)
  have none: "demo_resume_files (path_join [''snap''] y) = None" if "y \<noteq> ''scatter.done''" for y
    using dirs [of 0] that by (auto simp: demo_resume_files_def)
  obtain k c' fs' where fin: "loader_finalize ?fb demo_lserde2 [''snap''] [] (?c, demo_resume_files) = Some (Ok k, (c', fs'))"
    using v5_finalize_ok [OF b demo_serde_ok demo_desc5_ok sc demo_zstd_ok demo_xorf_ok sort_key_ok, of ?c] none
    unfolding root by fastforce
  have "snd (?c, demo_resume_files) (path_join [''snap''] ''scatter.done'') = Some (enc_sdone demo_lserde2 \<lparr>sdn_format = V5, sdn_n_keys = 1,
      sdn_n_partitions = 1, sdn_data_bytes = 2, sdn_wall_secs = None, sdn_bytes_per_sec = None, sdn_value_sizes = None, sdn_partitions = []\<rparr>)"
    using dirs [of 0] by (auto simp: demo_resume_files_def)
  then have "check_scatter_done ?fb demo_lserde2 [''snap''] layout1 mode (?c, demo_resume_files) = (Ok (Some 1), (?c, demo_resume_files))" for mode
    using demo_lserde2_ok by (simp add: check_scatter_done_def v5_format_builder_def del: snd_conv)
  then have "scatter_result_from_done ?fb demo_lserde2 [''snap''] 1 mode (?c, demo_resume_files) =
      (Ok (Some \<lparr>sst_n_keys = 1, sst_data_bytes = 0\<rparr>), (?c, demo_resume_files))" for mode
    using demo_layout by (simp add: scatter_result_from_done_def io_bind_def io_lift_def io_return_def)
  moreover have "lc_n_partitions (index_only_config demo_args) = 1" by (simp add: index_only_config_def demo_args_def)
  ultimately have "index_phases demo_env ?fb [''snap''] (index_only_config demo_args) (?c, demo_resume_files) = Some (Ok (), fs')"
    using fin by (simp add: index_phases_def demo_env_def with_context_def)
  moreover have "lc_format (index_only_config demo_args) = V5" "la_output demo_args = Some [''snap'']"
    by (simp_all add: index_only_config_def demo_args_def)
  ultimately have "run_index_only demo_env demo_args demo_resume_files = Some (Ok (), fs')"
    using demo_resume_new by (simp add: run_index_only_def Let_def demo_env_def)
  moreover have "resume_applies demo_args demo_resume_files"
    using dirs [of 0] by (auto simp: resume_applies_def demo_args_def demo_resume_files_def)
  ultimately show ?thesis by (simp add: run_load_command_def)
qed

theorem resume_equals_load_witness:
  "resume_applies demo_args demo_resume_files \<and>
   (\<exists>fs'. run_load_command demo_env demo_args None demo_resume_files = Some (Ok (), fs') \<and>
     Pipeline_load demo_env (demo_pipeline None) [''snap''] (load_params demo_args) demo_resume_files = Some (Ok (), fs') \<and>
     (\<exists>r fs''. Pipeline_load demo_env (demo_pipeline (Some demo_encoding)) [''snap''] (load_params demo_args) demo_resume_files = Some (r, fs'') \<and>
       patch_meta_descriptor demo_env [''snap''] [] ''Row'' fs' = (r, fs'')) \<and>
     run_load_command demo_env (demo_args\<lparr>la_source := Csv None 1\<rparr>) None demo_resume_files = Some (Ok (), fs'))"
proof -
  have r: "resume_applies demo_args demo_resume_files" and o: "la_output demo_args = Some [''snap'']"
    using root_not_in_part [of "vb_root demo_v5_builder" _ "n_partitions (vb_layout demo_v5_builder)" 0]
    by (auto simp: resume_applies_def demo_args_def demo_resume_files_def demo_v5_builder_def)
  have k: "column_index ''key'' (pp_schema (demo_pipeline enc)) (pp_key_column (demo_pipeline enc)) = Ok 0"
    and v: "column_index ''value'' (pp_schema (demo_pipeline enc)) (pp_value_column (demo_pipeline enc)) = Ok 1" for enc
    by (simp_all add: demo_pipeline_def column_index_def schema_index_of_def with_context_def)
  have e: "pp_encoding (demo_pipeline None) = None" "pp_encoding (demo_pipeline (Some demo_encoding)) = Some demo_encoding"
    "apply_protobuf_encoding demo_env (pp_schema (demo_pipeline (Some demo_encoding))) 0
      (pp_include_key_in_value (demo_pipeline (Some demo_encoding))) demo_encoding =
      Ok ((), \<lparr>dm_descriptor_bytes = [], dm_message_fqn = ''Row''\<rparr>)"
    by (simp_all add: demo_pipeline_def apply_protobuf_encoding_def build_transcoder_def resolve_descriptor_def demo_encoding_def
        demo_env_def with_context_def bytes_of_string_def Let_def)
  from demo_resume_run obtain fs' where run: "run_load_command demo_env demo_args None demo_resume_files = Some (Ok (), fs')" by blast
  note raw = resume_equals_load [OF r run o k [of None], of 1 "Csv None 1" None]
  note proto = resume_equals_load [OF r run o k [of "Some demo_encoding"], of 1 "Csv None 1" None]
  have "Pipeline_load demo_env (demo_pipeline None) [''snap''] (load_params demo_args) demo_resume_files = Some (Ok (), fs')"
    using raw e(1) v by blast
  moreover have "\<exists>r fs''. Pipeline_load demo_env (demo_pipeline (Some demo_encoding)) [''snap''] (load_params demo_args) demo_resume_files = Some (r, fs'') \<and>
       patch_meta_descriptor demo_env [''snap''] [] ''Row'' fs' = (r, fs'')"
    using proto e(2,3) by fastforce
  ultimately show ?thesis using r run raw by blast
qed

section \<open>Protobuf\<close>

text \<open>
  C24. A protobuf-encoded source delivers, batch by batch and in order, every row's key with the message of
  that row's value fields: all the columns but the key, the key too when it is included.  It does so up to
  the first batch with a null key, which ends the source with an error (the raw encoding has no such
  check).
\<close>

theorem protobuf_source_rows:
  assumes ar: "arrow_ok ar" and tr: "transcode_ok ar transcode_arrow msg"
    and enc: "\<forall>b \<in> set bs. encodable ar ki b \<and>
      (\<exists>vb vals. rb_project ar b (value_columns ar ki incl b) = Ok vb \<and> transcode_arrow t vb = Ok vals)"
    and bad: "rest = [] \<or> (ki < length (rb_columns ar (hd rest)) \<and> 0 < ar_null_count ar (rb_columns ar (hd rest) ! ki) \<and>
      (byte_type (ar_data_type ar (rb_columns ar (hd rest) ! ki)) \<or> int_type (ar_data_type ar (rb_columns ar (hd rest) ! ki))))"
  shows "protobuf_source ar transcode_arrow disp dispE ki incl t (map Ok (bs @ rest)) =
    map (\<lambda>b. Ok (encoded_pairs ar msg ki incl t b)) bs @
    (if rest = [] then [] else [Err (dispE (ConfigE ''key column contains null values''))])"
  using enc
proof (induction bs)
  case Nil
  show ?case
  proof (cases rest)
    case (Cons b rest')
    with bad have "encode_batch ar transcode_arrow b ki incl t = Err (ConfigE ''key column contains null values'')"
      by (auto simp: encode_batch_def index_or_panic_def Encode_validate_key_column_def byte_type_def int_type_def)
    with Cons show ?thesis by (simp add: protobuf_source_def ProtobufEncodingSource_next_def)
  qed (simp add: protobuf_source_def)
next
  case (Cons b bs)
  then obtain eb where e: "encode_batch ar transcode_arrow b ki incl t = Ok eb"
    using encode_batch_ok [of ar ki b incl _ transcode_arrow t] by auto
  have "foldR (\<lambda>(k, v) kvs. Ok (kvs @ [(k, v)])) xs [] = (Ok xs :: (bytes \<times> bytes) list eres)" for xs
    using foldR_collect [of "\<lambda>x. x" xs "[]"] by (simp add: case_prod_unfold)
  with Cons e show ?case
    by (simp add: protobuf_source_def ProtobufEncodingSource_next_def collect_kv_def encoded_for_each_kv [OF ar tr e])
qed

text \<open>
  Tables of byte columns, a row as the bytes of each column, and messages that hold the name and the bytes
  of every field.
\<close>

definition demo_table :: "(string list \<times> (nat \<Rightarrow> bytes) list, bytes list) arrow_lib" where
  "demo_table =
     \<lparr>ar_data_type = (\<lambda>_. Binary), ar_len = length, ar_null_count = (\<lambda>_. 0), ar_value = (!),
      ar_values_len = (\<lambda>c. length (concat c)), ar_ints = (\<lambda>_. []), ar_slice = (\<lambda>c off n. take n (drop off c)),
      rb_columns = (\<lambda>(names, rows). map (\<lambda>j. map (\<lambda>r. r j) rows) [0..<length names]), rb_names = fst,
      rb_num_rows = (\<lambda>(names, rows). length rows), rb_slice = (\<lambda>(names, rows) off n. (names, take n (drop off rows))),
      rb_project = (\<lambda>(names, rows) idxs. if \<forall>j \<in> set idxs. j < length names
        then Ok (map (\<lambda>j. names ! j) idxs, map (\<lambda>r j. r (idxs ! j)) rows) else Err []),
      show_type = (\<lambda>_. []), debug_str = (\<lambda>s. s), itoa_format = (\<lambda>i. bytes_of_string (show_int i))\<rparr>"

definition demo_message :: "unit \<Rightarrow> (string \<times> bytes list) list \<Rightarrow> bytes" where
  "demo_message _ fds = concat (map (\<lambda>(name, c). bytes_of_string name @ concat c) fds)"

definition demo_transcode :: "(string list \<times> (nat \<Rightarrow> bytes) list, bytes list, unit) transcode" where
  "demo_transcode t b = Ok (map (\<lambda>i. demo_message t (row_fields demo_table b i)) [0..<rb_num_rows demo_table b])"

lemma demo_table_ok: "arrow_ok demo_table"
  by (auto simp: arrow_ok_def demo_table_def int_type_def take_map drop_map)

lemma demo_transcode_ok: "transcode_ok demo_table demo_transcode demo_message"
proof -
  have "rb_num_rows demo_table b' = rb_num_rows demo_table b \<and> rb_columns demo_table b' = map (\<lambda>i. rb_columns demo_table b ! i) idxs \<and>
      rb_names demo_table b' = map (\<lambda>i. rb_names demo_table b ! i) idxs" if "rb_project demo_table b idxs = Ok b'" for b idxs b'
    using that by (auto simp: demo_table_def split: prod.splits if_splits intro!: nth_equalityI)
  moreover have "ar_len demo_table c = rb_num_rows demo_table b \<and>
      (\<forall>i < rb_num_rows demo_table b. ar_value demo_table c i = demo_message t (row_fields demo_table b i))"
    if "demo_transcode t b = Ok c" for t b c
    using that by (auto simp: demo_transcode_def demo_table_def)
  ultimately show ?thesis by (auto simp: transcode_ok_def)
qed

theorem protobuf_source_rows_witness:
  "protobuf_source demo_table demo_transcode (\<lambda>_ :: LoaderError. []) (\<lambda>_. []) 0 False ()
     [Ok ([''id'', ''v''], [\<lambda>j. if j = 0 then [55] else [104, 105], \<lambda>j. if j = 0 then [56] else []])] =
   [Ok [([55], [118, 104, 105]), ([56], [118])]]"
proof -
  let ?b = "([''id'', ''v''], [\<lambda>j. if j = 0 then [55] else [104, 105], \<lambda>j. if j = 0 then [56] else []]) :: string list \<times> (nat \<Rightarrow> bytes) list"
  have "\<forall>b \<in> set [?b]. encodable demo_table 0 b \<and> (\<exists>vb vals. rb_project demo_table b (value_columns demo_table 0 False b) = Ok vb \<and>
      demo_transcode () vb = Ok vals)"
    by (simp add: encodable_def value_columns_def demo_table_def demo_transcode_def byte_type_def)
  from protobuf_source_rows [OF demo_table_ok demo_transcode_ok this disjI1 [OF refl], of "\<lambda>_ :: LoaderError. []" "\<lambda>_. []"]
  show ?thesis
    by (simp add: encoded_pairs_def value_columns_def row_fields_def demo_table_def demo_message_def key_at_def int_type_def
        bytes_of_string_def)
qed

lemma json_get_insert:
  "map_of (json_insert k v kvs) k = Some v" "k' \<noteq> k \<Longrightarrow> map_of (json_insert k v kvs) k' = map_of kvs k'"
  by (induction kvs) auto

text \<open>
  C25. The descriptor and message name that a protobuf load embeds in \<open>meta.json\<close> are the ones
  \<open>mcf get --json\<close> reads back, and nothing else changes: no other file and no other member of
  \<open>meta.json\<close>.
\<close>

theorem embedded_descriptor_roundtrip:
  assumes b64: "\<forall>bs. base64_decode (e_base64 ev) (base64_encode (e_base64 ev) bs) = Ok bs"
    and json: "\<forall>j. e_meta_parse ev (e_meta_print ev j) = Ok j"
    and patch: "patch_meta_descriptor ev output descriptor_bytes message_fqn fs = (Ok (), fs')"
  shows "embedded_descriptor ev fs' output = Ok (descriptor_bytes, message_fqn) \<and>
    (\<forall>q. q \<noteq> path_join output ''meta.json'' \<longrightarrow> fs' q = fs q) \<and>
    (\<exists>raw raw' j j'. fs (path_join output ''meta.json'') = Some raw \<and> e_meta_parse ev raw = Ok j \<and>
       fs' (path_join output ''meta.json'') = Some raw' \<and> e_meta_parse ev raw' = Ok j' \<and>
       (\<forall>k. k \<noteq> ''encoding'' \<longrightarrow> json_get k j' = json_get k j))"
proof -
  from patch obtain raw j j' where raw: "fs (path_join output ''meta.json'') = Some raw" "e_meta_parse ev raw = Ok j"
    and set: "json_set ''encoding'' (descriptor_json (e_base64 ev) descriptor_bytes message_fqn) j = Ok j'"
    and fs': "fs' = fs(path_join output ''meta.json'' \<mapsto> e_meta_print ev j')"
    by (auto simp: patch_meta_descriptor_def Let_def io_simps io_map_err_def with_context_def res_simps split: prod.splits)
  have j': "json_get ''encoding'' j' = Some (descriptor_json (e_base64 ev) descriptor_bytes message_fqn)"
    "\<And>k. k \<noteq> ''encoding'' \<Longrightarrow> json_get k j' = json_get k j"
    using set by (auto simp: json_set_def json_get_def json_get_insert split: json.splits)
  have "embedded_descriptor ev fs' output = Ok (descriptor_bytes, message_fqn)"
    using b64 json j'(1) by (simp add: embedded_descriptor_def fs' file_open_def with_context_def descriptor_json_def json_get_def json_as_str_def)
  with raw fs' j'(2) json show ?thesis by auto
qed

lemma demo_base64: "base64_decode (e_base64 demo_env) (base64_encode (e_base64 demo_env) bs) = Ok bs"
proof -
  have "(of_char (char_of (unat b)) :: u8) = b" for b :: u8
  proof -
    have "(of_char (char_of (unat b)) :: u8) = word_of_nat (of_char (char_of (unat b)))" by (simp only: of_nat_of_char)
    also have "of_char (char_of (unat b)) = unat b" using unsigned_less [of b, where 'a = nat] by (simp add: of_char_of take_bit_nat_eq_self)
    finally show ?thesis by simp
  qed
  then show ?thesis by (simp add: demo_env_def bytes_of_string_def comp_def)
qed

theorem embedded_descriptor_roundtrip_witness:
  "\<exists>fs'. patch_meta_descriptor demo_env [''snap''] [1, 2, 255] ''pkg.Row'' [[''snap'', ''meta.json''] \<mapsto> numbered (JObject [])] = (Ok (), fs') \<and>
     embedded_descriptor demo_env fs' [''snap''] = Ok ([1, 2, 255], ''pkg.Row'')"
proof -
  let ?fs = "[[''snap'', ''meta.json''] \<mapsto> numbered (JObject [])] :: files"
  have p: "e_meta_parse demo_env (e_meta_print demo_env j) = Ok j" for j by (simp add: demo_env_def)
  have "\<exists>fs'. patch_meta_descriptor demo_env [''snap''] [1, 2, 255] ''pkg.Row'' ?fs = (Ok (), fs')"
    by (simp add: patch_meta_descriptor_def Let_def path_join_def io_bind_def io_map_err_def read_file_def file_open_def io_lift_def
        with_context_def json_set_def io_do_def demo_env_def)
  then obtain fs' where fs': "patch_meta_descriptor demo_env [''snap''] [1, 2, 255] ''pkg.Row'' ?fs = (Ok (), fs')" by blast
  with embedded_descriptor_roundtrip [where ev = demo_env, OF allI [OF demo_base64] allI [OF p] fs'] show ?thesis by blast
qed

section \<open>BigQuery\<close>

text \<open>The results of polling a source \<open>n\<close> times, or until an error.\<close>

fun polls :: "('s \<Rightarrow> ('e, 'b option) res \<times> 's) \<Rightarrow> nat \<Rightarrow> 's \<Rightarrow> ('e, 'b option) res list" where
  "polls next 0 s = []"
| "polls next (Suc n) s =
     (case next s of (Ok r, s') \<Rightarrow> Ok r # polls next n s' | (r, s') \<Rightarrow> [r])"

text \<open>
  C26. A BigQuery source refines its stream: the polls deliver each message of the stream once, decoded
  in order with the decoder the previous message left, then the end of the stream for ever; the first
  message that fails to arrive or decode is the error of its poll.
\<close>

theorem bq_polls_stream: "polls (bq_next_batch bl) n src = polls poll n (bq_batches bl src)"
proof (induction n arbitrary: src)
  case (Suc n)
  obtain r src' where r: "bq_next_batch bl src = (r, src')" by fastforce
  from bq_next_poll [OF this] Suc r show ?case by (cases "poll (bq_batches bl src)"; cases r) auto
qed simp

section \<open>Names\<close>

lemma splitn_three:
  "splitn 3 c s = [p, d, t] \<longleftrightarrow> s = p @ c # d @ c # t \<and> c \<notin> set p \<and> c \<notin> set d"
proof -
  have "splitn 3 c s = [p, d, t] \<longleftrightarrow> (\<exists>b. split_once c s = Some (p, b) \<and> split_once c b = Some (d, t))"
    by (auto simp: numeral_3_eq_3 split: option.splits)
  then show ?thesis by (auto simp: split_once_Some_iff)
qed

lemma case_three_Ok:
  "(case l of [p, d, t] \<Rightarrow> Ok (f p d t) | _ \<Rightarrow> Err e) = Ok y \<longleftrightarrow> (\<exists>p d t. l = [p, d, t] \<and> y = f p d t)"
  by (auto split: list.splits)

text \<open>Outside full resource names, exactly the names with two dots are tables; the last part may hold more.\<close>

lemma parse_table_dotted:
  assumes "strip_prefix ''projects/'' table = None"
  shows "parse_table table project_override = Ok (billing, resource) \<longleftrightarrow>
    (\<exists>p d t. table = p @ CHR ''.'' # d @ CHR ''.'' # t \<and> CHR ''.'' \<notin> set p \<and> CHR ''.'' \<notin> set d \<and>
      billing = (case project_override of Some o' \<Rightarrow> o' | None \<Rightarrow> p) \<and>
      resource = ''projects/'' @ p @ ''/datasets/'' @ d @ ''/tables/'' @ t)"
  using assms unfolding parse_table_def rbind_Ok_iff by (auto simp: case_three_Ok splitn_three)

end
